(* ===== verification/NFC_Prelude.thy ===== *)
theory NFC_Prelude
  imports Main "HOL-Library.Word"
begin

unbundle bit_operations_syntax

text \<open>
  Shared vocabulary of the development: the machine integers, the error codes and the
  three-way result of a C function, bounds-checked reads and writes of byte buffers, and the
  byte-order accessors of the platform (\<^verbatim>\<open>zephyr/sys/byteorder.h\<close>, which is not part of this
  repository and is therefore a parameter with documented laws).
\<close>

section \<open>Machine integers, pointers, results\<close>

type_synonym u8 = "8 word"
type_synonym u16 = "16 word"
type_synonym u32 = "32 word"

text \<open>
  A pointer into a byte buffer is the list of the bytes from the pointer to the end of the
  object it points into; \<^term>\<open>None\<close> is \<^verbatim>\<open>NULL\<close>. Pointer arithmetic is \<^const>\<open>drop\<close>.
\<close>

type_synonym cptr = "u8 list option"

text \<open>The negative return values the modelled code uses (\<^verbatim>\<open>errno.h\<close> and \<^verbatim>\<open>nfc/t4t/isodep.h\<close>).\<close>

datatype errno =
    EPERM | EIO | EAGAIN | ENOMEM | EACCES | EFAULT | EINVAL | ENOSR | ENOTSUP
  | NFC_T4T_ISODEP_SYNTAX_ERROR | NFC_T4T_ISODEP_SEMANTIC_ERROR
  | NFC_T4T_ISODEP_TRANSMISSION_ERROR | NFC_T4T_ISODEP_TIMEOUT_ERROR
  | ERRNO int

text \<open>
  A call returns 0 with its outputs (\<open>Ok\<close>), returns an error code (\<open>Err\<close>), or accesses
  memory outside the object a pointer points into or through \<^verbatim>\<open>NULL\<close>, which C leaves
  undefined (\<open>Fault\<close>). A theorem that excludes \<open>Fault\<close> is a memory-safety theorem.
\<close>

datatype 'a res = Ok 'a | Err errno | Fault

primrec rbind :: "'a res \<Rightarrow> ('a \<Rightarrow> 'b res) \<Rightarrow> 'b res" where
  "rbind (Ok x) f = f x"
| "rbind (Err e) f = Err e"
| "rbind Fault f = Fault"

text \<open>A partial function may branch on a result.\<close>

lemma res_case_mono [partial_function_mono]:
  "(\<And>x. mono_option (\<lambda>f. F x f)) \<Longrightarrow> mono_option (\<lambda>f. case r of Ok x \<Rightarrow> F x f | Err e \<Rightarrow> G e | Fault \<Rightarrow> H)"
  by (cases r) (simp_all add: monotone_on_def option.leq_refl)

lemma rbind_eq_Ok_iff: "rbind m f = Ok y \<longleftrightarrow> (\<exists>x. m = Ok x \<and> f x = Ok y)"
  by (cases m) auto

lemma rbind_eq_Fault_iff: "rbind m f = Fault \<longleftrightarrow> m = Fault \<or> (\<exists>x. m = Ok x \<and> f x = Fault)"
  by (cases m) auto

lemma rbind_eq_Err_iff: "rbind m f = Err e \<longleftrightarrow> m = Err e \<or> (\<exists>x. m = Ok x \<and> f x = Err e)"
  by (cases m) auto

lemma rbind_not_Fault:
  "m \<noteq> Fault \<Longrightarrow> (\<And>x. m = Ok x \<Longrightarrow> f x \<noteq> Fault) \<Longrightarrow> rbind m f \<noteq> Fault"
  by (cases m) auto

lemma if_not_Fault:
  "(c \<Longrightarrow> x \<noteq> Fault) \<Longrightarrow> (\<not> c \<Longrightarrow> y \<noteq> Fault) \<Longrightarrow> (if c then x else y) \<noteq> Fault"
  by simp

lemmas safe_intros = rbind_not_Fault if_not_Fault

lemma rbind_assoc: "rbind (rbind m f) g = rbind m (\<lambda>x. rbind (f x) g)"
  by (cases m) auto

lemmas rbind_iffs = rbind_eq_Ok_iff rbind_eq_Fault_iff rbind_eq_Err_iff

section \<open>Buffers\<close>

text \<open>
  \<open>rd\<close>, \<open>rdn\<close> read one or several bytes at an offset, \<open>wr\<close> overwrites bytes at an offset,
  \<open>memcpy_src\<close> is the source side of a \<^verbatim>\<open>memcpy\<close>. Out of range is \<^const>\<open>Fault\<close>.
\<close>

definition rd :: "u8 list \<Rightarrow> nat \<Rightarrow> u8 res" where
  "rd b i = (if i < length b then Ok (b ! i) else Fault)"

definition rdn :: "u8 list \<Rightarrow> nat \<Rightarrow> nat \<Rightarrow> u8 list res" where
  "rdn b i n = (if i + n \<le> length b then Ok (take n (drop i b)) else Fault)"

definition wr :: "u8 list \<Rightarrow> nat \<Rightarrow> u8 list \<Rightarrow> u8 list res" where
  "wr b i xs = (if i + length xs \<le> length b
                then Ok (take i b @ xs @ drop (i + length xs) b) else Fault)"

definition memcpy_src :: "cptr \<Rightarrow> nat \<Rightarrow> u8 list res" where
  "memcpy_src p n = (if n = 0 then Ok [] else case p of None \<Rightarrow> Fault | Some b \<Rightarrow> rdn b 0 n)"

text \<open>Reading in front of what is appended.\<close>

lemma memcpy_src_append: "n \<le> length d \<Longrightarrow> memcpy_src (Some (d @ r)) n = memcpy_src (Some d) n"
  by (simp add: memcpy_src_def rdn_def)

lemma rd_append: "n < length d \<Longrightarrow> rd (d @ r) n = rd d n"
  by (simp add: rd_def nth_append)

lemma rdn_append: "i + n \<le> length d \<Longrightarrow> rdn (d @ r) i n = rdn d i n"
  by (simp add: rdn_def)

text \<open>Cutting a buffer into consecutive fields of given lengths.\<close>

lemma chop_fields:
  "sum_list ns \<le> length b \<Longrightarrow> \<exists>xs r. b = concat xs @ r \<and> map length xs = ns"
proof (induction ns arbitrary: b)
  case (Cons n ns)
  from Cons.prems have "sum_list ns \<le> length (drop n b)" by simp
  then obtain xs r where "drop n b = concat xs @ r" "map length xs = ns"
    using Cons.IH by blast
  then have "b = concat (take n b # xs) @ r" "map length (take n b # xs) = n # ns"
    using Cons.prems by (simp_all, metis append_take_drop_id)
  then show ?case by metis
qed auto

named_theorems buf_simps \<open>evaluation of in-range buffer accesses\<close>

lemma rd_Ok [buf_simps]: "i < length b \<Longrightarrow> rd b i = Ok (b ! i)"
  by (simp add: rd_def)

lemma rdn_Ok [buf_simps]: "i + n \<le> length b \<Longrightarrow> rdn b i n = Ok (take n (drop i b))"
  by (simp add: rdn_def)

lemma wr_Ok [buf_simps]:
  "i + length xs \<le> length b \<Longrightarrow> wr b i xs = Ok (take i b @ xs @ drop (i + length xs) b)"
  by (simp add: wr_def)

lemma take_2_drop: "i + 1 < length b \<Longrightarrow> take 2 (drop i b) = [b ! i, b ! (i + 1)]"
  by (simp add: numeral_2_eq_2 take_Suc_conv_app_nth)

lemma rd_eq_Ok_iff: "rd b i = Ok x \<longleftrightarrow> i < length b \<and> x = b ! i"
  by (auto simp: rd_def)

lemma wr_eq_Ok_length: "wr b i xs = Ok b' \<Longrightarrow> length b' = length b"
  by (auto simp: wr_def split: if_splits)

lemma wr_append:
  "length pre = i \<Longrightarrow> length old = length xs \<Longrightarrow> wr (pre @ old @ post) i xs = Ok (pre @ xs @ post)"
  by (simp add: wr_def)

lemma memcpy_src_Ok [buf_simps]: "n \<le> length b \<Longrightarrow> memcpy_src (Some b) n = Ok (take n b)"
  by (simp add: memcpy_src_def rdn_def)

lemma memcpy_src_0 [simp]: "memcpy_src p 0 = Ok []"
  by (simp add: memcpy_src_def)

lemma memcpy_src_length: "memcpy_src p n = Ok xs \<Longrightarrow> length xs = n"
  by (auto simp: memcpy_src_def rdn_def split: if_splits option.splits)

text \<open>A pointer that may be read for \<open>n\<close> bytes, and the bytes it then gives.\<close>

definition readable :: "cptr \<Rightarrow> nat \<Rightarrow> bool" where
  "readable p n \<longleftrightarrow> n = 0 \<or> (\<exists>b. p = Some b \<and> n \<le> length b)"

definition pbytes :: "cptr \<Rightarrow> nat \<Rightarrow> u8 list" where
  "pbytes p n = (case p of None \<Rightarrow> [] | Some b \<Rightarrow> take n b)"

lemma memcpy_src_readable: "readable p n \<Longrightarrow> memcpy_src p n = Ok (pbytes p n)"
  by (auto simp: readable_def pbytes_def memcpy_src_def rdn_def split: option.splits)

lemma length_pbytes [simp]: "readable p n \<Longrightarrow> length (pbytes p n) = n"
  by (auto simp: readable_def pbytes_def split: option.splits)

lemma memcpy_src_not_Fault_iff: "memcpy_src p n \<noteq> Fault \<longleftrightarrow> readable p n"
  by (auto simp: readable_def memcpy_src_def rdn_def split: option.splits)

section \<open>Byte order\<close>

text \<open>
  The accessors of \<^verbatim>\<open>zephyr/sys/byteorder.h\<close> the code calls. \<open>sys_get_be16\<close> and
  \<open>sys_get_be32\<close> take the bytes in memory order; \<open>sys_put_be16\<close> gives the two bytes it
  stores; \<open>sys_cpu_to_be32\<close> and \<open>sys_cpu_to_be16\<close> give the memory image of the converted
  value when it is stored through a pointer of its type.
\<close>

record byteorder_ops =
  sys_get_be16 :: "u8 \<Rightarrow> u8 \<Rightarrow> u16"
  sys_get_be32 :: "u8 \<Rightarrow> u8 \<Rightarrow> u8 \<Rightarrow> u8 \<Rightarrow> u32"
  sys_put_be16 :: "u16 \<Rightarrow> u8 list"
  sys_cpu_to_be16 :: "u16 \<Rightarrow> u8 list"
  sys_cpu_to_be32 :: "u32 \<Rightarrow> u8 list"

definition be16_at :: "byteorder_ops \<Rightarrow> u8 list \<Rightarrow> nat \<Rightarrow> u16 res" where
  "be16_at bo b i = rbind (rdn b i 2) (\<lambda>xs. Ok (sys_get_be16 bo (xs ! 0) (xs ! 1)))"

definition be32_at :: "byteorder_ops \<Rightarrow> u8 list \<Rightarrow> nat \<Rightarrow> u32 res" where
  "be32_at bo b i =
     rbind (rdn b i 4) (\<lambda>xs. Ok (sys_get_be32 bo (xs ! 0) (xs ! 1) (xs ! 2) (xs ! 3)))"

text \<open>The value of a byte string, most significant byte first, and the \<open>n\<close>-byte image of a number.\<close>

primrec be_val :: "u8 list \<Rightarrow> nat" where
  "be_val [] = 0"
| "be_val (x # xs) = unat x * 256 ^ length xs + be_val xs"

primrec be_bytes :: "nat \<Rightarrow> nat \<Rightarrow> u8 list" where
  "be_bytes 0 v = []"
| "be_bytes (Suc n) v = of_nat (v div 256 ^ n) # be_bytes n v"

lemma length_be_bytes [simp]: "length (be_bytes n v) = n"
  by (induction n) auto

text \<open>The documented contract of the accessors.\<close>

locale byteorder =
  fixes bo :: byteorder_ops
  assumes get_be16: "unat (sys_get_be16 bo a b) = be_val [a, b]"
    and get_be32: "unat (sys_get_be32 bo a b c d) = be_val [a, b, c, d]"
    and put_be16: "sys_put_be16 bo v = be_bytes 2 (unat v)"
    and cpu_to_be16: "sys_cpu_to_be16 bo v = be_bytes 2 (unat v)"
    and cpu_to_be32: "sys_cpu_to_be32 bo w = be_bytes 4 (unat w)"

lemma unat_u8_less: "unat (v :: u8) < 256"
  using unsigned_less [of v, where ?'a = nat] by simp

lemma unat_u16_less: "unat (v :: u16) < 65536"
  using unsigned_less [of v, where ?'a = nat] by simp

lemma unat_u32_less: "unat (v :: u32) < 4294967296"
  using unsigned_less [of v, where ?'a = nat] by simp

lemma unat_less_Suc:
  assumes "(i :: 'a::len word) < n"
  shows "unat (i + 1) = Suc (unat i)"
proof -
  have "unat i < unat n" using assms by (simp add: word_less_nat_alt)
  moreover have "unat n < 2 ^ LENGTH('a)" by (rule unsigned_less)
  ultimately have "Suc (unat i) < 2 ^ LENGTH('a)" by linarith
  then show ?thesis by (simp add: unat_word_ariths)
qed

lemma unat_ucast_up [simp]:
  "unat (ucast (a :: u8) :: u16) = unat a" "unat (ucast (a :: u8) :: u32) = unat a"
  "unat (ucast (c :: u16) :: u32) = unat c"
  using unat_u8_less [of a] unat_u16_less [of c]
  by (simp_all add: unsigned_ucast_eq take_bit_nat_eq_self)

lemma unat_ucast_down:
  "unat (v :: u32) < 65536 \<Longrightarrow> unat (ucast v :: u16) = unat v"
  "unat (w :: u16) < 256 \<Longrightarrow> unat (ucast w :: u8) = unat w"
  "unat (v :: u32) < 256 \<Longrightarrow> unat (ucast v :: u8) = unat v"
  by (simp_all add: unsigned_ucast_eq unsigned_take_bit_eq take_bit_nat_eq_self)

lemma ucast_up_down [simp]: "(ucast (ucast (a :: u8) :: u16) :: u8) = a"
  using unat_u8_less [of a] by (simp add: word_unat_eq_iff unat_ucast_down)

lemma unat_of_nat_u32: "n < 2 ^ 32 \<Longrightarrow> unat (of_nat n :: u32) = n"
  by (simp add: unat_of_nat)

lemma of_nat_u32_less: "m < 2 ^ 32 \<Longrightarrow> n < 2 ^ 32 \<Longrightarrow> (of_nat m :: u32) < of_nat n \<longleftrightarrow> m < n"
  by (simp add: word_less_nat_alt unat_of_nat_u32)

lemma unat_of_nat_u32_Suc: "n + 1 < 2 ^ 32 \<Longrightarrow> unat (of_nat n + 1 :: u32) = n + 1"
  using unat_of_nat_u32 [of "n + 1"] by (simp add: add.commute)

lemma be_val_bytes: "be_val (be_bytes n v) = v mod 256 ^ n"
proof (induction n)
  case 0
  then show ?case by simp
next
  case (Suc n)
  have "v mod 256 ^ Suc n = 256 ^ n * (v div 256 ^ n mod 256) + v mod 256 ^ n"
    using mod_mult2_eq [of v "256 ^ n" 256] by (simp add: mult.commute)
  then show ?case
    using Suc by (simp add: unat_of_nat mult.commute)
qed

lemma be_val_less: "be_val xs < 256 ^ length xs"
proof (induction xs)
  case (Cons x xs)
  have "unat x * 256 ^ length xs + be_val xs < (unat x + 1) * 256 ^ length xs"
    using Cons by simp
  also have "\<dots> \<le> 256 * 256 ^ length xs"
    using unat_u8_less [of x] by (intro mult_right_mono) auto
  finally show ?case by simp
qed simp

lemma be_bytes_high: "n \<le> m \<Longrightarrow> be_bytes n (a * 256 ^ m + v) = be_bytes n v"
proof (induction n)
  case (Suc n)
  define k where "k = m - Suc n"
  have m: "256 ^ m = (256 ^ k * 256) * (256 :: nat) ^ n"
    using Suc.prems by (simp add: k_def power_add [symmetric] mult.commute flip: power_Suc)
  have "(a * 256 ^ m + v) div 256 ^ n = 256 * (a * 256 ^ k) + v div 256 ^ n"
    unfolding m by (simp add: mult.assoc [symmetric])
  then show ?case
    using Suc by (simp add: word_unat_eq_iff unat_of_nat del: of_nat_add of_nat_mult)
qed simp

lemma be_bytes_val: "be_bytes (length xs) (be_val xs) = xs"
proof (induction xs)
  case (Cons x xs)
  have "(unat x * 256 ^ length xs + be_val xs) div 256 ^ length xs = unat x"
    using be_val_less [of xs] by simp
  then show ?case
    using Cons by (simp add: be_bytes_high)
qed simp

lemma be_bytes_2: "be_bytes 2 v = [of_nat (v div 256), of_nat v]"
  by (simp add: numeral_2_eq_2)

lemma be_bytes_4:
  "be_bytes 4 v = [of_nat (v div 256 ^ 3), of_nat (v div 256 ^ 2), of_nat (v div 256), of_nat v]"
proof -
  have "be_bytes (Suc (Suc (Suc (Suc 0)))) v =
      [of_nat (v div 256 ^ 3), of_nat (v div 256 ^ 2), of_nat (v div 256), of_nat v]"
    by (simp only: be_bytes.simps) (simp add: power3_eq_cube power2_eq_square)
  moreover have "Suc (Suc (Suc (Suc 0))) = (4::nat)" by simp
  ultimately show ?thesis by metis
qed

lemma replicate_2: "replicate 2 x = [x, x]"
  by (simp add: numeral_2_eq_2)

lemma length_2_cases: "length xs = 2 \<Longrightarrow> \<exists>x y. xs = [x, y]"
  by (auto simp: numeral_2_eq_2 length_Suc_conv)

lemma length_4_cases: "length xs = 4 \<Longrightarrow> \<exists>x y z w. xs = [x, y, z, w]"
  by (auto simp: numeral_eq_Suc length_Suc_conv)

context byteorder
begin

lemma length_put_be16 [simp]: "length (sys_put_be16 bo v) = 2"
  by (simp add: put_be16)

lemma length_cpu_to_be16 [simp]: "length (sys_cpu_to_be16 bo v) = 2"
  by (simp add: cpu_to_be16)

lemma length_cpu_to_be32 [simp]: "length (sys_cpu_to_be32 bo v) = 4"
  by (simp add: cpu_to_be32)

lemma get_be16_eq: "be_val [a, b] = unat v \<Longrightarrow> sys_get_be16 bo a b = v"
  by (simp only: word_unat_eq_iff get_be16)

lemma get_be32_eq: "be_val [a, b, c, d] = unat v \<Longrightarrow> sys_get_be32 bo a b c d = v"
  by (simp only: word_unat_eq_iff get_be32)

lemma be16_at_put: "be16_at bo (pre @ be_bytes 2 (unat v) @ post) (length pre) = Ok v"
proof -
  have "be_val (be_bytes 2 (unat v)) = unat v"
    using unat_u16_less [of v] by (simp add: be_val_bytes)
  then show ?thesis
    by (simp add: be16_at_def rdn_def get_be16_eq be_bytes_2 del: be_val.simps)
qed

lemma be32_at_cpu: "be32_at bo (pre @ be_bytes 4 (unat v) @ post) (length pre) = Ok v"
proof -
  have "be_val (be_bytes 4 (unat v)) = unat v"
    using unat_u32_less [of v] by (simp add: be_val_bytes)
  then show ?thesis
    by (simp add: be32_at_def rdn_def get_be32_eq be_bytes_4 del: be_val.simps)
qed

lemma be16_at_Ok_iff:
  "be16_at bo b i = Ok v \<longleftrightarrow> i + 2 \<le> length b \<and> take 2 (drop i b) = be_bytes 2 (unat v)"
proof
  assume "be16_at bo b i = Ok v"
  then have l: "i + 2 \<le> length b"
    and v: "v = sys_get_be16 bo (take 2 (drop i b) ! 0) (take 2 (drop i b) ! 1)"
    by (auto simp: be16_at_def rbind_iffs rdn_def split: if_splits)
  from l obtain x y where xy: "take 2 (drop i b) = [x, y]"
    using length_2_cases [of "take 2 (drop i b)"] by auto
  with v have "unat v = be_val [x, y]" by (simp add: get_be16)
  moreover have "length [x, y] = 2" by simp
  ultimately have "be_bytes 2 (unat v) = [x, y]" using be_bytes_val by metis
  with l xy show "i + 2 \<le> length b \<and> take 2 (drop i b) = be_bytes 2 (unat v)" by simp
next
  assume a: "i + 2 \<le> length b \<and> take 2 (drop i b) = be_bytes 2 (unat v)"
  then have "b = take i b @ be_bytes 2 (unat v) @ drop (i + 2) b"
    by (metis append_take_drop_id drop_drop add.commute)
  then show "be16_at bo b i = Ok v"
    using be16_at_put [of "take i b" v "drop (i + 2) b"] a by simp
qed

lemma be32_at_Ok_iff:
  "be32_at bo b i = Ok v \<longleftrightarrow> i + 4 \<le> length b \<and> take 4 (drop i b) = be_bytes 4 (unat v)"
proof
  assume "be32_at bo b i = Ok v"
  then have l: "i + 4 \<le> length b" and v: "v = sys_get_be32 bo (take 4 (drop i b) ! 0)
      (take 4 (drop i b) ! 1) (take 4 (drop i b) ! 2) (take 4 (drop i b) ! 3)"
    by (auto simp: be32_at_def rbind_iffs rdn_def split: if_splits)
  from l obtain x y z w where xy: "take 4 (drop i b) = [x, y, z, w]"
    using length_4_cases [of "take 4 (drop i b)"] by auto
  with v have "unat v = be_val [x, y, z, w]" by (simp add: get_be32)
  moreover have "length [x, y, z, w] = 4" by simp
  ultimately have "be_bytes 4 (unat v) = [x, y, z, w]" using be_bytes_val by metis
  with l xy show "i + 4 \<le> length b \<and> take 4 (drop i b) = be_bytes 4 (unat v)" by simp
next
  assume a: "i + 4 \<le> length b \<and> take 4 (drop i b) = be_bytes 4 (unat v)"
  then have "b = take i b @ be_bytes 4 (unat v) @ drop (i + 4) b"
    by (metis append_take_drop_id drop_drop add.commute)
  then show "be32_at bo b i = Ok v"
    using be32_at_cpu [of "take i b" v "drop (i + 4) b"] a by simp
qed

end

text \<open>A reference implementation meets the contract.\<close>

definition byteorder_ref :: byteorder_ops where
  "byteorder_ref = \<lparr>
     sys_get_be16 = (\<lambda>a b. of_nat (be_val [a, b])),
     sys_get_be32 = (\<lambda>a b c d. of_nat (be_val [a, b, c, d])),
     sys_put_be16 = (\<lambda>v. be_bytes 2 (unat v)),
     sys_cpu_to_be16 = (\<lambda>v. be_bytes 2 (unat v)),
     sys_cpu_to_be32 = (\<lambda>v. be_bytes 4 (unat v))\<rparr>"

interpretation ref: byteorder byteorder_ref
proof
  show "unat (sys_get_be16 byteorder_ref a b) = be_val [a, b]" for a b
    using be_val_less [of "[a, b]"] by (simp add: byteorder_ref_def unat_of_nat del: be_val.simps)
  show "unat (sys_get_be32 byteorder_ref a b c d) = be_val [a, b, c, d]" for a b c d
    using be_val_less [of "[a, b, c, d]"]
    by (simp add: byteorder_ref_def unat_of_nat del: be_val.simps)
qed (simp_all add: byteorder_ref_def)

end
