(* ===== verification/NDEF_Record.thy ===== *)
theory NDEF_Record
  imports NFC_Prelude
begin

unbundle bit_operations_syntax

text \<open>
  NDEF record generation: \<^verbatim>\<open>include/nfc/ndef/record.h\<close> and \<^verbatim>\<open>subsys/nfc/ndef/record.c\<close>.
  A record descriptor names its payload by a constructor function; the contract of such a
  function is the locale \<open>payload_encoder\<close>, and what the record encoder guarantees to its
  callers is proved once inside it.
\<close>

section \<open>Data\<close>

abbreviation (input) NDEF_RECORD_IL_MASK :: u8 where "NDEF_RECORD_IL_MASK \<equiv> 0x08"
abbreviation (input) NDEF_RECORD_TNF_MASK :: u8 where "NDEF_RECORD_TNF_MASK \<equiv> 0x07"
abbreviation (input) NDEF_RECORD_SR_MASK :: u8 where "NDEF_RECORD_SR_MASK \<equiv> 0x10"
abbreviation (input) NDEF_RECORD_LOCATION_MASK :: u8 where "NDEF_RECORD_LOCATION_MASK \<equiv> 0xC0"
abbreviation (input) NDEF_RECORD_PAYLOAD_LEN_LONG_SIZE :: u32
  where "NDEF_RECORD_PAYLOAD_LEN_LONG_SIZE \<equiv> 4"
abbreviation (input) NDEF_RECORD_PAYLOAD_LEN_SHORT_SIZE :: u32
  where "NDEF_RECORD_PAYLOAD_LEN_SHORT_SIZE \<equiv> 1"
abbreviation (input) NDEF_RECORD_ID_LEN_SIZE :: u32 where "NDEF_RECORD_ID_LEN_SIZE \<equiv> 1"
abbreviation (input) NDEF_RECORD_BASE_LONG_SIZE :: u32
  where "NDEF_RECORD_BASE_LONG_SIZE \<equiv> 2 + NDEF_RECORD_PAYLOAD_LEN_LONG_SIZE"

datatype nfc_ndef_record_tnf =
    TNF_EMPTY | TNF_WELL_KNOWN | TNF_MEDIA_TYPE | TNF_ABSOLUTE_URI
  | TNF_EXTERNAL_TYPE | TNF_UNKNOWN_TYPE | TNF_UNCHANGED | TNF_RESERVED

primrec tnf_val :: "nfc_ndef_record_tnf \<Rightarrow> u8" where
  "tnf_val TNF_EMPTY = 0"
| "tnf_val TNF_WELL_KNOWN = 1"
| "tnf_val TNF_MEDIA_TYPE = 2"
| "tnf_val TNF_ABSOLUTE_URI = 3"
| "tnf_val TNF_EXTERNAL_TYPE = 4"
| "tnf_val TNF_UNKNOWN_TYPE = 5"
| "tnf_val TNF_UNCHANGED = 6"
| "tnf_val TNF_RESERVED = 7"

text \<open>The cast of a masked byte to the enumeration.\<close>

definition tnf_of :: "u8 \<Rightarrow> nfc_ndef_record_tnf" where
  "tnf_of v = (if v = 0 then TNF_EMPTY else if v = 1 then TNF_WELL_KNOWN
     else if v = 2 then TNF_MEDIA_TYPE else if v = 3 then TNF_ABSOLUTE_URI
     else if v = 4 then TNF_EXTERNAL_TYPE else if v = 5 then TNF_UNKNOWN_TYPE
     else if v = 6 then TNF_UNCHANGED else TNF_RESERVED)"

text \<open>The location enumeration is used as a bit mask of the flags byte, so it stays a byte.\<close>

type_synonym nfc_ndef_record_location = u8

definition NDEF_FIRST_RECORD :: nfc_ndef_record_location where "NDEF_FIRST_RECORD = 0x80"
definition NDEF_MIDDLE_RECORD :: nfc_ndef_record_location where "NDEF_MIDDLE_RECORD = 0x00"
definition NDEF_LAST_RECORD :: nfc_ndef_record_location where "NDEF_LAST_RECORD = 0x40"
definition NDEF_LONE_RECORD :: nfc_ndef_record_location where "NDEF_LONE_RECORD = 0xC0"

lemmas location_defs =
  NDEF_FIRST_RECORD_def NDEF_MIDDLE_RECORD_def NDEF_LAST_RECORD_def NDEF_LONE_RECORD_def

record nfc_ndef_bin_payload_desc =
  payload :: cptr
  payload_length :: u32

text \<open>
  A \<^verbatim>\<open>payload_constructor_t\<close> together with the descriptor it is called with:
  \<open>BIN_PAYLOAD\<close> is \<^verbatim>\<open>nfc_ndef_bin_payload_memcopy\<close> (other code compares the function pointer
  with it), \<open>PAYLOAD_FN\<close> any other constructor. The argument and result of the function are
  the destination (\<^term>\<open>None\<close> for \<^verbatim>\<open>NULL\<close>) and \<^verbatim>\<open>*len\<close>.
\<close>

type_synonym payload_fn = "cptr \<Rightarrow> u32 \<Rightarrow> (cptr \<times> u32) res"

datatype payload_constructor_t =
    BIN_PAYLOAD nfc_ndef_bin_payload_desc
  | PAYLOAD_FN payload_fn

record nfc_ndef_record_desc =
  tnf :: nfc_ndef_record_tnf
  id_length :: u8
  id_ptr :: cptr
  type_length :: u8
  type_ptr :: cptr
  payload_constructor :: "payload_constructor_t option"

section \<open>Operations\<close>

definition record_header_size_calc :: "nfc_ndef_record_desc \<Rightarrow> u32" where
  "record_header_size_calc d =
     (let len = NDEF_RECORD_BASE_LONG_SIZE + ucast (id_length d) + ucast (type_length d)
      in if id_length d > 0 then len + 1 else len)"

definition nfc_ndef_bin_payload_memcopy :: "nfc_ndef_bin_payload_desc \<Rightarrow> payload_fn" where
  "nfc_ndef_bin_payload_memcopy pd buffer len =
     rbind (case buffer of
              None \<Rightarrow> Ok None
            | Some b \<Rightarrow>
                if len < payload_length pd then Err ENOSR
                else rbind (memcpy_src (payload pd) (unat (payload_length pd)))
                       (\<lambda>xs. rbind (wr b 0 xs) (\<lambda>b. Ok (Some b))))
       (\<lambda>buffer. Ok (buffer, payload_length pd))"

primrec call_payload_constructor :: "payload_constructor_t \<Rightarrow> payload_fn" where
  "call_payload_constructor (BIN_PAYLOAD pd) = nfc_ndef_bin_payload_memcopy pd"
| "call_payload_constructor (PAYLOAD_FN f) = f"

text \<open>
  The part of \<^verbatim>\<open>nfc_ndef_record_encode\<close> that writes the header when a buffer is given. The
  result is the buffer and the offset at which the payload starts.
\<close>

definition record_header_write ::
    "nfc_ndef_record_desc \<Rightarrow> nfc_ndef_record_location \<Rightarrow> u8 list \<Rightarrow> (u8 list \<times> nat) res" where
  "record_header_write d loc b =
     rbind (wr b 0 [loc]) (\<lambda>b.
     rbind (rd b 0) (\<lambda>fl.
     rbind (wr b 0 [fl OR tnf_val (tnf d)]) (\<lambda>b.
     rbind (wr b 1 [type_length d]) (\<lambda>b.
     let p = 2 + unat NDEF_RECORD_PAYLOAD_LEN_LONG_SIZE in
     rbind (if id_length d > 0
            then rbind (wr b p [id_length d]) (\<lambda>b.
                 rbind (rd b 0) (\<lambda>fl.
                 rbind (wr b 0 [fl OR NDEF_RECORD_IL_MASK]) (\<lambda>b. Ok (b, p + 1))))
            else Ok (b, p)) (\<lambda>(b, p).
     rbind (memcpy_src (type_ptr d) (unat (type_length d))) (\<lambda>ty.
     rbind (wr b p ty) (\<lambda>b.
     let p = p + unat (type_length d) in
     if id_length d > 0
     then rbind (memcpy_src (id_ptr d) (unat (id_length d))) (\<lambda>i.
          rbind (wr b p i) (\<lambda>b. Ok (b, p + unat (id_length d))))
     else Ok (b, p))))))))"

text \<open>
  \<^verbatim>\<open>nfc_ndef_record_encode\<close>. The argument \<open>u\<close> is the indeterminate value of the local
  \<^verbatim>\<open>record_payload_len\<close>, which the code passes to the constructor uninitialised when no
  buffer is given.
\<close>

definition nfc_ndef_record_encode ::
    "byteorder_ops \<Rightarrow> u32 \<Rightarrow> nfc_ndef_record_desc option \<Rightarrow> nfc_ndef_record_location \<Rightarrow>
     cptr \<Rightarrow> u32 \<Rightarrow> (cptr \<times> u32) res" where
  "nfc_ndef_record_encode bo u ndef_record_desc record_location record_buffer record_len =
     (case ndef_record_desc of
        None \<Rightarrow> Err EINVAL
      | Some d \<Rightarrow>
          let record_header_len = record_header_size_calc d in
          rbind (case record_buffer of
                   None \<Rightarrow> Ok (None, u)
                 | Some b \<Rightarrow>
                     if record_location AND NOT NDEF_RECORD_LOCATION_MASK \<noteq> 0 then Err EINVAL
                     else if record_header_len > record_len then Err ENOSR
                     else rbind (record_header_write d record_location b) (\<lambda>bp.
                          Ok (Some bp, record_len - record_header_len))) (\<lambda>(cur, plen).
          rbind (if tnf d = TNF_EMPTY then Ok (cur, 0)
                 else case payload_constructor d of
                        None \<Rightarrow> Err EINVAL
                      | Some pc \<Rightarrow>
                          (case cur of
                             None \<Rightarrow> rbind (call_payload_constructor pc None plen)
                                       (\<lambda>(_, plen). Ok (None, plen))
                           | Some (b, p) \<Rightarrow>
                               rbind (call_payload_constructor pc (Some (drop p b)) plen)
                                 (\<lambda>(w, plen). Ok (Some (take p b @ the w, p), plen))))
            (\<lambda>(cur, plen).
          rbind (case cur of
                   None \<Rightarrow> Ok None
                 | Some (b, p) \<Rightarrow> rbind (wr b 2 (sys_cpu_to_be32 bo plen)) (\<lambda>b. Ok (Some b)))
            (\<lambda>buf. Ok (buf, record_header_len + plen)))))"

section \<open>What the encoder writes\<close>

text \<open>A descriptor whose ID and type fields can be read for their stated lengths.\<close>

definition record_wf :: "nfc_ndef_record_desc \<Rightarrow> bool" where
  "record_wf d \<longleftrightarrow> readable (type_ptr d) (unat (type_length d)) \<and>
                 readable (id_ptr d) (unat (id_length d))"

definition record_type :: "nfc_ndef_record_desc \<Rightarrow> u8 list" where
  "record_type d = pbytes (type_ptr d) (unat (type_length d))"

definition record_id :: "nfc_ndef_record_desc \<Rightarrow> u8 list" where
  "record_id d = pbytes (id_ptr d) (unat (id_length d))"

definition record_flags :: "nfc_ndef_record_desc \<Rightarrow> nfc_ndef_record_location \<Rightarrow> u8" where
  "record_flags d loc =
     (if id_length d > 0 then (loc OR tnf_val (tnf d)) OR 0x08 else loc OR tnf_val (tnf d))"

text \<open>The NDEF layout of a long record (NFC Forum NDEF 1.0, section 3.2).\<close>

definition record_bytes ::
    "nfc_ndef_record_desc \<Rightarrow> nfc_ndef_record_location \<Rightarrow> u8 list \<Rightarrow> u8 list" where
  "record_bytes d loc pay =
     [record_flags d loc, type_length d] @ be_bytes 4 (length pay) @
     (if id_length d > 0 then [id_length d] else []) @ record_type d @ record_id d @ pay"

lemma record_wf_lengths [simp]:
  assumes "record_wf d"
  shows "length (record_type d) = unat (type_length d)" "length (record_id d) = unat (id_length d)"
  using assms by (simp_all add: record_wf_def record_type_def record_id_def)

lemma unat_record_header_size_calc:
  "unat (record_header_size_calc d) =
     6 + (if id_length d > 0 then 1 else 0) + unat (type_length d) + unat (id_length d)"
  using unat_u8_less [of "type_length d"] unat_u8_less [of "id_length d"]
  by (auto simp: record_header_size_calc_def Let_def unat_word_ariths unsigned_ucast_eq
      take_bit_nat_eq_self)

lemma length_record_bytes:
  "record_wf d \<Longrightarrow> length (record_bytes d loc pay) = unat (record_header_size_calc d) + length pay"
  by (simp add: record_bytes_def unat_record_header_size_calc)

lemma record_header_write_Ok:
  assumes wf: "record_wf d" and len: "unat (record_header_size_calc d) \<le> length b"
  shows "record_header_write d loc b =
           Ok ([record_flags d loc, type_length d] @ take 4 (drop 2 b) @
               (if id_length d > 0 then [id_length d] else []) @ record_type d @ record_id d @
               drop (unat (record_header_size_calc d)) b,
               unat (record_header_size_calc d))"
proof -
  have ty: "memcpy_src (type_ptr d) (unat (type_length d)) = Ok (record_type d)"
    and idm: "memcpy_src (id_ptr d) (unat (id_length d)) = Ok (record_id d)"
    using wf by (simp_all add: record_wf_def record_type_def record_id_def memcpy_src_readable)
  let ?il = "if id_length d > 0 then 1 else 0 :: nat"
  from len have "sum_list [1, 1, 4, ?il, unat (type_length d), unat (id_length d)] \<le> length b"
    by (simp add: unat_record_header_size_calc)
  from chop_fields [OF this] obtain a0 a1 q e t i r where
    b: "b = a0 # a1 # q @ e @ t @ i @ r" and
    l: "length q = 4" "length e = ?il" "length t = unat (type_length d)" "length i = unat (id_length d)"
    by (auto simp: map_eq_Cons_conv length_Suc_conv)
  show ?thesis
  proof (cases "id_length d > 0")
    case True
    with l(2) obtain e' where "e = [e']" by (auto simp: length_Suc_conv)
    with b l True wf show ?thesis
      by (simp add: record_header_write_def ty idm wr_def rd_def record_flags_def Let_def drop_Cons' take_Cons'
          unat_record_header_size_calc)
  next
    case False
    then have "id_length d = 0" by (simp add: word_gt_0)
    with b l False wf show ?thesis
      by (simp add: record_header_write_def ty wr_def rd_def record_flags_def record_id_def
          pbytes_def Let_def drop_Cons' take_Cons' unat_record_header_size_calc split: option.splits)
  qed
qed

section \<open>The contract of a payload constructor\<close>

text \<open>
  The contract stated at \<^verbatim>\<open>payload_constructor_t\<close> in \<^verbatim>\<open>record.h\<close>: without a buffer the
  constructor reports the payload size, whatever \<^verbatim>\<open>*len\<close> holds; with a buffer it writes the
  payload at its start when it fits and refuses with an error when it does not. \<open>run d\<close> is
  the constructor called with the descriptor \<open>d\<close>, \<open>bytes d\<close> the payload \<open>d\<close> describes,
  \<open>ok d\<close> says that the descriptor is well formed. A \<open>payload_layout\<close> writes payloads that
  fit, a \<open>payload_writer\<close> also answers the size query, and a \<open>payload_encoder\<close> refuses with one error
  code as well.
\<close>

locale payload_layout =
  fixes run :: "'d \<Rightarrow> payload_fn"
    and bytes :: "'d \<Rightarrow> u8 list"
    and ok :: "'d \<Rightarrow> bool"
  assumes fits: "ok d \<Longrightarrow> length (bytes d) \<le> unat n \<Longrightarrow> unat n \<le> length b \<Longrightarrow>
        run d (Some b) n = Ok (Some (bytes d @ drop (length (bytes d)) b), of_nat (length (bytes d)))"
    and bounded: "ok d \<Longrightarrow> length (bytes d) < 2 ^ 32"

locale payload_writer = payload_layout run bytes ok
  for run :: "'d \<Rightarrow> payload_fn" and bytes :: "'d \<Rightarrow> u8 list" and ok :: "'d \<Rightarrow> bool" +
  assumes size_query: "ok d \<Longrightarrow> run d None n = Ok (None, of_nat (length (bytes d)))"

locale payload_encoder = payload_writer run bytes ok
  for run :: "'d \<Rightarrow> payload_fn" and bytes :: "'d \<Rightarrow> u8 list" and ok :: "'d \<Rightarrow> bool" +
  fixes nospace :: errno
  assumes too_small: "ok d \<Longrightarrow> unat n < length (bytes d) \<Longrightarrow> run d (Some b) n = Err nospace"

text \<open>
  A descriptor built on a constructor with a well-formed payload descriptor, and not the empty
  TNF (for which the encoder ignores the constructor).
\<close>

definition record_describes ::
    "('d \<Rightarrow> payload_fn) \<Rightarrow> ('d \<Rightarrow> bool) \<Rightarrow> nfc_ndef_record_desc \<Rightarrow> 'd \<Rightarrow> bool" where
  "record_describes run ok r d \<longleftrightarrow> record_wf r \<and> ok d \<and> tnf r \<noteq> TNF_EMPTY \<and>
     (\<exists>pc. payload_constructor r = Some pc \<and> call_payload_constructor pc = run d)"

text \<open>
  What a message needs of a record: the encoder writes the NDEF layout of the record with payload
  \<open>pay\<close> when it fits, and, for a size query, reports the size of that layout.
\<close>

definition record_writes :: "byteorder_ops \<Rightarrow> nfc_ndef_record_desc \<Rightarrow> u8 list \<Rightarrow> bool" where
  "record_writes bo r pay \<longleftrightarrow> record_wf r \<and>
     (\<forall>u loc len b. loc AND NOT 0xC0 = 0 \<longrightarrow>
        unat (record_header_size_calc r) + length pay \<le> unat len \<longrightarrow> unat len \<le> length b \<longrightarrow>
        nfc_ndef_record_encode bo u (Some r) loc (Some b) len =
          Ok (Some (record_bytes r loc pay @ drop (length (record_bytes r loc pay)) b),
              record_header_size_calc r + of_nat (length pay)))"

definition record_encodes :: "byteorder_ops \<Rightarrow> nfc_ndef_record_desc \<Rightarrow> u8 list \<Rightarrow> bool" where
  "record_encodes bo r pay \<longleftrightarrow> record_writes bo r pay \<and>
     (\<forall>u loc len. nfc_ndef_record_encode bo u (Some r) loc None len =
        Ok (None, record_header_size_calc r + of_nat (length pay)))"

context payload_layout
begin

lemma record_encode_fits:
  assumes bo: "byteorder bo" and d: "record_describes run ok r d"
    and loc: "loc AND NOT 0xC0 = 0"
    and fit: "unat (record_header_size_calc r) + length (bytes d) \<le> unat len" "unat len \<le> length b"
  shows "nfc_ndef_record_encode bo u (Some r) loc (Some b) len =
           Ok (Some (record_bytes r loc (bytes d) @ drop (length (record_bytes r loc (bytes d))) b),
               record_header_size_calc r + of_nat (length (bytes d)))"
proof -
  let ?h = "record_header_size_calc r"
  from d obtain pc where wf: "record_wf r" and ok: "ok d" and tnf: "tnf r \<noteq> TNF_EMPTY"
    and pc: "payload_constructor r = Some pc" "call_payload_constructor pc = run d"
    by (auto simp: record_describes_def)
  have h: "?h \<le> len" "unat (len - ?h) = unat len - unat ?h"
    using fit by (simp_all add: word_le_nat_alt unat_sub)
  have run: "run d (Some (drop (unat ?h) b)) (len - ?h) =
      Ok (Some (bytes d @ drop (unat ?h + length (bytes d)) b), of_nat (length (bytes d)))"
    using fits [OF ok, of "len - ?h" "drop (unat ?h) b"] fit h by (simp add: add.commute)
  define tl where "tl = (if id_length r > 0 then [id_length r] else []) @ record_type r @ record_id r"
  define H where "H = [record_flags r loc, type_length r] @ take 4 (drop 2 b) @ tl"
  have l6: "6 \<le> length b"
    using fit by (simp add: unat_record_header_size_calc)
  have hdr: "record_header_write r loc b = Ok (H @ drop (unat ?h) b, unat ?h)"
    using record_header_write_Ok [OF wf] fit by (simp add: H_def tl_def)
  have lH: "length H = unat ?h"
    using wf l6 by (simp add: H_def tl_def unat_record_header_size_calc)
  have be: "sys_cpu_to_be32 bo (of_nat (length (bytes d))) = be_bytes 4 (length (bytes d))"
    using byteorder.cpu_to_be32 [OF bo] bounded [OF ok] by (simp add: unat_of_nat)
  have rb: "record_bytes r loc (bytes d) =
      [record_flags r loc, type_length r] @ be_bytes 4 (length (bytes d)) @ tl @ bytes d"
    by (simp add: record_bytes_def tl_def)
  have patch: "wr (H @ X) 2 (be_bytes 4 (length (bytes d))) =
      Ok ([record_flags r loc, type_length r] @ be_bytes 4 (length (bytes d)) @ tl @ X)" for X
    using l6 by (simp add: H_def wr_def drop_Cons' take_Cons')
  have "length (record_bytes r loc (bytes d)) = unat ?h + length (bytes d)"
    using wf by (rule length_record_bytes)
  moreover have "\<not> len < ?h" using h by (simp add: not_less)
  moreover have "unat ?h + length (bytes d) = 6 + (length tl + length (bytes d))"
    using wf by (simp add: tl_def unat_record_header_size_calc)
  ultimately show ?thesis
    using loc tnf pc run
    by (simp add: nfc_ndef_record_encode_def Let_def hdr lH be patch rb add.assoc)
qed

lemma record_written: "byteorder bo \<Longrightarrow> record_describes run ok r d \<Longrightarrow> record_writes bo r (bytes d)"
  unfolding record_writes_def using record_encode_fits by (auto simp: record_describes_def)

end

context payload_writer
begin

lemma record_encode_size_query:
  assumes "record_describes run ok r d"
  shows "nfc_ndef_record_encode bo u (Some r) loc None len =
           Ok (None, record_header_size_calc r + of_nat (length (bytes d)))"
  using assms by (auto simp: record_describes_def nfc_ndef_record_encode_def Let_def size_query)

lemma encodes: "byteorder bo \<Longrightarrow> record_describes run ok r d \<Longrightarrow> record_encodes bo r (bytes d)"
  unfolding record_encodes_def using record_written record_encode_size_query by simp

end

text \<open>
  What an encoder that writes into a buffer returns: the buffer with its length, and a length that does not
  exceed the given one, or an error. A record is total when this holds for every buffer.
\<close>

definition encode_total :: "u8 list \<Rightarrow> u32 \<Rightarrow> (cptr \<times> u32) res \<Rightarrow> bool" where
  "encode_total b len r \<longleftrightarrow>
     (case r of
        Ok (w, n) \<Rightarrow> (case w of None \<Rightarrow> False | Some b' \<Rightarrow> length b' = length b) \<and> n \<le> len
      | Err e \<Rightarrow> True
      | Fault \<Rightarrow> False)"

definition record_total :: "byteorder_ops \<Rightarrow> nfc_ndef_record_desc \<Rightarrow> bool" where
  "record_total bo r \<longleftrightarrow> (\<forall>u loc len b. loc AND NOT 0xC0 = 0 \<longrightarrow> unat len \<le> length b \<longrightarrow>
     encode_total b len (nfc_ndef_record_encode bo u (Some r) loc (Some b) len))"

context payload_encoder
begin

text \<open>The payload does not fit: the constructor's error, and nothing else, is returned.\<close>

lemma record_encode_too_small:
  assumes d: "record_describes run ok r d" and loc: "loc AND NOT 0xC0 = 0" and b: "unat len \<le> length b"
    and small: "unat len < unat (record_header_size_calc r) + length (bytes d)"
  shows "nfc_ndef_record_encode bo u (Some r) loc (Some b) len =
           Err (if len < record_header_size_calc r then ENOSR else nospace)"
proof (cases "len < record_header_size_calc r")
  case True
  with loc show ?thesis by (simp add: nfc_ndef_record_encode_def Let_def)
next
  case False
  let ?h = "record_header_size_calc r"
  from d obtain pc where wf: "record_wf r" and ok: "ok d" and tnf: "tnf r \<noteq> TNF_EMPTY"
    and pc: "payload_constructor r = Some pc" "call_payload_constructor pc = run d"
    by (auto simp: record_describes_def)
  from False have h: "?h \<le> len" "unat (len - ?h) = unat len - unat ?h"
    by (simp_all add: not_less unat_sub)
  then have le: "unat ?h \<le> length b"
    using b by (simp add: word_le_nat_alt)
  have "unat (len - ?h) < length (bytes d)"
    using small h by (simp add: word_le_nat_alt)
  then have "run d (Some x) (len - ?h) = Err nospace" for x
    by (rule too_small [OF ok])
  with False loc tnf pc show ?thesis
    by (simp add: nfc_ndef_record_encode_def Let_def record_header_write_Ok [OF wf le])
qed

lemma total:
  assumes "byteorder bo" "record_describes run ok r d"
  shows "record_total bo r"
  unfolding record_total_def
proof (intro allI impI)
  fix u len :: u32 and loc :: u8 and b :: "u8 list"
  assume loc: "loc AND NOT 0xC0 = 0" and b: "unat len \<le> length b"
  let ?h = "record_header_size_calc r" and ?p = "bytes d"
  have wf: "record_wf r" using assms(2) by (simp add: record_describes_def)
  show "encode_total b len (nfc_ndef_record_encode bo u (Some r) loc (Some b) len)"
  proof (cases "unat ?h + length ?p \<le> unat len")
    case True
    have "unat (of_nat (unat ?h + length ?p) :: u32) = unat ?h + length ?p"
      using True unat_u32_less [of len] by (intro unat_of_nat_u32) simp
    then have "?h + of_nat (length ?p) \<le> len" using True by (simp add: word_le_nat_alt)
    with record_encode_fits [OF assms loc True b, of u] True b show ?thesis
      by (simp add: encode_total_def length_record_bytes [OF wf])
  next
    case False
    then show ?thesis
      using record_encode_too_small [OF assms(2) loc b] by (simp add: encode_total_def not_le)
  qed
qed

end

text \<open>The binary constructor keeps the contract for every descriptor whose payload can be read.\<close>

definition bin_ok :: "nfc_ndef_bin_payload_desc \<Rightarrow> bool" where
  "bin_ok pd \<longleftrightarrow> readable (payload pd) (unat (payload_length pd))"

definition bin_bytes :: "nfc_ndef_bin_payload_desc \<Rightarrow> u8 list" where
  "bin_bytes pd = pbytes (payload pd) (unat (payload_length pd))"

lemma length_bin_bytes [simp]: "bin_ok pd \<Longrightarrow> length (bin_bytes pd) = unat (payload_length pd)"
  by (simp add: bin_ok_def bin_bytes_def)

interpretation bin: payload_encoder nfc_ndef_bin_payload_memcopy bin_bytes bin_ok ENOSR
proof
  fix d :: nfc_ndef_bin_payload_desc and n :: u32 and b :: "u8 list"
  assume ok: "bin_ok d"
  then have src: "memcpy_src (payload d) (unat (payload_length d)) = Ok (bin_bytes d)"
    by (simp add: bin_ok_def bin_bytes_def memcpy_src_readable)
  show "nfc_ndef_bin_payload_memcopy d None n = Ok (None, of_nat (length (bin_bytes d)))"
    using ok by (simp add: nfc_ndef_bin_payload_memcopy_def)
  show "length (bin_bytes d) < 2 ^ 32"
    using ok unat_u32_less [of "payload_length d"] by simp
  show "nfc_ndef_bin_payload_memcopy d (Some b) n = Err ENOSR" if "unat n < length (bin_bytes d)"
    using ok that by (simp add: nfc_ndef_bin_payload_memcopy_def word_less_nat_alt)
  show "nfc_ndef_bin_payload_memcopy d (Some b) n =
      Ok (Some (bin_bytes d @ drop (length (bin_bytes d)) b), of_nat (length (bin_bytes d)))"
    if "length (bin_bytes d) \<le> unat n" "unat n \<le> length b"
    using ok that src by (simp add: nfc_ndef_bin_payload_memcopy_def wr_def word_less_nat_alt)
qed

section \<open>Theorems\<close>

text \<open>
  C14. Encoding a record with a binary payload: the size query reports the size of the NDEF layout
  of the record, a buffer that can hold it receives exactly that layout at its start, and a
  smaller one is refused with \<^verbatim>\<open>-ENOSR\<close>.
\<close>

theorem record_encode_correct:
  assumes bo: "byteorder bo" and d: "record_describes nfc_ndef_bin_payload_memcopy bin_ok r d"
    and loc: "loc AND NOT 0xC0 = 0" and b: "unat len \<le> length b"
  shows "let x = record_bytes r loc (bin_bytes d) in
    nfc_ndef_record_encode bo u (Some r) loc None len = Ok (None, of_nat (length x)) \<and>
    nfc_ndef_record_encode bo u (Some r) loc (Some b) len =
      (if length x \<le> unat len then Ok (Some (x @ drop (length x) b), of_nat (length x)) else Err ENOSR)"
proof -
  have l: "length (record_bytes r loc (bin_bytes d)) =
      unat (record_header_size_calc r) + length (bin_bytes d)"
    using d by (simp add: record_describes_def length_record_bytes)
  then have w: "of_nat (length (record_bytes r loc (bin_bytes d))) =
      record_header_size_calc r + of_nat (length (bin_bytes d))"
    by simp
  show ?thesis
    unfolding Let_def w l
    using bin.record_encode_size_query [OF d, of bo u loc len]
      bin.record_encode_fits [OF bo d loc _ b, of u] bin.record_encode_too_small [OF d loc b, of bo u] l
    by simp
qed

theorem record_encode_correct_witness:
  "nfc_ndef_record_encode byteorder_ref 0
     (Some \<lparr>tnf = TNF_MEDIA_TYPE, id_length = 1, id_ptr = Some [0x69], type_length = 2,
            type_ptr = Some [0x61, 0x62], payload_constructor =
              Some (BIN_PAYLOAD \<lparr>payload = Some [1, 2, 3], payload_length = 3\<rparr>)\<rparr>)
     NDEF_LAST_RECORD (Some (replicate 14 0xEE)) 14 =
   Ok (Some [0x4A, 2, 0, 0, 0, 3, 1, 0x61, 0x62, 0x69, 1, 2, 3, 0xEE], 13)"
proof -
  let ?d = "\<lparr>payload = Some [1, 2, 3 :: u8], payload_length = 3\<rparr>"
  let ?r = "\<lparr>tnf = TNF_MEDIA_TYPE, id_length = 1, id_ptr = Some [0x69], type_length = 2,
            type_ptr = Some [0x61, 0x62], payload_constructor = Some (BIN_PAYLOAD ?d)\<rparr>"
  have d: "record_describes nfc_ndef_bin_payload_memcopy bin_ok ?r ?d"
    by (simp add: record_describes_def record_wf_def readable_def bin_ok_def)
  have x: "record_bytes ?r NDEF_LAST_RECORD (bin_bytes ?d) = [0x4A, 2, 0, 0, 0, 3, 1, 0x61, 0x62, 0x69, 1, 2, 3]"
    by (simp add: record_bytes_def record_flags_def location_defs record_type_def record_id_def pbytes_def
        bin_bytes_def be_bytes_4)
  show ?thesis
    using record_encode_correct [OF ref.byteorder_axioms d, of NDEF_LAST_RECORD 14 "replicate 14 0xEE" 0]
    unfolding x by (simp add: location_defs)
qed

end
