(* ===== verification/NDEF_Msg.thy ===== *)
theory NDEF_Msg
  imports NDEF_Record
begin

unbundle bit_operations_syntax

text \<open>
  NDEF messages: \<^verbatim>\<open>include/nfc/ndef/msg.h\<close> and \<^verbatim>\<open>subsys/nfc/ndef/msg.c\<close>. A message descriptor
  is an array of pointers to record descriptors of fixed capacity; encoding a message encodes
  its records one behind the other with the location flags of their position.
\<close>

section \<open>Data and operations\<close>

record nfc_ndef_msg_desc =
  record_array :: "nfc_ndef_record_desc option list option"
  max_record_count :: u32
  record_count :: u32

definition record_location_get :: "u32 \<Rightarrow> u32 \<Rightarrow> nfc_ndef_record_location" where
  "record_location_get index count =
     (if index = 0 then
        (if count = 1 then NDEF_LONE_RECORD else NDEF_FIRST_RECORD)
      else if index = - 1 \<or> count = index + 1 then NDEF_LAST_RECORD
      else NDEF_MIDDLE_RECORD)"

text \<open>
  The loop of \<^verbatim>\<open>nfc_ndef_msg_encode\<close> from iteration \<open>i\<close> on; \<open>u i\<close> is the indeterminate value
  of the local variable of the \<open>i\<close>-th call of \<^verbatim>\<open>nfc_ndef_record_encode\<close>. An array element
  outside the allocated array cannot be read.
\<close>

function msg_encode_loop ::
    "byteorder_ops \<Rightarrow> (u32 \<Rightarrow> u32) \<Rightarrow> nfc_ndef_msg_desc \<Rightarrow> nfc_ndef_record_desc option list \<Rightarrow>
     u32 \<Rightarrow> u32 \<Rightarrow> cptr \<Rightarrow> u32 \<Rightarrow> (cptr \<times> u32) res" where
  "msg_encode_loop bo u m recs i sum_of_len msg_buffer msg_len =
     (if i < record_count m then
        if unat i < length recs then
          rbind (nfc_ndef_record_encode bo (u i) (recs ! unat i)
                   (record_location_get i (record_count m))
                   (map_option (drop (unat sum_of_len)) msg_buffer) (msg_len - sum_of_len))
            (\<lambda>(w, temp_len).
               msg_encode_loop bo u m recs (i + 1) (sum_of_len + temp_len)
                 (case msg_buffer of None \<Rightarrow> None
                  | Some b \<Rightarrow> Some (take (unat sum_of_len) b @ the w)) msg_len)
        else Fault
      else Ok (msg_buffer, sum_of_len))"
  by pat_completeness auto
termination
proof (relation "measure (\<lambda>(bo, u, m, recs, i, s, b, l). unat (record_count m) - unat i)")
  fix i :: u32 and m :: nfc_ndef_msg_desc
  assume "i < record_count m"
  then have "unat (i + 1) = unat i + 1" "unat i < unat (record_count m)"
    by (simp_all add: unat_less_Suc word_less_nat_alt [symmetric])
  then show "((bo, u, m, recs, i + 1, s, b, l), (bo, u, m, recs, i, s', b', l')) \<in>
      measure (\<lambda>(bo, u, m, recs, i, s, b, l). unat (record_count m) - unat i)"
    for bo u recs s b l s' b' l'
    by simp
qed simp

declare msg_encode_loop.simps [simp del]

definition nfc_ndef_msg_encode ::
    "byteorder_ops \<Rightarrow> (u32 \<Rightarrow> u32) \<Rightarrow> nfc_ndef_msg_desc option \<Rightarrow> cptr \<Rightarrow> u32 option \<Rightarrow>
     (cptr \<times> u32) res" where
  "nfc_ndef_msg_encode bo u ndef_msg_desc msg_buffer msg_len =
     (case (ndef_msg_desc, msg_len) of
        (Some m, Some len) \<Rightarrow>
          (case record_array m of
             None \<Rightarrow> Err EINVAL
           | Some recs \<Rightarrow> msg_encode_loop bo u m recs 0 0 msg_buffer len)
      | _ \<Rightarrow> Err EINVAL)"

definition nfc_ndef_msg_clear :: "nfc_ndef_msg_desc \<Rightarrow> nfc_ndef_msg_desc" where
  "nfc_ndef_msg_clear m = m\<lparr>record_count := 0\<rparr>"

definition nfc_ndef_msg_record_add ::
    "nfc_ndef_msg_desc \<Rightarrow> nfc_ndef_record_desc option \<Rightarrow> nfc_ndef_msg_desc res" where
  "nfc_ndef_msg_record_add m r =
     (if record_count m \<ge> max_record_count m then Err ENOSR
      else case record_array m of
             None \<Rightarrow> Fault
           | Some recs \<Rightarrow>
               if unat (record_count m) < length recs
               then Ok (m\<lparr>record_array := Some (recs[unat (record_count m) := r]),
                          record_count := record_count m + 1\<rparr>)
               else Fault)"

lemma msg_record_add_Ok:
  assumes "nfc_ndef_msg_record_add m r = Ok m'"
  shows "record_count m < max_record_count m" "record_count m' = record_count m + 1"
    "max_record_count m' = max_record_count m"
    "unat (max_record_count m') - unat (record_count m') <
       unat (max_record_count m) - unat (record_count m)"
proof -
  show 1: "record_count m < max_record_count m" "record_count m' = record_count m + 1"
     "max_record_count m' = max_record_count m"
    using assms
    by (auto simp: nfc_ndef_msg_record_add_def not_le split: if_splits option.splits)
  then have "unat (record_count m') = Suc (unat (record_count m))"
    by (simp add: unat_less_Suc)
  with 1 show "unat (max_record_count m') - unat (record_count m') <
       unat (max_record_count m) - unat (record_count m)"
    by (simp add: word_less_nat_alt)
qed

section \<open>What the encoder writes\<close>

text \<open>
  The message layout: the records from index \<open>i\<close> on of a message of \<open>n\<close> records. The first record carries
  the message begin flag and the last one the message end flag (NFC Forum NDEF 1.0, sections 3.2.1 and
  3.2.2).
\<close>

definition record_place :: "nat \<Rightarrow> nat \<Rightarrow> u8" where
  "record_place i n = (if i = 0 then 0x80 else 0) OR (if Suc i = n then 0x40 else 0)"

fun msg_bytes :: "nat \<Rightarrow> nat \<Rightarrow> (nfc_ndef_record_desc \<times> u8 list) list \<Rightarrow> u8 list" where
  "msg_bytes n i [] = []"
| "msg_bytes n i ((r, pay) # rs) =
     record_bytes r (record_place i n) pay @ msg_bytes n (Suc i) rs"

lemma record_location_get_mask: "record_location_get i n AND NOT 0xC0 = 0"
  by (simp add: record_location_get_def location_defs)

lemma record_place_mask: "record_place i n AND NOT 0xC0 = 0"
  by (simp add: record_place_def)

lemma of_nat_u32_eq_iff:
  "i < 2 ^ 32 \<Longrightarrow> j < 2 ^ 32 \<Longrightarrow> (of_nat i :: u32) = of_nat j \<longleftrightarrow> i = j"
  by (simp add: word_unat_eq_iff unat_of_nat)

lemma record_location_get_of_nat:
  assumes "i < n" "n < 2 ^ 32"
  shows "record_location_get (of_nat i) (of_nat n) =
    (if i = 0 then if n = 1 then NDEF_LONE_RECORD else NDEF_FIRST_RECORD
     else if n = Suc i then NDEF_LAST_RECORD else NDEF_MIDDLE_RECORD)"
proof -
  have "(of_nat i :: u32) < of_nat n"
    using assms by (simp add: word_less_nat_alt unat_of_nat)
  then have "(of_nat i :: u32) \<noteq> - 1"
    by (metis word_order.extremum_strict)
  moreover have "(of_nat n :: u32) = of_nat i + 1 \<longleftrightarrow> n = Suc i"
    using assms of_nat_u32_eq_iff [of n "Suc i"] by (simp add: add.commute)
  moreover have "(of_nat n :: u32) = 1 \<longleftrightarrow> n = 1" "(of_nat i :: u32) = 0 \<longleftrightarrow> i = 0"
    using assms of_nat_u32_eq_iff [of n 1] of_nat_u32_eq_iff [of i 0] by simp_all
  ultimately show ?thesis
    using assms by (auto simp: record_location_get_def)
qed

lemma record_location_place:
  "i < n \<Longrightarrow> n < 2 ^ 32 \<Longrightarrow> record_location_get (of_nat i) (of_nat n) = record_place i n"
  by (simp add: record_location_get_of_nat record_place_def location_defs)

lemma record_writesD:
  assumes "record_writes bo r pay"
  shows "length (record_bytes r loc pay) = unat (record_header_size_calc r) + length pay"
    "loc AND NOT 0xC0 = 0 \<Longrightarrow> length (record_bytes r loc pay) \<le> unat len \<Longrightarrow> unat len \<le> length b \<Longrightarrow>
       nfc_ndef_record_encode bo u (Some r) loc (Some b) len =
         Ok (Some (record_bytes r loc pay @ drop (length (record_bytes r loc pay)) b),
             of_nat (length (record_bytes r loc pay)))"
proof -
  have l: "length (record_bytes r loc pay) = unat (record_header_size_calc r) + length pay" for loc
    using assms by (simp add: record_writes_def length_record_bytes)
  then have w: "of_nat (length (record_bytes r loc pay)) =
      record_header_size_calc r + of_nat (length pay)" for loc
    by simp
  show "length (record_bytes r loc pay) = unat (record_header_size_calc r) + length pay"
    by (rule l)
  show "nfc_ndef_record_encode bo u (Some r) loc (Some b) len =
         Ok (Some (record_bytes r loc pay @ drop (length (record_bytes r loc pay)) b),
             of_nat (length (record_bytes r loc pay)))"
    if "loc AND NOT 0xC0 = 0" "length (record_bytes r loc pay) \<le> unat len" "unat len \<le> length b"
    using assms that unfolding w by (simp add: record_writes_def l)
qed

lemma record_encodes_size:
  assumes "record_encodes bo r pay"
  shows "nfc_ndef_record_encode bo u (Some r) loc None len =
       Ok (None, of_nat (length (record_bytes r loc' pay)))"
  using assms record_writesD(1) [of bo r pay loc'] by (simp add: record_encodes_def)

lemma msg_encode_loop_fits:
  assumes "\<forall>(r, pay) \<in> set all. record_writes bo r pay" "length all < 2 ^ 32"
    and "record_count m = of_nat (length all)"
    and "rs = drop i all" "i \<le> length all"
    and "unat s + length (msg_bytes (length all) i rs) \<le> unat len" "unat len \<le> length b"
  shows "msg_encode_loop bo u m (map (Some \<circ> fst) all @ extra) (of_nat i) s (Some b) len =
    Ok (Some (take (unat s) b @ msg_bytes (length all) i rs @
              drop (unat s + length (msg_bytes (length all) i rs)) b),
        s + of_nat (length (msg_bytes (length all) i rs)))"
  using assms(4-)
proof (induction rs arbitrary: i s b)
  case Nil
  then have "i = length all" by simp
  then show ?case
    using assms(3) by (simp add: msg_encode_loop.simps)
next
  case (Cons rp rs)
  obtain r pay where rp: "rp = (r, pay)" by (cases rp)
  let ?n = "length all"
  let ?loc = "record_place i ?n"
  let ?x = "record_bytes r ?loc pay"
  from Cons.prems have i: "i < ?n" by (metis drop_eq_Nil leI list.distinct(1))
  from Cons.prems rp have ri: "all ! i = (r, pay)" by (metis hd_drop_conv_nth i list.sel(1))
  then have enc: "record_writes bo r pay"
    using assms(1) i by (metis (mono_tags, lifting) case_prodD nth_mem)
  have ui: "unat (of_nat i :: u32) = i"
    using i assms(2) by (simp add: unat_of_nat)
  have lt: "(of_nat i :: u32) < record_count m"
    using i assms(2,3) by (simp add: word_less_nat_alt unat_of_nat)
  have fit: "unat s + length ?x + length (msg_bytes ?n (Suc i) rs) \<le> unat len"
    using Cons.prems(3) rp by simp
  then have sl: "s \<le> len" "unat (len - s) = unat len - unat s"
    by (simp_all add: word_le_nat_alt unat_sub)
  have us: "unat (s + of_nat (length ?x)) = unat s + length ?x"
    using fit unat_u32_less [of len] by (simp add: unat_word_ariths unat_of_nat)
  have step: "nfc_ndef_record_encode bo (u (of_nat i)) (Some r) ?loc
      (Some (drop (unat s) b)) (len - s) =
      Ok (Some (?x @ drop (unat s + length ?x) b), of_nat (length ?x))"
    using record_writesD(2) [OF enc record_place_mask, of i ?n "len - s"
        "drop (unat s) b" "u (of_nat i)"] fit sl Cons.prems(4)
    by (simp add: add.commute)
  let ?b' = "take (unat s) b @ ?x @ drop (unat s + length ?x) b"
  have lb: "length ?b' = length b" and ls: "unat s \<le> length b"
    using fit Cons.prems(4) by simp_all
  have "msg_encode_loop bo u m (map (Some \<circ> fst) all @ extra) (of_nat (Suc i)) (s + of_nat (length ?x))
      (Some ?b') len =
      Ok (Some (take (unat (s + of_nat (length ?x))) ?b' @ msg_bytes ?n (Suc i) rs @
            drop (unat (s + of_nat (length ?x)) + length (msg_bytes ?n (Suc i) rs)) ?b'),
          s + of_nat (length ?x) + of_nat (length (msg_bytes ?n (Suc i) rs)))"
  proof (rule Cons.IH)
    show "rs = drop (Suc i) all" using Cons.prems(1) by (metis drop_Suc tl_drop list.sel(3))
    show "Suc i \<le> ?n" using i by simp
    show "unat (s + of_nat (length ?x)) + length (msg_bytes ?n (Suc i) rs) \<le> unat len"
      using fit us by simp
    show "unat len \<le> length ?b'" using lb Cons.prems(4) by simp
  qed
  then show ?case
    using i lt ui ri us step rp ls lb fit Cons.prems(4)
    by (subst msg_encode_loop.simps) (simp add: assms(3) ac_simps nth_append record_location_place [OF i assms(2)])
qed

lemma msg_encode_loop_size:
  assumes "\<forall>(r, pay) \<in> set all. record_encodes bo r pay" "length all < 2 ^ 32"
    and "record_count m = of_nat (length all)"
    and "rs = drop i all" "i \<le> length all"
  shows "msg_encode_loop bo u m (map (Some \<circ> fst) all @ extra) (of_nat i) s None len =
    Ok (None, s + of_nat (length (msg_bytes (length all) i rs)))"
  using assms(4-)
proof (induction rs arbitrary: i s)
  case Nil
  then have "i = length all" by simp
  then show ?case
    using assms(3) by (simp add: msg_encode_loop.simps)
next
  case (Cons rp rs)
  obtain r pay where rp: "rp = (r, pay)" by (cases rp)
  let ?n = "length all"
  from Cons.prems have i: "i < ?n" by (metis drop_eq_Nil leI list.distinct(1))
  from Cons.prems rp have ri: "all ! i = (r, pay)" by (metis hd_drop_conv_nth i list.sel(1))
  then have enc: "record_encodes bo r pay"
    using assms(1) i by (metis (mono_tags, lifting) case_prodD nth_mem)
  have ui: "unat (of_nat i :: u32) = i"
    using i assms(2) by (simp add: unat_of_nat)
  have lt: "(of_nat i :: u32) < of_nat ?n"
    using i assms(2) by (simp add: word_less_nat_alt unat_of_nat)
  have rs: "rs = drop (Suc i) all"
    using Cons.prems(1) by (metis drop_Suc tl_drop list.sel(3))
  show ?case
    using i lt ui ri rp Cons.IH [OF rs]
    by (subst msg_encode_loop.simps)
      (simp add: assms(3) ac_simps comp_def nth_append
        record_encodes_size [OF enc, where loc' = "record_place i ?n"])
qed


text \<open>
  A message descriptor that lists the records \<open>rs\<close>, each described together with its payload.
  Encoding it writes the message layout when it fits (\<open>msg_writes\<close>) and a size query reports the size
  of the layout (\<open>msg_holds\<close>).
\<close>

definition msg_writes ::
    "byteorder_ops \<Rightarrow> nfc_ndef_msg_desc \<Rightarrow> (nfc_ndef_record_desc \<times> u8 list) list \<Rightarrow> bool" where
  "msg_writes bo m rs \<longleftrightarrow> (\<forall>(r, pay) \<in> set rs. record_writes bo r pay) \<and>
     length rs < 2 ^ 32 \<and> record_count m = of_nat (length rs) \<and>
     (\<exists>extra. record_array m = Some (map (Some \<circ> fst) rs @ extra) \<and>
              length rs + length extra = unat (max_record_count m))"

definition msg_holds ::
    "byteorder_ops \<Rightarrow> nfc_ndef_msg_desc \<Rightarrow> (nfc_ndef_record_desc \<times> u8 list) list \<Rightarrow> bool" where
  "msg_holds bo m rs \<longleftrightarrow> (\<forall>(r, pay) \<in> set rs. record_encodes bo r pay) \<and>
     length rs < 2 ^ 32 \<and> record_count m = of_nat (length rs) \<and>
     (\<exists>extra. record_array m = Some (map (Some \<circ> fst) rs @ extra) \<and>
              length rs + length extra = unat (max_record_count m))"

lemma msg_holds_writes: "msg_holds bo m rs \<Longrightarrow> msg_writes bo m rs"
  by (auto simp: msg_holds_def msg_writes_def record_encodes_def)

lemma msg_written:
  assumes "msg_writes bo m rs"
    and "length (msg_bytes (length rs) 0 rs) \<le> unat len" "unat len \<le> length b"
  shows "nfc_ndef_msg_encode bo u (Some m) (Some b) (Some len) =
    Ok (Some (msg_bytes (length rs) 0 rs @ drop (length (msg_bytes (length rs) 0 rs)) b),
        of_nat (length (msg_bytes (length rs) 0 rs)))"
  using assms msg_encode_loop_fits [of rs bo m rs 0 0 len b u]
  by (auto simp: msg_writes_def nfc_ndef_msg_encode_def)

lemmas msg_encode_fits = msg_written [OF msg_holds_writes]

lemma msg_encode_size:
  assumes "msg_holds bo m rs"
  shows "nfc_ndef_msg_encode bo u (Some m) None (Some len) =
    Ok (None, of_nat (length (msg_bytes (length rs) 0 rs)))"
  using assms msg_encode_loop_size [of rs bo m rs 0 u _ 0 len]
  by (auto simp: msg_holds_def nfc_ndef_msg_encode_def)

lemma msg_holds_clear:
  assumes "record_array m = Some arr" "length arr = unat (max_record_count m)"
  shows "msg_holds bo (nfc_ndef_msg_clear m) []"
  using assms by (simp add: msg_holds_def nfc_ndef_msg_clear_def)

text \<open>Adding a record: the message is full, or it holds the record behind the others.\<close>

lemma msg_record_add_holds:
  assumes h: "msg_holds bo m rs" and r: "record_encodes bo r pay"
    and room: "length rs < unat (max_record_count m)"
  obtains m' where "nfc_ndef_msg_record_add m (Some r) = Ok m'" "msg_holds bo m' (rs @ [(r, pay)])"
    "max_record_count m' = max_record_count m"
proof -
  from h obtain extra where a: "record_array m = Some (map (Some \<circ> fst) rs @ extra)"
    "length rs + length extra = unat (max_record_count m)" and c: "record_count m = of_nat (length rs)"
    by (auto simp: msg_holds_def)
  have n: "unat (of_nat (length rs) :: u32) = length rs" "Suc (length rs) < 2 ^ 32"
    using room unat_u32_less [of "max_record_count m"] by (simp_all add: unat_of_nat)
  from a(2) room obtain x extra' where x: "extra = x # extra'"
    by (cases extra) auto
  let ?m = "m\<lparr>record_array := Some (map (Some \<circ> fst) rs @ Some r # extra'),
              record_count := record_count m + 1\<rparr>"
  have "nfc_ndef_msg_record_add m (Some r) = Ok ?m"
    using a c n x room
    by (simp add: nfc_ndef_msg_record_add_def word_le_nat_alt list_update_append)
  moreover have "msg_holds bo ?m (rs @ [(r, pay)])"
    using h r a c x n by (auto simp: msg_holds_def)
  ultimately show ?thesis by (rule that) simp
qed

lemma msg_record_add_full:
  "max_record_count m \<le> record_count m \<Longrightarrow> nfc_ndef_msg_record_add m r = Err ENOSR"
  by (simp add: nfc_ndef_msg_record_add_def)

text \<open>A message of total records is encoded, or refused, inside the buffer.\<close>

lemma msg_encode_loop_total:
  assumes "\<And>i. i < record_count m \<Longrightarrow> unat i < length recs \<and> (\<exists>r. recs ! unat i = Some r \<and> record_total bo r)"
  shows "unat len \<le> length b \<Longrightarrow> s \<le> len \<Longrightarrow> encode_total b len (msg_encode_loop bo u m recs i s (Some b) len)"
  using assms
proof (induction bo u m recs i s "Some b" len arbitrary: b rule: msg_encode_loop.induct)
  case (1 bo u m recs i s len)
  let ?loc = "record_location_get i (record_count m)"
  show ?case
  proof (cases "i < record_count m")
    case True
    with "1.prems"(3) obtain r where r: "unat i < length recs" "recs ! unat i = Some r" "record_total bo r" by blast
    let ?e = "nfc_ndef_record_encode bo (u i) (Some r) ?loc (Some (drop (unat s) b)) (len - s)"
    have us: "unat (len - s) = unat len - unat s" "unat s \<le> unat len"
      using "1.prems"(2) by (simp_all add: unat_sub word_le_nat_alt)
    have "encode_total (drop (unat s) b) (len - s) ?e"
      using r(3) "1.prems"(1) us record_location_get_mask by (simp add: record_total_def)
    then consider e where "?e = Err e" | w n where "?e = Ok (Some w, n)" "length w = length b - unat s" "n \<le> len - s"
      by (auto simp: encode_total_def split: res.splits option.splits prod.splits)
    then show ?thesis
    proof cases
      case 1
      with True r show ?thesis by (subst msg_encode_loop.simps) (simp add: encode_total_def)
    next
      case 2
      have "unat s + unat n \<le> unat len" using 2(3) us by (simp add: word_le_nat_alt)
      then have le: "s + n \<le> len" using unat_u32_less [of len] by (simp add: word_le_nat_alt unat_word_ariths)
      have l: "length (take (unat s) b @ w) = length b" using 2(2) us "1.prems"(1) by simp
      from True r 2(1) have "msg_encode_loop bo u m recs i s (Some b) len =
          msg_encode_loop bo u m recs (i + 1) (s + n) (Some (take (unat s) b @ w)) len"
        by (subst msg_encode_loop.simps) simp
      moreover have "encode_total (take (unat s) b @ w) len (msg_encode_loop bo u m recs (i + 1) (s + n) (Some (take (unat s) b @ w)) len)"
        using "1.hyps" [OF True r(1), of "Some w" "take (unat s) b @ w" n] r(2) 2(1) l le "1.prems"(1,3) by simp
      ultimately show ?thesis using l by (simp add: encode_total_def split: res.splits option.splits prod.splits)
    qed
  next
    case False
    with "1.prems" show ?thesis by (subst msg_encode_loop.simps) (simp add: encode_total_def)
  qed
qed

section \<open>Theorems\<close>

text \<open>
  C11. Encoding a message that holds encodable records: the size query reports the size of the
  message layout, and a buffer that can hold it receives the records one behind the other. The
  message begin flag 0x80 is set in the first record only and the message end flag 0x40 in the last record
  only, so that a lone record carries both.
\<close>

theorem msg_encode_correct:
  assumes "msg_holds bo m rs"
  shows "let x = msg_bytes (length rs) 0 rs in
    nfc_ndef_msg_encode bo u (Some m) None (Some len) = Ok (None, of_nat (length x)) \<and>
    (length x \<le> unat len \<longrightarrow> unat len \<le> length b \<longrightarrow>
     nfc_ndef_msg_encode bo u (Some m) (Some b) (Some len) =
       Ok (Some (x @ drop (length x) b), of_nat (length x)))"
  using msg_encode_size [OF assms] msg_encode_fits [OF assms] by (simp add: Let_def)

text \<open>Two records without type and identifier.\<close>

definition plain_record :: "u8 list \<Rightarrow> nfc_ndef_record_desc" where
  "plain_record pay = \<lparr>tnf = TNF_UNKNOWN_TYPE, id_length = 0, id_ptr = None, type_length = 0,
     type_ptr = None, payload_constructor =
       Some (BIN_PAYLOAD \<lparr>payload = Some pay, payload_length = of_nat (length pay)\<rparr>)\<rparr>"

lemma plain_record_encodes:
  assumes "byteorder bo" "length pay < 2 ^ 32"
  shows "record_encodes bo (plain_record pay) pay"
  using bin.encodes [OF assms(1), of "plain_record pay"
      "\<lparr>payload = Some pay, payload_length = of_nat (length pay)\<rparr>"] assms(2)
  by (simp add: record_describes_def plain_record_def record_wf_def readable_def bin_ok_def bin_bytes_def
      pbytes_def unat_of_nat)

definition plain_msg :: "u8 list \<Rightarrow> u8 list \<Rightarrow> nfc_ndef_msg_desc" where
  "plain_msg p q = \<lparr>record_array = Some [Some (plain_record p), Some (plain_record q), None],
     max_record_count = 3, record_count = 2\<rparr>"

lemma plain_msg_holds:
  assumes "byteorder bo" "length p < 2 ^ 32" "length q < 2 ^ 32"
  shows "msg_holds bo (plain_msg p q) [(plain_record p, p), (plain_record q, q)]"
  using plain_record_encodes assms by (simp add: msg_holds_def plain_msg_def)

lemma plain_msg_bytes:
  "msg_bytes 2 0 [(plain_record [1], [1]), (plain_record [2, 3], [2, 3])] =
     [0x85, 0, 0, 0, 0, 1, 1, 0x45, 0, 0, 0, 0, 2, 2, 3]"
  by (simp add: record_bytes_def record_place_def record_flags_def plain_record_def
      record_type_def record_id_def pbytes_def be_bytes_4)

theorem msg_encode_correct_witness:
  "nfc_ndef_msg_encode byteorder_ref (\<lambda>_. 0) (Some (plain_msg [1] [2, 3])) (Some (replicate 16 9)) (Some 16) =
     Ok (Some [0x85, 0, 0, 0, 0, 1, 1, 0x45, 0, 0, 0, 0, 2, 2, 3, 9], 15)"
proof -
  have h: "msg_holds byteorder_ref (plain_msg [1] [2, 3]) [(plain_record [1], [1]), (plain_record [2, 3], [2, 3])]"
    by (rule plain_msg_holds [OF ref.byteorder_axioms]) simp_all
  have l: "length [(plain_record [1], [1 :: u8]), (plain_record [2, 3], [2, 3])] = 2"
    by simp
  show ?thesis
    using msg_encode_correct [OF h, of "\<lambda>_. 0" 16 "replicate 16 9"]
    unfolding Let_def l plain_msg_bytes by simp
qed

text \<open>
  C26. Adding a record to a message with a free slot succeeds and the message then holds the new
  record behind the old ones, so every message built by clearing and adding can be encoded; a
  full message is left alone and \<^verbatim>\<open>-ENOSR\<close> is returned.
\<close>

theorem msg_record_add_correct:
  assumes "msg_holds bo m rs" "record_encodes bo r pay"
  shows "if length rs < unat (max_record_count m)
    then \<exists>m'. nfc_ndef_msg_record_add m (Some r) = Ok m' \<and> msg_holds bo m' (rs @ [(r, pay)]) \<and>
           max_record_count m' = max_record_count m
    else nfc_ndef_msg_record_add m (Some r) = Err ENOSR"
proof (cases "length rs < unat (max_record_count m)")
  case True
  obtain m' where "nfc_ndef_msg_record_add m (Some r) = Ok m'" "msg_holds bo m' (rs @ [(r, pay)])"
    "max_record_count m' = max_record_count m"
    by (rule msg_record_add_holds [OF assms True])
  with True show ?thesis by simp
next
  case False
  have "unat (record_count m) = length rs"
    using assms(1) by (auto simp: msg_holds_def unat_of_nat)
  with False have "max_record_count m \<le> record_count m" by (simp add: word_le_nat_alt)
  with False show ?thesis by (simp add: msg_record_add_full)
qed

theorem msg_record_add_correct_witness:
  "\<exists>m'. nfc_ndef_msg_record_add (plain_msg [1] [2, 3]) (Some (plain_record [4])) = Ok m' \<and>
     msg_holds byteorder_ref m' [(plain_record [1], [1]), (plain_record [2, 3], [2, 3]), (plain_record [4], [4])]"
  using msg_record_add_correct [OF plain_msg_holds [OF ref.byteorder_axioms, of "[1]" "[2, 3]"]
      plain_record_encodes [OF ref.byteorder_axioms, of "[4]"]]
  by (auto simp: plain_msg_def)

end
