(* ===== verification/NDEF_Parser.thy ===== *)
theory NDEF_Parser
  imports NDEF_Msg
begin

unbundle bit_operations_syntax

text \<open>
  The NDEF parser: \<^verbatim>\<open>subsys/nfc/ndef/record_parser.c\<close>, \<^verbatim>\<open>msg_parser.c\<close> and
  \<^verbatim>\<open>msg_parser_local.c\<close>. Parsed descriptors point into the input buffer.
\<close>

section \<open>Records\<close>

abbreviation (input) NDEF_RECORD_BASE_SHORT_LEN :: u32
  where "NDEF_RECORD_BASE_SHORT_LEN \<equiv> 2 + NDEF_RECORD_PAYLOAD_LEN_SHORT_SIZE"

text \<open>
  The length fields of \<^verbatim>\<open>nfc_ndef_record_parse\<close>: the payload length (one byte in a short
  record, four in a long one), and the ID length if the flags announce it. The results are the
  flags, the type, payload and ID lengths, the size seen so far and the read position.
\<close>

definition record_parse_lengths ::
    "byteorder_ops \<Rightarrow> u8 list \<Rightarrow> u32 \<Rightarrow> (u8 \<times> u8 \<times> u32 \<times> u8 \<times> u32 \<times> nat) res" where
  "record_parse_lengths bo nfc_data nfc_data_len =
     (if NDEF_RECORD_BASE_SHORT_LEN > nfc_data_len then Err EINVAL
      else
        rbind (rd nfc_data 0) (\<lambda>flags.
        rbind (rd nfc_data 1) (\<lambda>tlen.
        rbind (if flags AND NDEF_RECORD_SR_MASK \<noteq> 0
               then rbind (rd nfc_data 2) (\<lambda>pl. Ok (ucast pl, NDEF_RECORD_BASE_SHORT_LEN, 3))
               else let ex = NDEF_RECORD_BASE_SHORT_LEN +
                      (NDEF_RECORD_PAYLOAD_LEN_LONG_SIZE - NDEF_RECORD_PAYLOAD_LEN_SHORT_SIZE) in
                    if ex > nfc_data_len then Err EINVAL
                    else rbind (be32_at bo nfc_data 2) (\<lambda>pl. Ok (pl, ex, 6)))
          (\<lambda>(plen, ex, p).
        if flags AND NDEF_RECORD_IL_MASK \<noteq> 0
        then let ex = ex + NDEF_RECORD_ID_LEN_SIZE in
             if ex > nfc_data_len then Err EINVAL
             else rbind (rd nfc_data p) (\<lambda>ilen. Ok (flags, tlen, plen, ilen, ex, p + 1))
        else Ok (flags, tlen, plen, 0, ex, p)))))"

text \<open>
  \<^verbatim>\<open>nfc_ndef_record_parse\<close>: \<open>old\<close> is the content of \<^verbatim>\<open>*rec_desc\<close> before the call (its \<^verbatim>\<open>id\<close> is
  kept when the record has an ID length field that is 0). The result is \<^verbatim>\<open>*bin_pay_desc\<close>,
  \<^verbatim>\<open>*rec_desc\<close>, \<^verbatim>\<open>*record_location\<close> and \<^verbatim>\<open>*nfc_data_len\<close>. The sum of the field sizes is a
  32-bit sum.
\<close>

definition nfc_ndef_record_parse ::
    "byteorder_ops \<Rightarrow> nfc_ndef_record_desc \<Rightarrow> u8 list \<Rightarrow> u32 \<Rightarrow>
     (nfc_ndef_bin_payload_desc \<times> nfc_ndef_record_desc \<times> nfc_ndef_record_location \<times> u32) res" where
  "nfc_ndef_record_parse bo old nfc_data nfc_data_len =
     rbind (record_parse_lengths bo nfc_data nfc_data_len) (\<lambda>(flags, tlen, plen, ilen, ex, p).
     let t = tnf_of (flags AND NDEF_RECORD_TNF_MASK);
         t = (if t = TNF_RESERVED then TNF_UNKNOWN_TYPE else t);
         record_location = flags AND NDEF_RECORD_LOCATION_MASK;
         idp = (if flags AND NDEF_RECORD_IL_MASK \<noteq> 0 then id_ptr old else None);
         ex = ex + (ucast tlen + ucast ilen + plen) in
     if ex > nfc_data_len then Err EINVAL
     else
       let (typ, p) = (if tlen > 0 then (Some (drop p nfc_data), p + unat tlen) else (None, p));
           (idp, p) = (if ilen > 0 then (Some (drop p nfc_data), p + unat ilen) else (idp, p));
           pd = \<lparr>payload = (if plen = 0 then None else Some (drop p nfc_data)),
                 payload_length = plen\<rparr>
       in Ok (pd,
              \<lparr>tnf = t, id_length = ilen, id_ptr = idp, type_length = tlen, type_ptr = typ,
               payload_constructor = Some (BIN_PAYLOAD pd)\<rparr>,
              record_location, ex))"

section \<open>Messages\<close>

text \<open>
  The sizes of the C structures that share the result buffer. They are a parameter: the ABI
  decides them.
\<close>

record ndef_abi =
  sizeof_msg_desc :: u32
  sizeof_rec_ptr :: u32
  sizeof_bin_pay :: u32
  sizeof_rec_desc :: u32
  sizeof_msg_1 :: u32
  sizeof_msg_2 :: u32

definition NFC_NDEF_MSG_PARSER_DELTA :: "ndef_abi \<Rightarrow> u32" where
  "NFC_NDEF_MSG_PARSER_DELTA abi = sizeof_msg_2 abi - sizeof_msg_1 abi"

text \<open>
  \<^verbatim>\<open>struct nfc_ndef_parser_memo_desc\<close>: the message descriptor with its pointer array and the
  arrays of payload and record descriptors, whose initial contents are whatever the result
  buffer holds.
\<close>

record nfc_ndef_parser_memo_desc =
  msg_desc :: nfc_ndef_msg_desc
  bin_pay_array :: "nfc_ndef_bin_payload_desc list"
  rec_array :: "nfc_ndef_record_desc list"

text \<open>
  \<^verbatim>\<open>nfc_ndef_msg_parser_memo_resolve\<close>: cuts the result buffer into a message descriptor and
  three arrays of \<open>max_rec_num\<close> elements. \<open>junk\<close> gives the initial contents of the arrays.
  Besides the layout the result is the offset of the end of the last array.
\<close>

definition nfc_ndef_msg_parser_memo_resolve ::
    "ndef_abi \<Rightarrow> nfc_ndef_bin_payload_desc \<Rightarrow> nfc_ndef_record_desc \<Rightarrow> u32 \<Rightarrow>
     (nfc_ndef_parser_memo_desc \<times> u32) res" where
  "nfc_ndef_msg_parser_memo_resolve abi junk_bin junk_rec result_buf_len =
     (if result_buf_len < sizeof_msg_1 abi then Err ENOMEM
      else
        let memory_last = result_buf_len - sizeof_msg_1 abi;
            max_rec_num = memory_last div NFC_NDEF_MSG_PARSER_DELTA abi + 1;
            record_off = sizeof_msg_desc abi;
            bin_off = record_off + max_rec_num * sizeof_rec_ptr abi;
            rec_off = bin_off + max_rec_num * sizeof_bin_pay abi;
            end_off = rec_off + max_rec_num * sizeof_rec_desc abi in
        Ok (\<lparr>msg_desc = \<lparr>record_array = Some (replicate (unat max_rec_num) None),
                         max_record_count = max_rec_num, record_count = 0\<rparr>,
             bin_pay_array = replicate (unat max_rec_num) junk_bin,
             rec_array = replicate (unat max_rec_num) junk_rec\<rparr>, end_off))"

text \<open>
  The loop of \<^verbatim>\<open>nfc_ndef_msg_parser_internal\<close>. \<open>k\<close> is how far \<^verbatim>\<open>bin_pay_desc\<close> and \<^verbatim>\<open>rec_desc\<close>
  have been advanced. The message descriptor holds pointers into the record array; the model
  stores the descriptors themselves, which nothing changes after they have been added. Every
  iteration that continues has stored one more record, so the capacity bounds the loop even
  where a wrapped record size does not advance.
\<close>

function msg_parser_loop ::
    "byteorder_ops \<Rightarrow> nfc_ndef_parser_memo_desc \<Rightarrow> nat \<Rightarrow> u8 list \<Rightarrow> u32 \<Rightarrow>
     (nfc_ndef_parser_memo_desc \<times> u32) res" where
  "msg_parser_loop bo memo k nfc_data nfc_data_left =
     (if nfc_data_left > 0 then
        if k < length (bin_pay_array memo) \<and> k < length (rec_array memo) then
          rbind (nfc_ndef_record_parse bo (rec_array memo ! k) nfc_data nfc_data_left)
            (\<lambda>(pd, r, record_location, temp_nfc_data_len).
          if (if record_count (msg_desc memo) = 0
              then record_location \<noteq> NDEF_FIRST_RECORD \<and> record_location \<noteq> NDEF_LONE_RECORD
              else record_location \<noteq> NDEF_MIDDLE_RECORD \<and> record_location \<noteq> NDEF_LAST_RECORD)
          then Err EFAULT
          else
            case nfc_ndef_msg_record_add (msg_desc memo) (Some r) of
              Err e \<Rightarrow> Err e
            | Fault \<Rightarrow> Fault
            | Ok m \<Rightarrow>
                let memo' = memo\<lparr>msg_desc := m, bin_pay_array := (bin_pay_array memo)[k := pd],
                                  rec_array := (rec_array memo)[k := r]\<rparr>;
                    left' = nfc_data_left - temp_nfc_data_len in
                if record_location = NDEF_LAST_RECORD \<or> record_location = NDEF_LONE_RECORD
                then Ok (memo', left')
                else if record_count m = max_record_count m then Err ENOMEM
                else msg_parser_loop bo memo' (k + 1) (drop (unat temp_nfc_data_len) nfc_data) left')
        else Fault
      else Err EFAULT)"
  by pat_completeness auto
termination
  by (relation "measure (\<lambda>(bo, memo, k, d, l). unat (max_record_count (msg_desc memo)) -
                                              unat (record_count (msg_desc memo)))")
    (auto dest: msg_record_add_Ok)

declare msg_parser_loop.simps [simp del]

definition nfc_ndef_msg_parser_internal ::
    "byteorder_ops \<Rightarrow> nfc_ndef_parser_memo_desc \<Rightarrow> u8 list \<Rightarrow> u32 \<Rightarrow>
     (nfc_ndef_parser_memo_desc \<times> u32) res" where
  "nfc_ndef_msg_parser_internal bo memo nfc_data nfc_data_len =
     rbind (msg_parser_loop bo memo 0 nfc_data nfc_data_len)
       (\<lambda>(memo', nfc_data_left). Ok (memo', nfc_data_len - nfc_data_left))"

text \<open>\<^verbatim>\<open>nfc_ndef_msg_parse\<close>: the parsed message, the used size of the result buffer, the parsed size.\<close>

definition nfc_ndef_msg_parse ::
    "byteorder_ops \<Rightarrow> ndef_abi \<Rightarrow> nfc_ndef_bin_payload_desc \<Rightarrow> nfc_ndef_record_desc \<Rightarrow>
     u32 \<Rightarrow> u8 list \<Rightarrow> u32 \<Rightarrow> (nfc_ndef_msg_desc \<times> u32 \<times> u32) res" where
  "nfc_ndef_msg_parse bo abi junk_bin junk_rec result_buf_len raw_data raw_data_len =
     rbind (nfc_ndef_msg_parser_memo_resolve abi junk_bin junk_rec result_buf_len)
       (\<lambda>(memo, used).
     rbind (nfc_ndef_msg_parser_internal bo memo raw_data raw_data_len)
       (\<lambda>(memo', parsed). Ok (msg_desc memo', used, parsed)))"

section \<open>The fields of the flags byte\<close>

lemma location_masks:
  fixes loc :: u8
  assumes "loc AND NOT 0xC0 = 0"
  shows "loc AND 7 = 0" "loc AND 8 = 0" "loc AND 0x10 = 0" "loc AND 0xC0 = loc"
proof -
  have m: "loc AND m = 0" if "NOT 0xC0 AND m = m" for m
  proof -
    have "loc AND m = (loc AND NOT 0xC0) AND m"
      using that by (metis and.assoc)
    then show ?thesis using assms by simp
  qed
  show "loc AND 7 = 0" by (rule m) simp
  show "loc AND 8 = 0" by (rule m) simp
  show "loc AND 0x10 = 0" by (rule m) simp
  have "loc = (loc AND 0xC0) OR (loc AND NOT 0xC0)"
    by (metis and.right_neutral bit.conj_disj_distrib bit.disj_cancel_right)
  then show "loc AND 0xC0 = loc" using assms by simp
qed

lemma record_flags_fields:
  assumes "loc AND NOT 0xC0 = 0"
  shows "record_flags d loc AND 7 = tnf_val (tnf d)"
    "record_flags d loc AND 0xC0 = loc"
    "record_flags d loc AND 0x10 = 0"
    "record_flags d loc AND 8 = (if id_length d > 0 then 8 else 0)"
  using location_masks [OF assms]
  by (cases "tnf d"; simp add: record_flags_def bit.conj_disj_distrib2)+

lemma tnf_of_val [simp]: "tnf_of (tnf_val t) = t"
  by (cases t) (simp_all add: tnf_of_def)

section \<open>Parsing what the encoder wrote\<close>

text \<open>The descriptors the parser builds for an encoded record: views into the input buffer.\<close>

definition parsed_payload :: "u8 list \<Rightarrow> u8 list \<Rightarrow> nfc_ndef_bin_payload_desc" where
  "parsed_payload pay rest =
     \<lparr>payload = (if pay = [] then None else Some (pay @ rest)), payload_length = of_nat (length pay)\<rparr>"

definition parsed_record ::
    "nfc_ndef_record_desc \<Rightarrow> u8 list \<Rightarrow> u8 list \<Rightarrow> nfc_ndef_record_desc" where
  "parsed_record d pay rest =
     \<lparr>tnf = (if tnf d = TNF_RESERVED then TNF_UNKNOWN_TYPE else tnf d),
      id_length = id_length d,
      id_ptr = (if id_length d > 0 then Some (record_id d @ pay @ rest) else None),
      type_length = type_length d,
      type_ptr = (if type_length d > 0 then Some (record_type d @ record_id d @ pay @ rest) else None),
      payload_constructor = Some (BIN_PAYLOAD (parsed_payload pay rest))\<rparr>"

lemma record_parse_bytes:
  assumes bo: "byteorder bo" and wf: "record_wf d" and loc: "loc AND NOT 0xC0 = 0"
    and len: "length (record_bytes d loc pay) \<le> unat len"
  shows "nfc_ndef_record_parse bo old (record_bytes d loc pay @ rest) len =
           Ok (parsed_payload pay rest, parsed_record d pay rest, loc,
               of_nat (length (record_bytes d loc pay)))"
proof -
  let ?il = "if id_length d > 0 then [id_length d] else []"
  let ?n = "length (record_bytes d loc pay)"
  have n: "?n = 6 + length ?il + unat (type_length d) + unat (id_length d) + length pay"
    using wf by (simp add: record_bytes_def)
  have nl: "unat (of_nat ?n :: u32) = ?n"
    using len unat_u32_less [of len] by (simp add: unat_of_nat)
  have pl: "length pay = unat (of_nat (length pay) :: u32)"
    using len n unat_u32_less [of len] by (simp add: unat_of_nat)
  define n' :: u32 where "n' = of_nat ?n"
  have data: "record_bytes d loc pay @ rest = record_flags d loc # type_length d #
      be_bytes 4 (length pay) @ ?il @ record_type d @ record_id d @ pay @ rest"
    by (simp add: record_bytes_def)
  have le: "\<not> len < n'" "\<not> len < 3" "\<not> len < 6" "id_length d > 0 \<Longrightarrow> \<not> len < 7"
    using len nl n by (auto simp: word_less_nat_alt n'_def)
  have be: "be32_at bo (record_flags d loc # type_length d # be_bytes 4 (length pay) @ tl) 2 =
      Ok (of_nat (length pay))" for tl
    using byteorder.be32_at_cpu [OF bo, of "[record_flags d loc, type_length d]"
        "of_nat (length pay)" tl] pl by (simp add: numeral_2_eq_2)
  have ex: "(if id_length d > 0 then 7 else 6) +
      (ucast (type_length d) + ucast (id_length d) + (of_nat (length pay) :: u32)) = n'"
    unfolding n'_def n by simp
  have pay0: "(of_nat (length pay) :: u32) = 0 \<longleftrightarrow> pay = []"
    using pl by (metis length_0_conv unat_0 word_unat_eq_iff)
  have ty0: "type_length d = 0 \<Longrightarrow> record_type d = []" "id_length d = 0 \<Longrightarrow> record_id d = []"
    using wf by (metis length_0_conv record_wf_lengths unat_0)+
  note fl = record_flags_fields [OF loc, of d]
  show ?thesis
    unfolding n'_def [symmetric] data
    using le be fl ex wf pay0 ty0
    by (cases "id_length d = 0"; cases "type_length d = 0"; cases "pay = []")
      (simp_all add: nfc_ndef_record_parse_def record_parse_lengths_def rd_def nth_append Let_def word_gt_0
        parsed_payload_def parsed_record_def drop_Cons')
qed

section \<open>Any input: memory safety and field bounds\<close>

lemma record_parse_lengths_not_Fault:
  assumes "unat len \<le> length data"
  shows "record_parse_lengths bo data len \<noteq> Fault"
  using assms
  by (auto simp: record_parse_lengths_def rbind_iffs Let_def not_less rd_def be32_at_def rdn_def
      word_less_nat_alt word_le_nat_alt split: if_splits)

lemma record_parse_lengths_Ok:
  assumes "record_parse_lengths bo data len = Ok (flags, tlen, plen, ilen, ex, p)"
  shows "unat ex = p" "3 \<le> p" "p \<le> 7"
  using assms
  by (auto simp: record_parse_lengths_def rbind_iffs Let_def split: if_splits)

lemma record_parse_not_Fault:
  "unat len \<le> length data \<Longrightarrow> nfc_ndef_record_parse bo old data len \<noteq> Fault"
  using record_parse_lengths_not_Fault [of len data bo]
  by (auto simp: nfc_ndef_record_parse_def rbind_iffs Let_def split: if_splits)

text \<open>
  Where the 32-bit sum of the field sizes cannot wrap, the type, ID and payload the descriptors
  point to lie inside the buffer.
\<close>

lemma record_parse_in_bounds:
  assumes len: "unat len \<le> length data"
    and ok: "nfc_ndef_record_parse bo old data len = Ok (pd, r, loc, n)"
    and nowrap: "unat (payload_length pd) + 517 < 2 ^ 32"
  shows "bin_ok pd \<and> record_wf r \<and> n \<le> len \<and> 3 \<le> unat n \<and>
         payload_constructor r = Some (BIN_PAYLOAD pd)"
proof -
  from ok obtain flags tlen plen ilen ex p where
    l: "record_parse_lengths bo data len = Ok (flags, tlen, plen, ilen, ex, p)" and
    n: "n = ex + (ucast tlen + ucast ilen + plen)" "n \<le> len" and
    pd: "pd = \<lparr>payload = (if plen = 0 then None else Some (drop (p + unat tlen + unat ilen) data)),
               payload_length = plen\<rparr>" and
    r: "type_length r = tlen" "id_length r = ilen"
       "type_ptr r = (if tlen > 0 then Some (drop p data) else None)"
       "ilen > 0 \<Longrightarrow> id_ptr r = Some (drop (p + unat tlen) data)"
       "payload_constructor r = Some (BIN_PAYLOAD pd)"
    by (auto simp: nfc_ndef_record_parse_def rbind_iffs Let_def not_less word_gt_0 split: if_splits)
  note ex = record_parse_lengths_Ok [OF l]
  have "unat n = p + unat tlen + unat ilen + unat plen"
    using ex n nowrap pd unat_u8_less [of tlen] unat_u8_less [of ilen]
    by (simp add: unat_word_ariths unsigned_ucast_eq take_bit_nat_eq_self word_le_nat_alt)
  then have "p + unat tlen + unat ilen + unat plen \<le> length data" "3 \<le> unat n"
    using n len ex by (simp_all add: word_le_nat_alt)
  then show ?thesis
    using n r pd by (auto simp: bin_ok_def record_wf_def readable_def word_gt_0 unat_eq_0)
qed

section \<open>Messages: parsing what the encoder wrote\<close>

fun parsed_records ::
    "nat \<Rightarrow> nat \<Rightarrow> (nfc_ndef_record_desc \<times> u8 list) list \<Rightarrow> u8 list \<Rightarrow> nfc_ndef_record_desc list" where
  "parsed_records n i [] rest = []"
| "parsed_records n i ((r, pay) # rs) rest =
     parsed_record r pay (msg_bytes n (Suc i) rs @ rest) # parsed_records n (Suc i) rs rest"

lemma length_parsed_records [simp]: "length (parsed_records n i rs rest) = length rs"
  by (induction n i rs rest rule: parsed_records.induct) auto

text \<open>The memory of a parser that has stored \<open>k\<close> records.\<close>

definition memo_at :: "nfc_ndef_parser_memo_desc \<Rightarrow> nat \<Rightarrow> nfc_ndef_record_desc option list \<Rightarrow> bool" where
  "memo_at memo k arr \<longleftrightarrow>
     record_array (msg_desc memo) = Some arr \<and> record_count (msg_desc memo) = of_nat k \<and>
     length arr = unat (max_record_count (msg_desc memo)) \<and>
     length (bin_pay_array memo) = length arr \<and> length (rec_array memo) = length arr \<and>
     k \<le> length arr"

lemma memo_at_add:
  assumes "memo_at memo k arr" "k < length arr"
  obtains m where "nfc_ndef_msg_record_add (msg_desc memo) (Some r) = Ok m"
    "memo_at (memo\<lparr>msg_desc := m, bin_pay_array := (bin_pay_array memo)[k := pd],
                  rec_array := (rec_array memo)[k := r]\<rparr>) (Suc k) (arr[k := Some r])"
    "max_record_count m = max_record_count (msg_desc memo)"
    "record_count m = of_nat (Suc k)"
proof -
  have k: "unat (of_nat k :: u32) = k"
    using assms unat_u32_less [of "max_record_count (msg_desc memo)"]
    by (simp add: memo_at_def unat_of_nat)
  have "(of_nat k :: u32) < max_record_count (msg_desc memo)"
    using assms k by (simp add: memo_at_def word_less_nat_alt)
  then show ?thesis
    using assms k
    by (intro that [of "(msg_desc memo)\<lparr>record_array := Some (arr[k := Some r]),
          record_count := of_nat k + 1\<rparr>"])
      (auto simp: nfc_ndef_msg_record_add_def memo_at_def not_le)
qed

text \<open>One iteration that stores a record.\<close>

lemma msg_parser_loop_step:
  assumes "0 < left" "k < length (bin_pay_array memo)" "k < length (rec_array memo)"
    and "nfc_ndef_record_parse bo (rec_array memo ! k) data left = Ok (pd, r, loc, n)"
    and "if record_count (msg_desc memo) = 0
         then loc = NDEF_FIRST_RECORD \<or> loc = NDEF_LONE_RECORD
         else loc = NDEF_MIDDLE_RECORD \<or> loc = NDEF_LAST_RECORD"
    and "nfc_ndef_msg_record_add (msg_desc memo) (Some r) = Ok m"
  shows "msg_parser_loop bo memo k data left =
    (if loc = NDEF_LAST_RECORD \<or> loc = NDEF_LONE_RECORD
     then Ok (memo\<lparr>msg_desc := m, bin_pay_array := (bin_pay_array memo)[k := pd],
                    rec_array := (rec_array memo)[k := r]\<rparr>, left - n)
     else if record_count m = max_record_count m then Err ENOMEM
     else msg_parser_loop bo (memo\<lparr>msg_desc := m, bin_pay_array := (bin_pay_array memo)[k := pd],
                    rec_array := (rec_array memo)[k := r]\<rparr>) (Suc k) (drop (unat n) data) (left - n))"
  using assms by (subst msg_parser_loop.simps) (auto simp: Let_def split: if_splits)

lemma msg_parser_loop_bytes:
  assumes bo: "byteorder bo" and all: "\<forall>(r, pay) \<in> set all. record_wf r"
    and n: "length all < 2 ^ 32" "length all \<le> length arr"
    and "rs = drop k all" "k < length all" "memo_at memo k arr"
    and "length (msg_bytes (length all) k rs) \<le> unat left"
  shows "\<exists>memo'. msg_parser_loop bo memo k (msg_bytes (length all) k rs @ rest) left =
      Ok (memo', left - of_nat (length (msg_bytes (length all) k rs))) \<and>
    memo_at memo' (length all)
      (take k arr @ map Some (parsed_records (length all) k rs rest) @ drop (length all) arr)"
  using assms(4-)
proof (induction rs arbitrary: k memo arr left)
  case Nil
  then show ?case by simp
next
  case (Cons rp rs)
  obtain r pay where rp: "rp = (r, pay)" by (cases rp)
  let ?n = "length all"
  let ?loc = "record_place k ?n"
  let ?x = "record_bytes r ?loc pay"
  let ?tl = "msg_bytes ?n (Suc k) rs @ rest"
  let ?r = "parsed_record r pay ?tl" and ?pd = "parsed_payload pay ?tl"
  have k: "k < ?n" by (rule Cons.prems)
  have wf: "record_wf r"
  proof -
    have "(r, pay) \<in> set all"
      using Cons.prems(2) rp by (metis in_set_dropD list.set_intros(1))
    then show ?thesis using all by blast
  qed
  have rs: "rs = drop (Suc k) all"
    using Cons.prems(2) by (metis drop_Suc tl_drop list.sel(3))
  have loc: "?loc = (if k = 0 then if ?n = 1 then NDEF_LONE_RECORD else NDEF_FIRST_RECORD
     else if ?n = Suc k then NDEF_LAST_RECORD else NDEF_MIDDLE_RECORD)"
    by (simp add: record_place_def location_defs)
  have fit: "length ?x + length (msg_bytes ?n (Suc k) rs) \<le> unat left"
    using Cons.prems(5) rp by simp
  have ux: "unat (of_nat (length ?x) :: u32) = length ?x"
    using fit unat_u32_less [of left] by (simp add: unat_of_nat)
  have ul: "unat (left - of_nat (length ?x)) = unat left - length ?x"
    using fit ux by (simp add: unat_sub word_le_nat_alt)
  have pos: "0 < left"
    using fit by (simp add: record_bytes_def word_less_nat_alt del: unat_gt_0)
  have parse: "nfc_ndef_record_parse bo (rec_array memo ! k) (?x @ ?tl) left =
      Ok (?pd, ?r, ?loc, of_nat (length ?x))"
    using record_parse_bytes [OF bo wf record_place_mask] fit by simp
  have klt: "k < length arr" using k Cons.prems(1) by simp
  with Cons.prems(4) obtain m where add: "nfc_ndef_msg_record_add (msg_desc memo) (Some ?r) = Ok m"
    and at: "memo_at (memo\<lparr>msg_desc := m, bin_pay_array := (bin_pay_array memo)[k := ?pd],
                  rec_array := (rec_array memo)[k := ?r]\<rparr>) (Suc k) (arr[k := Some ?r])"
    and m: "max_record_count m = max_record_count (msg_desc memo)" "record_count m = of_nat (Suc k)"
    by (rule memo_at_add [where r = ?r and pd = ?pd])
  let ?memo = "memo\<lparr>msg_desc := m, bin_pay_array := (bin_pay_array memo)[k := ?pd],
                  rec_array := (rec_array memo)[k := ?r]\<rparr>"
  have c0: "record_count (msg_desc memo) = 0 \<longleftrightarrow> k = 0"
    using Cons.prems(4) of_nat_u32_eq_iff [of k 0] k n(1) by (simp add: memo_at_def)
  have arr: "k < length (bin_pay_array memo)" "k < length (rec_array memo)"
    using Cons.prems(1,4) k by (auto simp: memo_at_def)
  have upd: "take k arr @ Some ?r # xs @ drop ?n arr = take (Suc k) (arr[k := Some ?r]) @ xs @ drop ?n (arr[k := Some ?r])"
    for xs
    using k Cons.prems(1) by (simp add: take_Suc_conv_app_nth)
  have locs: "if record_count (msg_desc memo) = 0
      then ?loc = NDEF_FIRST_RECORD \<or> ?loc = NDEF_LONE_RECORD
      else ?loc = NDEF_MIDDLE_RECORD \<or> ?loc = NDEF_LAST_RECORD"
    unfolding c0 loc by simp
  note step = msg_parser_loop_step [OF pos arr parse locs add]
  have x: "msg_bytes ?n k (rp # rs) @ rest = ?x @ ?tl"
    and lx: "of_nat (length (msg_bytes ?n k (rp # rs))) =
      of_nat (length ?x) + (of_nat (length (msg_bytes ?n (Suc k) rs)) :: u32)"
    and pr: "parsed_records ?n k (rp # rs) rest = ?r # parsed_records ?n (Suc k) rs rest"
    by (simp_all add: rp)
  show ?case
  proof (cases "?n = Suc k")
    case True
    then have "rs = []" using rs by simp
    moreover have "?loc = NDEF_LAST_RECORD \<or> ?loc = NDEF_LONE_RECORD" using True loc by simp
    ultimately show ?thesis
      unfolding x lx pr step using at True by (simp add: upd_conv_take_nth_drop [OF klt])
  next
    case False
    then have sk: "Suc k < ?n" using k by simp
    have full: "record_count m \<noteq> max_record_count m"
    proof
      assume "record_count m = max_record_count m"
      then have "unat (of_nat (Suc k) :: u32) = length arr"
        using m Cons.prems(4) by (simp add: memo_at_def)
      then show False
        using sk n(1) Cons.prems(1) by (simp add: unat_of_nat del: of_nat_Suc)
    qed
    have last: "\<not> (?loc = NDEF_LAST_RECORD \<or> ?loc = NDEF_LONE_RECORD)"
      unfolding loc using sk by (simp add: location_defs)
    have "\<exists>memo'. msg_parser_loop bo ?memo (Suc k) (msg_bytes ?n (Suc k) rs @ rest)
          (left - of_nat (length ?x)) =
        Ok (memo', left - of_nat (length ?x) - of_nat (length (msg_bytes ?n (Suc k) rs))) \<and>
      memo_at memo' ?n (take (Suc k) (arr[k := Some ?r]) @
        map Some (parsed_records ?n (Suc k) rs rest) @ drop ?n (arr[k := Some ?r]))"
      using fit ul sk by (intro Cons.IH at rs) (simp_all add: Cons.prems(1))
    moreover have "drop (unat (of_nat (length ?x) :: u32)) (?x @ ?tl) = ?tl"
      using ux by simp
    ultimately show ?thesis
      unfolding x lx pr step using last full upd by (simp add: diff_diff_eq)
  qed
qed

text \<open>The layout of the result buffer on an ABI that puts no padding between the arrays.\<close>

definition abi_packed :: "ndef_abi \<Rightarrow> bool" where
  "abi_packed abi \<longleftrightarrow>
     (let e = unat (sizeof_rec_ptr abi) + unat (sizeof_bin_pay abi) + unat (sizeof_rec_desc abi) in
      0 < e \<and> unat (sizeof_msg_1 abi) = unat (sizeof_msg_desc abi) + e \<and>
      unat (sizeof_msg_2 abi) = unat (sizeof_msg_desc abi) + 2 * e)"

lemma memo_resolve_Ok:
  assumes abi: "abi_packed abi"
    and ok: "nfc_ndef_msg_parser_memo_resolve abi jb jr len = Ok (memo, used)"
  shows "used \<le> len" "memo_at memo 0 (replicate (unat (max_record_count (msg_desc memo))) None)"
    "0 < max_record_count (msg_desc memo)"
    "unat used = unat (sizeof_msg_desc abi) + unat (max_record_count (msg_desc memo)) *
       (unat (sizeof_rec_ptr abi) + unat (sizeof_bin_pay abi) + unat (sizeof_rec_desc abi))"
    "unat len < unat (sizeof_msg_desc abi) + Suc (unat (max_record_count (msg_desc memo))) *
       (unat (sizeof_rec_ptr abi) + unat (sizeof_bin_pay abi) + unat (sizeof_rec_desc abi))"
proof -
  define e where "e = unat (sizeof_rec_ptr abi) + unat (sizeof_bin_pay abi) + unat (sizeof_rec_desc abi)"
  define q where "q = (unat len - unat (sizeof_msg_1 abi)) div e"
  define mx where "mx = (len - sizeof_msg_1 abi) div NFC_NDEF_MSG_PARSER_DELTA abi + 1"
  have e: "0 < e" "unat (sizeof_msg_1 abi) = unat (sizeof_msg_desc abi) + e"
    "unat (sizeof_msg_2 abi) = unat (sizeof_msg_desc abi) + 2 * e"
    using abi by (simp_all add: abi_packed_def e_def Let_def)
  have le: "sizeof_msg_1 abi \<le> len"
    using ok by (auto simp: nfc_ndef_msg_parser_memo_resolve_def Let_def split: if_splits)
  have delta: "unat (NFC_NDEF_MSG_PARSER_DELTA abi) = e"
    using e by (simp add: NFC_NDEF_MSG_PARSER_DELTA_def unat_sub word_le_nat_alt)
  have fit: "unat (sizeof_msg_desc abi) + (q + 1) * e \<le> unat len"
  proof -
    have "q * e \<le> unat len - unat (sizeof_msg_1 abi)" by (simp add: q_def)
    then show ?thesis using le e by (simp add: word_le_nat_alt)
  qed
  have "(q + 1) * 1 \<le> (q + 1) * e" using e by (intro mult_le_mono2) simp
  then have "q + 1 \<le> (q + 1) * e" by (simp only: mult_1_right)
  also have "\<dots> < 2 ^ 32" using fit unat_u32_less [of len] by simp
  finally have q: "q + 1 < 2 ^ 32" .
  have mx: "unat mx = q + 1"
    using q le by (simp add: mx_def q_def unat_word_ariths unat_div_distrib unat_sub delta)
  have m: "max_record_count (msg_desc memo) = mx"
    "memo_at memo 0 (replicate (unat (max_record_count (msg_desc memo))) None)"
    and u: "used = sizeof_msg_desc abi + mx * sizeof_rec_ptr abi + mx * sizeof_bin_pay abi +
      mx * sizeof_rec_desc abi"
    using ok by (auto simp: nfc_ndef_msg_parser_memo_resolve_def Let_def mx_def memo_at_def
        split: if_splits)
  have "used = of_nat (unat (sizeof_msg_desc abi) + (q + 1) * e)"
    unfolding u e_def mx [symmetric] by (simp add: algebra_simps)
  then have uu: "unat used = unat (sizeof_msg_desc abi) + (q + 1) * e"
    using fit unat_u32_less [of len] by (simp add: unat_of_nat del: of_nat_add of_nat_mult)
  show "used \<le> len" using uu fit by (simp add: word_le_nat_alt)
  show "memo_at memo 0 (replicate (unat (max_record_count (msg_desc memo))) None)" by (rule m)
  show "0 < max_record_count (msg_desc memo)" using m mx by (simp add: word_less_nat_alt)
  show "unat used = unat (sizeof_msg_desc abi) + unat (max_record_count (msg_desc memo)) *
       (unat (sizeof_rec_ptr abi) + unat (sizeof_bin_pay abi) + unat (sizeof_rec_desc abi))"
    using uu mx m by (simp add: e_def)
  have "unat len - unat (sizeof_msg_1 abi) < Suc q * e"
    using e(1) dividend_less_div_times [of e "unat len - unat (sizeof_msg_1 abi)"] by (simp add: q_def)
  then show "unat len < unat (sizeof_msg_desc abi) + Suc (unat (max_record_count (msg_desc memo))) *
       (unat (sizeof_rec_ptr abi) + unat (sizeof_bin_pay abi) + unat (sizeof_rec_desc abi))"
    unfolding e_def [symmetric] using mx m(1) e(2) by simp
qed

text \<open>
  A parsed record stands for an encoded one when its header fields and the bytes its pointers
  refer to are those of the original (the parser turns the reserved TNF into the unknown one).
\<close>

definition same_record :: "nfc_ndef_record_desc \<Rightarrow> u8 list \<Rightarrow> nfc_ndef_record_desc \<Rightarrow> bool" where
  "same_record r pay r' \<longleftrightarrow> record_wf r' \<and>
     tnf r' = (if tnf r = TNF_RESERVED then TNF_UNKNOWN_TYPE else tnf r) \<and>
     record_type r' = record_type r \<and> record_id r' = record_id r \<and>
     (\<exists>pd. payload_constructor r' = Some (BIN_PAYLOAD pd) \<and> bin_ok pd \<and> bin_bytes pd = pay)"

lemma same_parsed_record:
  assumes wf: "record_wf r" and len: "length pay < 2 ^ 32"
  shows "same_record r pay (parsed_record r pay rest)"
proof -
  have l: "length (record_type r) = unat (type_length r)" "length (record_id r) = unat (id_length r)"
    using wf by simp_all
  have "record_type (parsed_record r pay rest) = record_type r"
    unfolding record_type_def [of "parsed_record r pay rest"]
    using l(1) by (cases "type_length r = 0") (simp_all add: parsed_record_def pbytes_def word_gt_0)
  moreover have "record_id (parsed_record r pay rest) = record_id r"
    unfolding record_id_def [of "parsed_record r pay rest"]
    using l(2) by (cases "id_length r = 0") (simp_all add: parsed_record_def pbytes_def word_gt_0)
  moreover have "bin_ok (parsed_payload pay rest)" "bin_bytes (parsed_payload pay rest) = pay"
    using len by (auto simp: bin_ok_def bin_bytes_def parsed_payload_def readable_def pbytes_def
        unat_of_nat)
  moreover have "record_wf (parsed_record r pay rest)"
    using l by (simp add: record_wf_def parsed_record_def readable_def word_gt_0)
  ultimately show ?thesis
    by (simp add: same_record_def parsed_record_def)
qed

lemma same_parsed_records:
  assumes "\<forall>(r, pay) \<in> set rs. record_wf r" "length (msg_bytes n i rs) < 2 ^ 32"
  shows "list_all2 (\<lambda>(r, pay) r'. same_record r pay r') rs (parsed_records n i rs rest)"
  using assms
proof (induction rs arbitrary: i)
  case (Cons rp rs)
  obtain r pay where "rp = (r, pay)" by (cases rp)
  with Cons show ?case by (auto simp: record_bytes_def intro!: same_parsed_record)
qed simp

lemma same_payload:
  assumes "same_record r pay r'" "pay \<noteq> []"
  obtains pd rest where "payload_constructor r' = Some (BIN_PAYLOAD pd)" "bin_ok pd" "payload pd = Some (pay @ rest)"
    "payload_length pd = of_nat (length pay)" "length pay < 2 ^ 32"
proof -
  from assms(1) obtain pd where pd: "payload_constructor r' = Some (BIN_PAYLOAD pd)" "bin_ok pd" "bin_bytes pd = pay"
    by (auto simp: same_record_def)
  then have u: "unat (payload_length pd) = length pay" by auto
  from pd(2,3) assms(2) obtain b where "payload pd = Some b" "take (unat (payload_length pd)) b = pay"
    by (cases "payload pd") (auto simp: bin_bytes_def pbytes_def)
  then have "payload pd = Some (pay @ drop (unat (payload_length pd)) b)" by (metis append_take_drop_id)
  moreover have "payload_length pd = of_nat (length pay)" unfolding u [symmetric] by simp
  moreover have "length pay < 2 ^ 32" using u unat_u32_less [of "payload_length pd"] by simp
  ultimately show ?thesis using pd(1,2) by (intro that)
qed

lemma same_type:
  assumes "same_record r pay r'" "tnf r = TNF_WELL_KNOWN" "record_type r = ty" "ty \<noteq> []"
  shows "tnf r' = TNF_WELL_KNOWN" "unat (type_length r') = length ty" "memcpy_src (type_ptr r') (length ty) = Ok ty"
proof -
  from assms have wf: "record_wf r'" and t: "record_type r' = ty" by (simp_all add: same_record_def)
  show "tnf r' = TNF_WELL_KNOWN" using assms(1,2) by (simp add: same_record_def)
  show u: "unat (type_length r') = length ty" unfolding t [symmetric] using wf by simp
  have "memcpy_src (type_ptr r') (unat (type_length r')) = Ok (record_type r')"
    using wf by (simp add: record_wf_def record_type_def memcpy_src_readable)
  then show "memcpy_src (type_ptr r') (length ty) = Ok ty" by (simp only: u t)
qed

lemma msg_parse_bytes:
  assumes bo: "byteorder bo" and abi: "abi_packed abi" and rs: "rs \<noteq> []" "length rs < 2 ^ 32"
    and wf: "\<forall>(r, pay) \<in> set rs. record_wf r"
    and room: "unat (sizeof_msg_desc abi) + length rs *
       (unat (sizeof_rec_ptr abi) + unat (sizeof_bin_pay abi) + unat (sizeof_rec_desc abi)) \<le> unat rlen"
    and len: "length (msg_bytes (length rs) 0 rs) \<le> unat len"
  obtains m' arr used where
    "nfc_ndef_msg_parse bo abi jb jr rlen (msg_bytes (length rs) 0 rs @ rest) len =
       Ok (m', used, of_nat (length (msg_bytes (length rs) 0 rs)))"
    "used \<le> rlen" "record_count m' = of_nat (length rs)"
    "record_array m' = Some (map Some (parsed_records (length rs) 0 rs rest) @ arr)"
proof -
  let ?e = "unat (sizeof_rec_ptr abi) + unat (sizeof_bin_pay abi) + unat (sizeof_rec_desc abi)"
  have "?e \<le> length rs * ?e" using rs(1) by (cases rs) auto
  then have "unat (sizeof_msg_desc abi) + ?e \<le> unat rlen"
    using room by linarith
  then have "\<not> rlen < sizeof_msg_1 abi"
    using abi by (simp add: abi_packed_def Let_def word_less_nat_alt)
  then obtain memo used where res:
    "nfc_ndef_msg_parser_memo_resolve abi jb jr rlen = Ok (memo, used)"
    by (simp add: nfc_ndef_msg_parser_memo_resolve_def Let_def)
  note mr = memo_resolve_Ok [OF abi res]
  let ?max = "unat (max_record_count (msg_desc memo))"
  have "length rs * ?e < Suc ?max * ?e" using room mr(5) by simp
  then have cap: "length rs \<le> ?max" by (simp only: mult_less_cancel2 less_Suc_eq_le)
  have "0 < length rs" using rs by simp
  from msg_parser_loop_bytes [OF bo wf rs(2), of "replicate ?max None" rs 0 memo len rest]
  obtain memo' where loop: "msg_parser_loop bo memo 0 (msg_bytes (length rs) 0 rs @ rest) len =
      Ok (memo', len - of_nat (length (msg_bytes (length rs) 0 rs)))"
    and at: "memo_at memo' (length rs) (map Some (parsed_records (length rs) 0 rs rest) @
       drop (length rs) (replicate ?max None))"
    using cap mr(2) len \<open>0 < length rs\<close> by auto
  show ?thesis
    using at
    by (intro that [where m' = "msg_desc memo'" and arr = "drop (length rs) (replicate ?max None)",
          OF _ mr(1)])
      (simp_all add: nfc_ndef_msg_parse_def res nfc_ndef_msg_parser_internal_def loop memo_at_def)
qed

text \<open>Encoding a message and parsing what was written.\<close>

lemma msg_transfer:
  assumes bo: "byteorder bo" and abi: "abi_packed abi" and m: "msg_writes bo m rs" and rs: "rs \<noteq> []"
    and fit: "length (msg_bytes (length rs) 0 rs) \<le> unat len" "unat len \<le> length b"
    and room: "unat (sizeof_msg_desc abi) + length rs *
       (unat (sizeof_rec_ptr abi) + unat (sizeof_bin_pay abi) + unat (sizeof_rec_desc abi)) \<le> unat rlen"
  obtains b' n m' used arr extra where
    "nfc_ndef_msg_encode bo u (Some m) (Some b) (Some len) = Ok (Some b', n)"
    "nfc_ndef_msg_parse bo abi jb jr rlen b' len = Ok (m', used, n)" "used \<le> rlen"
    "record_count m' = record_count m" "record_array m' = Some (map Some arr @ extra)"
    "list_all2 (\<lambda>(r, pay) r'. same_record r pay r') rs arr"
proof -
  let ?x = "msg_bytes (length rs) 0 rs"
  have wf: "\<forall>(r, pay) \<in> set rs. record_wf r" and l: "length rs < 2 ^ 32"
    using m by (auto simp: msg_writes_def record_writes_def)
  obtain m' extra used where p:
    "nfc_ndef_msg_parse bo abi jb jr rlen (?x @ drop (length ?x) b) len = Ok (m', used, of_nat (length ?x))"
    "used \<le> rlen" "record_count m' = of_nat (length rs)"
    "record_array m' = Some (map Some (parsed_records (length rs) 0 rs (drop (length ?x) b)) @ extra)"
    by (rule msg_parse_bytes [OF bo abi rs l wf room fit(1)])
  have "length ?x < 2 ^ 32" using fit(1) unat_u32_less [of len] by simp
  from same_parsed_records [OF wf this] msg_written [OF m fit, of u] p m show ?thesis
    by (intro that) (auto simp: msg_writes_def)
qed

section \<open>Any input: the message parser\<close>

lemma record_parse_size_le:
  "nfc_ndef_record_parse bo old data len = Ok (pd, r, loc, n) \<Longrightarrow> n \<le> len"
  unfolding nfc_ndef_record_parse_def rbind_eq_Ok_iff Let_def
  by (elim exE conjE) (auto simp only: prod.case case_prod_beta res.inject prod.inject not_less split: if_splits)

text \<open>
  Whatever the bytes are, the loop accesses only the input and the arrays, and stores at most as
  many records as the arrays hold. A record it stores can be read unless the payload length it
  announces is close to the 32-bit limit.
\<close>

definition parsed_ok :: "nfc_ndef_record_desc \<Rightarrow> bool" where
  "parsed_ok r \<longleftrightarrow> (\<exists>pd. payload_constructor r = Some (BIN_PAYLOAD pd) \<and>
     (unat (payload_length pd) + 517 < 2 ^ 32 \<longrightarrow> bin_ok pd \<and> record_wf r))"

abbreviation (input) stored_ok :: "nat \<Rightarrow> nfc_ndef_record_desc option list \<Rightarrow> bool" where
  "stored_ok k arr \<equiv> \<forall>i<k. \<exists>r. arr ! i = Some r \<and> parsed_ok r"

lemma record_parse_parsed_ok:
  assumes "unat len \<le> length data" "nfc_ndef_record_parse bo old data len = Ok (pd, r, loc, n)"
  shows "parsed_ok r"
proof -
  have "payload_constructor r = Some (BIN_PAYLOAD pd)"
    using assms(2) unfolding nfc_ndef_record_parse_def rbind_eq_Ok_iff Let_def
    by (elim exE conjE) (auto simp: case_prod_beta split: if_splits)
  then show ?thesis using record_parse_in_bounds [OF assms] by (auto simp: parsed_ok_def)
qed

definition memo_stored :: "nfc_ndef_parser_memo_desc \<Rightarrow> nat \<Rightarrow> bool" where
  "memo_stored memo n \<longleftrightarrow> (\<exists>k arr. memo_at memo k arr \<and> 0 < k \<and> length arr = n \<and> stored_ok k arr)"

lemma msg_parser_loop_safe:
  "memo_at memo k arr \<Longrightarrow> k < length arr \<Longrightarrow> unat left \<le> length data \<Longrightarrow> stored_ok k arr \<Longrightarrow>
   msg_parser_loop bo memo k data left \<noteq> Fault \<and>
   (\<forall>memo' left'. msg_parser_loop bo memo k data left = Ok (memo', left') \<longrightarrow>
      left' \<le> left \<and> memo_stored memo' (length arr))"
proof (induction bo memo k data left arbitrary: arr rule: msg_parser_loop.induct)
  case (1 bo memo k data left)
  note at = "1.prems"(1) and k = "1.prems"(2) and len = "1.prems"(3)
  have arrs: "k < length (bin_pay_array memo)" "k < length (rec_array memo)"
    using at k by (auto simp: memo_at_def)
  show ?case
  proof (cases "0 < left \<and> (\<exists>q. nfc_ndef_record_parse bo (rec_array memo ! k) data left = Ok q)")
    case False
    then have "\<exists>e. msg_parser_loop bo memo k data left = Err e"
      using arrs record_parse_not_Fault [OF len, of bo "rec_array memo ! k"]
      by (subst msg_parser_loop.simps)
        (cases "nfc_ndef_record_parse bo (rec_array memo ! k) data left"; auto)
    then show ?thesis by auto
  next
    case True
    then obtain pd r loc n where pos: "0 < left"
      and ok: "nfc_ndef_record_parse bo (rec_array memo ! k) data left = Ok (pd, r, loc, n)"
      by auto
    have n: "n \<le> left" using record_parse_size_le [OF ok] .
    have st: "stored_ok (Suc k) (arr[k := Some r])"
      using "1.prems"(4) record_parse_parsed_ok [OF len ok] k by (simp add: nth_list_update less_Suc_eq)
    obtain m where add: "nfc_ndef_msg_record_add (msg_desc memo) (Some r) = Ok m"
      and at': "memo_at (memo\<lparr>msg_desc := m, bin_pay_array := (bin_pay_array memo)[k := pd],
                  rec_array := (rec_array memo)[k := r]\<rparr>) (Suc k) (arr[k := Some r])"
      and m: "max_record_count m = max_record_count (msg_desc memo)" "record_count m = of_nat (Suc k)"
      using at k by (rule memo_at_add [where r = r and pd = pd])
    let ?memo = "memo\<lparr>msg_desc := m, bin_pay_array := (bin_pay_array memo)[k := pd],
                  rec_array := (rec_array memo)[k := r]\<rparr>"
    let ?bad = "if record_count (msg_desc memo) = 0
         then loc \<noteq> NDEF_FIRST_RECORD \<and> loc \<noteq> NDEF_LONE_RECORD
         else loc \<noteq> NDEF_MIDDLE_RECORD \<and> loc \<noteq> NDEF_LAST_RECORD"
    have le: "left - n \<le> left" using n by (metis word_sub_le)
    have un: "unat (left - n) = unat left - unat n" using n by (simp add: unat_sub)
    have unfold: "msg_parser_loop bo memo k data left =
      (if ?bad then Err EFAULT
       else if loc = NDEF_LAST_RECORD \<or> loc = NDEF_LONE_RECORD then Ok (?memo, left - n)
       else if record_count m = max_record_count m then Err ENOMEM
       else msg_parser_loop bo ?memo (Suc k) (drop (unat n) data) (left - n))"
      using pos arrs ok add by (subst msg_parser_loop.simps) (simp add: Let_def)
    show ?thesis
    proof (cases "?bad \<or> loc = NDEF_LAST_RECORD \<or> loc = NDEF_LONE_RECORD \<or> record_count m = max_record_count m")
      case True
      then have "(\<exists>e. msg_parser_loop bo memo k data left = Err e) \<or>
          msg_parser_loop bo memo k data left = Ok (?memo, left - n)"
        unfolding unfold by auto
      moreover have "memo_stored ?memo (length arr)"
        unfolding memo_stored_def using at' st by (intro exI [of _ "Suc k"] exI [of _ "arr[k := Some r]"]) simp
      ultimately show ?thesis using le by auto
    next
      case False
      have at1: "memo_at ?memo (k + 1) (arr[k := Some r])" using at' by simp
      have l1: "k + 1 < length (arr[k := Some r])"
      proof (rule ccontr)
        assume "\<not> k + 1 < length (arr[k := Some r])"
        then have "Suc k = unat (max_record_count m)" using k at m by (simp add: memo_at_def)
        then have "record_count m = max_record_count m"
          using m unat_u32_less [of "max_record_count m"] by (simp add: word_unat_eq_iff unat_of_nat del: of_nat_Suc)
        then show False using False by simp
      qed
      have l2: "unat (left - n) \<le> length (drop (unat n) data)" using un len by simp
      have nb: "\<not> ?bad" "\<not> (loc = NDEF_LAST_RECORD \<or> loc = NDEF_LONE_RECORD)"
        "record_count m \<noteq> max_record_count m"
        using False by auto
      have IH: "msg_parser_loop bo ?memo (Suc k) (drop (unat n) data) (left - n) \<noteq> Fault \<and>
        (\<forall>memo' left'. msg_parser_loop bo ?memo (Suc k) (drop (unat n) data) (left - n) = Ok (memo', left') \<longrightarrow>
          left' \<le> left - n \<and> memo_stored memo' (length arr))"
        using "1.IH" [OF pos conjI [OF arrs] nb(1) add refl refl nb(2,3) at1 l1 l2] st by simp
      have "msg_parser_loop bo memo k data left =
          msg_parser_loop bo ?memo (Suc k) (drop (unat n) data) (left - n)"
        unfolding unfold if_not_P [OF nb(1)] if_not_P [OF nb(2)] if_not_P [OF nb(3)] by (rule refl)
      then show ?thesis
        using IH le by (auto intro: order_trans)
    qed
  qed
qed

lemma memo_stored_count:
  assumes "memo_stored memo n"
  shows "0 < record_count (msg_desc memo)"
    "record_count (msg_desc memo) \<le> max_record_count (msg_desc memo)"
proof -
  from assms obtain k arr where at: "memo_at memo k arr" "0 < k" by (auto simp: memo_stored_def)
  then have "unat (of_nat k :: u32) = k"
    using unat_u32_less [of "max_record_count (msg_desc memo)"] by (simp add: memo_at_def unat_of_nat)
  then have "unat (record_count (msg_desc memo)) = k" using at by (simp add: memo_at_def)
  then show "0 < record_count (msg_desc memo)"
    "record_count (msg_desc memo) \<le> max_record_count (msg_desc memo)"
    using at by (simp_all add: memo_at_def word_less_nat_alt word_le_nat_alt del: unat_gt_0)
qed

section \<open>Theorems\<close>

text \<open>
  C27. Parsing any bytes as a record reads only inside the given length. Unless the announced
  payload length is within 517 bytes of the 32-bit limit, an accepted record consumes at least
  three and at most the available bytes, and its type, identifier and payload lie inside the
  buffer.
\<close>

theorem record_parse_safe:
  assumes "unat len \<le> length data"
  shows "nfc_ndef_record_parse bo old data len \<noteq> Fault \<and>
    (\<forall>pd r loc n. nfc_ndef_record_parse bo old data len = Ok (pd, r, loc, n) \<longrightarrow>
       unat (payload_length pd) + 517 < 2 ^ 32 \<longrightarrow>
       bin_ok pd \<and> record_wf r \<and> n \<le> len \<and> 3 \<le> unat n)"
  using record_parse_not_Fault [OF assms] record_parse_in_bounds [OF assms] by blast

theorem record_parse_safe_witness:
  "nfc_ndef_record_parse byteorder_ref (plain_record []) [0xD5, 0, 2, 7] 4 \<noteq> Fault \<and>
   nfc_ndef_record_parse byteorder_ref (plain_record []) [0xD5, 0, 2, 7] 4 = Err EINVAL"
  using record_parse_safe [of 4 "[0xD5, 0, 2, 7]" byteorder_ref "plain_record []"]
  by (simp add: nfc_ndef_record_parse_def record_parse_lengths_def rd_def Let_def)

text \<open>
  C38. The sum of the field sizes is a 32-bit sum. A long record that announces a payload of
  4294967295 bytes makes it wrap to 5: the record is accepted although the payload it describes
  lies far outside the buffer.
\<close>

theorem record_parse_overflow:
  assumes bo: "byteorder bo" and len: "6 \<le> unat len" and rest: "length rest < 4294967295"
  shows "\<exists>pd r. nfc_ndef_record_parse bo old ([0xC5, 0, 0xFF, 0xFF, 0xFF, 0xFF] @ rest) len =
      Ok (pd, r, NDEF_LONE_RECORD, 5) \<and> payload_length pd = 0xFFFFFFFF \<and> \<not> bin_ok pd"
proof -
  let ?d = "[0xC5, 0, 0xFF, 0xFF, 0xFF, 0xFF] @ rest"
  have "be32_at bo ?d 2 = Ok 0xFFFFFFFF"
    unfolding byteorder.be32_at_Ok_iff [OF bo] by (simp add: be_bytes_4)
  moreover have "\<not> len < 3" "\<not> len < 6" "\<not> len < 4294967301"
    using len by (simp_all add: word_less_nat_alt)
  ultimately have "nfc_ndef_record_parse bo old ?d len =
      Ok (\<lparr>payload = Some rest, payload_length = 0xFFFFFFFF\<rparr>,
        \<lparr>tnf = TNF_UNKNOWN_TYPE, id_length = 0, id_ptr = None, type_length = 0, type_ptr = None,
         payload_constructor = Some (BIN_PAYLOAD \<lparr>payload = Some rest, payload_length = 0xFFFFFFFF\<rparr>)\<rparr>,
        NDEF_LONE_RECORD, 5)"
    by (simp add: nfc_ndef_record_parse_def record_parse_lengths_def rd_def Let_def tnf_of_def location_defs)
  moreover have "\<not> bin_ok \<lparr>payload = Some rest, payload_length = 0xFFFFFFFF\<rparr>"
    using rest by (simp add: bin_ok_def readable_def)
  ultimately show ?thesis by auto
qed

theorem record_parse_overflow_witness:
  "\<exists>pd r. nfc_ndef_record_parse byteorder_ref (plain_record []) [0xC5, 0, 0xFF, 0xFF, 0xFF, 0xFF] 6 =
      Ok (pd, r, NDEF_LONE_RECORD, 5) \<and> payload_length pd = 0xFFFFFFFF \<and> \<not> bin_ok pd"
  using record_parse_overflow [OF ref.byteorder_axioms, of 6 "[]" "plain_record []"] by simp

lemma msg_parse_in_bounds:
  assumes abi: "abi_packed abi" and len: "unat len \<le> length data"
  shows "nfc_ndef_msg_parse bo abi jb jr rlen data len \<noteq> Fault \<and>
    (\<forall>m used parsed. nfc_ndef_msg_parse bo abi jb jr rlen data len = Ok (m, used, parsed) \<longrightarrow>
       used \<le> rlen \<and> parsed \<le> len \<and> 0 < record_count m \<and> record_count m \<le> max_record_count m)"
proof (cases "nfc_ndef_msg_parser_memo_resolve abi jb jr rlen")
  case (Ok p)
  then obtain memo used where res: "nfc_ndef_msg_parser_memo_resolve abi jb jr rlen = Ok (memo, used)"
    by (cases p) auto
  note mr = memo_resolve_Ok [OF abi res]
  have "0 < length (replicate (unat (max_record_count (msg_desc memo))) (None :: nfc_ndef_record_desc option))"
    using mr(3) by (simp add: word_less_nat_alt)
  note safe = msg_parser_loop_safe [OF mr(2) this len, of bo, simplified]
  show ?thesis
  proof (cases "msg_parser_loop bo memo 0 data len")
    case (Ok q)
    then obtain memo' left where q: "msg_parser_loop bo memo 0 data len = Ok (memo', left)"
      by (cases q) auto
    with safe have "left \<le> len" "memo_stored memo' (unat (max_record_count (msg_desc memo)))"
      by auto
    then show ?thesis
      using q res mr(1) memo_stored_count [of memo'] word_sub_le [of left len]
      by (auto simp: nfc_ndef_msg_parse_def nfc_ndef_msg_parser_internal_def)
  qed (use safe res in \<open>simp_all add: nfc_ndef_msg_parse_def nfc_ndef_msg_parser_internal_def\<close>)
qed (simp_all add: nfc_ndef_msg_parse_def nfc_ndef_msg_parser_memo_resolve_def Let_def split: if_splits)

lemma msg_parse_records:
  assumes abi: "abi_packed abi" and len: "unat len \<le> length data"
    and ok: "nfc_ndef_msg_parse bo abi jb jr rlen data len = Ok (m, used, parsed)"
  obtains recs where "record_array m = Some recs" "unat (record_count m) \<le> length recs" "stored_ok (unat (record_count m)) recs"
proof -
  from ok obtain memo memo' left where res: "nfc_ndef_msg_parser_memo_resolve abi jb jr rlen = Ok (memo, used)"
    and q: "msg_parser_loop bo memo 0 data len = Ok (memo', left)" and m: "m = msg_desc memo'"
    by (auto simp: nfc_ndef_msg_parse_def nfc_ndef_msg_parser_internal_def rbind_eq_Ok_iff)
  note mr = memo_resolve_Ok [OF abi res]
  have "0 < length (replicate (unat (max_record_count (msg_desc memo))) (None :: nfc_ndef_record_desc option))"
    using mr(3) by (simp add: word_less_nat_alt)
  from msg_parser_loop_safe [OF mr(2) this len, of bo] q obtain k arr where
    k: "memo_at memo' k arr" "stored_ok k arr" by (auto simp: memo_stored_def)
  then have "unat (record_count m) = k" "k \<le> length arr"
    using unat_u32_less [of "max_record_count (msg_desc memo')"] by (simp_all add: m memo_at_def unat_of_nat)
  with k show ?thesis by (intro that [of arr]) (simp_all add: m memo_at_def)
qed

text \<open>The sizes on a 32-bit target.\<close>

text \<open>
  C12. Parsing any bytes as a message terminates without reading outside the input or writing
  outside the result buffer: the layout of the result fits the buffer, the consumed length does
  not exceed the input, and between one record and the capacity is stored.
\<close>

theorem msg_parse_safe:
  assumes abi: "abi_packed abi" and len: "unat len \<le> length data"
  shows "nfc_ndef_msg_parse bo abi jb jr rlen data len \<noteq> Fault \<and>
    (\<forall>m used parsed. nfc_ndef_msg_parse bo abi jb jr rlen data len = Ok (m, used, parsed) \<longrightarrow>
       used \<le> rlen \<and> parsed \<le> len \<and> 0 < record_count m \<and> record_count m \<le> max_record_count m)"
  by (rule msg_parse_in_bounds [OF assms])

definition abi_32 :: ndef_abi where
  "abi_32 = \<lparr>sizeof_msg_desc = 12, sizeof_rec_ptr = 4, sizeof_bin_pay = 8, sizeof_rec_desc = 28,
     sizeof_msg_1 = 52, sizeof_msg_2 = 92\<rparr>"

lemma abi_32_packed: "abi_packed abi_32"
  by (simp add: abi_packed_def abi_32_def)

theorem msg_parse_safe_witness:
  "abi_packed abi_32 \<and>
   nfc_ndef_msg_parse byteorder_ref abi_32 \<lparr>payload = None, payload_length = 0\<rparr> (plain_record [])
     100 [1, 2, 3] 3 \<noteq> Fault"
  using msg_parse_safe [OF abi_32_packed, of 3 "[1, 2, 3]" byteorder_ref] abi_32_packed by simp

end
