(* ===== verification/NDEF_Payloads.thy ===== *)
theory NDEF_Payloads
  imports NDEF_Msg
begin

unbundle bit_operations_syntax

text \<open>
  The payload constructors of the repository and the descriptor macros that use them:
  \<^verbatim>\<open>text_rec\<close>, \<^verbatim>\<open>uri_rec\<close>, \<^verbatim>\<open>tnep_rec\<close>, \<^verbatim>\<open>launchapp_rec\<close> (\<^verbatim>\<open>subsys/nfc/ndef/*.c\<close> and
  \<^verbatim>\<open>include/nfc/ndef/*.h\<close>), and the messages built from them by \<^verbatim>\<open>uri_msg.c\<close> and
  \<^verbatim>\<open>launchapp_msg.c\<close>. Every constructor is shown to keep the contract \<^theory_text>\<open>payload_encoder\<close>,
  on the descriptors for which it does.
\<close>

section \<open>Record and message descriptors\<close>

definition NFC_NDEF_GENERIC_RECORD_DESC_DEF ::
    "nfc_ndef_record_tnf \<Rightarrow> cptr \<Rightarrow> u8 \<Rightarrow> cptr \<Rightarrow> u8 \<Rightarrow> payload_fn \<Rightarrow> nfc_ndef_record_desc" where
  "NFC_NDEF_GENERIC_RECORD_DESC_DEF tnf_arg id_arg id_len type_arg type_len ctor =
     \<lparr>tnf = tnf_arg, id_length = id_len, id_ptr = id_arg, type_length = type_len,
      type_ptr = type_arg, payload_constructor = Some (PAYLOAD_FN ctor)\<rparr>"

definition NFC_NDEF_RECORD_BIN_DATA_DEF ::
    "nfc_ndef_record_tnf \<Rightarrow> cptr \<Rightarrow> u8 \<Rightarrow> cptr \<Rightarrow> u8 \<Rightarrow> cptr \<Rightarrow> u32 \<Rightarrow> nfc_ndef_record_desc" where
  "NFC_NDEF_RECORD_BIN_DATA_DEF tnf_arg id_arg id_len type_arg type_len payload_arg payload_len =
     \<lparr>tnf = tnf_arg, id_length = id_len, id_ptr = id_arg, type_length = type_len,
      type_ptr = type_arg,
      payload_constructor =
        Some (BIN_PAYLOAD \<lparr>payload = payload_arg, payload_length = payload_len\<rparr>)\<rparr>"

text \<open>The array of pointers of a fresh message is not initialised; a NULL stands for any content.\<close>

definition NFC_NDEF_MSG_DEF :: "u32 \<Rightarrow> nfc_ndef_msg_desc" where
  "NFC_NDEF_MSG_DEF max_record_cnt =
     \<lparr>record_array = Some (replicate (unat max_record_cnt) None),
      max_record_count = max_record_cnt, record_count = 0\<rparr>"

section \<open>Text records\<close>

datatype nfc_ndef_text_rec_utf = UTF_8 | UTF_16

primrec utf_val :: "nfc_ndef_text_rec_utf \<Rightarrow> u8" where
  "utf_val UTF_8 = 0"
| "utf_val UTF_16 = 1"

record nfc_ndef_text_rec_payload =
  utf :: nfc_ndef_text_rec_utf
  lang_code :: cptr
  lang_code_len :: u8
  text_data :: cptr
  text_data_len :: u32

definition nfc_text_rec_payload_size_get :: "nfc_ndef_text_rec_payload \<Rightarrow> u32" where
  "nfc_text_rec_payload_size_get d = 1 + ucast (lang_code_len d) + text_data_len d"

definition nfc_ndef_text_rec_payload_encode ::
    "nfc_ndef_text_rec_payload \<Rightarrow> cptr \<Rightarrow> u32 option \<Rightarrow> (cptr \<times> u32) res" where
  "nfc_ndef_text_rec_payload_encode d buff len =
     (if lang_code_len d = 0 \<or>
         lang_code_len d AND push_bit 6 1 \<noteq> 0 \<or>
         lang_code_len d AND push_bit 7 1 \<noteq> 0 \<or>
         lang_code d = None \<or>
         text_data_len d = 0 \<or>
         text_data d = None \<or>
         len = None
      then Err EINVAL
      else
        let payload_size = nfc_text_rec_payload_size_get d in
        case buff of
          None \<Rightarrow> Ok (None, payload_size)
        | Some b \<Rightarrow>
            if payload_size > the len then Err ENOSR
            else
              rbind (wr b 0 [lang_code_len d + push_bit 7 (utf_val (utf d))]) (\<lambda>b.
              rbind (memcpy_src (lang_code d) (unat (lang_code_len d))) (\<lambda>lc.
              rbind (wr b 1 lc) (\<lambda>b.
              rbind (memcpy_src (text_data d) (unat (text_data_len d))) (\<lambda>tx.
              rbind (wr b (1 + unat (lang_code_len d)) tx) (\<lambda>b.
              Ok (Some b, payload_size)))))))"

abbreviation text_run :: "nfc_ndef_text_rec_payload \<Rightarrow> payload_fn" where
  "text_run d \<equiv> (\<lambda>b n. nfc_ndef_text_rec_payload_encode d b (Some n))"

definition NFC_NDEF_TEXT_RECORD_DESC_DEF :: "nfc_ndef_text_rec_payload \<Rightarrow> nfc_ndef_record_desc" where
  "NFC_NDEF_TEXT_RECORD_DESC_DEF d =
     NFC_NDEF_GENERIC_RECORD_DESC_DEF TNF_WELL_KNOWN None 0 (Some [0x54]) 1 (text_run d)"

section \<open>URI records and messages\<close>

text \<open>The enumeration \<^verbatim>\<open>nfc_ndef_uri_rec_id\<close> is the code byte that is stored.\<close>

type_synonym nfc_ndef_uri_rec_id = u8

definition NFC_URI_NONE :: nfc_ndef_uri_rec_id where "NFC_URI_NONE = 0"

record nfc_ndef_uri_rec_payload =
  uri_id_code :: nfc_ndef_uri_rec_id
  uri_data :: cptr
  uri_data_len :: u16

definition nfc_ndef_uri_rec_payload_encode :: "nfc_ndef_uri_rec_payload \<Rightarrow> payload_fn" where
  "nfc_ndef_uri_rec_payload_encode d buff len =
     rbind (case buff of
              None \<Rightarrow> Ok None
            | Some b \<Rightarrow>
                if ucast (uri_data_len d) \<ge> len then Err ENOMEM
                else rbind (wr b 0 [uri_id_code d]) (\<lambda>b.
                     rbind (memcpy_src (uri_data d) (unat (uri_data_len d))) (\<lambda>xs.
                     rbind (wr b 1 xs) (\<lambda>b. Ok (Some b)))))
       (\<lambda>buff. Ok (buff, ucast (uri_data_len d) + 1))"

definition NFC_NDEF_URI_RECORD_DESC_DEF ::
    "nfc_ndef_uri_rec_id \<Rightarrow> cptr \<Rightarrow> u16 \<Rightarrow> nfc_ndef_record_desc" where
  "NFC_NDEF_URI_RECORD_DESC_DEF code dat n =
     NFC_NDEF_GENERIC_RECORD_DESC_DEF TNF_WELL_KNOWN None 0 (Some [0x55]) 1
       (nfc_ndef_uri_rec_payload_encode \<lparr>uri_id_code = code, uri_data = dat, uri_data_len = n\<rparr>)"

definition nfc_ndef_uri_msg_encode ::
    "byteorder_ops \<Rightarrow> (u32 \<Rightarrow> u32) \<Rightarrow> nfc_ndef_uri_rec_id \<Rightarrow> cptr \<Rightarrow> u16 \<Rightarrow> cptr \<Rightarrow> u32 option \<Rightarrow>
     (cptr \<times> u32) res" where
  "nfc_ndef_uri_msg_encode bo u code dat dlen buf len =
     rbind (nfc_ndef_msg_record_add (NFC_NDEF_MSG_DEF 1)
              (Some (NFC_NDEF_URI_RECORD_DESC_DEF code dat dlen))) (\<lambda>m.
     if dat = None then Err EINVAL
     else nfc_ndef_msg_encode bo u (Some m) buf len)"

section \<open>TNEP records\<close>

record nfc_ndef_tnep_rec_status =
  status :: u8

record nfc_ndef_tnep_rec_svc_select =
  uri_len :: u8
  uri :: cptr

record nfc_ndef_tnep_rec_svc_param =
  version :: u8
  uri_length :: u8
  param_uri :: cptr
  communication_mode :: u8
  min_time :: u8
  max_time_ext :: u8
  max_size :: u16

definition nfc_tnep_calc_size_service_select :: "nfc_ndef_tnep_rec_svc_select \<Rightarrow> u32" where
  "nfc_tnep_calc_size_service_select d = (if uri_len d \<noteq> 0 then ucast (uri_len d) + 1 else 0)"

definition nfc_tnep_calc_size_service_param :: "nfc_ndef_tnep_rec_svc_param \<Rightarrow> u32" where
  "nfc_tnep_calc_size_service_param d = (if uri_length d \<noteq> 0 then ucast (uri_length d) + 7 else 0)"

definition nfc_ndef_tnep_rec_status_payload ::
    "nfc_ndef_tnep_rec_status option \<Rightarrow> cptr \<Rightarrow> u32 option \<Rightarrow> (cptr \<times> u32) res" where
  "nfc_ndef_tnep_rec_status_payload payload_desc buffer len =
     (case (payload_desc, len) of
        (Some d, Some n) \<Rightarrow>
          let payload_size = 1 in
          (case buffer of
             None \<Rightarrow> Ok (None, payload_size)
           | Some b \<Rightarrow>
               if payload_size > n then Err ENOSR
               else rbind (wr b 0 [status d]) (\<lambda>b. Ok (Some b, payload_size)))
      | _ \<Rightarrow> Err EINVAL)"

definition nfc_ndef_tnep_rec_svc_select_payload ::
    "nfc_ndef_tnep_rec_svc_select option \<Rightarrow> cptr \<Rightarrow> u32 option \<Rightarrow> (cptr \<times> u32) res" where
  "nfc_ndef_tnep_rec_svc_select_payload payload_desc buffer len =
     (case (payload_desc, len) of
        (Some d, Some n) \<Rightarrow>
          let payload_size = nfc_tnep_calc_size_service_select d in
          (case buffer of
             None \<Rightarrow> Ok (None, payload_size)
           | Some b \<Rightarrow>
               if payload_size > n then Err ENOSR
               else
                 rbind (wr b 0 [uri_len d]) (\<lambda>b.
                 rbind (memcpy_src (uri d) (unat (uri_len d))) (\<lambda>xs.
                 rbind (wr b 1 xs) (\<lambda>b. Ok (Some b, payload_size)))))
      | _ \<Rightarrow> Err EINVAL)"

definition nfc_ndef_tnep_rec_svc_param_payload ::
    "byteorder_ops \<Rightarrow> nfc_ndef_tnep_rec_svc_param \<Rightarrow> cptr \<Rightarrow> u32 option \<Rightarrow> (cptr \<times> u32) res" where
  "nfc_ndef_tnep_rec_svc_param_payload bo d buffer len =
     (if version d = 0 \<or> uri_length d = 0 \<or> param_uri d = None \<or> len = None then Err EINVAL
      else
        let payload_size = nfc_tnep_calc_size_service_param d in
        case buffer of
          None \<Rightarrow> Ok (None, payload_size)
        | Some b \<Rightarrow>
            if payload_size > the len then Err ENOSR
            else
              let p = 2 + unat (uri_length d) in
              rbind (wr b 0 [version d]) (\<lambda>b.
              rbind (wr b 1 [uri_length d]) (\<lambda>b.
              rbind (memcpy_src (param_uri d) (unat (uri_length d))) (\<lambda>xs.
              rbind (wr b 2 xs) (\<lambda>b.
              rbind (wr b p [communication_mode d]) (\<lambda>b.
              rbind (wr b (p + 1) [min_time d]) (\<lambda>b.
              rbind (wr b (p + 2) [max_time_ext d]) (\<lambda>b.
              rbind (wr b (p + 3) (sys_put_be16 bo (max_size d))) (\<lambda>b.
              Ok (Some b, payload_size))))))))))"

abbreviation status_run :: "nfc_ndef_tnep_rec_status \<Rightarrow> payload_fn" where
  "status_run d \<equiv> (\<lambda>b n. nfc_ndef_tnep_rec_status_payload (Some d) b (Some n))"

abbreviation select_run :: "nfc_ndef_tnep_rec_svc_select \<Rightarrow> payload_fn" where
  "select_run d \<equiv> (\<lambda>b n. nfc_ndef_tnep_rec_svc_select_payload (Some d) b (Some n))"

abbreviation param_run :: "byteorder_ops \<Rightarrow> nfc_ndef_tnep_rec_svc_param \<Rightarrow> payload_fn" where
  "param_run bo d \<equiv> (\<lambda>b n. nfc_ndef_tnep_rec_svc_param_payload bo d b (Some n))"

definition NFC_TNEP_STATUS_RECORD_DESC_DEF :: "u8 \<Rightarrow> nfc_ndef_record_desc" where
  "NFC_TNEP_STATUS_RECORD_DESC_DEF st =
     NFC_NDEF_GENERIC_RECORD_DESC_DEF TNF_WELL_KNOWN None 0 (Some [0x54, 0x65]) 2
       (status_run \<lparr>status = st\<rparr>)"

definition NFC_TNEP_SERIVCE_SELECT_RECORD_DESC_DEF :: "u8 \<Rightarrow> cptr \<Rightarrow> nfc_ndef_record_desc" where
  "NFC_TNEP_SERIVCE_SELECT_RECORD_DESC_DEF n u =
     NFC_NDEF_GENERIC_RECORD_DESC_DEF TNF_WELL_KNOWN None 0 (Some [0x54, 0x73]) 2
       (select_run \<lparr>uri_len = n, uri = u\<rparr>)"

definition NFC_TNEP_SERIVCE_PARAM_RECORD_DESC_DEF ::
    "byteorder_ops \<Rightarrow> nfc_ndef_tnep_rec_svc_param \<Rightarrow> nfc_ndef_record_desc" where
  "NFC_TNEP_SERIVCE_PARAM_RECORD_DESC_DEF bo d =
     NFC_NDEF_GENERIC_RECORD_DESC_DEF TNF_WELL_KNOWN None 0 (Some [0x54, 0x70]) 2
       (param_run bo d)"

section \<open>Launch App messages\<close>

text \<open>The type \<^verbatim>\<open>android.com:pkg\<close>.\<close>

definition ndef_android_launchapp_rec_type :: "u8 list" where
  "ndef_android_launchapp_rec_type =
     [0x61, 0x6E, 0x64, 0x72, 0x6F, 0x69, 0x64, 0x2E, 0x63, 0x6F, 0x6D, 0x3A, 0x70, 0x6B, 0x67]"

definition NFC_NDEF_ANDROID_LAUNCHAPP_RECORD_DESC_DEF :: "cptr \<Rightarrow> u32 \<Rightarrow> nfc_ndef_record_desc" where
  "NFC_NDEF_ANDROID_LAUNCHAPP_RECORD_DESC_DEF package_name package_name_length =
     NFC_NDEF_RECORD_BIN_DATA_DEF TNF_EXTERNAL_TYPE None 0
       (Some ndef_android_launchapp_rec_type) (of_nat (length ndef_android_launchapp_rec_type))
       package_name package_name_length"

text \<open>The 32-bit length of the link is stored in the 16-bit length of the URI descriptor.\<close>

definition nfc_launchapp_msg_encode ::
    "byteorder_ops \<Rightarrow> (u32 \<Rightarrow> u32) \<Rightarrow> cptr \<Rightarrow> u32 \<Rightarrow> cptr \<Rightarrow> u32 \<Rightarrow> cptr \<Rightarrow> u32 option \<Rightarrow>
     (cptr \<times> u32) res" where
  "nfc_launchapp_msg_encode bo u android_package_name android_package_name_len
       universal_link universal_link_len buf len =
     (let m = NFC_NDEF_MSG_DEF 2;
          app = NFC_NDEF_ANDROID_LAUNCHAPP_RECORD_DESC_DEF android_package_name
                  android_package_name_len;
          link = NFC_NDEF_URI_RECORD_DESC_DEF NFC_URI_NONE universal_link (ucast universal_link_len) in
      rbind (if universal_link \<noteq> None then nfc_ndef_msg_record_add m (Some link) else Ok m) (\<lambda>m.
      rbind (if android_package_name \<noteq> None then nfc_ndef_msg_record_add m (Some app) else Ok m) (\<lambda>m.
      if record_count m = 0 then Err EINVAL
      else nfc_ndef_msg_encode bo u (Some m) buf len)))"

section \<open>The constructors keep the payload contract\<close>

definition text_ok :: "nfc_ndef_text_rec_payload \<Rightarrow> bool" where
  "text_ok d \<longleftrightarrow> lang_code_len d \<noteq> 0 \<and> lang_code_len d AND 0xC0 = 0 \<and> text_data_len d \<noteq> 0 \<and>
     readable (lang_code d) (unat (lang_code_len d)) \<and>
     readable (text_data d) (unat (text_data_len d)) \<and>
     1 + unat (lang_code_len d) + unat (text_data_len d) < 2 ^ 32"

definition text_bytes :: "nfc_ndef_text_rec_payload \<Rightarrow> u8 list" where
  "text_bytes d = (lang_code_len d + push_bit 7 (utf_val (utf d))) #
     pbytes (lang_code d) (unat (lang_code_len d)) @ pbytes (text_data d) (unat (text_data_len d))"

definition uri_ok :: "nfc_ndef_uri_rec_payload \<Rightarrow> bool" where
  "uri_ok d \<longleftrightarrow> readable (uri_data d) (unat (uri_data_len d))"

definition uri_bytes :: "nfc_ndef_uri_rec_payload \<Rightarrow> u8 list" where
  "uri_bytes d = uri_id_code d # pbytes (uri_data d) (unat (uri_data_len d))"

definition select_ok :: "nfc_ndef_tnep_rec_svc_select \<Rightarrow> bool" where
  "select_ok d \<longleftrightarrow> uri_len d \<noteq> 0 \<and> readable (uri d) (unat (uri_len d))"

definition select_bytes :: "nfc_ndef_tnep_rec_svc_select \<Rightarrow> u8 list" where
  "select_bytes d = uri_len d # pbytes (uri d) (unat (uri_len d))"

definition param_ok :: "nfc_ndef_tnep_rec_svc_param \<Rightarrow> bool" where
  "param_ok d \<longleftrightarrow> version d \<noteq> 0 \<and> uri_length d \<noteq> 0 \<and> readable (param_uri d) (unat (uri_length d))"

definition param_bytes :: "nfc_ndef_tnep_rec_svc_param \<Rightarrow> u8 list" where
  "param_bytes d = [version d, uri_length d] @ pbytes (param_uri d) (unat (uri_length d)) @
     [communication_mode d, min_time d, max_time_ext d] @ be_bytes 2 (unat (max_size d))"

lemma readable_not_NULL: "readable p (unat n) \<Longrightarrow> n \<noteq> 0 \<Longrightarrow> p \<noteq> None"
  by (auto simp: readable_def unat_eq_0)

lemma wr_end: "length pre = i \<Longrightarrow> length xs \<le> length b \<Longrightarrow>
    wr (pre @ b) i xs = Ok (pre @ xs @ drop (length xs) b)"
  by (simp add: wr_def)

lemma mask_C0_bits:
  fixes x :: u8
  assumes "x AND 0xC0 = 0"
  shows "x AND 64 = 0" "x AND 128 = 0"
proof -
  have "x AND m = (x AND 0xC0) AND m" if "0xC0 AND m = m" for m
    using that by (metis and.assoc)
  from this [of 64] this [of 128] show "x AND 64 = 0" "x AND 128 = 0"
    using assms by simp_all
qed

lemma length_text_bytes:
  "text_ok d \<Longrightarrow> length (text_bytes d) = 1 + unat (lang_code_len d) + unat (text_data_len d)"
  by (simp add: text_ok_def text_bytes_def)

lemma text_bytes_less: "text_ok d \<Longrightarrow> length (text_bytes d) < 2 ^ 32"
  by (frule length_text_bytes) (simp add: text_ok_def)

lemma text_size:
  assumes "text_ok d"
  shows "nfc_text_rec_payload_size_get d = of_nat (length (text_bytes d))"
    "unat (nfc_text_rec_payload_size_get d) = length (text_bytes d)"
proof -
  show e: "nfc_text_rec_payload_size_get d = of_nat (length (text_bytes d))"
    unfolding length_text_bytes [OF assms] by (simp add: nfc_text_rec_payload_size_get_def)
  show "unat (nfc_text_rec_payload_size_get d) = length (text_bytes d)"
    unfolding e using text_bytes_less [OF assms] by (simp add: unat_of_nat)
qed

interpretation text_pl: payload_encoder text_run text_bytes text_ok ENOSR
proof
  fix d :: nfc_ndef_text_rec_payload and n :: u32 and b :: "u8 list"
  assume ok: "text_ok d"
  then have args: "lang_code_len d \<noteq> 0" "lang_code_len d AND 64 = 0" "lang_code_len d AND 128 = 0"
    "text_data_len d \<noteq> 0" "lang_code d \<noteq> None" "text_data d \<noteq> None"
    by (auto simp: text_ok_def mask_C0_bits dest: readable_not_NULL)
  note sz = text_size [OF ok]
  have src: "memcpy_src (lang_code d) (unat (lang_code_len d)) =
      Ok (pbytes (lang_code d) (unat (lang_code_len d)))"
    "memcpy_src (text_data d) (unat (text_data_len d)) =
      Ok (pbytes (text_data d) (unat (text_data_len d)))"
    using ok by (simp_all add: text_ok_def memcpy_src_readable)
  have l: "length (pbytes (lang_code d) (unat (lang_code_len d))) = unat (lang_code_len d)"
    "length (pbytes (text_data d) (unat (text_data_len d))) = unat (text_data_len d)"
    using ok by (simp_all add: text_ok_def)
  show "text_run d None n = Ok (None, of_nat (length (text_bytes d)))"
    using args sz(1) by (simp add: nfc_ndef_text_rec_payload_encode_def Let_def)
  show "length (text_bytes d) < 2 ^ 32"
    using ok by (rule text_bytes_less)
  show "text_run d (Some b) n = Err ENOSR" if "unat n < length (text_bytes d)"
    using args that sz(2) by (simp add: nfc_ndef_text_rec_payload_encode_def Let_def word_less_nat_alt)
  show "text_run d (Some b) n =
      Ok (Some (text_bytes d @ drop (length (text_bytes d)) b), of_nat (length (text_bytes d)))"
    if le: "length (text_bytes d) \<le> unat n" "unat n \<le> length b"
  proof -
    have "\<not> n < nfc_text_rec_payload_size_get d"
      using le sz(2) by (simp add: word_less_nat_alt)
    moreover from le length_text_bytes [OF ok]
    have "sum_list [1, unat (lang_code_len d), unat (text_data_len d)] \<le> length b"
      by simp
    from chop_fields [OF this] obtain a0 x y r where
      "b = a0 # x @ y @ r" "length x = unat (lang_code_len d)" "length y = unat (text_data_len d)"
      by (auto simp: map_eq_Cons_conv length_Suc_conv)
    ultimately show ?thesis
      using args sz(1) src l
      by (simp add: nfc_ndef_text_rec_payload_encode_def Let_def wr_def text_bytes_def)
  qed
qed

lemma unat_uri_size: "unat (ucast (n :: u16) + 1 :: u32) = Suc (unat n)"
  using unat_u16_less [of n]
  by (simp add: unat_word_ariths unsigned_ucast_eq take_bit_nat_eq_self)

interpretation uri_pl: payload_encoder nfc_ndef_uri_rec_payload_encode uri_bytes uri_ok ENOMEM
proof
  fix d :: nfc_ndef_uri_rec_payload and n :: u32 and b :: "u8 list"
  assume ok: "uri_ok d"
  have l: "length (pbytes (uri_data d) (unat (uri_data_len d))) = unat (uri_data_len d)"
    and src: "memcpy_src (uri_data d) (unat (uri_data_len d)) =
      Ok (pbytes (uri_data d) (unat (uri_data_len d)))"
    using ok by (simp_all add: uri_ok_def memcpy_src_readable)
  then have len: "length (uri_bytes d) = Suc (unat (uri_data_len d))"
    by (simp add: uri_bytes_def)
  have sz: "of_nat (length (uri_bytes d)) = (ucast (uri_data_len d) + 1 :: u32)"
    unfolding len by simp
  have cmp: "n \<le> ucast (uri_data_len d) \<longleftrightarrow> unat n < length (uri_bytes d)"
    using unat_u16_less [of "uri_data_len d"] len
    by (simp add: word_le_nat_alt unsigned_ucast_eq take_bit_nat_eq_self less_Suc_eq_le)
  show "nfc_ndef_uri_rec_payload_encode d None n = Ok (None, of_nat (length (uri_bytes d)))"
    by (simp add: nfc_ndef_uri_rec_payload_encode_def sz)
  show "length (uri_bytes d) < 2 ^ 32"
    using len unat_u16_less [of "uri_data_len d"] by simp
  show "nfc_ndef_uri_rec_payload_encode d (Some b) n = Err ENOMEM" if "unat n < length (uri_bytes d)"
    using that cmp by (simp add: nfc_ndef_uri_rec_payload_encode_def)
  show "nfc_ndef_uri_rec_payload_encode d (Some b) n =
      Ok (Some (uri_bytes d @ drop (length (uri_bytes d)) b), of_nat (length (uri_bytes d)))"
    if "length (uri_bytes d) \<le> unat n" "unat n \<le> length b"
    using that cmp src l len sz
    by (simp add: nfc_ndef_uri_rec_payload_encode_def wr_def uri_bytes_def)
qed

interpretation status_pl: payload_encoder status_run "\<lambda>d. [status d]" "\<lambda>_. True" ENOSR
  by unfold_locales
    (simp_all add: nfc_ndef_tnep_rec_status_payload_def Let_def wr_def word_less_nat_alt)

interpretation select_pl: payload_encoder select_run select_bytes select_ok ENOSR
proof
  fix d :: nfc_ndef_tnep_rec_svc_select and n :: u32 and b :: "u8 list"
  assume ok: "select_ok d"
  have l: "length (pbytes (uri d) (unat (uri_len d))) = unat (uri_len d)"
    and src: "memcpy_src (uri d) (unat (uri_len d)) = Ok (pbytes (uri d) (unat (uri_len d)))"
    using ok by (simp_all add: select_ok_def memcpy_src_readable)
  then have len: "length (select_bytes d) = Suc (unat (uri_len d))"
    by (simp add: select_bytes_def)
  have sz: "nfc_tnep_calc_size_service_select d = of_nat (length (select_bytes d))"
    using ok unfolding len by (simp add: nfc_tnep_calc_size_service_select_def select_ok_def)
  have usz: "unat (nfc_tnep_calc_size_service_select d) = length (select_bytes d)"
    unfolding sz using len unat_u8_less [of "uri_len d"] by (simp add: unat_of_nat del: of_nat_Suc)
  show "select_run d None n = Ok (None, of_nat (length (select_bytes d)))"
    by (simp add: nfc_ndef_tnep_rec_svc_select_payload_def Let_def sz)
  show "length (select_bytes d) < 2 ^ 32"
    using len unat_u8_less [of "uri_len d"] by simp
  show "select_run d (Some b) n = Err ENOSR" if "unat n < length (select_bytes d)"
    using that usz by (simp add: nfc_ndef_tnep_rec_svc_select_payload_def Let_def word_less_nat_alt)
  show "select_run d (Some b) n =
      Ok (Some (select_bytes d @ drop (length (select_bytes d)) b), of_nat (length (select_bytes d)))"
    if le: "length (select_bytes d) \<le> unat n" "unat n \<le> length b"
  proof -
    have "\<not> n < nfc_tnep_calc_size_service_select d"
      using le usz by (simp add: word_less_nat_alt)
    then show ?thesis
      using le src l len sz
      by (simp add: nfc_ndef_tnep_rec_svc_select_payload_def Let_def wr_def select_bytes_def)
  qed
qed

sublocale byteorder < param_pl: payload_encoder "param_run bo" param_bytes param_ok ENOSR
proof
  fix d :: nfc_ndef_tnep_rec_svc_param and n :: u32 and b :: "u8 list"
  assume ok: "param_ok d"
  then have args: "version d \<noteq> 0" "uri_length d \<noteq> 0" "param_uri d \<noteq> None"
    by (auto simp: param_ok_def dest: readable_not_NULL)
  have l: "length (pbytes (param_uri d) (unat (uri_length d))) = unat (uri_length d)"
    and src: "memcpy_src (param_uri d) (unat (uri_length d)) =
      Ok (pbytes (param_uri d) (unat (uri_length d)))"
    using ok by (simp_all add: param_ok_def memcpy_src_readable)
  then have len: "length (param_bytes d) = unat (uri_length d) + 7"
    by (simp add: param_bytes_def)
  have sz: "nfc_tnep_calc_size_service_param d = of_nat (length (param_bytes d))"
    using args unfolding len by (simp add: nfc_tnep_calc_size_service_param_def)
  have usz: "unat (nfc_tnep_calc_size_service_param d) = length (param_bytes d)"
    unfolding sz using len unat_u8_less [of "uri_length d"] by (simp add: unat_of_nat del: of_nat_add)
  show "param_run bo d None n = Ok (None, of_nat (length (param_bytes d)))"
    using args by (simp add: nfc_ndef_tnep_rec_svc_param_payload_def Let_def sz)
  show "length (param_bytes d) < 2 ^ 32"
    using len unat_u8_less [of "uri_length d"] by simp
  show "param_run bo d (Some b) n = Err ENOSR" if "unat n < length (param_bytes d)"
    using that args usz
    by (simp add: nfc_ndef_tnep_rec_svc_param_payload_def Let_def word_less_nat_alt)
  show "param_run bo d (Some b) n =
      Ok (Some (param_bytes d @ drop (length (param_bytes d)) b), of_nat (length (param_bytes d)))"
    if le: "length (param_bytes d) \<le> unat n" "unat n \<le> length b"
  proof -
    have "\<not> n < nfc_tnep_calc_size_service_param d"
      using le usz by (simp add: word_less_nat_alt)
    moreover from le len have "sum_list [1, 1, unat (uri_length d), 1, 1, 1, 2] \<le> length b"
      by simp
    from chop_fields [OF this] obtain a0 a1 q c0 c1 c2 e r where
      "b = a0 # a1 # q @ c0 # c1 # c2 # e @ r" "length q = unat (uri_length d)" "length e = 2"
      by (auto simp: map_eq_Cons_conv length_Suc_conv)
    ultimately show ?thesis
      using args src l sz
      by (simp add: nfc_ndef_tnep_rec_svc_param_payload_def Let_def wr_def param_bytes_def put_be16
          drop_Cons' take_Cons')
  qed
qed

text \<open>The last contract for any platform that meets the byte-order contract.\<close>

context byteorder
begin

lemmas axioms_param_pl = param_pl.payload_encoder_axioms

end

section \<open>The messages built from them\<close>

lemma msg_holds_fresh: "msg_holds bo (NFC_NDEF_MSG_DEF n) []"
  by (simp add: msg_holds_def NFC_NDEF_MSG_DEF_def)

lemma max_record_count_fresh [simp]: "max_record_count (NFC_NDEF_MSG_DEF n) = n"
  by (simp add: NFC_NDEF_MSG_DEF_def)

text \<open>The records a message refers to, whatever they encode to.\<close>

definition msg_lists :: "nfc_ndef_msg_desc \<Rightarrow> nfc_ndef_record_desc list \<Rightarrow> bool" where
  "msg_lists m rs \<longleftrightarrow> record_count m = of_nat (length rs) \<and>
     (\<exists>extra. record_array m = Some (map Some rs @ extra) \<and> length rs + length extra = unat (max_record_count m))"

lemma msg_lists_fresh: "msg_lists (NFC_NDEF_MSG_DEF n) []"
  by (simp add: msg_lists_def NFC_NDEF_MSG_DEF_def)

lemma msg_lists_count: "msg_lists m rs \<Longrightarrow> unat (record_count m) = length rs"
  using unat_u32_less [of "max_record_count m"] by (auto simp: msg_lists_def unat_of_nat_u32)

lemma msg_lists_add:
  assumes "msg_lists m rs"
  shows "if length rs < unat (max_record_count m)
    then \<exists>m'. nfc_ndef_msg_record_add m (Some r) = Ok m' \<and> msg_lists m' (rs @ [r]) \<and> max_record_count m' = max_record_count m
    else nfc_ndef_msg_record_add m (Some r) = Err ENOSR"
proof (cases "length rs < unat (max_record_count m)")
  case True
  from assms obtain extra where a: "record_array m = Some (map Some rs @ extra)" "length rs + length extra = unat (max_record_count m)"
    by (auto simp: msg_lists_def)
  with True obtain x ex where x: "extra = x # ex" by (cases extra) auto
  have "nfc_ndef_msg_record_add m (Some r) =
      Ok (m\<lparr>record_array := Some (map Some (rs @ [r]) @ ex), record_count := record_count m + 1\<rparr>)"
    using True a x msg_lists_count [OF assms] by (simp add: nfc_ndef_msg_record_add_def word_le_nat_alt list_update_append)
  with True a x assms show ?thesis by (auto simp: msg_lists_def add.commute)
next
  case False
  with msg_lists_count [OF assms] show ?thesis by (simp add: msg_record_add_full word_le_nat_alt)
qed

lemma msg_lists_writes:
  assumes "msg_lists m (map fst rs)" "\<forall>(r, pay) \<in> set rs. record_writes bo r pay"
  shows "msg_writes bo m rs"
  using assms unat_u32_less [of "max_record_count m"] by (auto simp: msg_lists_def msg_writes_def)

lemma msg_lists_holds:
  assumes "msg_lists m (map fst rs)" "\<forall>(r, pay) \<in> set rs. record_encodes bo r pay"
  shows "msg_holds bo m rs"
  using assms unat_u32_less [of "max_record_count m"] by (auto simp: msg_lists_def msg_holds_def)

text \<open>A message of records that are encoded, or refused, inside the buffer.\<close>

definition msg_total :: "byteorder_ops \<Rightarrow> nfc_ndef_msg_desc \<Rightarrow> bool" where
  "msg_total bo m \<longleftrightarrow> (\<exists>rs. msg_lists m rs \<and> list_all (record_total bo) rs)"

lemma msg_total_encode:
  assumes "msg_total bo m" "unat len \<le> length b"
  shows "encode_total b len (nfc_ndef_msg_encode bo u (Some m) (Some b) (Some len))"
proof -
  from assms(1) obtain rs ex where rs: "msg_lists m rs" "list_all (record_total bo) rs" "record_array m = Some (map Some rs @ ex)"
    by (auto simp: msg_total_def msg_lists_def)
  then have "encode_total b len (msg_encode_loop bo u m (map Some rs @ ex) 0 0 (Some b) len)"
    using msg_lists_count [OF rs(1)] assms(2)
    by (intro msg_encode_loop_total) (auto simp: word_less_nat_alt nth_append list_all_length)
  then show ?thesis by (simp add: nfc_ndef_msg_encode_def rs(3))
qed

lemma msg_total_add:
  assumes "msg_total bo m" "record_total bo r"
  shows "case nfc_ndef_msg_record_add m (Some r) of Ok m' \<Rightarrow> msg_total bo m' | Err e \<Rightarrow> True | Fault \<Rightarrow> False"
proof -
  from assms(1) obtain rs where rs: "msg_lists m rs" "list_all (record_total bo) rs" by (auto simp: msg_total_def)
  have "msg_total bo m'" if "msg_lists m' (rs @ [r])" for m'
    unfolding msg_total_def using that rs(2) assms(2) by (intro exI [of _ "rs @ [r]"]) simp
  with msg_lists_add [OF rs(1), of r] show ?thesis by (auto split: if_splits)
qed

lemma msg_total_fresh: "msg_total bo (NFC_NDEF_MSG_DEF n)"
  unfolding msg_total_def by (intro exI [of _ "[]"]) (simp add: msg_lists_fresh)

lemma msg_total_clear: "msg_total bo m \<Longrightarrow> msg_total bo (nfc_ndef_msg_clear m)"
  unfolding msg_total_def by (intro exI [of _ "[]"]) (auto simp: msg_lists_def nfc_ndef_msg_clear_def)

lemma generic_record_total:
  assumes "payload_encoder run bytes ok nospace" "byteorder bo" "ok d" "t \<noteq> TNF_EMPTY"
    and "readable idp (unat il)" "readable ty (unat tlen)"
  shows "record_total bo (NFC_NDEF_GENERIC_RECORD_DESC_DEF t idp il ty tlen (run d))"
  using assms(2-)
  by (intro payload_encoder.total [OF assms(1)])
    (simp_all add: record_describes_def NFC_NDEF_GENERIC_RECORD_DESC_DEF_def record_wf_def)

lemma generic_record_writes:
  assumes "payload_layout run bytes ok" "byteorder bo" "ok d" "t \<noteq> TNF_EMPTY"
    and "readable idp (unat il)" "readable ty (unat tlen)"
  shows "record_writes bo (NFC_NDEF_GENERIC_RECORD_DESC_DEF t idp il ty tlen (run d)) (bytes d)"
  using assms(2-)
  by (intro payload_layout.record_written [OF assms(1)])
    (simp_all add: record_describes_def NFC_NDEF_GENERIC_RECORD_DESC_DEF_def record_wf_def)

lemma generic_record_encodes:
  assumes "payload_writer run bytes ok" "byteorder bo" "ok d" "t \<noteq> TNF_EMPTY"
    and "readable idp (unat il)" "readable ty (unat tlen)"
  shows "record_encodes bo (NFC_NDEF_GENERIC_RECORD_DESC_DEF t idp il ty tlen (run d)) (bytes d)"
  using assms(2-)
  by (intro payload_writer.encodes [OF assms(1)])
    (simp_all add: record_describes_def NFC_NDEF_GENERIC_RECORD_DESC_DEF_def record_wf_def)

lemma uri_record_encodes:
  assumes "byteorder bo" "readable dat (unat n)"
  shows "record_encodes bo (NFC_NDEF_URI_RECORD_DESC_DEF code dat n) (code # pbytes dat (unat n))"
  using generic_record_encodes [OF uri_pl.payload_writer_axioms assms(1),
      of "\<lparr>uri_id_code = code, uri_data = dat, uri_data_len = n\<rparr>" TNF_WELL_KNOWN None 0 "Some [0x55]" 1]
    assms(2)
  by (simp add: NFC_NDEF_URI_RECORD_DESC_DEF_def uri_ok_def uri_bytes_def readable_def)

lemma launchapp_record_encodes:
  assumes "byteorder bo" "readable dat (unat n)"
  shows "record_encodes bo (NFC_NDEF_ANDROID_LAUNCHAPP_RECORD_DESC_DEF dat n) (pbytes dat (unat n))"
  using bin.encodes [OF assms(1),
      of "NFC_NDEF_ANDROID_LAUNCHAPP_RECORD_DESC_DEF dat n" "\<lparr>payload = dat, payload_length = n\<rparr>"]
    assms(2)
  by (simp add: record_describes_def bin_ok_def bin_bytes_def record_wf_def readable_def
      NFC_NDEF_ANDROID_LAUNCHAPP_RECORD_DESC_DEF_def NFC_NDEF_RECORD_BIN_DATA_DEF_def
      ndef_android_launchapp_rec_type_def)

text \<open>The records of a Launch App message: the link first, then the package name.\<close>

definition launchapp_records ::
    "cptr \<Rightarrow> u32 \<Rightarrow> cptr \<Rightarrow> u32 \<Rightarrow> (nfc_ndef_record_desc \<times> u8 list) list" where
  "launchapp_records pkg pkg_len link link_len =
     (if link \<noteq> None
      then [(NFC_NDEF_URI_RECORD_DESC_DEF NFC_URI_NONE link (ucast link_len),
             NFC_URI_NONE # pbytes link (unat (ucast link_len :: u16)))] else []) @
     (if pkg \<noteq> None
      then [(NFC_NDEF_ANDROID_LAUNCHAPP_RECORD_DESC_DEF pkg pkg_len, pbytes pkg (unat pkg_len))]
      else [])"

lemma launchapp_msg_encode_eq:
  assumes bo: "byteorder bo" and pkg: "pkg \<noteq> None \<Longrightarrow> readable pkg (unat pkg_len)"
    and link: "link \<noteq> None \<Longrightarrow> readable link (unat (ucast link_len :: u16))"
    and some: "pkg \<noteq> None \<or> link \<noteq> None"
  obtains m where "msg_holds bo m (launchapp_records pkg pkg_len link link_len)"
    "nfc_launchapp_msg_encode bo u pkg pkg_len link link_len buf len =
       nfc_ndef_msg_encode bo u (Some m) buf len"
proof -
  let ?link = "NFC_NDEF_URI_RECORD_DESC_DEF NFC_URI_NONE link (ucast link_len)"
  let ?app = "NFC_NDEF_ANDROID_LAUNCHAPP_RECORD_DESC_DEF pkg pkg_len"
  let ?l1 = "if link \<noteq> None then [(?link, NFC_URI_NONE # pbytes link (unat (ucast link_len :: u16)))] else []"
  obtain m1 where m1: "(if link \<noteq> None then nfc_ndef_msg_record_add (NFC_NDEF_MSG_DEF 2) (Some ?link)
      else Ok (NFC_NDEF_MSG_DEF 2)) = Ok m1" "msg_holds bo m1 ?l1" "max_record_count m1 = 2"
  proof (cases "link = None")
    case True
    then show ?thesis
      by (intro that [of "NFC_NDEF_MSG_DEF 2"]) (simp_all add: msg_holds_fresh)
  next
    case False
    have "length ([] :: (nfc_ndef_record_desc \<times> u8 list) list) < unat (max_record_count (NFC_NDEF_MSG_DEF 2))"
      by simp
    from msg_record_add_holds [OF msg_holds_fresh uri_record_encodes [OF bo link [OF False]] this]
    obtain m where "nfc_ndef_msg_record_add (NFC_NDEF_MSG_DEF 2) (Some ?link) = Ok m"
      "msg_holds bo m ([] @ [(?link, NFC_URI_NONE # pbytes link (unat (ucast link_len :: u16)))])"
      "max_record_count m = max_record_count (NFC_NDEF_MSG_DEF 2)"
      by blast
    with False show ?thesis
      by (intro that [of m]) simp_all
  qed
  obtain m where m: "(if pkg \<noteq> None then nfc_ndef_msg_record_add m1 (Some ?app) else Ok m1) = Ok m"
    "msg_holds bo m (launchapp_records pkg pkg_len link link_len)"
  proof (cases "pkg = None")
    case True
    then show ?thesis
      using m1(2) by (intro that [of m1]) (simp_all add: launchapp_records_def)
  next
    case False
    have "length ?l1 < unat (max_record_count m1)" using m1(3) by simp
    from msg_record_add_holds [OF m1(2) launchapp_record_encodes [OF bo pkg [OF False]] this]
    obtain m where "nfc_ndef_msg_record_add m1 (Some ?app) = Ok m"
      "msg_holds bo m (?l1 @ [(?app, pbytes pkg (unat pkg_len))])"
      by blast
    with False show ?thesis
      by (intro that [of m]) (simp_all add: launchapp_records_def)
  qed
  have "record_count m \<noteq> 0"
    using m(2) some by (auto simp: msg_holds_def launchapp_records_def split: if_splits)
  then show ?thesis
    using m m1(1) by (intro that [OF m(2)]) (simp add: nfc_launchapp_msg_encode_def Let_def)
qed

lemma uri_msg_encode_eq:
  assumes bo: "byteorder bo" and "readable (Some dat) (unat n)"
  obtains m where
    "msg_holds bo m [(NFC_NDEF_URI_RECORD_DESC_DEF code (Some dat) n, code # take (unat n) dat)]"
    "nfc_ndef_uri_msg_encode bo u code (Some dat) n buf len = nfc_ndef_msg_encode bo u (Some m) buf len"
proof -
  have "length ([] :: (nfc_ndef_record_desc \<times> u8 list) list) < unat (max_record_count (NFC_NDEF_MSG_DEF 1))"
    by simp
  from msg_record_add_holds [OF msg_holds_fresh uri_record_encodes [OF assms] this]
  obtain m where "nfc_ndef_msg_record_add (NFC_NDEF_MSG_DEF 1)
      (Some (NFC_NDEF_URI_RECORD_DESC_DEF code (Some dat) n)) = Ok m"
    "msg_holds bo m ([] @ [(NFC_NDEF_URI_RECORD_DESC_DEF code (Some dat) n,
       code # pbytes (Some dat) (unat n))])"
    by blast
  then show ?thesis
    by (intro that [of m]) (simp_all add: nfc_ndef_uri_msg_encode_def pbytes_def)
qed

lemma generic_record_bytes:
  "record_bytes (NFC_NDEF_GENERIC_RECORD_DESC_DEF TNF_WELL_KNOWN None 0 (Some ty) tlen ctor) loc pay =
     [loc OR 1, tlen] @ be_bytes 4 (length pay) @ take (unat tlen) ty @ pay"
  by (simp add: record_bytes_def record_flags_def record_type_def record_id_def pbytes_def
      NFC_NDEF_GENERIC_RECORD_DESC_DEF_def)

lemma generic_header_size:
  "unat (record_header_size_calc (NFC_NDEF_GENERIC_RECORD_DESC_DEF TNF_WELL_KNOWN None 0 (Some ty) tlen ctor)) =
     6 + unat tlen"
  by (simp add: unat_record_header_size_calc NFC_NDEF_GENERIC_RECORD_DESC_DEF_def)

text \<open>A record of a well-known type, whatever constructor it uses: the exact result of encoding it.\<close>

lemma well_known_record_encode:
  assumes pe: "payload_encoder run bytes ok nospace" and bo: "byteorder bo" and ok: "ok d"
    and ty: "unat tlen \<le> length ty" and loc: "loc AND NOT 0xC0 = 0" and b: "unat len \<le> length b"
  shows "nfc_ndef_record_encode bo u
      (Some (NFC_NDEF_GENERIC_RECORD_DESC_DEF TNF_WELL_KNOWN None 0 (Some ty) tlen (run d))) loc (Some b) len =
    (let x = [loc OR 1, tlen] @ be_bytes 4 (length (bytes d)) @ take (unat tlen) ty @ bytes d in
     if length x \<le> unat len then Ok (Some (x @ drop (length x) b), of_nat (length x))
     else if unat len < 6 + unat tlen then Err ENOSR else Err nospace)"
proof -
  let ?r = "NFC_NDEF_GENERIC_RECORD_DESC_DEF TNF_WELL_KNOWN None 0 (Some ty) tlen (run d)"
  have d: "record_describes run ok ?r d"
    using ok ty by (simp add: record_describes_def NFC_NDEF_GENERIC_RECORD_DESC_DEF_def record_wf_def readable_def)
  have h: "unat (record_header_size_calc ?r) = 6 + unat tlen" by (rule generic_header_size)
  have hw: "record_header_size_calc ?r = 6 + ucast tlen"
    using h unat_u8_less [of tlen] by (simp add: word_unat_eq_iff unat_word_ariths)
  have lt: "len < record_header_size_calc ?r \<longleftrightarrow> unat len < 6 + unat tlen"
    by (simp add: word_less_nat_alt h)
  define x where "x = [loc OR 1, tlen] @ be_bytes 4 (length (bytes d)) @ take (unat tlen) ty @ bytes d"
  have x: "record_bytes ?r loc (bytes d) = x" by (simp add: generic_record_bytes x_def)
  have lx: "length x = 6 + unat tlen + length (bytes d)" using ty by (simp add: x_def)
  have sz: "record_header_size_calc ?r + of_nat (length (bytes d)) = of_nat (length x)"
    unfolding lx hw by simp
  have "nfc_ndef_record_encode bo u (Some ?r) loc (Some b) len =
      Ok (Some (x @ drop (length x) b), of_nat (length x))" if "length x \<le> unat len"
    using payload_layout.record_encode_fits [OF payload_writer.axioms(1) [OF payload_encoder.axioms(1) [OF pe]] bo d loc _ b] that unfolding h lx x sz by blast
  moreover have "nfc_ndef_record_encode bo u (Some ?r) loc (Some b) len =
      (if unat len < 6 + unat tlen then Err ENOSR else Err nospace)" if "\<not> length x \<le> unat len"
    using payload_encoder.record_encode_too_small [OF pe d loc b] that unfolding h lx lt by simp
  ultimately show ?thesis
    unfolding x_def [symmetric] by (simp add: Let_def)
qed

section \<open>Theorems\<close>

text \<open>
  C31. A Text record is encoded as the well-known type T with the status byte (encoding and
  language code length), the language code and the text, or refused with \<^verbatim>\<open>-ENOSR\<close> when it does
  not fit; nothing behind the record is touched.
\<close>

theorem text_record_encode_correct:
  assumes "byteorder bo" "text_ok d" "loc AND NOT 0xC0 = 0" "unat len \<le> length b"
  shows "nfc_ndef_record_encode bo u (Some (NFC_NDEF_TEXT_RECORD_DESC_DEF d)) loc (Some b) len =
    (let x = [loc OR 1, 1] @ be_bytes 4 (length (text_bytes d)) @ [0x54] @ text_bytes d in
     if length x \<le> unat len then Ok (Some (x @ drop (length x) b), of_nat (length x)) else Err ENOSR)"
  using well_known_record_encode [OF text_pl.payload_encoder_axioms assms(1,2) _ assms(3,4), of 1 "[0x54]" u]
  by (simp add: NFC_NDEF_TEXT_RECORD_DESC_DEF_def Let_def)

theorem text_record_encode_correct_witness:
  "nfc_ndef_record_encode byteorder_ref 0 (Some (NFC_NDEF_TEXT_RECORD_DESC_DEF
      \<lparr>utf = UTF_16, lang_code = Some [0x65, 0x6E], lang_code_len = 2,
       text_data = Some [0x68, 0x69], text_data_len = 2\<rparr>)) NDEF_LONE_RECORD
     (Some [9, 9, 9, 9, 9, 9, 9, 9, 9, 9, 9, 9, 9]) 12 =
   Ok (Some [0xC1, 1, 0, 0, 0, 5, 0x54, 0x82, 0x65, 0x6E, 0x68, 0x69, 9], 12)"
proof -
  let ?d = "\<lparr>utf = UTF_16, lang_code = Some [0x65, 0x6E], lang_code_len = 2,
       text_data = Some [0x68, 0x69], text_data_len = 2\<rparr>"
  have ok: "text_ok ?d" by (simp add: text_ok_def readable_def)
  have "text_bytes ?d = [0x82, 0x65, 0x6E, 0x68, 0x69]" by (simp add: text_bytes_def pbytes_def)
  then show ?thesis
    using text_record_encode_correct [OF ref.byteorder_axioms ok, of NDEF_LONE_RECORD 12
        "[9, 9, 9, 9, 9, 9, 9, 9, 9, 9, 9, 9, 9]" 0]
    by (simp add: location_defs be_bytes_4)
qed

text \<open>
  C32. A TNEP service parameter record is encoded as the well-known type Tp with version, service
  name, communication mode, waiting times and the maximum message size in big-endian order, or
  refused with \<^verbatim>\<open>-ENOSR\<close> when it does not fit.
\<close>

theorem tnep_param_record_encode_correct:
  assumes bo: "byteorder bo" and "param_ok d" "loc AND NOT 0xC0 = 0" "unat len \<le> length b"
  shows "nfc_ndef_record_encode bo u (Some (NFC_TNEP_SERIVCE_PARAM_RECORD_DESC_DEF bo d)) loc (Some b) len =
    (let x = [loc OR 1, 2] @ be_bytes 4 (length (param_bytes d)) @ [0x54, 0x70] @ param_bytes d in
     if length x \<le> unat len then Ok (Some (x @ drop (length x) b), of_nat (length x)) else Err ENOSR)"
  using well_known_record_encode [OF byteorder.axioms_param_pl [OF bo] assms(1,2) _ assms(3,4),
      of 2 "[0x54, 0x70]" u]
  by (simp add: NFC_TNEP_SERIVCE_PARAM_RECORD_DESC_DEF_def Let_def)

theorem tnep_param_record_encode_correct_witness:
  "nfc_ndef_record_encode byteorder_ref 0 (Some (NFC_TNEP_SERIVCE_PARAM_RECORD_DESC_DEF byteorder_ref
      \<lparr>version = 0x10, uri_length = 3, param_uri = Some [0x75, 0x72, 0x6E], communication_mode = 0,
       min_time = 20, max_time_ext = 4, max_size = 0x0102\<rparr>)) NDEF_MIDDLE_RECORD
     (Some (replicate 18 0)) 18 =
   Ok (Some [0x01, 2, 0, 0, 0, 10, 0x54, 0x70, 0x10, 3, 0x75, 0x72, 0x6E, 0, 20, 4, 1, 2], 18)"
proof -
  let ?d = "\<lparr>version = 0x10, uri_length = 3, param_uri = Some [0x75, 0x72, 0x6E], communication_mode = 0,
       min_time = 20, max_time_ext = 4, max_size = 0x0102\<rparr>"
  have ok: "param_ok ?d" by (simp add: param_ok_def readable_def)
  have "param_bytes ?d = [0x10, 3, 0x75, 0x72, 0x6E, 0, 20, 4, 1, 2]"
    by (simp add: param_bytes_def pbytes_def be_bytes_2)
  then show ?thesis
    using tnep_param_record_encode_correct [OF ref.byteorder_axioms ok, of NDEF_MIDDLE_RECORD 18
        "replicate 18 0" 0]
    by (simp add: location_defs be_bytes_4)
qed

text \<open>
  A TNEP service select record without a service name, as it deselects a service, breaks the contract of
  payload constructors. In every buffer that holds the eight bytes which the encoder reports, it also writes
  a zero byte behind them: the byte there is lost, and when the buffer ends with the record this is a write
  behind the end of the buffer.
\<close>

theorem tnep_select_empty_uri_overrun:
  assumes bo: "byteorder bo" and loc: "loc AND NOT 0xC0 = 0" and b: "8 \<le> unat len" "unat len \<le> length b"
  shows "nfc_ndef_record_encode bo u (Some (NFC_TNEP_SERIVCE_SELECT_RECORD_DESC_DEF 0 p)) loc (Some b) len =
    (if length b = 8 then Fault else Ok (Some ([loc OR 1, 2, 0, 0, 0, 0, 0x54, 0x73, 0] @ drop 9 b), 8))"
proof -
  let ?r = "NFC_TNEP_SERIVCE_SELECT_RECORD_DESC_DEF 0 p"
  have wf: "record_wf ?r" "tnf ?r = TNF_WELL_KNOWN" "type_length ?r = 2" "id_length ?r = 0" "record_type ?r = [0x54, 0x73]"
    "payload_constructor ?r = Some (PAYLOAD_FN (select_run \<lparr>uri_len = 0, uri = p\<rparr>))"
    by (simp_all add: NFC_TNEP_SERIVCE_SELECT_RECORD_DESC_DEF_def NFC_NDEF_GENERIC_RECORD_DESC_DEF_def record_wf_def readable_def
        record_type_def pbytes_def)
  have h: "record_header_size_calc ?r = 8" by (simp add: record_header_size_calc_def wf Let_def)
  then have fits: "\<not> record_header_size_calc ?r > len" using b(1) by (simp add: not_less word_le_nat_alt)
  have l: "length b \<noteq> 8 \<Longrightarrow> 9 \<le> length b" using b by simp
  have f: "record_flags ?r loc = loc OR 1" "record_id ?r = []" 
    by (simp_all add: NFC_TNEP_SERIVCE_SELECT_RECORD_DESC_DEF_def NFC_NDEF_GENERIC_RECORD_DESC_DEF_def record_flags_def record_id_def pbytes_def)
  define g where "g = [loc OR 1, 2] @ take 4 (drop 2 b) @ [0x54, 0x73]"
  have lg: "length g = 8" using b by (simp add: g_def)
  have hdr: "record_header_write ?r loc b = Ok (g @ drop 8 b, 8)"
    using record_header_write_Ok [OF wf(1), of b loc] b by (simp add: h f wf g_def)
  have pay: "select_run \<lparr>uri_len = 0, uri = p\<rparr> (Some (drop 8 b)) n =
      (if length b = 8 then Fault else Ok (Some (0 # drop 9 b), 0))" for n
    using l b by (auto simp: nfc_ndef_tnep_rec_svc_select_payload_def nfc_tnep_calc_size_service_select_def Let_def wr_def)
  have len: "wr (g @ 0 # drop 9 b) 2 (sys_cpu_to_be32 bo 0) = Ok ([loc OR 1, 2, 0, 0, 0, 0, 0x54, 0x73, 0] @ drop 9 b)"
    using b byteorder.cpu_to_be32 [OF bo, of 0] by (simp add: wr_def be_bytes_4 g_def)
  show ?thesis
    unfolding nfc_ndef_record_encode_def option.case Let_def wf(2,6)
    using loc fits hdr len pay lg by (auto simp: h)
qed

theorem tnep_select_empty_uri_overrun_witness:
  "nfc_ndef_record_encode byteorder_ref 0 (Some (NFC_TNEP_SERIVCE_SELECT_RECORD_DESC_DEF 0 None)) 0xC0 (Some (replicate 10 7)) 8 =
     Ok (Some [0xC1, 2, 0, 0, 0, 0, 0x54, 0x73, 0, 7], 8) \<and>
   nfc_ndef_record_encode byteorder_ref 0 (Some (NFC_TNEP_SERIVCE_SELECT_RECORD_DESC_DEF 0 None)) 0xC0 (Some (replicate 8 7)) 8 = Fault"
  using tnep_select_empty_uri_overrun [OF ref.byteorder_axioms, where loc = "0xC0" and len = 8 and b = "replicate 10 7" and u = 0 and p = None]
    tnep_select_empty_uri_overrun [OF ref.byteorder_axioms, where loc = "0xC0" and len = 8 and b = "replicate 8 7" and u = 0 and p = None]
  by simp

text \<open>
  C30. A URI message is one lone record of the well-known type U with the identifier code and
  the URI; the reported size is the size written, and a message that does not fit is refused.
\<close>

theorem uri_msg_encode_correct:
  assumes bo: "byteorder bo" and dat: "unat n \<le> length dat" and b: "unat len \<le> length b"
  shows "nfc_ndef_uri_msg_encode bo u code (Some dat) n (Some b) (Some len) =
    (let x = [0xC1, 1] @ be_bytes 4 (unat n + 1) @ [0x55, code] @ take (unat n) dat in
     if length x \<le> unat len then Ok (Some (x @ drop (length x) b), of_nat (length x))
     else Err (if len < 7 then ENOSR else ENOMEM)) \<and>
    nfc_ndef_uri_msg_encode bo u code (Some dat) n None (Some len) = Ok (None, 8 + ucast n)"
proof -
  let ?r = "NFC_NDEF_URI_RECORD_DESC_DEF code (Some dat) n" and ?pay = "code # take (unat n) dat"
  have rd: "readable (Some dat) (unat n)" using dat by (simp add: readable_def)
  define x where "x = [0xC1, 1] @ be_bytes 4 (unat n + 1) @ [0x55, code] @ take (unat n) dat"
  have lx: "length x = 8 + unat n" using dat by (simp add: x_def)
  have loc: "record_place 0 (Suc 0) = 0xC0" by (simp add: record_place_def)
  have mb: "msg_bytes 1 0 [(?r, ?pay)] = x"
    using dat by (simp add: NFC_NDEF_URI_RECORD_DESC_DEF_def generic_record_bytes loc x_def min_def)
  from uri_msg_encode_eq [OF bo rd, of code u "Some b" "Some len"] obtain m where
    m: "msg_holds bo m [(?r, ?pay)]"
      "nfc_ndef_uri_msg_encode bo u code (Some dat) n (Some b) (Some len) =
         nfc_ndef_msg_encode bo u (Some m) (Some b) (Some len)"
    by blast
  have small: "nfc_ndef_msg_encode bo u (Some m) (Some b) (Some len) = Err (if len < 7 then ENOSR else ENOMEM)"
    if "\<not> length x \<le> unat len"
  proof -
    from m(1) obtain extra where "record_count m = 1" "record_array m = Some (Some ?r # extra)"
      by (auto simp: msg_holds_def)
    moreover have "nfc_ndef_record_encode bo (u 0) (Some ?r) NDEF_LONE_RECORD (Some b) len =
        Err (if len < 7 then ENOSR else ENOMEM)"
      using well_known_record_encode [OF uri_pl.payload_encoder_axioms bo, of
          "\<lparr>uri_id_code = code, uri_data = Some dat, uri_data_len = n\<rparr>" 1 "[0x55]" NDEF_LONE_RECORD len b "u 0"]
        that rd b lx min_absorb2 [OF dat]
      by (simp add: NFC_NDEF_URI_RECORD_DESC_DEF_def uri_ok_def uri_bytes_def pbytes_def location_defs
          Let_def word_less_nat_alt)
    ultimately show ?thesis
      by (simp add: nfc_ndef_msg_encode_def msg_encode_loop.simps [of _ _ _ _ 0] record_location_get_def)
  qed
  from uri_msg_encode_eq [OF bo rd, of code u None "Some len"] obtain m' where
    m': "msg_holds bo m' [(?r, ?pay)]"
      "nfc_ndef_uri_msg_encode bo u code (Some dat) n None (Some len) =
         nfc_ndef_msg_encode bo u (Some m') None (Some len)"
    by blast
  have "nfc_ndef_uri_msg_encode bo u code (Some dat) n None (Some len) = Ok (None, of_nat (length x))"
    using msg_encode_size [OF m'(1), of u len] m'(2) mb by simp
  moreover have "(of_nat (length x) :: u32) = 8 + ucast n" unfolding lx by simp
  moreover have "length x \<le> unat len \<Longrightarrow> nfc_ndef_uri_msg_encode bo u code (Some dat) n (Some b) (Some len) =
      Ok (Some (x @ drop (length x) b), of_nat (length x))"
    using msg_encode_fits [OF m(1), of len b u] m(2) mb b by simp
  ultimately show ?thesis
    unfolding x_def [symmetric] using small m(2) by (simp add: Let_def)
qed

theorem uri_msg_encode_correct_witness:
  "nfc_ndef_uri_msg_encode byteorder_ref (\<lambda>_. 0) 4 (Some [0x61, 0x62]) 2 (Some (replicate 11 0)) (Some 11) =
     Ok (Some [0xC1, 1, 0, 0, 0, 3, 0x55, 4, 0x61, 0x62, 0], 10) \<and>
   nfc_ndef_uri_msg_encode byteorder_ref (\<lambda>_. 0) 4 (Some [0x61, 0x62]) 2 (Some (replicate 11 0)) (Some 9) =
     Err ENOMEM"
  using uri_msg_encode_correct [OF ref.byteorder_axioms, of 2 "[0x61, 0x62]" 11 "replicate 11 0" "\<lambda>_. 0" 4]
    uri_msg_encode_correct [OF ref.byteorder_axioms, of 2 "[0x61, 0x62]" 9 "replicate 11 0" "\<lambda>_. 0" 4]
  by (simp add: be_bytes_4)

text \<open>
  The layout of a Launch App message: the link as a record of the well-known type U without an abbreviated
  prefix, then the package name as a record of the external type \<^verbatim>\<open>android.com:pkg\<close>. The first record has the
  message begin flag and the last one the message end flag.
\<close>

definition launchapp_bytes :: "u8 list option \<Rightarrow> u8 list option \<Rightarrow> u8 list" where
  "launchapp_bytes link pkg =
     (case link of
        None \<Rightarrow> []
      | Some l \<Rightarrow> [if pkg = None then 0xC1 else 0x81, 1] @ be_bytes 4 (length l + 1) @ [0x55, 0] @ l) @
     (case pkg of
        None \<Rightarrow> []
      | Some p \<Rightarrow> [if link = None then 0xC4 else 0x44, 15] @ be_bytes 4 (length p) @ map of_char ''android.com:pkg'' @ p)"

lemma launchapp_layout:
  assumes "\<And>l. link = Some l \<Longrightarrow> unat link_len \<le> length l \<and> link_len \<le> 0xFFFF"
    and "\<And>p. pkg = Some p \<Longrightarrow> unat pkg_len \<le> length p"
  shows "msg_bytes (length (launchapp_records pkg pkg_len link link_len)) 0 (launchapp_records pkg pkg_len link link_len) =
    launchapp_bytes (map_option (take (unat link_len)) link) (map_option (take (unat pkg_len)) pkg)"
proof -
  have uri: "record_bytes (NFC_NDEF_URI_RECORD_DESC_DEF NFC_URI_NONE link (ucast link_len)) loc
      (NFC_URI_NONE # pbytes link (unat (ucast link_len :: u16))) =
      [loc OR 1, 1] @ be_bytes 4 (unat link_len + 1) @ [0x55, 0] @ take (unat link_len) l" if l: "link = Some l" for loc l
  proof -
    have "unat (ucast link_len :: u16) = unat link_len" using assms(1) [OF l] by (simp add: unat_ucast_down word_le_nat_alt)
    then show ?thesis using assms(1) [OF l] l
      by (simp add: NFC_NDEF_URI_RECORD_DESC_DEF_def generic_record_bytes NFC_URI_NONE_def pbytes_def)
  qed
  have app: "record_bytes (NFC_NDEF_ANDROID_LAUNCHAPP_RECORD_DESC_DEF pkg pkg_len) loc (pbytes pkg (unat pkg_len)) =
      [loc OR 4, 15] @ be_bytes 4 (unat pkg_len) @ map of_char ''android.com:pkg'' @ take (unat pkg_len) p" if p: "pkg = Some p" for loc p
    using assms(2) [OF p] p
    by (simp add: record_bytes_def record_flags_def record_type_def record_id_def pbytes_def
        NFC_NDEF_ANDROID_LAUNCHAPP_RECORD_DESC_DEF_def NFC_NDEF_RECORD_BIN_DATA_DEF_def ndef_android_launchapp_rec_type_def)
  show ?thesis
    using uri app assms
    by (cases link; cases pkg) (simp_all add: launchapp_records_def launchapp_bytes_def record_place_def min_absorb2)
qed

text \<open>
  C29. A Launch App message with a link of less than 65536 bytes holds the universal link (if given) as a
  URI record followed by the Android package name (if given) as a record of the external type
  \<^verbatim>\<open>android.com:pkg\<close>, byte for byte, with the message begin flag in the first and the message end flag in the last
  record. The size query reports its length; without a link and a name the call is refused.
\<close>

theorem launchapp_msg_encode_correct:
  assumes bo: "byteorder bo" and pkg: "\<And>p. pkg = Some p \<Longrightarrow> unat pkg_len \<le> length p"
    and link: "\<And>l. link = Some l \<Longrightarrow> unat link_len \<le> length l \<and> link_len \<le> 0xFFFF"
    and b: "unat len \<le> length b"
    and x: "x = launchapp_bytes (map_option (take (unat link_len)) link) (map_option (take (unat pkg_len)) pkg)"
    and fit: "length x \<le> unat len"
  shows "nfc_launchapp_msg_encode bo u pkg pkg_len link link_len (Some b) (Some len) =
      (if pkg = None \<and> link = None then Err EINVAL else Ok (Some (x @ drop (length x) b), of_nat (length x))) \<and>
    nfc_launchapp_msg_encode bo u pkg pkg_len link link_len None (Some len) =
      (if pkg = None \<and> link = None then Err EINVAL else Ok (None, of_nat (length x)))"
proof (cases "pkg = None \<and> link = None")
  case True
  then show ?thesis by (simp add: nfc_launchapp_msg_encode_def Let_def NFC_NDEF_MSG_DEF_def)
next
  case False
  then have some: "pkg \<noteq> None \<or> link \<noteq> None" by simp
  have rp: "pkg \<noteq> None \<Longrightarrow> readable pkg (unat pkg_len)" using pkg by (auto simp: readable_def)
  have rl: "link \<noteq> None \<Longrightarrow> readable link (unat (ucast link_len :: u16))"
    using link by (auto simp: readable_def unat_ucast_down word_le_nat_alt)
  note eq = launchapp_msg_encode_eq [OF bo rp rl some, of u]
  have B: "msg_bytes (length (launchapp_records pkg pkg_len link link_len)) 0 (launchapp_records pkg pkg_len link link_len) = x"
    unfolding x by (rule launchapp_layout) (use link pkg in auto)
  obtain m where
    m: "msg_holds bo m (launchapp_records pkg pkg_len link link_len)"
      "nfc_launchapp_msg_encode bo u pkg pkg_len link link_len (Some b) (Some len) =
       nfc_ndef_msg_encode bo u (Some m) (Some b) (Some len)"
    by (rule eq)
  obtain m' where
    m': "msg_holds bo m' (launchapp_records pkg pkg_len link link_len)"
      "nfc_launchapp_msg_encode bo u pkg pkg_len link link_len None (Some len) =
       nfc_ndef_msg_encode bo u (Some m') None (Some len)"
    by (rule eq)
  show ?thesis
    unfolding m(2) m'(2) using msg_encode_fits [OF m(1), unfolded B, OF fit b] msg_encode_size [OF m'(1), unfolded B] False by simp
qed

theorem launchapp_msg_encode_correct_witness:
  "nfc_launchapp_msg_encode byteorder_ref (\<lambda>_. 0) (Some [0x61]) 1 (Some [0x62]) 1 (Some (replicate 40 7)) (Some 31) =
    Ok (Some ([0x81, 1, 0, 0, 0, 2, 0x55, 0, 0x62, 0x44, 15, 0, 0, 0, 1,
        0x61, 0x6E, 0x64, 0x72, 0x6F, 0x69, 0x64, 0x2E, 0x63, 0x6F, 0x6D, 0x3A, 0x70, 0x6B, 0x67, 0x61] @ replicate 9 7), 31)"
proof -
  have x: "launchapp_bytes (Some [0x62]) (Some [0x61]) = [0x81, 1, 0, 0, 0, 2, 0x55, 0, 0x62, 0x44, 15, 0, 0, 0, 1,
      0x61, 0x6E, 0x64, 0x72, 0x6F, 0x69, 0x64, 0x2E, 0x63, 0x6F, 0x6D, 0x3A, 0x70, 0x6B, 0x67, 0x61]"
    by (simp add: launchapp_bytes_def be_bytes_4)
  have e: "launchapp_bytes (Some [0x62]) (Some [0x61]) =
      launchapp_bytes (map_option (take (unat (1 :: u32))) (Some [0x62])) (map_option (take (unat (1 :: u32))) (Some [0x61]))"
    by simp
  show ?thesis
    using launchapp_msg_encode_correct [OF ref.byteorder_axioms _ _ _ e, of 31 "replicate 40 7" "\<lambda>_. 0"]
    unfolding x by simp
qed

text \<open>
  The link length of a Launch App message is a 32-bit number, but the record stores it in 16
  bits: a link of 65536 bytes or more is silently cut to its length modulo 65536 and the call
  still succeeds.
\<close>

theorem launchapp_link_truncated:
  assumes bo: "byteorder bo" and "unat link_len \<le> length link"
  shows "nfc_launchapp_msg_encode bo u None 0 (Some link) link_len None (Some len) =
    Ok (None, of_nat (8 + unat link_len mod 65536))"
proof -
  have uc: "unat (ucast link_len :: u16) = unat link_len mod 65536"
    by (simp add: unsigned_ucast_eq unsigned_take_bit_eq take_bit_eq_mod)
  have le: "unat link_len mod 65536 \<le> length link"
    using assms(2) by (meson le_trans mod_less_eq_dividend)
  then have rd: "readable (Some link) (unat (ucast link_len :: u16))"
    by (simp add: readable_def uc)
  obtain m where
    m: "msg_holds bo m (launchapp_records None 0 (Some link) link_len)"
      "nfc_launchapp_msg_encode bo u None 0 (Some link) link_len None (Some len) =
       nfc_ndef_msg_encode bo u (Some m) None (Some len)"
    by (rule launchapp_msg_encode_eq [OF bo, of None 0 "Some link" link_len u None "Some len"])
      (use rd in auto)
  have "length (msg_bytes (length (launchapp_records None 0 (Some link) link_len)) 0
      (launchapp_records None 0 (Some link) link_len)) = 8 + unat link_len mod 65536"
    using le by (simp add: launchapp_records_def NFC_NDEF_URI_RECORD_DESC_DEF_def generic_record_bytes
        pbytes_def uc min_def)
  then show ?thesis using m(2) msg_encode_size [OF m(1), of u len] by (simp only:)
qed

theorem launchapp_link_truncated_witness:
  "nfc_launchapp_msg_encode byteorder_ref (\<lambda>_. 0) None 0 (Some (replicate 65537 0)) 65537 None (Some 0) =
    Ok (None, 9)"
  using launchapp_link_truncated [OF ref.byteorder_axioms, of 65537 "replicate 65537 0" "\<lambda>_. 0" 0]
  by simp

end
