(* ===== verification/NDEF_LeOob.thy ===== *)
theory NDEF_LeOob
  imports NDEF_Payloads
begin

unbundle bit_operations_syntax

text \<open>
  The Bluetooth LE out-of-band record: its payload constructor (\<^verbatim>\<open>ndef/le_oob_rec.h\<close>,
  \<^verbatim>\<open>ndef/le_oob_rec.c\<close>) and its parser (\<^verbatim>\<open>ndef/le_oob_rec_parser.c\<close>). The payload is a sequence of
  advertising data (AD) structures: a length byte, a type byte and data.

  The Bluetooth constants and structure sizes, the memory images of integers and the simple network
  buffer come from Zephyr and are parameters.
\<close>

section \<open>Parameters\<close>

record bt_env =
  BT_DATA_FLAGS :: u8
  BT_DATA_NAME_SHORTENED :: u8
  BT_DATA_NAME_COMPLETE :: u8
  BT_DATA_SM_TK_VALUE :: u8
  BT_DATA_GAP_APPEARANCE :: u8
  BT_DATA_LE_BT_DEVICE_ADDRESS :: u8
  BT_DATA_LE_ROLE :: u8
  BT_DATA_LE_SC_CONFIRM_VALUE :: u8
  BT_DATA_LE_SC_RANDOM_VALUE :: u8
  BT_LE_AD_NO_BREDR :: u8
  sizeof_bt_addr :: nat
  sizeof_bt_addr_le :: nat
  sizeof_sc_c :: nat
  sizeof_sc_r :: nat
  sizeof_sc_data :: u32
  sizeof_le_role :: u32
  sizeof_le_oob_desc :: u32
  le_role_image :: "u32 \<Rightarrow> u8 list"
  u16_image :: "u16 \<Rightarrow> u8 list"
  sys_get_le16 :: "u8 \<Rightarrow> u8 \<Rightarrow> u16"

text \<open>\<^verbatim>\<open>struct net_buf_simple\<close> as a memory allocator: its state and the calls the parser makes.\<close>

record 'b net_buf_ops =
  net_buf_simple_init_with_data :: "u32 \<Rightarrow> 'b"
  net_buf_simple_reset :: "'b \<Rightarrow> 'b"
  net_buf_simple_tailroom :: "'b \<Rightarrow> u32"
  net_buf_simple_add :: "'b \<Rightarrow> u32 \<Rightarrow> 'b"

section \<open>Data\<close>

record bt_addr_le =
  addr_type :: u8
  addr_a :: "u8 list"

record bt_le_oob_sc_data =
  sc_r :: "u8 list"
  sc_c :: "u8 list"

text \<open>\<^verbatim>\<open>struct bt_data\<close>: the length is one byte.\<close>

record bt_data =
  ad_type :: u8
  ad_data_len :: u8
  ad_data :: cptr

abbreviation (input) NFC_NDEF_LE_OOB_REC_TK_LEN :: nat where "NFC_NDEF_LE_OOB_REC_TK_LEN \<equiv> 16"
abbreviation (input) AD_LEN_FIELD_SIZE :: u32 where "AD_LEN_FIELD_SIZE \<equiv> 1"
abbreviation (input) AD_TYPE_FIELD_SIZE :: u32 where "AD_TYPE_FIELD_SIZE \<equiv> 1"

text \<open>The role stays a number: the parser stores whatever it receives.\<close>

abbreviation (input) NFC_NDEF_LE_OOB_REC_LE_ROLE_OPTIONS_NUM :: u32 where "NFC_NDEF_LE_OOB_REC_LE_ROLE_OPTIONS_NUM \<equiv> 4"

text \<open>Every field is a pointer, \<^term>\<open>None\<close> is \<^verbatim>\<open>NULL\<close>; the name is a C string.\<close>

record nfc_ndef_le_oob_rec_payload_desc =
  oob_addr :: "bt_addr_le option"
  oob_le_role :: "u32 option"
  oob_le_sc_data :: "bt_le_oob_sc_data option"
  oob_tk_value :: cptr
  oob_appearance :: "u16 option"
  oob_flags :: "u8 option"
  oob_local_name :: cptr

definition nfc_ndef_le_oob_rec_type_field :: "u8 list" where
  "nfc_ndef_le_oob_rec_type_field =
     [0x61, 0x70, 0x70, 0x6C, 0x69, 0x63, 0x61, 0x74, 0x69, 0x6F, 0x6E, 0x2F, 0x76, 0x6E,
      0x64, 0x2E, 0x62, 0x6C, 0x75, 0x65, 0x74, 0x6F, 0x6F, 0x74, 0x68, 0x2E, 0x6C, 0x65,
      0x2E, 0x6F, 0x6F, 0x62]"

section \<open>The payload constructor\<close>

text \<open>The destination: the buffer with the position of the pointer in it, and the space left.\<close>

type_synonym oob_out = "cptr \<times> nat \<times> u32"

definition bt_data_encode :: "bt_data \<Rightarrow> oob_out \<Rightarrow> oob_out res" where
  "bt_data_encode ad dst =
     (case dst of (buff, p, sz) \<Rightarrow>
      let ad_len = ucast (ad_data_len ad) + AD_LEN_FIELD_SIZE + AD_TYPE_FIELD_SIZE in
      if sz < ad_len then Err ENOMEM
      else
        case buff of
          None \<Rightarrow> Fault
        | Some b \<Rightarrow>
            rbind (wr b p [ad_data_len ad + 1]) (\<lambda>b.
            rbind (wr b (p + 1) [ad_type ad]) (\<lambda>b.
            rbind (memcpy_src (ad_data ad) (unat (ad_data_len ad))) (\<lambda>xs.
            rbind (wr b (p + 2) xs) (\<lambda>b.
            Ok (Some b, p + 2 + unat (ad_data_len ad), sz - ad_len))))))"

text \<open>
  The local array \<^verbatim>\<open>dev_addr_buff\<close> is not initialised; the two stores fill it when the address
  structure has no padding. Zeros stand for its first content.
\<close>

definition ble_device_addr_encode :: "bt_env \<Rightarrow> bt_addr_le option \<Rightarrow> oob_out \<Rightarrow> oob_out res" where
  "ble_device_addr_encode env dev_addr dst =
     (case dev_addr of
        None \<Rightarrow> Err EINVAL
      | Some a \<Rightarrow>
          rbind (memcpy_src (Some (addr_a a)) (sizeof_bt_addr env)) (\<lambda>xs.
          rbind (wr (replicate (sizeof_bt_addr_le env) 0) 0 xs) (\<lambda>dev_addr_buff.
          rbind (wr dev_addr_buff (sizeof_bt_addr env) [addr_type a]) (\<lambda>dev_addr_buff.
          bt_data_encode \<lparr>ad_type = BT_DATA_LE_BT_DEVICE_ADDRESS env, ad_data_len = of_nat (sizeof_bt_addr_le env),
            ad_data = Some dev_addr_buff\<rparr> dst))))"

definition le_role_encode :: "bt_env \<Rightarrow> u32 \<Rightarrow> oob_out \<Rightarrow> oob_out res" where
  "le_role_encode env le_role dst =
     (if le_role \<ge> NFC_NDEF_LE_OOB_REC_LE_ROLE_OPTIONS_NUM then Err EINVAL
      else bt_data_encode \<lparr>ad_type = BT_DATA_LE_ROLE env, ad_data_len = 1, ad_data = Some (le_role_image env le_role)\<rparr> dst)"

text \<open>\<^verbatim>\<open>strlen\<close>, which reads up to the terminating zero.\<close>

fun strlen :: "u8 list \<Rightarrow> nat res" where
  "strlen [] = Fault"
| "strlen (c # cs) = (if c = 0 then Ok 0 else rbind (strlen cs) (\<lambda>n. Ok (n + 1)))"

text \<open>An optional field: nothing happens when the pointer is \<^verbatim>\<open>NULL\<close>.\<close>

abbreviation opt_encode :: "'a option \<Rightarrow> ('a \<Rightarrow> oob_out \<Rightarrow> oob_out res) \<Rightarrow> oob_out \<Rightarrow> oob_out res" where
  "opt_encode x f dst \<equiv> (case x of None \<Rightarrow> Ok dst | Some v \<Rightarrow> f v dst)"

definition sc_data_encode :: "bt_env \<Rightarrow> bt_le_oob_sc_data \<Rightarrow> oob_out \<Rightarrow> oob_out res" where
  "sc_data_encode env sc dst =
     rbind (bt_data_encode \<lparr>ad_type = BT_DATA_LE_SC_CONFIRM_VALUE env, ad_data_len = of_nat (sizeof_sc_c env), ad_data = Some (sc_c sc)\<rparr> dst) (\<lambda>dst.
     bt_data_encode \<lparr>ad_type = BT_DATA_LE_SC_RANDOM_VALUE env, ad_data_len = of_nat (sizeof_sc_r env), ad_data = Some (sc_r sc)\<rparr> dst)"

definition flags_encode :: "bt_env \<Rightarrow> u8 \<Rightarrow> oob_out \<Rightarrow> oob_out res" where
  "flags_encode env fl dst =
     (if fl AND BT_LE_AD_NO_BREDR env = 0 then Err EINVAL
      else bt_data_encode \<lparr>ad_type = BT_DATA_FLAGS env, ad_data_len = 1, ad_data = Some [fl]\<rparr> dst)"

definition local_name_encode :: "bt_env \<Rightarrow> u8 list \<Rightarrow> oob_out \<Rightarrow> oob_out res" where
  "local_name_encode env name dst =
     rbind (strlen name) (\<lambda>n.
     bt_data_encode \<lparr>ad_type = BT_DATA_NAME_COMPLETE env, ad_data_len = of_nat n, ad_data = Some name\<rparr> dst)"

definition nfc_ndef_le_oob_rec_payload_constructor ::
    "bt_env \<Rightarrow> nfc_ndef_le_oob_rec_payload_desc option \<Rightarrow> payload_fn" where
  "nfc_ndef_le_oob_rec_payload_constructor env payload_desc buff len =
     (case payload_desc of
        None \<Rightarrow> Err EINVAL
      | Some d \<Rightarrow>
          if oob_addr d = None \<or> oob_le_role d = None then Err EINVAL
          else
            rbind (ble_device_addr_encode env (oob_addr d) (buff, 0, len)) (\<lambda>dst.
            rbind (le_role_encode env (the (oob_le_role d)) dst) (\<lambda>dst.
            rbind (opt_encode (oob_tk_value d) (\<lambda>tk. bt_data_encode
                     \<lparr>ad_type = BT_DATA_SM_TK_VALUE env, ad_data_len = of_nat NFC_NDEF_LE_OOB_REC_TK_LEN, ad_data = Some tk\<rparr>) dst) (\<lambda>dst.
            rbind (opt_encode (oob_le_sc_data d) (sc_data_encode env) dst) (\<lambda>dst.
            rbind (opt_encode (oob_appearance d) (\<lambda>ap. bt_data_encode
                     \<lparr>ad_type = BT_DATA_GAP_APPEARANCE env, ad_data_len = 2, ad_data = Some (u16_image env ap)\<rparr>) dst) (\<lambda>dst.
            rbind (opt_encode (oob_flags d) (flags_encode env) dst) (\<lambda>dst.
            rbind (opt_encode (oob_local_name d) (local_name_encode env) dst) (\<lambda>(buff, _, rem_size).
            Ok (buff, len - rem_size)))))))))"

definition NFC_NDEF_LE_OOB_RECORD_DESC_DEF ::
    "bt_env \<Rightarrow> u8 \<Rightarrow> nfc_ndef_le_oob_rec_payload_desc option \<Rightarrow> nfc_ndef_record_desc" where
  "NFC_NDEF_LE_OOB_RECORD_DESC_DEF env payload_id payload_desc =
     NFC_NDEF_GENERIC_RECORD_DESC_DEF TNF_MEDIA_TYPE (Some [payload_id]) (if payload_id \<noteq> 0 then 1 else 0)
       (Some nfc_ndef_le_oob_rec_type_field) (of_nat (length nfc_ndef_le_oob_rec_type_field))
       (nfc_ndef_le_oob_rec_payload_constructor env payload_desc)"

section \<open>The parser\<close>

text \<open>
  \<^verbatim>\<open>memory_allocate\<close> gives the new allocator state and whether it returned a pointer. What is
  allocated is written at once, except the two halves of the pairing data; \<open>junk\<close> is the content of
  the result buffer there.
\<close>

definition memory_allocate :: "'b net_buf_ops \<Rightarrow> 'b \<Rightarrow> u32 \<Rightarrow> 'b \<times> bool" where
  "memory_allocate nb mem_alloc alloc_size =
     (if net_buf_simple_tailroom nb mem_alloc < alloc_size then (mem_alloc, False)
      else (net_buf_simple_add nb mem_alloc alloc_size, True))"

definition ble_device_address_decode :: "bt_env \<Rightarrow> u8 list \<Rightarrow> u32 \<Rightarrow> bool \<Rightarrow> bt_addr_le res" where
  "ble_device_address_decode env payload_buf payload_len addr =
     (if \<not> addr then Err ENOMEM
      else if unat payload_len \<noteq> sizeof_bt_addr_le env then Err EINVAL
      else rbind (memcpy_src (Some payload_buf) (sizeof_bt_addr env)) (\<lambda>a.
           rbind (rd payload_buf (sizeof_bt_addr env)) (\<lambda>ty.
           Ok \<lparr>addr_type = ty, addr_a = a\<rparr>)))"

definition le_role_decode :: "bt_env \<Rightarrow> u8 list \<Rightarrow> u32 \<Rightarrow> bool \<Rightarrow> u32 res" where
  "le_role_decode env payload_buf payload_len le_role =
     (if \<not> le_role then Err ENOMEM
      else if payload_len \<noteq> sizeof_le_role env then Err EINVAL
      else rbind (rd payload_buf 0) (\<lambda>v. Ok (ucast v)))"

definition tk_value_decode :: "u8 list \<Rightarrow> u32 \<Rightarrow> bool \<Rightarrow> u8 list res" where
  "tk_value_decode payload_buf payload_len tk_value =
     (if \<not> tk_value then Err ENOMEM
      else if unat payload_len \<noteq> NFC_NDEF_LE_OOB_REC_TK_LEN then Err EINVAL
      else memcpy_src (Some payload_buf) NFC_NDEF_LE_OOB_REC_TK_LEN)"

definition le_sc_confirm_value_decode ::
    "bt_env \<Rightarrow> u8 list \<Rightarrow> u32 \<Rightarrow> bt_le_oob_sc_data option \<Rightarrow> bt_le_oob_sc_data res" where
  "le_sc_confirm_value_decode env payload_buf payload_len le_sc_data =
     (case le_sc_data of
        None \<Rightarrow> Err ENOMEM
      | Some sc \<Rightarrow>
          if unat payload_len \<noteq> sizeof_sc_c env then Err EINVAL
          else rbind (memcpy_src (Some payload_buf) (sizeof_sc_c env)) (\<lambda>xs. Ok (sc\<lparr>sc_c := xs\<rparr>)))"

definition le_sc_random_value_decode ::
    "bt_env \<Rightarrow> u8 list \<Rightarrow> u32 \<Rightarrow> bt_le_oob_sc_data option \<Rightarrow> bt_le_oob_sc_data res" where
  "le_sc_random_value_decode env payload_buf payload_len le_sc_data =
     (case le_sc_data of
        None \<Rightarrow> Err ENOMEM
      | Some sc \<Rightarrow>
          if unat payload_len \<noteq> sizeof_sc_r env then Err EINVAL
          else rbind (memcpy_src (Some payload_buf) (sizeof_sc_r env)) (\<lambda>xs. Ok (sc\<lparr>sc_r := xs\<rparr>)))"

definition appearance_decode :: "bt_env \<Rightarrow> u8 list \<Rightarrow> u32 \<Rightarrow> bool \<Rightarrow> u16 res" where
  "appearance_decode env payload_buf payload_len appearance =
     (if \<not> appearance then Err ENOMEM
      else if payload_len \<noteq> 2 then Err EINVAL
      else rbind (rdn payload_buf 0 2) (\<lambda>xs. Ok (sys_get_le16 env (xs ! 0) (xs ! 1))))"

definition flags_decode :: "u8 list \<Rightarrow> u32 \<Rightarrow> bool \<Rightarrow> u8 res" where
  "flags_decode payload_buf payload_len flags =
     (if \<not> flags then Err ENOMEM
      else if payload_len \<noteq> 1 then Err EINVAL
      else rd payload_buf 0)"

text \<open>The \<^verbatim>\<open>switch\<close> of the parser: the allocator and the descriptor after one AD structure.\<close>

definition ad_decode ::
    "bt_env \<Rightarrow> 'b net_buf_ops \<Rightarrow> bt_le_oob_sc_data \<Rightarrow> u8 \<Rightarrow> u8 list \<Rightarrow> u8 \<Rightarrow>
     'b \<times> nfc_ndef_le_oob_rec_payload_desc \<Rightarrow> ('b \<times> nfc_ndef_le_oob_rec_payload_desc) res" where
  "ad_decode env nb junk ty data len st =
     (case st of (m, d) \<Rightarrow>
      if ty = BT_DATA_LE_BT_DEVICE_ADDRESS env then
        let (m, p) = memory_allocate nb m (of_nat (sizeof_bt_addr_le env)) in
        rbind (ble_device_address_decode env data (ucast len) p) (\<lambda>v. Ok (m, d\<lparr>oob_addr := Some v\<rparr>))
      else if ty = BT_DATA_LE_ROLE env then
        let (m, p) = memory_allocate nb m (sizeof_le_role env) in
        rbind (le_role_decode env data (ucast len) p) (\<lambda>v. Ok (m, d\<lparr>oob_le_role := Some v\<rparr>))
      else if ty = BT_DATA_SM_TK_VALUE env then
        let (m, p) = memory_allocate nb m (of_nat NFC_NDEF_LE_OOB_REC_TK_LEN) in
        rbind (tk_value_decode data (ucast len) p) (\<lambda>v. Ok (m, d\<lparr>oob_tk_value := Some v\<rparr>))
      else if ty = BT_DATA_LE_SC_CONFIRM_VALUE env \<or> ty = BT_DATA_LE_SC_RANDOM_VALUE env then
        let (m, sc) = (if oob_le_sc_data d = None
                       then let (m, p) = memory_allocate nb m (sizeof_sc_data env) in (m, if p then Some junk else None)
                       else (m, oob_le_sc_data d)) in
        rbind (if ty = BT_DATA_LE_SC_CONFIRM_VALUE env then le_sc_confirm_value_decode env data (ucast len) sc
               else le_sc_random_value_decode env data (ucast len) sc) (\<lambda>v. Ok (m, d\<lparr>oob_le_sc_data := Some v\<rparr>))
      else if ty = BT_DATA_GAP_APPEARANCE env then
        let (m, p) = memory_allocate nb m 2 in
        rbind (appearance_decode env data (ucast len) p) (\<lambda>v. Ok (m, d\<lparr>oob_appearance := Some v\<rparr>))
      else if ty = BT_DATA_FLAGS env then
        let (m, p) = memory_allocate nb m 1 in
        rbind (flags_decode data (ucast len) p) (\<lambda>v. Ok (m, d\<lparr>oob_flags := Some v\<rparr>))
      else if ty = BT_DATA_NAME_SHORTENED env \<or> ty = BT_DATA_NAME_COMPLETE env then
        let (m, p) = memory_allocate nb m (ucast len + 1) in
        if p then rbind (memcpy_src (Some data) (unat len)) (\<lambda>xs. Ok (m, d\<lparr>oob_local_name := Some (xs @ [0])\<rparr>))
        else Err ENOMEM
      else Ok (m, d))"

text \<open>One iteration of the loop: the next index.\<close>

definition le_oob_step ::
    "bt_env \<Rightarrow> 'b net_buf_ops \<Rightarrow> bt_le_oob_sc_data \<Rightarrow> u8 list \<Rightarrow> u32 \<Rightarrow> u32 \<Rightarrow>
     'b \<times> nfc_ndef_le_oob_rec_payload_desc \<Rightarrow> (u32 \<times> 'b \<times> nfc_ndef_le_oob_rec_payload_desc) res" where
  "le_oob_step env nb junk payload_buf payload_len index st =
     rbind (rd payload_buf (unat index)) (\<lambda>ad_len.
     let index = index + 1 in
     if ad_len = 1 \<or> index + ucast ad_len > payload_len then Err EINVAL
     else
       rbind (rd payload_buf (unat index)) (\<lambda>ty.
       rbind (ad_decode env nb junk ty (drop (unat index + 1) payload_buf) (ad_len - 1) st) (\<lambda>st.
       Ok (index + ucast ad_len, st))))"

partial_function (option) le_oob_loop ::
    "bt_env \<Rightarrow> 'b net_buf_ops \<Rightarrow> bt_le_oob_sc_data \<Rightarrow> u8 list \<Rightarrow> u32 \<Rightarrow> u32 \<Rightarrow>
     'b \<times> nfc_ndef_le_oob_rec_payload_desc \<Rightarrow> ('b \<times> nfc_ndef_le_oob_rec_payload_desc) res option" where
  "le_oob_loop env nb junk payload_buf payload_len index st =
     (if index < payload_len then
        case le_oob_step env nb junk payload_buf payload_len index st of
          Ok x \<Rightarrow> le_oob_loop env nb junk payload_buf payload_len (fst x) (snd x)
        | Err e \<Rightarrow> Some (Err e)
        | Fault \<Rightarrow> Some Fault
      else Some (Ok st))"

text \<open>The outer option says whether the call returns.\<close>

definition nfc_ndef_le_oob_rec_payload_parse ::
    "bt_env \<Rightarrow> 'b net_buf_ops \<Rightarrow> bt_le_oob_sc_data \<Rightarrow> cptr \<Rightarrow> u32 \<Rightarrow> u32 \<Rightarrow>
     (nfc_ndef_le_oob_rec_payload_desc \<times> u32) res option" where
  "nfc_ndef_le_oob_rec_payload_parse env nb junk payload_buf payload_len total_buf_size =
     (case payload_buf of
        None \<Rightarrow> Some (Err EINVAL)
      | Some b \<Rightarrow>
          let m = net_buf_simple_reset nb (net_buf_simple_init_with_data nb total_buf_size);
              (m, p) = memory_allocate nb m (sizeof_le_oob_desc env) in
          if \<not> p then Some (Err ENOMEM)
          else
            let d = \<lparr>oob_addr = None, oob_le_role = None, oob_le_sc_data = None, oob_tk_value = None,
                     oob_appearance = None, oob_flags = None, oob_local_name = None\<rparr> in
            map_option (\<lambda>r. rbind r (\<lambda>(m, d). Ok (d, total_buf_size - net_buf_simple_tailroom nb m)))
              (le_oob_loop env nb junk b payload_len 0 (m, d)))"

definition nfc_ndef_le_oob_rec_check :: "nfc_ndef_record_desc option \<Rightarrow> bool res" where
  "nfc_ndef_le_oob_rec_check rec_desc =
     (case rec_desc of
        None \<Rightarrow> Ok False
      | Some r \<Rightarrow>
          (case type_ptr r of
             None \<Rightarrow> Ok False
           | Some ty \<Rightarrow>
               if tnf r \<noteq> TNF_MEDIA_TYPE then Ok False
               else if unat (type_length r) \<noteq> length nfc_ndef_le_oob_rec_type_field then Ok False
               else rbind (rdn ty 0 (length nfc_ndef_le_oob_rec_type_field)) (\<lambda>xs.
                    Ok (xs = nfc_ndef_le_oob_rec_type_field))))"

definition nfc_ndef_le_oob_rec_parse ::
    "bt_env \<Rightarrow> 'b net_buf_ops \<Rightarrow> bt_le_oob_sc_data \<Rightarrow> nfc_ndef_record_desc option \<Rightarrow> bool \<Rightarrow> u32 option \<Rightarrow>
     (nfc_ndef_le_oob_rec_payload_desc \<times> u32) res option" where
  "nfc_ndef_le_oob_rec_parse env nb junk rec_desc result_buf result_buf_len =
     (if \<not> result_buf \<or> result_buf_len = None then Some (Err EINVAL)
      else
        case nfc_ndef_le_oob_rec_check rec_desc of
          Fault \<Rightarrow> Some Fault
        | Err e \<Rightarrow> Some (Err e)
        | Ok c \<Rightarrow>
            if \<not> c then Some (Err EINVAL)
            else
              case payload_constructor (the rec_desc) of
                Some (BIN_PAYLOAD pd) \<Rightarrow>
                  nfc_ndef_le_oob_rec_payload_parse env nb junk (payload pd) (payload_length pd) (the result_buf_len)
              | _ \<Rightarrow> Some (Err ENOTSUP))"

section \<open>What the code relies on\<close>

text \<open>
  The documented layout of the Bluetooth structures on a little endian target. The types label the
  cases of one \<^verbatim>\<open>switch\<close>, so they differ.
\<close>

locale bt_layout =
  fixes env :: bt_env
  assumes ad_types: "distinct [BT_DATA_FLAGS env, BT_DATA_NAME_SHORTENED env, BT_DATA_NAME_COMPLETE env,
      BT_DATA_SM_TK_VALUE env, BT_DATA_GAP_APPEARANCE env, BT_DATA_LE_BT_DEVICE_ADDRESS env,
      BT_DATA_LE_ROLE env, BT_DATA_LE_SC_CONFIRM_VALUE env, BT_DATA_LE_SC_RANDOM_VALUE env]"
    and addr_size: "sizeof_bt_addr env = 6" "sizeof_bt_addr_le env = 7"
    and sc_size: "sizeof_sc_c env = 16" "sizeof_sc_r env = 16"
    and role_size: "sizeof_le_role env = 1"
    and role_image: "\<exists>xs. le_role_image env v = ucast v # xs"
    and u16_image: "u16_image env w = rev (be_bytes 2 (unat w))"
    and get_le16: "unat (sys_get_le16 env a b) = be_val [b, a]"

text \<open>The allocator: its sizes are 16 bits wide, and what is added is no longer free.\<close>

locale net_buf_alloc =
  fixes nb :: "'b net_buf_ops"
  assumes tailroom_init: "unat n < 2 ^ 16 \<Longrightarrow>
      net_buf_simple_tailroom nb (net_buf_simple_reset nb (net_buf_simple_init_with_data nb n)) = n"
    and tailroom_add: "n \<le> net_buf_simple_tailroom nb m \<Longrightarrow>
      net_buf_simple_tailroom nb (net_buf_simple_add nb m n) = net_buf_simple_tailroom nb m - n"

section \<open>The format\<close>

definition ad_struct :: "u8 \<times> u8 list \<Rightarrow> u8 list" where
  "ad_struct x = of_nat (length (snd x) + 1) # fst x # snd x"

definition ad_bytes :: "(u8 \<times> u8 list) list \<Rightarrow> u8 list" where
  "ad_bytes ads = concat (map ad_struct ads)"

lemma ad_bytes_simps [simp]:
  "ad_bytes [] = []" "ad_bytes (x # ads) = ad_struct x @ ad_bytes ads" "ad_bytes (xs @ ys) = ad_bytes xs @ ad_bytes ys"
  by (simp_all add: ad_bytes_def)

lemma length_ad_struct [simp]: "length (ad_struct x) = length (snd x) + 2"
  by (simp add: ad_struct_def)

abbreviation opt_ads :: "'a option \<Rightarrow> ('a \<Rightarrow> (u8 \<times> u8 list) list) \<Rightarrow> (u8 \<times> u8 list) list" where
  "opt_ads x f \<equiv> (case x of None \<Rightarrow> [] | Some v \<Rightarrow> f v)"

text \<open>The AD structures of a descriptor, in order.\<close>

definition le_oob_ads :: "bt_env \<Rightarrow> nfc_ndef_le_oob_rec_payload_desc \<Rightarrow> (u8 \<times> u8 list) list" where
  "le_oob_ads env d =
     [(BT_DATA_LE_BT_DEVICE_ADDRESS env, addr_a (the (oob_addr d)) @ [addr_type (the (oob_addr d))])] @
     [(BT_DATA_LE_ROLE env, [ucast (the (oob_le_role d))])] @
     opt_ads (oob_tk_value d) (\<lambda>tk. [(BT_DATA_SM_TK_VALUE env, tk)]) @
     opt_ads (oob_le_sc_data d) (\<lambda>sc. [(BT_DATA_LE_SC_CONFIRM_VALUE env, sc_c sc), (BT_DATA_LE_SC_RANDOM_VALUE env, sc_r sc)]) @
     opt_ads (oob_appearance d) (\<lambda>ap. [(BT_DATA_GAP_APPEARANCE env, rev (be_bytes 2 (unat ap)))]) @
     opt_ads (oob_flags d) (\<lambda>fl. [(BT_DATA_FLAGS env, [fl])]) @
     opt_ads (oob_local_name d) (\<lambda>s. [(BT_DATA_NAME_COMPLETE env, butlast s)])"

text \<open>
  A descriptor that can be stored: mandatory fields present, arrays of their declared sizes, the flag
  that the constructor asks for, a terminated name that fits the length byte.
\<close>

definition le_oob_desc_ok :: "bt_env \<Rightarrow> nfc_ndef_le_oob_rec_payload_desc \<Rightarrow> bool" where
  "le_oob_desc_ok env d \<longleftrightarrow>
     oob_addr d \<noteq> None \<and> length (addr_a (the (oob_addr d))) = 6 \<and>
     oob_le_role d \<noteq> None \<and> the (oob_le_role d) < 4 \<and>
     (case oob_tk_value d of None \<Rightarrow> True | Some tk \<Rightarrow> length tk = 16) \<and>
     (case oob_le_sc_data d of None \<Rightarrow> True | Some sc \<Rightarrow> length (sc_c sc) = 16 \<and> length (sc_r sc) = 16) \<and>
     (case oob_flags d of None \<Rightarrow> True | Some fl \<Rightarrow> fl AND BT_LE_AD_NO_BREDR env \<noteq> 0) \<and>
     (case oob_local_name d of None \<Rightarrow> True
      | Some s \<Rightarrow> s \<noteq> [] \<and> last s = 0 \<and> 0 \<notin> set (butlast s) \<and> length s \<le> 255)"

section \<open>The constructor writes the format\<close>

text \<open>\<open>encodes f ads\<close>: \<open>f\<close> appends the structures \<open>ads\<close> when they fit and reports \<^const>\<open>ENOMEM\<close> otherwise.\<close>

definition encodes :: "(oob_out \<Rightarrow> oob_out res) \<Rightarrow> (u8 \<times> u8 list) list \<Rightarrow> bool" where
  "encodes f ads \<longleftrightarrow>
     (\<forall>out rest sz. unat sz \<le> length rest \<longrightarrow>
        f (Some (out @ rest), length out, sz) =
          (if unat sz < length (ad_bytes ads) then Err ENOMEM
           else Ok (Some (out @ ad_bytes ads @ drop (length (ad_bytes ads)) rest),
                    length out + length (ad_bytes ads), sz - of_nat (length (ad_bytes ads)))))"

lemma encodes_none: "encodes Ok []"
  by (simp add: encodes_def)

lemma encodes_seq:
  assumes f: "encodes f xs" and g: "encodes g ys"
  shows "encodes (\<lambda>s. rbind (f s) g) (xs @ ys)"
  unfolding encodes_def
proof (intro allI impI)
  fix out rest :: "u8 list" and sz :: u32
  assume le: "unat sz \<le> length rest"
  let ?n = "length (ad_bytes xs)"
  let ?out = "out @ ad_bytes xs" and ?rest = "drop ?n rest" and ?sz = "sz - of_nat ?n"
  note F = f [unfolded encodes_def, rule_format, OF le]
  show "rbind (f (Some (out @ rest), length out, sz)) g =
          (if unat sz < length (ad_bytes (xs @ ys)) then Err ENOMEM
           else Ok (Some (out @ ad_bytes (xs @ ys) @ drop (length (ad_bytes (xs @ ys))) rest),
                    length out + length (ad_bytes (xs @ ys)), sz - of_nat (length (ad_bytes (xs @ ys)))))"
  proof (cases "unat sz < ?n")
    case True
    then show ?thesis by (simp add: F)
  next
    case False
    then have sz: "unat ?sz = unat sz - ?n"
      by (metis le_unat_uoi linorder_not_less unat_sub word_le_nat_alt)
    with le have "unat ?sz \<le> length ?rest" by simp
    note G = g [unfolded encodes_def, rule_format, OF this, of ?out]
    from False G sz show ?thesis
      by (auto simp: F add.commute add.left_commute diff_diff_eq)
  qed
qed

lemma encodes_opt:
  "(\<And>v. x = Some v \<Longrightarrow> encodes (f v) (h v)) \<Longrightarrow> encodes (opt_encode x f) (opt_ads x h)"
  by (cases x) (simp_all add: encodes_none)

lemma encodes_data:
  assumes "n < 255" "n \<le> length xs"
  shows "encodes (bt_data_encode \<lparr>ad_type = t, ad_data_len = of_nat n, ad_data = Some xs\<rparr>) [(t, take n xs)]"
  unfolding encodes_def
proof (intro allI impI)
  fix out rest :: "u8 list" and sz :: u32
  assume le: "unat sz \<le> length rest"
  let ?ad = "\<lparr>ad_type = t, ad_data_len = of_nat n, ad_data = Some xs\<rparr>"
  have n: "unat (of_nat n :: u8) = n" using assms by (simp add: unat_of_nat)
  define L where "L = (of_nat (n + 2) :: u32)"
  have l: "ucast (of_nat n :: u8) + 1 + 1 = L"
    using assms by (simp add: L_def unsigned_of_nat take_bit_nat_eq_self add.assoc add.commute)
  have u: "unat L = n + 2" using assms unfolding L_def by (subst unat_of_nat) (simp add: take_bit_nat_eq_self)
  have lb: "length (ad_bytes [(t, take n xs)]) = n + 2" using assms by simp
  note E = bt_data_encode_def prod.case bt_data.simps l Let_def option.case word_less_nat_alt u
  have A: "bt_data_encode ?ad (Some (out @ rest), length out, sz) =
      (if unat sz < n + 2 then Err ENOMEM
       else Ok (Some (out @ ad_bytes [(t, take n xs)] @ drop (n + 2) rest), length out + (n + 2), sz - L))"
  proof (cases "unat sz < n + 2")
    case False
    with le obtain a b r where rest: "rest = a # b # r" "n \<le> length r"
      by (cases rest; cases "tl rest") auto
    from assms have [simp]: "min (length xs) n = n" by simp
    from False rest(2) assms show ?thesis unfolding E rest(1)
      by (simp add: n wr_def memcpy_src_def rdn_def ad_struct_def L_def)
  qed (simp only: E if_True)
  show "bt_data_encode ?ad (Some (out @ rest), length out, sz) =
          (if unat sz < length (ad_bytes [(t, take n xs)]) then Err ENOMEM
           else Ok (Some (out @ ad_bytes [(t, take n xs)] @ drop (length (ad_bytes [(t, take n xs)])) rest),
                    length out + length (ad_bytes [(t, take n xs)]), sz - of_nat (length (ad_bytes [(t, take n xs)]))))"
    unfolding lb L_def [symmetric] by (rule A)
qed

lemma strlen_string: "s \<noteq> [] \<Longrightarrow> last s = 0 \<Longrightarrow> 0 \<notin> set (butlast s) \<Longrightarrow> strlen s = Ok (length s - 1)"
  by (induction s) (auto split: if_splits)

context bt_layout
begin

lemma addr_encodes:
  assumes "length (addr_a a) = 6"
  shows "encodes (ble_device_addr_encode env (Some a)) [(BT_DATA_LE_BT_DEVICE_ADDRESS env, addr_a a @ [addr_type a])]"
proof -
  have "ble_device_addr_encode env (Some a) =
          bt_data_encode \<lparr>ad_type = BT_DATA_LE_BT_DEVICE_ADDRESS env, ad_data_len = of_nat 7, ad_data = Some (addr_a a @ [addr_type a])\<rparr>"
    using assms by (auto simp: fun_eq_iff ble_device_addr_encode_def addr_size memcpy_src_def rdn_def wr_def)
  then show ?thesis using encodes_data [of 7 "addr_a a @ [addr_type a]"] assms by simp
qed

lemma role_encodes: "r < 4 \<Longrightarrow> encodes (le_role_encode env r) [(BT_DATA_LE_ROLE env, [ucast r])]"
proof -
  assume r: "r < 4"
  obtain xs where xs: "le_role_image env r = ucast r # xs" using role_image by blast
  from r have "le_role_encode env r = bt_data_encode \<lparr>ad_type = BT_DATA_LE_ROLE env, ad_data_len = of_nat 1, ad_data = Some (ucast r # xs)\<rparr>"
    by (auto simp: fun_eq_iff le_role_encode_def xs)
  then show ?thesis using encodes_data [of 1 "ucast r # xs"] by simp
qed

lemma tk_encodes:
  "length tk = 16 \<Longrightarrow> encodes (bt_data_encode \<lparr>ad_type = t, ad_data_len = of_nat 16, ad_data = Some tk\<rparr>) [(t, tk)]"
  using encodes_data [of 16 tk] by simp

lemma sc_encodes:
  "length (sc_c sc) = 16 \<Longrightarrow> length (sc_r sc) = 16 \<Longrightarrow> encodes (sc_data_encode env sc)
     [(BT_DATA_LE_SC_CONFIRM_VALUE env, sc_c sc), (BT_DATA_LE_SC_RANDOM_VALUE env, sc_r sc)]"
  using encodes_seq [OF tk_encodes tk_encodes, of "sc_c sc" "sc_r sc" "BT_DATA_LE_SC_CONFIRM_VALUE env" "BT_DATA_LE_SC_RANDOM_VALUE env"]
  by (simp add: sc_data_encode_def [abs_def] sc_size)

lemma appearance_encodes:
  "encodes (bt_data_encode \<lparr>ad_type = t, ad_data_len = 2, ad_data = Some (u16_image env ap)\<rparr>) [(t, rev (be_bytes 2 (unat ap)))]"
  using encodes_data [of 2 "u16_image env ap" t] by (simp add: u16_image)

lemma flags_encodes:
  "fl AND BT_LE_AD_NO_BREDR env \<noteq> 0 \<Longrightarrow> encodes (flags_encode env fl) [(BT_DATA_FLAGS env, [fl])]"
  using encodes_data [of 1 "[fl]"] by (simp add: flags_encode_def [abs_def])

lemma name_encodes:
  assumes "s \<noteq> []" "last s = 0" "0 \<notin> set (butlast s)" "length s \<le> 255"
  shows "encodes (local_name_encode env s) [(BT_DATA_NAME_COMPLETE env, butlast s)]"
  using encodes_data [of "length s - 1" s "BT_DATA_NAME_COMPLETE env"] assms
  by (simp add: local_name_encode_def [abs_def] strlen_string butlast_conv_take)

lemma constructor_eq:
  assumes ok: "le_oob_desc_ok env d" and len: "unat len \<le> length b"
  shows "nfc_ndef_le_oob_rec_payload_constructor env (Some d) (Some b) len =
    (let bs = ad_bytes (le_oob_ads env d) in
     if length bs \<le> unat len then Ok (Some (bs @ drop (length bs) b), of_nat (length bs)) else Err ENOMEM)"
proof -
  note ok' = ok [unfolded le_oob_desc_ok_def]
  from ok' obtain a r where d: "oob_addr d = Some a" "length (addr_a a) = 6" "oob_le_role d = Some r" "r < 4" by auto
  let ?body = "\<lambda>dst. rbind (ble_device_addr_encode env (oob_addr d) dst) (\<lambda>dst.
    rbind (le_role_encode env (the (oob_le_role d)) dst) (\<lambda>dst.
    rbind (opt_encode (oob_tk_value d) (\<lambda>tk. bt_data_encode
             \<lparr>ad_type = BT_DATA_SM_TK_VALUE env, ad_data_len = of_nat 16, ad_data = Some tk\<rparr>) dst) (\<lambda>dst.
    rbind (opt_encode (oob_le_sc_data d) (sc_data_encode env) dst) (\<lambda>dst.
    rbind (opt_encode (oob_appearance d) (\<lambda>ap. bt_data_encode
             \<lparr>ad_type = BT_DATA_GAP_APPEARANCE env, ad_data_len = 2, ad_data = Some (u16_image env ap)\<rparr>) dst) (\<lambda>dst.
    rbind (opt_encode (oob_flags d) (flags_encode env) dst)
      (opt_encode (oob_local_name d) (local_name_encode env)))))))"
  have "encodes ?body (le_oob_ads env d)"
    unfolding le_oob_ads_def d option.sel using ok' d
    by (intro encodes_seq encodes_opt addr_encodes role_encodes tk_encodes sc_encodes appearance_encodes
          flags_encodes name_encodes) simp_all
  from this [unfolded encodes_def, rule_format, OF len, of "[]"]
  have B: "?body (Some b, 0, len) = (let bs = ad_bytes (le_oob_ads env d) in
      if unat len < length bs then Err ENOMEM
      else Ok (Some (bs @ drop (length bs) b), length bs, len - of_nat (length bs)))"
    by (simp only: append_Nil list.size Let_def add_0)
  have "nfc_ndef_le_oob_rec_payload_constructor env (Some d) (Some b) len =
      rbind (?body (Some b, 0, len)) (\<lambda>(buff, _, rem_size). Ok (buff, len - rem_size))"
    by (simp only: nfc_ndef_le_oob_rec_payload_constructor_def rbind_assoc d option.simps if_False simp_thms)
  then show ?thesis unfolding B by (auto simp: Let_def)
qed

lemma constructor_null:
  assumes "le_oob_desc_ok env d"
  shows "nfc_ndef_le_oob_rec_payload_constructor env (Some d) None len = (if len < 9 then Err ENOMEM else Fault)"
  using assms by (auto simp: le_oob_desc_ok_def nfc_ndef_le_oob_rec_payload_constructor_def ble_device_addr_encode_def
    memcpy_src_def rdn_def wr_def addr_size bt_data_encode_def)

end

lemma ads_bounded: "le_oob_desc_ok env d \<Longrightarrow> length (ad_bytes (le_oob_ads env d)) < 2 ^ 32"
  by (auto simp: le_oob_desc_ok_def le_oob_ads_def split: option.splits)

sublocale bt_layout < oob_pl: payload_layout "\<lambda>d. nfc_ndef_le_oob_rec_payload_constructor env (Some d)"
    "\<lambda>d. ad_bytes (le_oob_ads env d)" "le_oob_desc_ok env"
  by unfold_locales (simp_all only: constructor_eq ads_bounded Let_def if_True)

context bt_layout
begin

lemma le_oob_record_writes:
  assumes "byteorder bo" "le_oob_desc_ok env d"
  shows "record_writes bo (NFC_NDEF_LE_OOB_RECORD_DESC_DEF env payload_id (Some d)) (ad_bytes (le_oob_ads env d))"
  using generic_record_writes [OF oob_pl.payload_layout_axioms assms, of TNF_MEDIA_TYPE "Some [payload_id]"
      "if payload_id \<noteq> 0 then 1 else 0" "Some nfc_ndef_le_oob_rec_type_field"]
  by (simp add: NFC_NDEF_LE_OOB_RECORD_DESC_DEF_def nfc_ndef_le_oob_rec_type_field_def readable_def)

end

lemma no_update:
  "oob_tk_value d = None \<Longrightarrow> d\<lparr>oob_tk_value := None\<rparr> = d"
  "oob_le_sc_data d = None \<Longrightarrow> d\<lparr>oob_le_sc_data := None\<rparr> = d"
  "oob_appearance d = None \<Longrightarrow> d\<lparr>oob_appearance := None\<rparr> = d"
  "oob_flags d = None \<Longrightarrow> d\<lparr>oob_flags := None\<rparr> = d"
  "oob_local_name d = None \<Longrightarrow> d\<lparr>oob_local_name := None\<rparr> = d"
  by (cases d; simp)+

section \<open>The parser reads the format\<close>

primrec ads_decode ::
    "bt_env \<Rightarrow> 'b net_buf_ops \<Rightarrow> bt_le_oob_sc_data \<Rightarrow> (u8 \<times> u8 list) list \<Rightarrow>
     'b \<times> nfc_ndef_le_oob_rec_payload_desc \<Rightarrow> ('b \<times> nfc_ndef_le_oob_rec_payload_desc) res" where
  "ads_decode env nb junk [] st = Ok st"
| "ads_decode env nb junk (x # ads) st =
     rbind (ad_decode env nb junk (fst x) (snd x) (of_nat (length (snd x))) st) (ads_decode env nb junk ads)"

lemma ads_decode_append:
  "ads_decode env nb junk (xs @ ys) = (\<lambda>st. rbind (ads_decode env nb junk xs st) (ads_decode env nb junk ys))"
  by (induction xs) (simp_all add: rbind_assoc)

context bt_layout
begin

lemma ad_decode_local:
  assumes "length d = unat len"
  shows "ad_decode env nb junk ty (d @ r) len st = ad_decode env nb junk ty d len st"
proof -
  have u: "ucast len = (n :: u32) \<Longrightarrow> length d = unat n" for n using assms by auto
  have dec:
    "ble_device_address_decode env (d @ r) (ucast len) p = ble_device_address_decode env d (ucast len) p"
    "le_role_decode env (d @ r) (ucast len) p = le_role_decode env d (ucast len) p"
    "tk_value_decode (d @ r) (ucast len) p = tk_value_decode d (ucast len) p"
    "le_sc_confirm_value_decode env (d @ r) (ucast len) sc = le_sc_confirm_value_decode env d (ucast len) sc"
    "le_sc_random_value_decode env (d @ r) (ucast len) sc = le_sc_random_value_decode env d (ucast len) sc"
    "appearance_decode env (d @ r) (ucast len) p = appearance_decode env d (ucast len) p"
    "flags_decode (d @ r) (ucast len) p = flags_decode d (ucast len) p"
    "memcpy_src (Some (d @ r)) (unat len) = memcpy_src (Some d) (unat len)" for p sc
    using assms by (auto simp: ble_device_address_decode_def le_role_decode_def tk_value_decode_def
      le_sc_confirm_value_decode_def le_sc_random_value_decode_def appearance_decode_def flags_decode_def
      memcpy_src_append rd_append rdn_append addr_size sc_size role_size dest!: u split: option.splits)
  show ?thesis unfolding ad_decode_def dec ..
qed

lemma ad_decode_safe:
  assumes "unat len \<le> length d"
  shows "ad_decode env nb junk ty d len st \<noteq> Fault"
proof -
  have u: "ucast len = (n :: u32) \<Longrightarrow> unat n \<le> length d" for n using assms by auto
  have dec:
    "ble_device_address_decode env d (ucast len) p \<noteq> Fault"
    "le_role_decode env d (ucast len) p \<noteq> Fault"
    "tk_value_decode d (ucast len) p \<noteq> Fault"
    "le_sc_confirm_value_decode env d (ucast len) sc \<noteq> Fault"
    "le_sc_random_value_decode env d (ucast len) sc \<noteq> Fault"
    "appearance_decode env d (ucast len) p \<noteq> Fault"
    "flags_decode d (ucast len) p \<noteq> Fault"
    "memcpy_src (Some d) (unat len) \<noteq> Fault" for p sc
    using assms by (auto simp: ble_device_address_decode_def le_role_decode_def tk_value_decode_def
      le_sc_confirm_value_decode_def le_sc_random_value_decode_def appearance_decode_def flags_decode_def
      memcpy_src_def rd_def rdn_def addr_size sc_size role_size dest!: u split: option.splits)
  show ?thesis
    unfolding ad_decode_def Let_def split_beta by (intro safe_intros dec) simp_all
qed

lemma step_ad:
  assumes d: "1 \<le> length d" "length d \<le> 254" and N: "N < 2 ^ 32" "length pre + (length d + 2) \<le> N"
    and P: "P = pre @ ad_struct (t, d) @ post"
  shows "le_oob_step env nb junk P (of_nat N) (of_nat (length pre)) st =
    rbind (ad_decode env nb junk t d (of_nat (length d)) st) (\<lambda>st. Ok (of_nat (length pre + (length d + 2)), st))"
proof -
  let ?i = "of_nat (length pre) :: u32" and ?l = "of_nat (length d + 1) :: u8"
  have i: "unat ?i = length pre" "unat (?i + 1) = length pre + 1"
    using N by (simp_all add: unat_of_nat_u32 unat_of_nat_u32_Suc)
  have l: "unat ?l = length d + 1" using d by (subst unat_of_nat) (simp add: take_bit_nat_eq_self)
  then have "?l \<noteq> 1" using d by auto
  moreover have "(ucast ?l :: u32) = of_nat (length d + 1)"
    using d by (simp only: word_unat_eq_iff unat_ucast_up l) (subst unat_of_nat_u32; simp)
  then have "?i + 1 + ucast ?l = of_nat (length pre + (length d + 2))" by simp
  moreover have "\<not> of_nat N < (of_nat (length pre + (length d + 2)) :: u32)"
    using N by (subst of_nat_u32_less) simp_all
  moreover have "rd P (length pre) = Ok ?l" "rd P (length pre + 1) = Ok t" "drop (length pre + 1 + 1) P = d @ post"
    by (simp_all add: P rd_def ad_struct_def nth_append)
  moreover have "?l - 1 = of_nat (length d)" by simp
  moreover have "length d = unat (of_nat (length d) :: u8)" using d by (simp add: unat_of_nat)
  ultimately show ?thesis
    unfolding le_oob_step_def Let_def i by (simp only: rbind.simps simp_thms if_False ad_decode_local)
qed

lemma loop_ads:
  assumes "\<forall>x \<in> set ads. 1 \<le> length (snd x) \<and> length (snd x) \<le> 254"
    and "N < 2 ^ 32" and "length pre + length (ad_bytes ads) \<le> N" and "P = pre @ ad_bytes ads @ post"
  shows "le_oob_loop env nb junk P (of_nat N) (of_nat (length pre)) st =
    (case ads_decode env nb junk ads st of
       Ok st \<Rightarrow> le_oob_loop env nb junk P (of_nat N) (of_nat (length pre + length (ad_bytes ads))) st
     | Err e \<Rightarrow> Some (Err e)
     | Fault \<Rightarrow> Some Fault)"
  using assms
proof (induction ads arbitrary: pre st)
  case (Cons x ads)
  obtain t d where x: "x = (t, d)" by (cases x)
  have P: "P = pre @ ad_struct (t, d) @ (ad_bytes ads @ post)" using Cons.prems(4) by (simp add: x)
  have N: "length pre + (length d + 2) \<le> N" "length (pre @ ad_struct x) + length (ad_bytes ads) \<le> N"
    using Cons.prems(3) by (simp_all add: x)
  note step = step_ad [OF _ _ Cons.prems(2) N(1) P]
  have "(of_nat (length pre) :: u32) < of_nat N"
    using Cons.prems(2) N by (subst of_nat_u32_less) simp_all
  moreover have "P = (pre @ ad_struct x) @ ad_bytes ads @ post" by (simp add: P x)
  note IH = Cons.IH [OF _ Cons.prems(2) N(2) this]
  moreover have e: "length pre + length (ad_bytes (x # ads)) = length (pre @ ad_struct x) + length (ad_bytes ads)" by simp
  ultimately show ?case
    using Cons.prems(1) IH unfolding e
    by (subst le_oob_loop.simps) (cases "ad_decode env nb junk t d (of_nat (length d)) st"; simp add: step x add.assoc)
qed simp

end

definition empty_desc :: nfc_ndef_le_oob_rec_payload_desc where
  "empty_desc = \<lparr>oob_addr = None, oob_le_role = None, oob_le_sc_data = None, oob_tk_value = None,
     oob_appearance = None, oob_flags = None, oob_local_name = None\<rparr>"

text \<open>The bytes of the result buffer that a descriptor takes, apart from the descriptor structure.\<close>

definition le_oob_cost :: "bt_env \<Rightarrow> nfc_ndef_le_oob_rec_payload_desc \<Rightarrow> nat" where
  "le_oob_cost env d = 7 + 1 +
     (case oob_tk_value d of None \<Rightarrow> 0 | Some tk \<Rightarrow> 16) +
     (case oob_le_sc_data d of None \<Rightarrow> 0 | Some sc \<Rightarrow> unat (sizeof_sc_data env)) +
     (case oob_appearance d of None \<Rightarrow> 0 | Some ap \<Rightarrow> 2) +
     (case oob_flags d of None \<Rightarrow> 0 | Some fl \<Rightarrow> 1) +
     (case oob_local_name d of None \<Rightarrow> 0 | Some s \<Rightarrow> length s)"

text \<open>Decoding \<open>ads\<close> takes \<open>cost\<close> bytes of the result buffer and turns one descriptor into another.\<close>

definition decodes ::
    "bt_env \<Rightarrow> 'b net_buf_ops \<Rightarrow> bt_le_oob_sc_data \<Rightarrow> (u8 \<times> u8 list) list \<Rightarrow> nfc_ndef_le_oob_rec_payload_desc \<Rightarrow> nat \<Rightarrow> nfc_ndef_le_oob_rec_payload_desc \<Rightarrow> bool" where
  "decodes env nb junk ads d0 cost d1 \<longleftrightarrow>
     (\<forall>m. cost \<le> unat (net_buf_simple_tailroom nb m) \<longrightarrow>
        (\<exists>m'. ads_decode env nb junk ads (m, d0) = Ok (m', d1) \<and>
              unat (net_buf_simple_tailroom nb m') = unat (net_buf_simple_tailroom nb m) - cost))"

context net_buf_alloc
begin

lemma allocate:
  assumes "unat n \<le> unat (net_buf_simple_tailroom nb m)"
  obtains m' where "memory_allocate nb m n = (m', True)"
    "unat (net_buf_simple_tailroom nb m') = unat (net_buf_simple_tailroom nb m) - unat n"
  using assms that [of "net_buf_simple_add nb m n"]
  by (simp add: memory_allocate_def tailroom_add word_le_nat_alt [symmetric] linorder_not_less unat_sub word_less_nat_alt)

end

locale le_oob_codec = bt_layout env + net_buf_alloc nb
  for env :: bt_env and nb :: "'b net_buf_ops"
begin

lemma decodes_nil: "decodes env nb junk [] d 0 d"
  by (simp add: decodes_def)

lemma decodes_append:
  assumes "decodes env nb junk xs d0 a d1" "decodes env nb junk ys d1 b d2"
  shows "decodes env nb junk (xs @ ys) d0 (a + b) d2"
  unfolding decodes_def
proof (intro allI impI)
  fix m assume m: "a + b \<le> unat (net_buf_simple_tailroom nb m)"
  with assms(1) obtain m1 where m1: "ads_decode env nb junk xs (m, d0) = Ok (m1, d1)"
    "unat (net_buf_simple_tailroom nb m1) = unat (net_buf_simple_tailroom nb m) - a"
    unfolding decodes_def by (meson add_leD1)
  with m have "b \<le> unat (net_buf_simple_tailroom nb m1)" by simp
  with assms(2) obtain m2 where "ads_decode env nb junk ys (m1, d1) = Ok (m2, d2)"
    "unat (net_buf_simple_tailroom nb m2) = unat (net_buf_simple_tailroom nb m1) - b"
    unfolding decodes_def by blast
  with m1 show "\<exists>m'. ads_decode env nb junk (xs @ ys) (m, d0) = Ok (m', d2) \<and>
      unat (net_buf_simple_tailroom nb m') = unat (net_buf_simple_tailroom nb m) - (a + b)"
    by (intro exI [of _ m2]) (simp add: ads_decode_append)
qed

lemma decodes_one:
  assumes "\<And>m m'. memory_allocate nb m n = (m', True) \<Longrightarrow> ad_decode env nb junk t d (of_nat (length d)) (m, d0) = Ok (m', d1)"
  shows "decodes env nb junk [(t, d)] d0 (unat n) d1"
  unfolding decodes_def
proof (intro allI impI)
  fix m assume "unat n \<le> unat (net_buf_simple_tailroom nb m)"
  from allocate [OF this] obtain m' where "memory_allocate nb m n = (m', True)"
    "unat (net_buf_simple_tailroom nb m') = unat (net_buf_simple_tailroom nb m) - unat n" .
  with assms [of m m'] show "\<exists>m'. ads_decode env nb junk [(t, d)] (m, d0) = Ok (m', d1) \<and>
      unat (net_buf_simple_tailroom nb m') = unat (net_buf_simple_tailroom nb m) - unat n" by simp
qed

lemma addr_decodes:
  assumes "length (addr_a a) = 6"
  shows "decodes env nb junk [(BT_DATA_LE_BT_DEVICE_ADDRESS env, addr_a a @ [addr_type a])] d0 7 (d0\<lparr>oob_addr := Some a\<rparr>)"
proof -
  have "decodes env nb junk [(BT_DATA_LE_BT_DEVICE_ADDRESS env, addr_a a @ [addr_type a])] d0 (unat (of_nat 7 :: u32)) (d0\<lparr>oob_addr := Some a\<rparr>)"
    using assms by (intro decodes_one)
      (simp add: ad_decode_def ble_device_address_decode_def addr_size memcpy_src_def rdn_def rd_def nth_append)
  then show ?thesis by simp
qed

lemma role_decodes:
  assumes "r < 4"
  shows "decodes env nb junk [(BT_DATA_LE_ROLE env, [ucast r])] d0 1 (d0\<lparr>oob_le_role := Some r\<rparr>)"
proof -
  have "unat r < 4" using assms by (simp add: word_less_nat_alt)
  then have "(ucast (ucast r :: u8) :: u32) = r"
    by (simp add: word_unat_eq_iff unsigned_ucast_eq unsigned_take_bit_eq take_bit_nat_eq_self)
  then have "decodes env nb junk [(BT_DATA_LE_ROLE env, [ucast r])] d0 (unat (1 :: u32)) (d0\<lparr>oob_le_role := Some r\<rparr>)"
    using ad_types by (intro decodes_one) (auto simp: ad_decode_def le_role_decode_def role_size rd_def)
  then show ?thesis by simp
qed

lemma tk_decodes:
  assumes "oob_tk_value d0 = None" "case x of None \<Rightarrow> True | Some tk \<Rightarrow> length tk = 16"
  shows "decodes env nb junk (opt_ads x (\<lambda>tk. [(BT_DATA_SM_TK_VALUE env, tk)])) d0
    (case x of None \<Rightarrow> 0 | Some tk \<Rightarrow> 16) (d0\<lparr>oob_tk_value := x\<rparr>)"
proof (cases x)
  case (Some tk)
  then have "decodes env nb junk [(BT_DATA_SM_TK_VALUE env, tk)] d0 (unat (of_nat 16 :: u32)) (d0\<lparr>oob_tk_value := Some tk\<rparr>)"
    using assms ad_types by (intro decodes_one) (auto simp: ad_decode_def tk_value_decode_def memcpy_src_def rdn_def)
  then show ?thesis by (simp add: Some)
qed (use assms(1) in \<open>simp add: decodes_nil no_update\<close>)

lemma appearance_decodes:
  assumes "oob_appearance d0 = None"
  shows "decodes env nb junk (opt_ads x (\<lambda>ap. [(BT_DATA_GAP_APPEARANCE env, rev (be_bytes 2 (unat ap)))])) d0
    (case x of None \<Rightarrow> 0 | Some ap \<Rightarrow> 2) (d0\<lparr>oob_appearance := x\<rparr>)"
proof (cases x)
  case (Some v)
  have "unat (sys_get_le16 env (of_nat (unat v)) (of_nat (unat v div 256))) = be_val (be_bytes 2 (unat v))"
    by (simp only: get_le16 be_bytes_2)
  also have "\<dots> = unat v" using unat_u16_less [of v] by (simp add: be_val_bytes)
  finally have "sys_get_le16 env (of_nat (unat v)) (of_nat (unat v div 256)) = v"
    by (simp only: word_unat_eq_iff)
  then have "decodes env nb junk [(BT_DATA_GAP_APPEARANCE env, rev (be_bytes 2 (unat v)))] d0 (unat (2 :: u32)) (d0\<lparr>oob_appearance := Some v\<rparr>)"
    using ad_types by (intro decodes_one) (auto simp: ad_decode_def appearance_decode_def rdn_def be_bytes_2)
  then show ?thesis by (simp add: Some)
qed (use assms in \<open>simp add: decodes_nil no_update\<close>)

lemma flags_decodes:
  assumes "oob_flags d0 = None"
  shows "decodes env nb junk (opt_ads x (\<lambda>fl. [(BT_DATA_FLAGS env, [fl])])) d0
    (case x of None \<Rightarrow> 0 | Some fl \<Rightarrow> 1) (d0\<lparr>oob_flags := x\<rparr>)"
proof (cases x)
  case (Some v)
  have "decodes env nb junk [(BT_DATA_FLAGS env, [v])] d0 (unat (1 :: u32)) (d0\<lparr>oob_flags := Some v\<rparr>)"
    using ad_types by (intro decodes_one) (auto simp: ad_decode_def flags_decode_def rd_def)
  then show ?thesis by (simp add: Some)
qed (use assms in \<open>simp add: decodes_nil no_update\<close>)

lemma name_decodes:
  assumes "oob_local_name d0 = None" "case x of None \<Rightarrow> True | Some s \<Rightarrow> s \<noteq> [] \<and> last s = 0 \<and> length s \<le> 255"
  shows "decodes env nb junk (opt_ads x (\<lambda>s. [(BT_DATA_NAME_COMPLETE env, butlast s)])) d0
    (case x of None \<Rightarrow> 0 | Some s \<Rightarrow> length s) (d0\<lparr>oob_local_name := x\<rparr>)"
proof (cases x)
  case (Some s)
  with assms obtain cs where s: "s = cs @ [0]" and cs: "length cs \<le> 254"
    by (cases s rule: rev_cases) auto
  have l: "unat (of_nat (length cs) :: u8) = length cs" using cs by (simp add: unat_of_nat)
  have e: "ucast (of_nat (length cs) :: u8) + 1 = (of_nat (length cs + 1) :: u32)"
    using cs by (simp add: unsigned_of_nat take_bit_nat_eq_self)
  have u: "unat (of_nat (length cs + 1) :: u32) = length cs + 1" using cs by (subst unat_of_nat_u32) simp_all
  have "decodes env nb junk [(BT_DATA_NAME_COMPLETE env, cs)] d0 (unat (of_nat (length cs + 1) :: u32)) (d0\<lparr>oob_local_name := Some s\<rparr>)"
    using ad_types by (intro decodes_one) (simp add: ad_decode_def e l memcpy_src_def rdn_def s eq_commute [of "BT_DATA_NAME_COMPLETE env"] del: of_nat_add of_nat_Suc)
  then show ?thesis unfolding u by (simp add: Some s)
qed (use assms in \<open>simp add: decodes_nil no_update\<close>)

lemma sc_decodes:
  assumes "oob_le_sc_data d0 = None" "case x of None \<Rightarrow> True | Some sc \<Rightarrow> length (sc_c sc) = 16 \<and> length (sc_r sc) = 16"
  shows "decodes env nb junk (opt_ads x (\<lambda>sc. [(BT_DATA_LE_SC_CONFIRM_VALUE env, sc_c sc), (BT_DATA_LE_SC_RANDOM_VALUE env, sc_r sc)])) d0
    (case x of None \<Rightarrow> 0 | Some sc \<Rightarrow> unat (sizeof_sc_data env)) (d0\<lparr>oob_le_sc_data := x\<rparr>)"
proof (cases x)
  case (Some sc)
  let ?d1 = "d0\<lparr>oob_le_sc_data := Some (junk\<lparr>sc_c := sc_c sc\<rparr>)\<rparr>"
  have c: "decodes env nb junk [(BT_DATA_LE_SC_CONFIRM_VALUE env, sc_c sc)] d0 (unat (sizeof_sc_data env)) ?d1"
    using ad_types assms Some by (intro decodes_one)
      (auto simp: ad_decode_def le_sc_confirm_value_decode_def memcpy_src_def rdn_def sc_size)
  have r: "decodes env nb junk [(BT_DATA_LE_SC_RANDOM_VALUE env, sc_r sc)] ?d1 0 (d0\<lparr>oob_le_sc_data := Some sc\<rparr>)"
    using ad_types assms Some
    by (auto simp: decodes_def ad_decode_def le_sc_random_value_decode_def memcpy_src_def rdn_def sc_size)
  from decodes_append [OF c r] show ?thesis by (simp add: Some)
qed (use assms in \<open>simp add: decodes_nil no_update\<close>)

lemma ads_decode_desc:
  assumes ok: "le_oob_desc_ok env d"
  shows "decodes env nb junk (le_oob_ads env d) empty_desc (le_oob_cost env d) d"
proof -
  note ok' = ok [unfolded le_oob_desc_ok_def]
  from ok' obtain a r where d: "oob_addr d = Some a" "length (addr_a a) = 6" "oob_le_role d = Some r" "r < 4" by auto
  let ?d2 = "empty_desc\<lparr>oob_addr := Some a, oob_le_role := Some r\<rparr>"
  let ?d3 = "?d2\<lparr>oob_tk_value := oob_tk_value d\<rparr>"
  let ?d4 = "?d3\<lparr>oob_le_sc_data := oob_le_sc_data d\<rparr>"
  let ?d5 = "?d4\<lparr>oob_appearance := oob_appearance d\<rparr>"
  let ?d6 = "?d5\<lparr>oob_flags := oob_flags d\<rparr>"
  have deq: "?d6\<lparr>oob_local_name := oob_local_name d\<rparr> = d" using d by (cases d) (simp add: empty_desc_def)
  have tk:
    "decodes env nb junk (opt_ads (oob_tk_value d) (\<lambda>tk. [(BT_DATA_SM_TK_VALUE env, tk)])) ?d2
       (case oob_tk_value d of None \<Rightarrow> 0 | Some tk \<Rightarrow> 16) ?d3"
    using ok' by (intro tk_decodes) (simp_all add: empty_desc_def)
  have sc:
    "decodes env nb junk (opt_ads (oob_le_sc_data d) (\<lambda>sc. [(BT_DATA_LE_SC_CONFIRM_VALUE env, sc_c sc), (BT_DATA_LE_SC_RANDOM_VALUE env, sc_r sc)]))
       ?d3 (case oob_le_sc_data d of None \<Rightarrow> 0 | Some sc \<Rightarrow> unat (sizeof_sc_data env)) ?d4"
    using ok' by (intro sc_decodes) (simp_all add: empty_desc_def)
  have ap:
    "decodes env nb junk (opt_ads (oob_appearance d) (\<lambda>ap. [(BT_DATA_GAP_APPEARANCE env, rev (be_bytes 2 (unat ap)))])) ?d4
       (case oob_appearance d of None \<Rightarrow> 0 | Some ap \<Rightarrow> 2) ?d5"
    by (intro appearance_decodes) (simp add: empty_desc_def)
  have fl:
    "decodes env nb junk (opt_ads (oob_flags d) (\<lambda>fl. [(BT_DATA_FLAGS env, [fl])])) ?d5
       (case oob_flags d of None \<Rightarrow> 0 | Some fl \<Rightarrow> 1) ?d6"
    by (intro flags_decodes) (simp add: empty_desc_def)
  have nm:
    "decodes env nb junk (opt_ads (oob_local_name d) (\<lambda>s. [(BT_DATA_NAME_COMPLETE env, butlast s)])) ?d6
       (case oob_local_name d of None \<Rightarrow> 0 | Some s \<Rightarrow> length s) (?d6\<lparr>oob_local_name := oob_local_name d\<rparr>)"
    using ok' by (intro name_decodes) (simp_all add: empty_desc_def split: option.splits)
  note all = decodes_append [OF addr_decodes [OF d(2), of _ empty_desc] decodes_append [OF role_decodes [OF d(4)]
    decodes_append [OF tk decodes_append [OF sc decodes_append [OF ap decodes_append [OF fl nm]]]]]]
  show ?thesis
    using all unfolding deq le_oob_ads_def le_oob_cost_def d option.sel add.assoc .
qed

lemma ads_lengths:
  assumes "le_oob_desc_ok env d" "case oob_local_name d of None \<Rightarrow> True | Some s \<Rightarrow> 2 \<le> length s"
  shows "\<forall>x \<in> set (le_oob_ads env d). 1 \<le> length (snd x) \<and> length (snd x) \<le> 254"
  using assms by (auto simp: le_oob_desc_ok_def le_oob_ads_def split: option.splits)

text \<open>The parser on a payload that starts with the structures of \<open>d\<close>: what is left is the loop behind them.\<close>

lemma parse_ads:
  assumes ok: "le_oob_desc_ok env d" "case oob_local_name d of None \<Rightarrow> True | Some s \<Rightarrow> 2 \<le> length s"
    and N: "N < 2 ^ 32" "length (ad_bytes (le_oob_ads env d)) \<le> N"
    and sz: "unat n < 2 ^ 16" "unat (sizeof_le_oob_desc env) + le_oob_cost env d \<le> unat n"
  obtains m where "unat (net_buf_simple_tailroom nb m) = unat n - (unat (sizeof_le_oob_desc env) + le_oob_cost env d)"
    "nfc_ndef_le_oob_rec_payload_parse env nb junk (Some (ad_bytes (le_oob_ads env d) @ post)) (of_nat N) n =
       map_option (\<lambda>r. rbind r (\<lambda>(m, d). Ok (d, n - net_buf_simple_tailroom nb m)))
         (le_oob_loop env nb junk (ad_bytes (le_oob_ads env d) @ post) (of_nat N)
           (of_nat (length (ad_bytes (le_oob_ads env d)))) (m, d))"
proof -
  let ?P = "ad_bytes (le_oob_ads env d) @ post" and ?m0 = "net_buf_simple_reset nb (net_buf_simple_init_with_data nb n)"
  have t0: "net_buf_simple_tailroom nb ?m0 = n" by (rule tailroom_init [OF sz(1)])
  have "unat (sizeof_le_oob_desc env) \<le> unat (net_buf_simple_tailroom nb ?m0)" using sz(2) t0 by simp
  from allocate [OF this] obtain m1 where m1: "memory_allocate nb ?m0 (sizeof_le_oob_desc env) = (m1, True)"
    "unat (net_buf_simple_tailroom nb m1) = unat n - unat (sizeof_le_oob_desc env)" unfolding t0 .
  with sz(2) have "le_oob_cost env d \<le> unat (net_buf_simple_tailroom nb m1)" by simp
  with ads_decode_desc [OF ok(1), unfolded decodes_def] obtain m2 where
    m2: "ads_decode env nb junk (le_oob_ads env d) (m1, empty_desc) = Ok (m2, d)"
      "unat (net_buf_simple_tailroom nb m2) = unat (net_buf_simple_tailroom nb m1) - le_oob_cost env d" by blast
  have "le_oob_loop env nb junk ?P (of_nat N) 0 (m1, empty_desc) =
      le_oob_loop env nb junk ?P (of_nat N) (of_nat (length (ad_bytes (le_oob_ads env d)))) (m2, d)"
    using loop_ads [OF ads_lengths [OF ok] N(1), of "[]" ?P post nb junk "(m1, empty_desc)"] N(2) m2(1) by simp
  with m1 m2 sz(2) show ?thesis
    by (intro that [of m2]) (simp_all add: nfc_ndef_le_oob_rec_payload_parse_def empty_desc_def)
qed

lemma parse_desc:
  assumes ok: "le_oob_desc_ok env d" "case oob_local_name d of None \<Rightarrow> True | Some s \<Rightarrow> 2 \<le> length s"
    and N: "length (ad_bytes (le_oob_ads env d)) < 2 ^ 32"
    and sz: "unat n < 2 ^ 16" "unat (sizeof_le_oob_desc env) + le_oob_cost env d \<le> unat n"
  shows "nfc_ndef_le_oob_rec_payload_parse env nb junk (Some (ad_bytes (le_oob_ads env d) @ post))
      (of_nat (length (ad_bytes (le_oob_ads env d)))) n =
    Some (Ok (d, of_nat (unat (sizeof_le_oob_desc env) + le_oob_cost env d)))"
proof -
  from parse_ads [OF ok N order_refl sz, where post = post and junk = junk] obtain m where
    m: "unat (net_buf_simple_tailroom nb m) = unat n - (unat (sizeof_le_oob_desc env) + le_oob_cost env d)"
    and p: "nfc_ndef_le_oob_rec_payload_parse env nb junk (Some (ad_bytes (le_oob_ads env d) @ post))
        (of_nat (length (ad_bytes (le_oob_ads env d)))) n = Some (Ok (d, n - net_buf_simple_tailroom nb m))"
    by (auto simp: le_oob_loop.simps)
  have "net_buf_simple_tailroom nb m \<le> n" using m by (simp add: word_le_nat_alt)
  then have "unat (n - net_buf_simple_tailroom nb m) = unat (sizeof_le_oob_desc env) + le_oob_cost env d"
    using m sz(2) by (simp add: unat_sub)
  also have "\<dots> = unat (of_nat (unat (sizeof_le_oob_desc env) + le_oob_cost env d) :: u32)"
    using sz by (subst unat_of_nat_u32) simp_all
  finally show ?thesis unfolding p by (simp only: word_unat_eq_iff [symmetric])
qed

lemma parse_zero:
  assumes ok: "le_oob_desc_ok env d" "case oob_local_name d of None \<Rightarrow> True | Some s \<Rightarrow> 2 \<le> length s"
    and N: "length (ad_bytes (le_oob_ads env d)) + 1 < 2 ^ 32"
    and sz: "unat n < 2 ^ 16" "unat (sizeof_le_oob_desc env) + le_oob_cost env d \<le> unat n"
  shows "nfc_ndef_le_oob_rec_payload_parse env nb junk (Some (ad_bytes (le_oob_ads env d) @ [0]))
      (of_nat (length (ad_bytes (le_oob_ads env d)) + 1)) n = Some Fault"
proof -
  define k where "k = length (ad_bytes (le_oob_ads env d))"
  note k = N [folded k_def]
  from parse_ads [OF ok N _ sz, where post = "[0]" and junk = junk] obtain m where
    p: "nfc_ndef_le_oob_rec_payload_parse env nb junk (Some (ad_bytes (le_oob_ads env d) @ [0])) (of_nat (k + 1)) n =
       map_option (\<lambda>r. rbind r (\<lambda>(m, d). Ok (d, n - net_buf_simple_tailroom nb m)))
         (le_oob_loop env nb junk (ad_bytes (le_oob_ads env d) @ [0]) (of_nat (k + 1)) (of_nat k) (m, d))"
    unfolding k_def by auto
  have "(of_nat k :: u32) < of_nat (k + 1)" using k by (subst of_nat_u32_less) simp_all
  moreover have "le_oob_step env nb junk (ad_bytes (le_oob_ads env d) @ [0]) (of_nat (k + 1)) (of_nat k) (m, d) = Fault"
    using k unfolding le_oob_step_def Let_def
    by (simp add: unat_of_nat_u32 [of k] unat_of_nat_u32_Suc rd_def nth_append flip: k_def) (simp add: k_def add.commute)
  ultimately have "le_oob_loop env nb junk (ad_bytes (le_oob_ads env d) @ [0]) (of_nat (k + 1)) (of_nat k) (m, d) = Some Fault"
    by (subst le_oob_loop.simps) (simp del: of_nat_add)
  then show ?thesis using p by (simp add: k_def)
qed

end
section \<open>Any payload\<close>

text \<open>No structure the parser reaches has length zero.\<close>

function ad_walk :: "u8 list \<Rightarrow> bool" where
  "ad_walk [] = True"
| "ad_walk (n # xs) = (n \<noteq> 0 \<and> (unat n \<le> length xs \<longrightarrow> ad_walk (drop (unat n) xs)))"
  by pat_completeness auto
termination by (relation "measure length") auto

context bt_layout
begin

lemma step_cases:
  assumes "index < len" "unat len \<le> length P" "unat len + 256 \<le> 2 ^ 32"
  shows "P ! unat index \<noteq> 0 \<Longrightarrow> le_oob_step env nb junk P len index st \<noteq> Fault"
    and "le_oob_step env nb junk P len index st = Ok (i, st') \<Longrightarrow>
      unat i = unat index + 1 + unat (P ! unat index) \<and> unat i \<le> unat len"
proof -
  let ?n = "P ! unat index"
  have lt: "unat index < unat len" using assms(1) by (simp add: word_less_nat_alt)
  have n: "unat ?n < 256" by (rule unat_u8_less)
  have 1: "unat (index + 1) = unat index + 1"
    using lt assms(3) unat_of_nat_u32_Suc [of "unat index"] by simp
  have 2: "unat (index + 1 + ucast ?n) = unat index + 1 + unat ?n"
    using lt n assms(3) 1 by (simp add: unat_word_ariths)
  have r: "rd P (unat index) = Ok ?n" using lt assms(2) by (simp add: rd_def)
  show "?n \<noteq> 0 \<Longrightarrow> le_oob_step env nb junk P len index st \<noteq> Fault"
  proof (cases "?n = 1 \<or> index + 1 + ucast ?n > len")
    case False
    assume "?n \<noteq> 0"
    then have "unat ?n \<noteq> 0" by (simp add: unat_eq_0)
    with False 2 have le: "unat index + 1 + unat ?n \<le> unat len" "0 < unat ?n" by (simp_all add: word_less_nat_alt)
    then have "unat (?n - 1) = unat ?n - 1" by (subst unat_sub) (simp_all add: word_le_nat_alt)
    with le assms(2) have "ad_decode env nb junk t (drop (unat index + 1 + 1) P) (?n - 1) st \<noteq> Fault" for t
      by (intro ad_decode_safe) simp
    with False le assms(2) show ?thesis
      by (auto simp: le_oob_step_def r 1 rd_def Let_def rbind_eq_Fault_iff)
  qed (simp add: le_oob_step_def r Let_def)
  show "unat i = unat index + 1 + unat ?n \<and> unat i \<le> unat len"
    if "le_oob_step env nb junk P len index st = Ok (i, st')"
  proof -
    from that have "i = index + 1 + ucast ?n" "\<not> len < index + 1 + ucast ?n"
      by (auto simp: le_oob_step_def r Let_def rbind_eq_Ok_iff split: if_splits)
    with 2 show ?thesis by (simp add: word_less_nat_alt)
  qed
qed

lemma loop_returns:
  assumes "unat len \<le> length P" "unat len + 256 \<le> 2 ^ 32"
  shows "\<exists>r. le_oob_loop env nb junk P len index st = Some r \<and>
    (ad_walk (drop (unat index) (take (unat len) P)) \<longrightarrow> r \<noteq> Fault)"
proof (induction "unat len - unat index" arbitrary: index st rule: less_induct)
  case less
  show ?case
  proof (cases "index < len")
    case True
    then have lt: "unat index < unat len" by (simp add: word_less_nat_alt)
    note step = step_cases [OF True assms]
    have Q: "drop (unat index) (take (unat len) P) = P ! unat index # drop (unat index + 1) (take (unat len) P)"
      using lt assms(1) by (subst Cons_nth_drop_Suc [symmetric]) simp_all
    show ?thesis
    proof (cases "le_oob_step env nb junk P len index st")
      case (Ok x)
      obtain i st' where x: "x = (i, st')" by (cases x)
      note i = step(2) [OF Ok [unfolded x]]
      have "unat len - unat i < unat len - unat index" using i lt by linarith
      from less.hyps [OF this, of st'] obtain r where
        r: "le_oob_loop env nb junk P len i st' = Some r" "ad_walk (drop (unat i) (take (unat len) P)) \<longrightarrow> r \<noteq> Fault"
        by blast
      have "unat (P ! unat index) \<le> unat len - Suc (unat index)" using i by linarith
      with i assms(1) have "ad_walk (drop (unat index) (take (unat len) P)) \<longrightarrow> ad_walk (drop (unat i) (take (unat len) P))"
        unfolding Q by (simp add: add.commute add.left_commute)
      with True Ok r show ?thesis by (subst le_oob_loop.simps) (simp add: x)
    next
      case (Err e)
      with True show ?thesis by (subst le_oob_loop.simps) simp
    next
      case Fault
      with step(1) have "\<not> ad_walk (drop (unat index) (take (unat len) P))" unfolding Q by fastforce
      with True Fault show ?thesis by (subst le_oob_loop.simps) simp
    qed
  qed (subst le_oob_loop.simps, simp)
qed

end
section \<open>A reference environment\<close>

text \<open>The values of the Bluetooth assigned numbers, a 32 bit target, and an allocator that counts.\<close>

definition bt_env_ref :: bt_env where
  "bt_env_ref = \<lparr>
     BT_DATA_FLAGS = 0x01, BT_DATA_NAME_SHORTENED = 0x08, BT_DATA_NAME_COMPLETE = 0x09,
     BT_DATA_SM_TK_VALUE = 0x10, BT_DATA_GAP_APPEARANCE = 0x19, BT_DATA_LE_BT_DEVICE_ADDRESS = 0x1B,
     BT_DATA_LE_ROLE = 0x1C, BT_DATA_LE_SC_CONFIRM_VALUE = 0x22, BT_DATA_LE_SC_RANDOM_VALUE = 0x23,
     BT_LE_AD_NO_BREDR = 0x04, sizeof_bt_addr = 6, sizeof_bt_addr_le = 7, sizeof_sc_c = 16, sizeof_sc_r = 16,
     sizeof_sc_data = 32, sizeof_le_role = 1, sizeof_le_oob_desc = 28,
     le_role_image = (\<lambda>v. [ucast v]), u16_image = (\<lambda>v. rev (be_bytes 2 (unat v))),
     sys_get_le16 = (\<lambda>a b. of_nat (be_val [b, a]))\<rparr>"

definition net_buf_ref :: "u32 net_buf_ops" where
  "net_buf_ref = \<lparr>net_buf_simple_init_with_data = (\<lambda>n. n), net_buf_simple_reset = (\<lambda>m. m),
     net_buf_simple_tailroom = (\<lambda>m. m), net_buf_simple_add = (\<lambda>m n. m - n)\<rparr>"

interpretation oob_ref: le_oob_codec bt_env_ref net_buf_ref
proof
  show "unat (sys_get_le16 bt_env_ref a b) = be_val [b, a]" for a b
    using be_val_less [of "[b, a]"] by (simp add: bt_env_ref_def unat_of_nat del: be_val.simps)
qed (simp_all add: bt_env_ref_def net_buf_ref_def)

definition oob_demo :: nfc_ndef_le_oob_rec_payload_desc where
  "oob_demo = \<lparr>oob_addr = Some \<lparr>addr_type = 1, addr_a = [1, 2, 3, 4, 5, 6]\<rparr>, oob_le_role = Some 2,
     oob_le_sc_data = None, oob_tk_value = None, oob_appearance = Some 0x0341, oob_flags = Some 0x06,
     oob_local_name = Some [0x41, 0x42, 0]\<rparr>"

lemma oob_demo_ok:
  "le_oob_desc_ok bt_env_ref oob_demo" "case oob_local_name oob_demo of None \<Rightarrow> True | Some s \<Rightarrow> 2 \<le> length s"
  "le_oob_cost bt_env_ref oob_demo = 14"
  "ad_bytes (le_oob_ads bt_env_ref oob_demo) =
     [8, 0x1B, 1, 2, 3, 4, 5, 6, 1, 2, 0x1C, 2, 3, 0x19, 0x41, 0x03, 2, 0x01, 0x06, 3, 0x09, 0x41, 0x42]"
  "sizeof_le_oob_desc bt_env_ref = 28"
  by (simp_all add: le_oob_desc_ok_def le_oob_cost_def le_oob_ads_def ad_struct_def oob_demo_def bt_env_ref_def be_bytes_2)

section \<open>Properties\<close>

text \<open>
  C22. The constructor of the LE OOB record writes the AD structures of the descriptor, in order, at the
  start of the buffer and reports their length; when they do not fit it reports \<^verbatim>\<open>-ENOMEM\<close>. The
  descriptor has its mandatory fields, arrays of the declared sizes and a name of at most 254 characters.
\<close>

theorem le_oob_encode:
  assumes "bt_layout env" "le_oob_desc_ok env d" "unat len \<le> length b"
  shows "nfc_ndef_le_oob_rec_payload_constructor env (Some d) (Some b) len =
    (let bs = ad_bytes (le_oob_ads env d) in
     if length bs \<le> unat len then Ok (Some (bs @ drop (length bs) b), of_nat (length bs)) else Err ENOMEM)"
  using assms by (rule bt_layout.constructor_eq)

theorem le_oob_encode_witness:
  "nfc_ndef_le_oob_rec_payload_constructor bt_env_ref (Some oob_demo) (Some (replicate 24 0)) 24 =
     Ok (Some [8, 0x1B, 1, 2, 3, 4, 5, 6, 1, 2, 0x1C, 2, 3, 0x19, 0x41, 0x03, 2, 0x01, 0x06, 3, 0x09, 0x41, 0x42, 0], 23) \<and>
   nfc_ndef_le_oob_rec_payload_constructor bt_env_ref (Some oob_demo) (Some (replicate 24 0)) 22 = Err ENOMEM"
  using le_oob_encode [OF oob_ref.bt_layout_axioms oob_demo_ok(1), of 24 "replicate 24 0"]
    le_oob_encode [OF oob_ref.bt_layout_axioms oob_demo_ok(1), of 22 "replicate 24 0"]
  by (simp add: oob_demo_ok(4) Let_def)

text \<open>
  C18. Round trip: a payload that the constructor wrote, stored in a record with the LE OOB type, is parsed
  back into the same descriptor, and the reported length is what the descriptor and its fields take of the
  result buffer. A present name is not empty, and the result buffer is large enough.
\<close>

theorem le_oob_round_trip:
  assumes "le_oob_codec env nb" "le_oob_desc_ok env d"
    and "case oob_local_name d of None \<Rightarrow> True | Some s \<Rightarrow> 2 \<le> length s"
    and "unat len \<le> length b"
    and "nfc_ndef_le_oob_rec_payload_constructor env (Some d) (Some b) len = Ok (Some out, k)"
    and "unat n < 2 ^ 16" "unat (sizeof_le_oob_desc env) + le_oob_cost env d \<le> unat n"
  shows "nfc_ndef_le_oob_rec_parse env nb junk
      (Some (NFC_NDEF_RECORD_BIN_DATA_DEF TNF_MEDIA_TYPE id_arg id_len (Some nfc_ndef_le_oob_rec_type_field)
               (of_nat (length nfc_ndef_le_oob_rec_type_field)) (Some out) k)) True (Some n) =
    Some (Ok (d, of_nat (unat (sizeof_le_oob_desc env) + le_oob_cost env d)))"
proof -
  have l: "bt_layout env" using assms(1) by (simp add: le_oob_codec_def)
  let ?bs = "ad_bytes (le_oob_ads env d)"
  from bt_layout.constructor_eq [OF l assms(2,4)] assms(5)
  have out: "out = ?bs @ drop (length ?bs) b" "k = of_nat (length ?bs)" "length ?bs \<le> unat len"
    by (auto simp: Let_def split: if_splits)
  then have "length ?bs < 2 ^ 32" using unat_u32_less [of len] by simp
  from le_oob_codec.parse_desc [OF assms(1-3) this assms(6,7)]
  show ?thesis by (simp add: nfc_ndef_le_oob_rec_parse_def nfc_ndef_le_oob_rec_check_def
    NFC_NDEF_RECORD_BIN_DATA_DEF_def nfc_ndef_le_oob_rec_type_field_def rdn_def out)
qed

theorem le_oob_round_trip_witness:
  "nfc_ndef_le_oob_rec_parse bt_env_ref net_buf_ref \<lparr>sc_r = [], sc_c = []\<rparr>
      (Some (NFC_NDEF_RECORD_BIN_DATA_DEF TNF_MEDIA_TYPE None 0 (Some nfc_ndef_le_oob_rec_type_field)
               (of_nat (length nfc_ndef_le_oob_rec_type_field))
               (Some [8, 0x1B, 1, 2, 3, 4, 5, 6, 1, 2, 0x1C, 2, 3, 0x19, 0x41, 0x03, 2, 0x01, 0x06, 3, 0x09, 0x41, 0x42]) 23))
      True (Some 64) = Some (Ok (oob_demo, 42))"
proof -
  have "nfc_ndef_le_oob_rec_payload_constructor bt_env_ref (Some oob_demo) (Some (replicate 23 0)) 23 =
      Ok (Some [8, 0x1B, 1, 2, 3, 4, 5, 6, 1, 2, 0x1C, 2, 3, 0x19, 0x41, 0x03, 2, 0x01, 0x06, 3, 0x09, 0x41, 0x42], 23)"
    using oob_ref.constructor_eq [OF oob_demo_ok(1), of 23 "replicate 23 0"] by (simp add: oob_demo_ok(4))
  from le_oob_round_trip [OF oob_ref.le_oob_codec_axioms oob_demo_ok(1,2) _ this, of 64 _ None 0]
  show ?thesis by (simp add: oob_demo_ok(3,5))
qed

text \<open>
  C19. On any payload that lies in its buffer and is not within 256 bytes of the 32 bit limit, the parser
  returns; and when no AD structure it reaches has length zero, it reads nothing outside the payload's
  buffer.
\<close>

theorem le_oob_parse_safe:
  assumes "bt_layout env" "unat len \<le> length P" "unat len + 256 \<le> 2 ^ 32"
  shows "\<exists>r. nfc_ndef_le_oob_rec_payload_parse env nb junk (Some P) len n = Some r \<and>
    (ad_walk (take (unat len) P) \<longrightarrow> r \<noteq> Fault)"
proof -
  obtain m p where m: "memory_allocate nb (net_buf_simple_reset nb (net_buf_simple_init_with_data nb n)) (sizeof_le_oob_desc env) = (m, p)"
    by fastforce
  from bt_layout.loop_returns [OF assms, where index = 0 and nb = nb and junk = junk and st = "(m, empty_desc)"]
  obtain r where "le_oob_loop env nb junk P len 0 (m, empty_desc) = Some r" "ad_walk (take (unat len) P) \<longrightarrow> r \<noteq> Fault" by auto
  then show ?thesis
    by (auto simp: nfc_ndef_le_oob_rec_payload_parse_def m empty_desc_def rbind_eq_Fault_iff)
qed

theorem le_oob_parse_safe_witness:
  "\<exists>r. nfc_ndef_le_oob_rec_payload_parse bt_env_ref net_buf_ref \<lparr>sc_r = [], sc_c = []\<rparr>
      (Some [2, 0x1C, 1, 9, 0x09, 0x41]) 6 64 = Some r \<and> r \<noteq> Fault"
  using le_oob_parse_safe [OF oob_ref.bt_layout_axioms, of 6 "[2, 0x1C, 1, 9, 0x09, 0x41]" net_buf_ref "\<lparr>sc_r = [], sc_c = []\<rparr>" 64]
  by simp

text \<open>
  C37. A zero byte behind the AD structures makes the parser read past the payload: the length check accepts
  a structure of length zero and the type byte is read behind the end.
\<close>

theorem le_oob_zero_length_overrun:
  assumes "le_oob_codec env nb" "le_oob_desc_ok env d"
    and "case oob_local_name d of None \<Rightarrow> True | Some s \<Rightarrow> 2 \<le> length s"
    and "length (ad_bytes (le_oob_ads env d)) + 1 < 2 ^ 32"
    and "unat n < 2 ^ 16" "unat (sizeof_le_oob_desc env) + le_oob_cost env d \<le> unat n"
  shows "nfc_ndef_le_oob_rec_payload_parse env nb junk (Some (ad_bytes (le_oob_ads env d) @ [0]))
      (of_nat (length (ad_bytes (le_oob_ads env d)) + 1)) n = Some Fault"
  using assms by (rule le_oob_codec.parse_zero)

theorem le_oob_zero_length_overrun_witness:
  "nfc_ndef_le_oob_rec_payload_parse bt_env_ref net_buf_ref \<lparr>sc_r = [], sc_c = []\<rparr>
     (Some [8, 0x1B, 1, 2, 3, 4, 5, 6, 1, 2, 0x1C, 2, 3, 0x19, 0x41, 0x03, 2, 0x01, 0x06, 3, 0x09, 0x41, 0x42, 0]) 24 64 = Some Fault"
  using le_oob_zero_length_overrun [OF oob_ref.le_oob_codec_axioms oob_demo_ok(1,2), of 64]
  by (simp add: oob_demo_ok(3,4,5))

end
