(* ===== verification/NDEF_CH.thy ===== *)
theory NDEF_CH
  imports NDEF_LeOob
begin

unbundle bit_operations_syntax

text \<open>
  Connection Handover records and messages: \<^verbatim>\<open>ndef/ch.h\<close>, \<^verbatim>\<open>ndef/ch.c\<close>, \<^verbatim>\<open>ndef/ch_msg.h\<close> and
  \<^verbatim>\<open>ndef/ch_msg.c\<close>. A handover record contains a message of local records (alternative carriers and, in
  a request, the collision resolution), and a handover message is a handover record followed by the
  carrier records.
\<close>

section \<open>Data\<close>

definition nfc_ndef_ch_hs_rec_type_field :: "u8 list" where "nfc_ndef_ch_hs_rec_type_field = [0x48, 0x73]"
definition nfc_ndef_ch_hr_rec_type_field :: "u8 list" where "nfc_ndef_ch_hr_rec_type_field = [0x48, 0x72]"
definition nfc_ndef_ch_hm_rec_type_field :: "u8 list" where "nfc_ndef_ch_hm_rec_type_field = [0x48, 0x6D]"
definition nfc_ndef_ch_hi_rec_type_field :: "u8 list" where "nfc_ndef_ch_hi_rec_type_field = [0x48, 0x69]"
definition nfc_ndef_ch_hc_rec_type_field :: "u8 list" where "nfc_ndef_ch_hc_rec_type_field = [0x48, 0x63]"
definition nfc_ndef_ch_ac_rec_type_field :: "u8 list" where "nfc_ndef_ch_ac_rec_type_field = [0x61, 0x63]"
definition nfc_ndef_ch_cr_rec_type_field :: "u8 list" where "nfc_ndef_ch_cr_rec_type_field = [0x63, 0x72]"

lemmas ch_type_fields =
  nfc_ndef_ch_hs_rec_type_field_def nfc_ndef_ch_hr_rec_type_field_def nfc_ndef_ch_hm_rec_type_field_def
  nfc_ndef_ch_hi_rec_type_field_def nfc_ndef_ch_hc_rec_type_field_def nfc_ndef_ch_ac_rec_type_field_def
  nfc_ndef_ch_cr_rec_type_field_def

abbreviation (input) NFC_NDEF_CH_REC_TYPE_LENGTH :: u8 where "NFC_NDEF_CH_REC_TYPE_LENGTH \<equiv> 2"

text \<open>
  Carrier type format and power state are enumerations in C; they stay numbers here, because the parser
  stores whatever it finds.
\<close>

record nfc_ndef_ch_hc_rec =
  ctf :: u32
  carrier_type_len :: u8
  carrier_type :: cptr
  carrier_data_len :: u8
  carrier_data :: cptr

abbreviation (input) NFC_NDEF_CH_AC_CPS_MASK :: u32 where "NFC_NDEF_CH_AC_CPS_MASK \<equiv> 3"

record nfc_ndef_ch_ac_rec_ref =
  ref_length :: u8
  ref_data :: cptr

record nfc_ndef_ch_ac_rec =
  cps :: u32
  carrier_data_ref :: nfc_ndef_ch_ac_rec_ref
  max_aux_data_ref_cnt :: u8
  aux_data_ref_cnt :: u8
  aux_data_ref :: "nfc_ndef_ch_ac_rec_ref list option"

record nfc_ndef_ch_cr_rec =
  random :: u16

record nfc_ndef_ch_rec =
  major_version :: u8
  minor_version :: u8
  local_records :: nfc_ndef_msg_desc

section \<open>Payload constructors\<close>

text \<open>Element \<open>i\<close> of the array of auxiliary data references.\<close>

definition aux_at :: "nfc_ndef_ch_ac_rec_ref list option \<Rightarrow> nat \<Rightarrow> nfc_ndef_ch_ac_rec_ref res" where
  "aux_at arr i = (case arr of None \<Rightarrow> Fault | Some a \<Rightarrow> if i < length a then Ok (a ! i) else Fault)"

text \<open>The loops over the array, from element \<open>i\<close> on with \<open>n\<close> elements left.\<close>

primrec ac_aux_size_loop :: "nfc_ndef_ch_ac_rec_ref list option \<Rightarrow> nat \<Rightarrow> nat \<Rightarrow> u32 \<Rightarrow> u32 res" where
  "ac_aux_size_loop arr 0 i payload_size = Ok payload_size"
| "ac_aux_size_loop arr (Suc n) i payload_size =
     rbind (aux_at arr i) (\<lambda>r. ac_aux_size_loop arr n (Suc i) (payload_size + ucast (ref_length r) + 1))"

definition nfc_ac_rec_payload_size_get :: "nfc_ndef_ch_ac_rec \<Rightarrow> u32 res" where
  "nfc_ac_rec_payload_size_get ac =
     ac_aux_size_loop (aux_data_ref ac) (unat (aux_data_ref_cnt ac)) 0
       (1 + (ucast (ref_length (carrier_data_ref ac)) + 1) + 1)"

definition nfc_hc_payload_size_get :: "nfc_ndef_ch_hc_rec \<Rightarrow> u32" where
  "nfc_hc_payload_size_get hc = 1 + (ucast (carrier_type_len hc) + 1) + ucast (carrier_data_len hc)"

definition nfc_ndef_ch_rec_payload_encode ::
    "byteorder_ops \<Rightarrow> (u32 \<Rightarrow> u32) \<Rightarrow> nfc_ndef_ch_rec \<Rightarrow> payload_fn" where
  "nfc_ndef_ch_rec_payload_encode bo u ch_rec buf len =
     (case buf of
        None \<Rightarrow>
          rbind (nfc_ndef_msg_encode bo u (Some (local_records ch_rec)) None (Some len)) (\<lambda>(_, len).
          Ok (None, len + 1))
      | Some b \<Rightarrow>
          if len < 1 then Err ENOMEM
          else
            rbind (wr b 0 [(push_bit 4 (major_version ch_rec) AND 0xF0) OR (minor_version ch_rec AND 0x0F)]) (\<lambda>b.
            rbind (nfc_ndef_msg_encode bo u (Some (local_records ch_rec)) (Some (drop 1 b)) (Some (len - 1))) (\<lambda>(w, len).
            Ok (Some (take 1 b @ the w), len + 1))))"

definition nfc_ndef_ch_hc_rec_payload_encode :: "nfc_ndef_ch_hc_rec \<Rightarrow> payload_fn" where
  "nfc_ndef_ch_hc_rec_payload_encode hc buf len =
     (let payload_size = nfc_hc_payload_size_get hc in
      case buf of
        None \<Rightarrow> Ok (None, payload_size)
      | Some b \<Rightarrow>
          if payload_size > len then Err ENOMEM
          else if ctf hc < ucast (tnf_val TNF_WELL_KNOWN) \<or> ctf hc > ucast (tnf_val TNF_EXTERNAL_TYPE) then Err EFAULT
          else
            rbind (wr b 0 [ucast (ctf hc)]) (\<lambda>b.
            rbind (wr b 1 [carrier_type_len hc]) (\<lambda>b.
            rbind (memcpy_src (carrier_type hc) (unat (carrier_type_len hc))) (\<lambda>xs.
            rbind (wr b 2 xs) (\<lambda>b.
            rbind (memcpy_src (carrier_data hc) (unat (carrier_data_len hc))) (\<lambda>xs.
            rbind (wr b (2 + unat (carrier_type_len hc)) xs) (\<lambda>b.
            Ok (Some b, payload_size))))))))"

primrec ac_aux_write_loop :: "nfc_ndef_ch_ac_rec_ref list option \<Rightarrow> nat \<Rightarrow> nat \<Rightarrow> u8 list \<Rightarrow> nat \<Rightarrow> u8 list res" where
  "ac_aux_write_loop arr 0 i b p = Ok b"
| "ac_aux_write_loop arr (Suc n) i b p =
     rbind (aux_at arr i) (\<lambda>r.
     rbind (wr b p [ref_length r]) (\<lambda>b.
     rbind (memcpy_src (ref_data r) (unat (ref_length r))) (\<lambda>xs.
     rbind (wr b (p + 1) xs) (\<lambda>b.
     ac_aux_write_loop arr n (Suc i) b (p + 1 + unat (ref_length r))))))"

definition nfc_ndef_ch_ac_rec_payload_encode :: "nfc_ndef_ch_ac_rec \<Rightarrow> payload_fn" where
  "nfc_ndef_ch_ac_rec_payload_encode ac buf len =
     rbind (nfc_ac_rec_payload_size_get ac) (\<lambda>payload_size.
     case buf of
       None \<Rightarrow> Ok (None, payload_size)
     | Some b \<Rightarrow>
         if payload_size > len then Err ENOMEM
         else if cps ac AND NOT NFC_NDEF_CH_AC_CPS_MASK \<noteq> 0 then Err EFAULT
         else
           let n = unat (ref_length (carrier_data_ref ac)) in
           rbind (wr b 0 [ucast (cps ac)]) (\<lambda>b.
           rbind (wr b 1 [ref_length (carrier_data_ref ac)]) (\<lambda>b.
           rbind (memcpy_src (ref_data (carrier_data_ref ac)) n) (\<lambda>xs.
           rbind (wr b 2 xs) (\<lambda>b.
           rbind (wr b (2 + n) [aux_data_ref_cnt ac]) (\<lambda>b.
           rbind (ac_aux_write_loop (aux_data_ref ac) (unat (aux_data_ref_cnt ac)) 0 b (3 + n)) (\<lambda>b.
           Ok (Some b, payload_size))))))))"

definition nfc_ndef_ch_cr_rec_payload_encode :: "byteorder_ops \<Rightarrow> nfc_ndef_ch_cr_rec \<Rightarrow> payload_fn" where
  "nfc_ndef_ch_cr_rec_payload_encode bo cr buf len =
     (case buf of
        None \<Rightarrow> Ok (None, 0)
      | Some b \<Rightarrow>
          if 2 > len then Err ENOMEM
          else rbind (wr b 0 (sys_put_be16 bo (random cr))) (\<lambda>b. Ok (Some b, 2)))"

section \<open>Record descriptors\<close>

text \<open>
  The macros declare a payload descriptor and a record descriptor that points to it, and the functions
  below change the payload descriptor through the record. A handover record is therefore its type
  field with its payload descriptor, and \<open>ch_record_desc\<close> is the record descriptor at the time a
  message refers to it; likewise for alternative carriers.
\<close>

record ch_record =
  ch_type :: "u8 list"
  ch_payload :: nfc_ndef_ch_rec

definition ch_record_desc :: "byteorder_ops \<Rightarrow> (u32 \<Rightarrow> u32) \<Rightarrow> ch_record \<Rightarrow> nfc_ndef_record_desc" where
  "ch_record_desc bo u ch =
     NFC_NDEF_GENERIC_RECORD_DESC_DEF TNF_WELL_KNOWN None 0 (Some (ch_type ch)) NFC_NDEF_CH_REC_TYPE_LENGTH
       (nfc_ndef_ch_rec_payload_encode bo u (ch_payload ch))"

definition NFC_NDEF_CH_RECORD_DESC_DEF :: "u8 list \<Rightarrow> u8 \<Rightarrow> u8 \<Rightarrow> u32 \<Rightarrow> ch_record" where
  "NFC_NDEF_CH_RECORD_DESC_DEF rec_type_field major minor max_records =
     \<lparr>ch_type = rec_type_field,
      ch_payload = \<lparr>major_version = major, minor_version = minor, local_records = NFC_NDEF_MSG_DEF max_records\<rparr>\<rparr>"

definition NFC_NDEF_CH_HS_RECORD_DESC_DEF :: "u8 \<Rightarrow> u8 \<Rightarrow> u32 \<Rightarrow> ch_record" where
  "NFC_NDEF_CH_HS_RECORD_DESC_DEF = NFC_NDEF_CH_RECORD_DESC_DEF nfc_ndef_ch_hs_rec_type_field"

definition NFC_NDEF_CH_HR_RECORD_DESC_DEF :: "u8 \<Rightarrow> u8 \<Rightarrow> u32 \<Rightarrow> ch_record" where
  "NFC_NDEF_CH_HR_RECORD_DESC_DEF = NFC_NDEF_CH_RECORD_DESC_DEF nfc_ndef_ch_hr_rec_type_field"

definition NFC_NDEF_CH_HM_RECORD_DESC_DEF :: "u8 \<Rightarrow> u8 \<Rightarrow> u32 \<Rightarrow> ch_record" where
  "NFC_NDEF_CH_HM_RECORD_DESC_DEF = NFC_NDEF_CH_RECORD_DESC_DEF nfc_ndef_ch_hm_rec_type_field"

definition NFC_NDEF_CH_HI_RECORD_DESC_DEF :: "u8 \<Rightarrow> u8 \<Rightarrow> u32 \<Rightarrow> ch_record" where
  "NFC_NDEF_CH_HI_RECORD_DESC_DEF = NFC_NDEF_CH_RECORD_DESC_DEF nfc_ndef_ch_hi_rec_type_field"

definition NFC_NDEF_CH_HC_RECORD_DESC_DEF :: "cptr \<Rightarrow> u8 \<Rightarrow> nfc_ndef_ch_hc_rec \<Rightarrow> nfc_ndef_record_desc" where
  "NFC_NDEF_CH_HC_RECORD_DESC_DEF payload_id payload_id_length hc =
     NFC_NDEF_GENERIC_RECORD_DESC_DEF TNF_WELL_KNOWN payload_id payload_id_length
       (Some nfc_ndef_ch_hc_rec_type_field) NFC_NDEF_CH_REC_TYPE_LENGTH (nfc_ndef_ch_hc_rec_payload_encode hc)"

text \<open>The array of a fresh alternative carrier record is not initialised; \<open>junk\<close> is its content.\<close>

definition NFC_NDEF_CH_AC_RECORD_DESC_DEF ::
    "nfc_ndef_ch_ac_rec_ref \<Rightarrow> u32 \<Rightarrow> u8 \<Rightarrow> cptr \<Rightarrow> u8 \<Rightarrow> nfc_ndef_ch_ac_rec" where
  "NFC_NDEF_CH_AC_RECORD_DESC_DEF junk cps_arg carr_data_ref_len carr_data_ref max_aux =
     \<lparr>cps = cps_arg, carrier_data_ref = \<lparr>ref_length = carr_data_ref_len, ref_data = carr_data_ref\<rparr>,
      max_aux_data_ref_cnt = max_aux, aux_data_ref_cnt = 0, aux_data_ref = Some (replicate (unat max_aux) junk)\<rparr>"

definition ac_record_desc :: "nfc_ndef_ch_ac_rec \<Rightarrow> nfc_ndef_record_desc" where
  "ac_record_desc ac =
     NFC_NDEF_GENERIC_RECORD_DESC_DEF TNF_WELL_KNOWN None 0 (Some nfc_ndef_ch_ac_rec_type_field)
       NFC_NDEF_CH_REC_TYPE_LENGTH (nfc_ndef_ch_ac_rec_payload_encode ac)"

definition NFC_NDEF_CH_CR_RECORD_DESC_DEF :: "byteorder_ops \<Rightarrow> u16 \<Rightarrow> nfc_ndef_record_desc" where
  "NFC_NDEF_CH_CR_RECORD_DESC_DEF bo random_number =
     NFC_NDEF_GENERIC_RECORD_DESC_DEF TNF_WELL_KNOWN None 0 (Some nfc_ndef_ch_cr_rec_type_field)
       NFC_NDEF_CH_REC_TYPE_LENGTH (nfc_ndef_ch_cr_rec_payload_encode bo \<lparr>random = random_number\<rparr>)"

definition nfc_ndef_ch_rec_local_record_clear :: "ch_record \<Rightarrow> ch_record" where
  "nfc_ndef_ch_rec_local_record_clear ch =
     ch\<lparr>ch_payload := (ch_payload ch)\<lparr>local_records := nfc_ndef_msg_clear (local_records (ch_payload ch))\<rparr>\<rparr>"

definition nfc_ndef_ch_rec_local_record_add :: "ch_record \<Rightarrow> nfc_ndef_record_desc option \<Rightarrow> ch_record res" where
  "nfc_ndef_ch_rec_local_record_add ch local_rec =
     rbind (nfc_ndef_msg_record_add (local_records (ch_payload ch)) local_rec) (\<lambda>m.
     Ok (ch\<lparr>ch_payload := (ch_payload ch)\<lparr>local_records := m\<rparr>\<rparr>))"

definition nfc_ndef_ch_ac_rec_auxiliary_data_ref_clear :: "nfc_ndef_ch_ac_rec \<Rightarrow> nfc_ndef_ch_ac_rec" where
  "nfc_ndef_ch_ac_rec_auxiliary_data_ref_clear ac = ac\<lparr>aux_data_ref_cnt := 0\<rparr>"

definition nfc_ndef_ch_ac_rec_auxiliary_data_ref_add ::
    "nfc_ndef_ch_ac_rec \<Rightarrow> cptr \<Rightarrow> u8 \<Rightarrow> nfc_ndef_ch_ac_rec res" where
  "nfc_ndef_ch_ac_rec_auxiliary_data_ref_add ac aux_data aux_length =
     (if aux_data_ref_cnt ac \<ge> max_aux_data_ref_cnt ac then Err ENOMEM
      else
        case aux_data_ref ac of
          None \<Rightarrow> Fault
        | Some a \<Rightarrow>
            if unat (aux_data_ref_cnt ac) < length a
            then Ok (ac\<lparr>aux_data_ref := Some (a[unat (aux_data_ref_cnt ac) := \<lparr>ref_length = aux_length, ref_data = aux_data\<rparr>]),
                       aux_data_ref_cnt := aux_data_ref_cnt ac + 1\<rparr>)
            else Fault)"

section \<open>Messages\<close>

record nfc_ndef_ch_msg_records =
  rec_ac :: "nfc_ndef_record_desc list option"
  rec_carrier :: "nfc_ndef_record_desc list option"
  rec_cnt :: u32

text \<open>
  The loops add the first \<open>n\<close> elements of an array from element \<open>i\<close> on. What has been added stays when
  a later call fails, so the object is returned with the error.
\<close>

primrec alternate_rec_encode ::
    "ch_record \<Rightarrow> nfc_ndef_record_desc list \<Rightarrow> nat \<Rightarrow> nat \<Rightarrow> (ch_record \<times> errno option) res" where
  "alternate_rec_encode ch ac 0 i = Ok (ch, None)"
| "alternate_rec_encode ch ac (Suc n) i =
     (if i < length ac then
        case nfc_ndef_ch_rec_local_record_add ch (Some (ac ! i)) of
          Ok ch \<Rightarrow> alternate_rec_encode ch ac n (Suc i)
        | Err e \<Rightarrow> Ok (ch, Some e)
        | Fault \<Rightarrow> Fault
      else Fault)"

primrec carrier_add_loop ::
    "nfc_ndef_msg_desc \<Rightarrow> nfc_ndef_record_desc list \<Rightarrow> nat \<Rightarrow> nat \<Rightarrow> (nfc_ndef_msg_desc \<times> errno option) res" where
  "carrier_add_loop m carrier 0 i = Ok (m, None)"
| "carrier_add_loop m carrier (Suc n) i =
     (if i < length carrier then
        case nfc_ndef_msg_record_add m (Some (carrier ! i)) of
          Ok m \<Rightarrow> carrier_add_loop m carrier n (Suc i)
        | Err e \<Rightarrow> Ok (m, Some e)
        | Fault \<Rightarrow> Fault
      else Fault)"

definition ch_rec_create ::
    "nfc_ndef_msg_desc \<Rightarrow> nfc_ndef_record_desc \<Rightarrow> nfc_ndef_record_desc list \<Rightarrow> nat \<Rightarrow> (nfc_ndef_msg_desc \<times> errno option) res" where
  "ch_rec_create msg ch carrier cnt =
     (case nfc_ndef_msg_record_add msg (Some ch) of
        Ok msg \<Rightarrow> carrier_add_loop msg carrier cnt 0
      | Err e \<Rightarrow> Ok (msg, Some e)
      | Fault \<Rightarrow> Fault)"

type_synonym ch_ret = "(nfc_ndef_msg_desc \<times> ch_record \<times> errno option) res"

text \<open>The checks of the callers have shown the array pointers not to be \<^verbatim>\<open>NULL\<close>.\<close>

definition ch_msg_create ::
    "byteorder_ops \<Rightarrow> (u32 \<Rightarrow> u32) \<Rightarrow> nfc_ndef_msg_desc \<Rightarrow> ch_record \<Rightarrow> nfc_ndef_ch_msg_records \<Rightarrow> ch_ret" where
  "ch_msg_create bo u msg ch_rec records =
     rbind (alternate_rec_encode ch_rec (the (rec_ac records)) (unat (rec_cnt records)) 0) (\<lambda>(ch_rec, err).
     case err of
       Some e \<Rightarrow> Ok (msg, ch_rec, Some e)
     | None \<Rightarrow>
         rbind (ch_rec_create msg (ch_record_desc bo u ch_rec) (the (rec_carrier records)) (unat (rec_cnt records))) (\<lambda>(msg, err).
         Ok (msg, ch_rec, err)))"

definition nfc_ndef_ch_msg_le_oob_encode ::
    "byteorder_ops \<Rightarrow> (u32 \<Rightarrow> u32) \<Rightarrow> bt_env \<Rightarrow> nfc_ndef_le_oob_rec_payload_desc option \<Rightarrow> cptr \<Rightarrow> u32 option \<Rightarrow> (cptr \<times> u32) res" where
  "nfc_ndef_ch_msg_le_oob_encode bo u env oob buf len =
     rbind (nfc_ndef_msg_record_add (NFC_NDEF_MSG_DEF 1) (Some (NFC_NDEF_LE_OOB_RECORD_DESC_DEF env 0 oob))) (\<lambda>m.
     nfc_ndef_msg_encode bo u (Some m) buf len)"

definition nfc_ndef_ch_msg_hs_create ::
    "byteorder_ops \<Rightarrow> (u32 \<Rightarrow> u32) \<Rightarrow> nfc_ndef_msg_desc option \<Rightarrow> ch_record option \<Rightarrow> nfc_ndef_ch_msg_records option \<Rightarrow> ch_ret" where
  "nfc_ndef_ch_msg_hs_create bo u msg hs_rec records =
     (if msg = None \<or> hs_rec = None \<or> records = None then Err EINVAL
      else if rec_ac (the records) = None \<or> rec_carrier (the records) = None \<or> rec_cnt (the records) < 1 then Err EINVAL
      else ch_msg_create bo u (the msg) (the hs_rec) (the records))"

definition nfc_ndef_ch_msg_hr_create ::
    "byteorder_ops \<Rightarrow> (u32 \<Rightarrow> u32) \<Rightarrow> nfc_ndef_msg_desc option \<Rightarrow> ch_record option \<Rightarrow> nfc_ndef_record_desc option \<Rightarrow>
     nfc_ndef_ch_msg_records option \<Rightarrow> ch_ret" where
  "nfc_ndef_ch_msg_hr_create bo u msg hr_rec cr_rec records =
     (if msg = None \<or> hr_rec = None \<or> records = None \<or> cr_rec = None then Err EINVAL
      else if rec_ac (the records) = None \<or> rec_carrier (the records) = None \<or> rec_cnt (the records) < 1 then Err EINVAL
      else
        case nfc_ndef_ch_rec_local_record_add (the hr_rec) cr_rec of
          Ok hr_rec \<Rightarrow> ch_msg_create bo u (the msg) hr_rec (the records)
        | Err e \<Rightarrow> Ok (the msg, the hr_rec, Some e)
        | Fault \<Rightarrow> Fault)"

definition nfc_ndef_ch_msg_hm_create ::
    "byteorder_ops \<Rightarrow> (u32 \<Rightarrow> u32) \<Rightarrow> nfc_ndef_msg_desc option \<Rightarrow> ch_record option \<Rightarrow> nfc_ndef_ch_msg_records option \<Rightarrow> ch_ret" where
  "nfc_ndef_ch_msg_hm_create bo u msg hm_rec records =
     (if msg = None \<or> hm_rec = None \<or> records = None then Err EINVAL
      else if rec_ac (the records) = None \<or> rec_carrier (the records) = None \<or> rec_cnt (the records) < 1 then Err EINVAL
      else ch_msg_create bo u (the msg) (the hm_rec) (the records))"

definition nfc_ndef_ch_msg_hi_create ::
    "byteorder_ops \<Rightarrow> (u32 \<Rightarrow> u32) \<Rightarrow> nfc_ndef_msg_desc option \<Rightarrow> ch_record option \<Rightarrow> nfc_ndef_ch_msg_records option \<Rightarrow> ch_ret" where
  "nfc_ndef_ch_msg_hi_create bo u msg hi_rec records =
     (if msg = None \<or> hi_rec = None \<or> records = None then Err EINVAL
      else if rec_ac (the records) = None \<or> rec_carrier (the records) = None \<or> rec_cnt (the records) < 1 then Err EINVAL
      else ch_msg_create bo u (the msg) (the hi_rec) (the records))"

section \<open>The constructors keep the payload contract\<close>

definition hc_ok :: "nfc_ndef_ch_hc_rec \<Rightarrow> bool" where
  "hc_ok hc \<longleftrightarrow> 1 \<le> ctf hc \<and> ctf hc \<le> 4 \<and> readable (carrier_type hc) (unat (carrier_type_len hc)) \<and>
     readable (carrier_data hc) (unat (carrier_data_len hc))"

definition hc_bytes :: "nfc_ndef_ch_hc_rec \<Rightarrow> u8 list" where
  "hc_bytes hc = [ucast (ctf hc), carrier_type_len hc] @ pbytes (carrier_type hc) (unat (carrier_type_len hc)) @
     pbytes (carrier_data hc) (unat (carrier_data_len hc))"

definition ref_ok :: "nfc_ndef_ch_ac_rec_ref \<Rightarrow> bool" where
  "ref_ok r \<longleftrightarrow> readable (ref_data r) (unat (ref_length r))"

definition ref_bytes :: "nfc_ndef_ch_ac_rec_ref \<Rightarrow> u8 list" where
  "ref_bytes r = ref_length r # pbytes (ref_data r) (unat (ref_length r))"

text \<open>The references in use.\<close>

definition ac_refs :: "nfc_ndef_ch_ac_rec \<Rightarrow> nfc_ndef_ch_ac_rec_ref list" where
  "ac_refs ac = (case aux_data_ref ac of None \<Rightarrow> [] | Some a \<Rightarrow> take (unat (aux_data_ref_cnt ac)) a)"

definition ac_ok :: "nfc_ndef_ch_ac_rec \<Rightarrow> bool" where
  "ac_ok ac \<longleftrightarrow> cps ac \<le> 3 \<and> ref_ok (carrier_data_ref ac) \<and> list_all ref_ok (ac_refs ac) \<and>
     length (ac_refs ac) = unat (aux_data_ref_cnt ac)"

definition ac_bytes :: "nfc_ndef_ch_ac_rec \<Rightarrow> u8 list" where
  "ac_bytes ac = [ucast (cps ac)] @ ref_bytes (carrier_data_ref ac) @ [aux_data_ref_cnt ac] @
     concat (map ref_bytes (ac_refs ac))"

lemma length_ref_bytes [simp]: "ref_ok r \<Longrightarrow> length (ref_bytes r) = 1 + unat (ref_length r)"
  by (simp add: ref_ok_def ref_bytes_def)

interpretation hc_pl: payload_encoder nfc_ndef_ch_hc_rec_payload_encode hc_bytes hc_ok ENOMEM
proof
  fix d :: nfc_ndef_ch_hc_rec and n :: u32 and b :: "u8 list"
  assume ok: "hc_ok d"
  let ?t = "unat (carrier_type_len d)" and ?k = "unat (carrier_data_len d)"
  have src: "memcpy_src (carrier_type d) ?t = Ok (pbytes (carrier_type d) ?t)"
    "memcpy_src (carrier_data d) ?k = Ok (pbytes (carrier_data d) ?k)"
    and l: "length (pbytes (carrier_type d) ?t) = ?t" "length (pbytes (carrier_data d) ?k) = ?k"
    using ok by (simp_all add: hc_ok_def memcpy_src_readable)
  have len: "length (hc_bytes d) = 2 + ?t + ?k" by (simp add: hc_bytes_def l)
  have sz: "nfc_hc_payload_size_get d = of_nat (length (hc_bytes d))"
    unfolding len by (simp add: nfc_hc_payload_size_get_def)
  have usz: "unat (nfc_hc_payload_size_get d) = length (hc_bytes d)"
    unfolding sz using len unat_u8_less [of "carrier_type_len d"] unat_u8_less [of "carrier_data_len d"]
    by (subst unat_of_nat_u32) simp_all
  have c: "\<not> (ctf d < 1 \<or> 4 < ctf d)" using ok by (auto simp: hc_ok_def)
  show "nfc_ndef_ch_hc_rec_payload_encode d None n = Ok (None, of_nat (length (hc_bytes d)))"
    by (simp add: nfc_ndef_ch_hc_rec_payload_encode_def sz)
  show "length (hc_bytes d) < 2 ^ 32"
    using len unat_u8_less [of "carrier_type_len d"] unat_u8_less [of "carrier_data_len d"] by simp
  show "nfc_ndef_ch_hc_rec_payload_encode d (Some b) n = Err ENOMEM" if "unat n < length (hc_bytes d)"
    using that usz by (simp add: nfc_ndef_ch_hc_rec_payload_encode_def word_less_nat_alt)
  show "nfc_ndef_ch_hc_rec_payload_encode d (Some b) n =
      Ok (Some (hc_bytes d @ drop (length (hc_bytes d)) b), of_nat (length (hc_bytes d)))"
    if le: "length (hc_bytes d) \<le> unat n" "unat n \<le> length b"
  proof -
    have "\<not> n < nfc_hc_payload_size_get d" using le usz by (simp add: word_less_nat_alt)
    moreover from le len have "sum_list [1, 1, ?t, ?k] \<le> length b" by simp
    from chop_fields [OF this] obtain a0 a1 x y r where
      "b = a0 # a1 # x @ y @ r" "length x = ?t" "length y = ?k"
      by (auto simp: map_eq_Cons_conv length_Suc_conv)
    ultimately show ?thesis using src l c
      by (simp add: nfc_ndef_ch_hc_rec_payload_encode_def wr_def hc_bytes_def flip: sz) (simp add: sz hc_bytes_def)
  qed
qed

lemma aux_at_Some: "i < length a \<Longrightarrow> aux_at (Some a) i = Ok (a ! i)"
  by (simp add: aux_at_def)

lemma ac_aux_size:
  "i + n \<le> length a \<Longrightarrow> list_all ref_ok (take n (drop i a)) \<Longrightarrow>
   ac_aux_size_loop (Some a) n i s = Ok (s + of_nat (length (concat (map ref_bytes (take n (drop i a))))))"
proof (induction n arbitrary: i s)
  case (Suc n)
  then have "take (Suc n) (drop i a) = a ! i # take n (drop (Suc i) a)"
    by (metis Cons_nth_drop_Suc add_Suc_right less_eq_Suc_le less_le_trans not_add_less1 not_less take_Suc_Cons)
  with Suc show ?case by (simp add: aux_at_Some ac_simps)
qed simp

lemma ac_aux_write:
  "i + n \<le> length a \<Longrightarrow> list_all ref_ok (take n (drop i a)) \<Longrightarrow>
   length (concat (map ref_bytes (take n (drop i a)))) \<le> length rest \<Longrightarrow> p = length pre \<Longrightarrow>
   ac_aux_write_loop (Some a) n i (pre @ rest) p =
     Ok (pre @ concat (map ref_bytes (take n (drop i a))) @ drop (length (concat (map ref_bytes (take n (drop i a))))) rest)"
proof (induction n arbitrary: i pre rest p)
  case (Suc n)
  let ?r = "a ! i"
  have t: "take (Suc n) (drop i a) = ?r # take n (drop (Suc i) a)"
    using Suc.prems(1) by (metis Cons_nth_drop_Suc add_Suc_right less_eq_Suc_le less_le_trans not_add_less1 not_less take_Suc_Cons)
  have ok: "ref_ok ?r" "list_all ref_ok (take n (drop (Suc i) a))" using Suc.prems(2) t by simp_all
  let ?k = "unat (ref_length ?r)"
  have src: "memcpy_src (ref_data ?r) ?k = Ok (pbytes (ref_data ?r) ?k)" "length (pbytes (ref_data ?r) ?k) = ?k"
    using ok(1) by (simp_all add: ref_ok_def memcpy_src_readable)
  obtain x y where rest: "rest = x # y" "?k \<le> length y"
    using Suc.prems(3) t ok(1) by (cases rest) simp_all
  have "wr (pre @ rest) p [ref_length ?r] = Ok ((pre @ [ref_length ?r]) @ y)"
    using Suc.prems(4) by (simp add: wr_def rest)
  moreover have "wr ((pre @ [ref_length ?r]) @ y) (p + 1) (pbytes (ref_data ?r) ?k) = Ok ((pre @ ref_bytes ?r) @ drop ?k y)"
    using Suc.prems(4) rest(2) src(2) by (simp add: wr_def ref_bytes_def)
  moreover have "length (concat (map ref_bytes (take n (drop (Suc i) a)))) \<le> length (drop ?k y)"
    using Suc.prems(3) ok(1) unfolding t rest(1) by simp
  note IH = Suc.IH [OF _ ok(2) this, of "p + 1 + ?k" "pre @ ref_bytes ?r"]
  ultimately show ?case
    using Suc.prems(1,4) src ok(1) IH by (simp add: t aux_at_Some rest(1) add.commute)
qed simp

lemma length_refs: "list_all ref_ok rs \<Longrightarrow> length (concat (map ref_bytes rs)) \<le> 256 * length rs"
proof (induction rs)
  case (Cons r rs)
  then show ?case using unat_u8_less [of "ref_length r"] by simp
qed simp

lemma ac_loops:
  assumes "ac_ok ac"
  shows "ac_aux_size_loop (aux_data_ref ac) (unat (aux_data_ref_cnt ac)) 0 s = Ok (s + of_nat (length (concat (map ref_bytes (ac_refs ac)))))"
    and "length (concat (map ref_bytes (ac_refs ac))) \<le> length rest \<Longrightarrow> p = length pre \<Longrightarrow>
      ac_aux_write_loop (aux_data_ref ac) (unat (aux_data_ref_cnt ac)) 0 (pre @ rest) p =
        Ok (pre @ concat (map ref_bytes (ac_refs ac)) @ drop (length (concat (map ref_bytes (ac_refs ac)))) rest)"
proof (atomize (full), cases "aux_data_ref ac")
  case (Some a)
  with assms have "0 + unat (aux_data_ref_cnt ac) \<le> length a" "list_all ref_ok (take (unat (aux_data_ref_cnt ac)) (drop 0 a))"
    by (auto simp: ac_ok_def ac_refs_def)
  note A = ac_aux_size [OF this] ac_aux_write [OF this]
  from Some A show "ac_aux_size_loop (aux_data_ref ac) (unat (aux_data_ref_cnt ac)) 0 s = Ok (s + of_nat (length (concat (map ref_bytes (ac_refs ac))))) \<and>
    (length (concat (map ref_bytes (ac_refs ac))) \<le> length rest \<longrightarrow> p = length pre \<longrightarrow>
      ac_aux_write_loop (aux_data_ref ac) (unat (aux_data_ref_cnt ac)) 0 (pre @ rest) p =
        Ok (pre @ concat (map ref_bytes (ac_refs ac)) @ drop (length (concat (map ref_bytes (ac_refs ac)))) rest))"
    by (simp add: ac_refs_def)
qed (use assms in \<open>auto simp: ac_ok_def ac_refs_def\<close>)

lemma cps_mask:
  fixes x :: u32
  assumes "x \<le> 3"
  shows "x AND NOT 3 = 0"
proof -
  have "unat x \<le> 3" using assms by (simp add: word_le_nat_alt)
  then have "x = 0 \<or> x = 1 \<or> x = 2 \<or> x = 3" by (simp add: word_unat_eq_iff) linarith
  then show ?thesis by auto
qed

interpretation ac_pl: payload_encoder nfc_ndef_ch_ac_rec_payload_encode ac_bytes ac_ok ENOMEM
proof
  fix d :: nfc_ndef_ch_ac_rec and n :: u32 and b :: "u8 list"
  assume ok: "ac_ok d"
  let ?c = "carrier_data_ref d" and ?R = "concat (map ref_bytes (ac_refs d))"
  let ?k = "unat (ref_length ?c)"
  note loops = ac_loops [OF ok]
  have c: "memcpy_src (ref_data ?c) ?k = Ok (pbytes (ref_data ?c) ?k)" "length (pbytes (ref_data ?c) ?k) = ?k"
    using ok by (simp_all add: ac_ok_def ref_ok_def memcpy_src_readable)
  have cps: "cps d AND NOT 3 = 0"
    using ok by (intro cps_mask) (simp add: ac_ok_def)
  have len: "length (ac_bytes d) = 3 + ?k + length ?R"
    using ok by (simp add: ac_bytes_def ac_ok_def)
  have "length ?R \<le> 256 * 255"
    using ok length_refs [of "ac_refs d"] unat_u8_less [of "aux_data_ref_cnt d"] by (auto simp: ac_ok_def)
  then have bound: "length (ac_bytes d) < 2 ^ 32"
    using len unat_u8_less [of "ref_length ?c"] by simp
  have sz: "nfc_ac_rec_payload_size_get d = Ok (of_nat (length (ac_bytes d)))"
    unfolding nfc_ac_rec_payload_size_get_def loops(1) len by simp
  note u = unat_of_nat_u32 [OF bound]
  show "length (ac_bytes d) < 2 ^ 32" by (rule bound)
  show "nfc_ndef_ch_ac_rec_payload_encode d None n = Ok (None, of_nat (length (ac_bytes d)))"
    by (simp add: nfc_ndef_ch_ac_rec_payload_encode_def sz)
  show "nfc_ndef_ch_ac_rec_payload_encode d (Some b) n = Err ENOMEM" if "unat n < length (ac_bytes d)"
    using that u by (simp add: nfc_ndef_ch_ac_rec_payload_encode_def word_less_nat_alt sz)
  show "nfc_ndef_ch_ac_rec_payload_encode d (Some b) n =
      Ok (Some (ac_bytes d @ drop (length (ac_bytes d)) b), of_nat (length (ac_bytes d)))"
    if le: "length (ac_bytes d) \<le> unat n" "unat n \<le> length b"
  proof -
    have lt: "\<not> n < of_nat (length (ac_bytes d))" using le u by (simp add: word_less_nat_alt)
    from le len have "sum_list [1, 1, ?k, 1] \<le> length b" by simp
    from chop_fields [OF this] obtain a0 a1 x a2 r where
      b: "b = a0 # a1 # x @ a2 # r" "length x = ?k" by (auto simp: map_eq_Cons_conv length_Suc_conv)
    have r: "length ?R \<le> length r" using le len b by simp
    let ?p = "pbytes (ref_data ?c) ?k"
    have W: "ac_aux_write_loop (aux_data_ref d) (unat (aux_data_ref_cnt d)) 0
        (ucast (cps d) # ref_length ?c # ?p @ aux_data_ref_cnt d # r) (3 + ?k) =
        Ok (ucast (cps d) # ref_length ?c # ?p @ aux_data_ref_cnt d # ?R @ drop (length ?R) r)"
      using loops(2) [OF r, of "3 + ?k" "[ucast (cps d)] @ ref_bytes ?c @ [aux_data_ref_cnt d]"] c(2)
      by (simp add: ref_bytes_def [of ?c])
    have D: "ac_bytes d @ drop (length (ac_bytes d)) b =
        ucast (cps d) # ref_length ?c # ?p @ aux_data_ref_cnt d # ?R @ drop (length ?R) r"
      unfolding len using b(2) by (simp add: ac_bytes_def ref_bytes_def [of ?c] b(1) numeral_3_eq_3)
    define S where "S = (of_nat (length (ac_bytes d)) :: u32)"
    from lt c cps W b(2) show ?thesis unfolding D S_def [symmetric]
      by (simp add: nfc_ndef_ch_ac_rec_payload_encode_def sz Let_def wr_def b(1) flip: S_def)
  qed
qed

text \<open>Adding a reference to an alternative carrier record whose array has its declared size.\<close>

lemma auxiliary_data_ref_add:
  assumes "ac_ok ac" "aux_data_ref ac = Some a" "length a = unat (max_aux_data_ref_cnt ac)" "readable dat (unat n)"
  shows "if aux_data_ref_cnt ac < max_aux_data_ref_cnt ac
    then \<exists>ac'. nfc_ndef_ch_ac_rec_auxiliary_data_ref_add ac dat n = Ok ac' \<and> ac_ok ac' \<and>
           ac_refs ac' = ac_refs ac @ [\<lparr>ref_length = n, ref_data = dat\<rparr>]
    else nfc_ndef_ch_ac_rec_auxiliary_data_ref_add ac dat n = Err ENOMEM"
proof (cases "aux_data_ref_cnt ac < max_aux_data_ref_cnt ac")
  case True
  let ?c = "unat (aux_data_ref_cnt ac)" and ?r = "\<lparr>ref_length = n, ref_data = dat\<rparr>"
  let ?ac = "ac\<lparr>aux_data_ref := Some (a[?c := ?r]), aux_data_ref_cnt := aux_data_ref_cnt ac + 1\<rparr>"
  have c: "?c < length a" using True assms(3) by (simp add: word_less_nat_alt)
  have "unat (aux_data_ref_cnt ac + 1) = Suc ?c"
    using c assms(3) unat_u8_less [of "max_aux_data_ref_cnt ac"] by (simp add: unat_word_ariths)
  then have refs: "ac_refs ?ac = ac_refs ac @ [?r]"
    using c assms(2) by (simp add: ac_refs_def take_Suc_conv_app_nth)
  have "nfc_ndef_ch_ac_rec_auxiliary_data_ref_add ac dat n = Ok ?ac"
    using True c assms(2) by (simp add: nfc_ndef_ch_ac_rec_auxiliary_data_ref_add_def not_le)
  moreover have "ac_ok ?ac"
    using assms(1,4) \<open>unat (aux_data_ref_cnt ac + 1) = Suc ?c\<close> unfolding ac_ok_def refs by (simp add: ref_ok_def)
  ultimately show ?thesis unfolding if_P [OF True] using refs by blast
next
  case False
  then show ?thesis by (simp add: nfc_ndef_ch_ac_rec_auxiliary_data_ref_add_def not_less)
qed

text \<open>The constructor of the collision resolution record has no size query.\<close>

sublocale byteorder < cr_pl: payload_layout "nfc_ndef_ch_cr_rec_payload_encode bo" "\<lambda>d. be_bytes 2 (unat (random d))" "\<lambda>_. True"
proof
  fix d :: nfc_ndef_ch_cr_rec and n :: u32 and b :: "u8 list"
  assume "length (be_bytes 2 (unat (random d))) \<le> unat n" "unat n \<le> length b"
  moreover from this have "\<not> n < 2" by (simp add: word_less_nat_alt)
  ultimately show "nfc_ndef_ch_cr_rec_payload_encode bo d (Some b) n =
      Ok (Some (be_bytes 2 (unat (random d)) @ drop (length (be_bytes 2 (unat (random d)))) b),
          of_nat (length (be_bytes 2 (unat (random d)))))"
    by (simp add: nfc_ndef_ch_cr_rec_payload_encode_def put_be16 wr_def) (simp add: numeral_2_eq_2)
qed simp

text \<open>
  A handover record with the local records \<open>rs\<close> it lists. The errors of a buffer that is too small are
  those of the local records, so it is no \<open>payload_encoder\<close>.
\<close>

definition ch_version :: "nfc_ndef_ch_rec \<Rightarrow> u8" where
  "ch_version d = (push_bit 4 (major_version d) AND 0xF0) OR (minor_version d AND 0x0F)"

definition ch_bytes :: "nfc_ndef_ch_rec \<times> (nfc_ndef_record_desc \<times> u8 list) list \<Rightarrow> u8 list" where
  "ch_bytes x = ch_version (fst x) # msg_bytes (length (snd x)) 0 (snd x)"

definition ch_ok :: "byteorder_ops \<Rightarrow> nfc_ndef_ch_rec \<times> (nfc_ndef_record_desc \<times> u8 list) list \<Rightarrow> bool" where
  "ch_ok bo x \<longleftrightarrow> msg_writes bo (local_records (fst x)) (snd x) \<and> length (ch_bytes x) < 2 ^ 32"

interpretation ch_ly: payload_layout "\<lambda>x. nfc_ndef_ch_rec_payload_encode bo u (fst x)" ch_bytes "ch_ok bo" for bo u
proof
  fix x :: "nfc_ndef_ch_rec \<times> (nfc_ndef_record_desc \<times> u8 list) list" and n :: u32 and b :: "u8 list"
  assume ok: "ch_ok bo x"
  let ?m = "msg_bytes (length (snd x)) 0 (snd x)"
  have h: "msg_writes bo (local_records (fst x)) (snd x)" using ok by (simp add: ch_ok_def)
  show "length (ch_bytes x) < 2 ^ 32" using ok by (simp add: ch_ok_def)
  show "nfc_ndef_ch_rec_payload_encode bo u (fst x) (Some b) n =
      Ok (Some (ch_bytes x @ drop (length (ch_bytes x)) b), of_nat (length (ch_bytes x)))"
    if le: "length (ch_bytes x) \<le> unat n" "unat n \<le> length b"
  proof -
    obtain a r where b: "b = a # r" using le by (cases b) (simp_all add: ch_bytes_def)
    have n: "1 \<le> n" using le by (simp add: ch_bytes_def word_le_nat_alt)
    then have "unat (n - 1) = unat n - 1" by (simp add: unat_sub)
    with le b have "length ?m \<le> unat (n - 1)" "unat (n - 1) \<le> length r" by (simp_all add: ch_bytes_def)
    from msg_written [OF h this] n b show ?thesis
      by (auto simp: nfc_ndef_ch_rec_payload_encode_def wr_def ch_bytes_def ch_version_def add.commute not_less [symmetric])
  qed
qed

definition ch_size_ok :: "byteorder_ops \<Rightarrow> nfc_ndef_ch_rec \<times> (nfc_ndef_record_desc \<times> u8 list) list \<Rightarrow> bool" where
  "ch_size_ok bo x \<longleftrightarrow> msg_holds bo (local_records (fst x)) (snd x) \<and> length (ch_bytes x) < 2 ^ 32"

lemma ch_size_ok: "ch_size_ok bo x \<Longrightarrow> ch_ok bo x"
  by (simp add: ch_size_ok_def ch_ok_def msg_holds_writes)

interpretation ch_pl: payload_writer "\<lambda>x. nfc_ndef_ch_rec_payload_encode bo u (fst x)" ch_bytes "ch_size_ok bo" for bo u
proof
  show "nfc_ndef_ch_rec_payload_encode bo u (fst x) None n = Ok (None, of_nat (length (ch_bytes x)))" if "ch_size_ok bo x" for x n
    using that msg_encode_size [of bo "local_records (fst x)" "snd x" u n]
    by (simp add: ch_size_ok_def nfc_ndef_ch_rec_payload_encode_def ch_bytes_def add.commute)
qed (simp_all only: ch_ly.fits ch_size_ok, simp add: ch_size_ok_def)

lemma ch_record_writes:
  assumes "byteorder bo" "ch_ok bo (ch_payload ch, rs)" "2 \<le> length (ch_type ch)"
  shows "record_writes bo (ch_record_desc bo u ch) (ch_bytes (ch_payload ch, rs))"
  using generic_record_writes [OF ch_ly.payload_layout_axioms assms(1,2), of TNF_WELL_KNOWN None 0 "Some (ch_type ch)" 2 u] assms(3)
  by (simp add: ch_record_desc_def readable_def)

lemma ch_record_encodes:
  assumes "byteorder bo" "ch_size_ok bo (ch_payload ch, rs)" "2 \<le> length (ch_type ch)"
  shows "record_encodes bo (ch_record_desc bo u ch) (ch_bytes (ch_payload ch, rs))"
  using generic_record_encodes [OF ch_pl.payload_writer_axioms assms(1,2), of TNF_WELL_KNOWN None 0 "Some (ch_type ch)" 2 u] assms(3)
  by (simp add: ch_record_desc_def readable_def)

context byteorder
begin

lemma cr_record_writes: "record_writes bo (NFC_NDEF_CH_CR_RECORD_DESC_DEF bo v) (be_bytes 2 (unat v))"
  using generic_record_writes [OF cr_pl.payload_layout_axioms byteorder_axioms TrueI, of TNF_WELL_KNOWN None 0
      "Some nfc_ndef_ch_cr_rec_type_field" 2 "\<lparr>random = v\<rparr>"]
  by (simp add: NFC_NDEF_CH_CR_RECORD_DESC_DEF_def readable_def ch_type_fields)

end

lemma ac_record_encodes:
  assumes "byteorder bo" "ac_ok ac"
  shows "record_encodes bo (ac_record_desc ac) (ac_bytes ac)"
  using generic_record_encodes [OF ac_pl.payload_writer_axioms assms, of TNF_WELL_KNOWN None 0 "Some nfc_ndef_ch_ac_rec_type_field" 2]
  by (simp add: ac_record_desc_def readable_def ch_type_fields)

lemma hc_record_encodes:
  assumes "byteorder bo" "hc_ok hc" "readable idp (unat il)"
  shows "record_encodes bo (NFC_NDEF_CH_HC_RECORD_DESC_DEF idp il hc) (hc_bytes hc)"
  using generic_record_encodes [OF hc_pl.payload_writer_axioms assms(1,2), of TNF_WELL_KNOWN idp il "Some nfc_ndef_ch_hc_rec_type_field" 2] assms(3)
  by (simp add: NFC_NDEF_CH_HC_RECORD_DESC_DEF_def readable_def ch_type_fields)

section \<open>Building a message\<close>

lemma carrier_add:
  "msg_lists m rs \<Longrightarrow> i + n \<le> length cs \<Longrightarrow>
   \<exists>m' e. carrier_add_loop m cs n i = Ok (m', e) \<and>
     (length rs + n \<le> unat (max_record_count m) \<longrightarrow> e = None \<and> msg_lists m' (rs @ take n (drop i cs))) \<and>
     (\<not> length rs + n \<le> unat (max_record_count m) \<longrightarrow> e = Some ENOSR)"
proof (induction n arbitrary: m rs i)
  case (Suc n)
  have t: "take (Suc n) (drop i cs) = cs ! i # take n (drop (Suc i) cs)"
    using Suc.prems(2) by (metis Cons_nth_drop_Suc add_Suc_right less_eq_Suc_le less_le_trans not_add_less1 not_less take_Suc_Cons)
  show ?case
  proof (cases "length rs < unat (max_record_count m)")
    case True
    with msg_lists_add [OF Suc.prems(1), of "cs ! i"] obtain m' where
      m': "nfc_ndef_msg_record_add m (Some (cs ! i)) = Ok m'" "msg_lists m' (rs @ [cs ! i])" "max_record_count m' = max_record_count m"
      by auto
    have "Suc i + n \<le> length cs" using Suc.prems(2) by simp
    from Suc.IH [OF m'(2) this] obtain m2 e where
      "carrier_add_loop m' cs n (Suc i) = Ok (m2, e)"
      "Suc (length rs + n) \<le> unat (max_record_count m) \<longrightarrow> e = None \<and> msg_lists m2 (rs @ cs ! i # take n (drop (Suc i) cs))"
      "\<not> Suc (length rs + n) \<le> unat (max_record_count m) \<longrightarrow> e = Some ENOSR"
      by (auto simp: m'(3))
    with Suc.prems(2) m'(1) show ?thesis by (intro exI [of _ m2] exI [of _ e]) (simp add: t)
  next
    case False
    with msg_lists_add [OF Suc.prems(1), of "cs ! i"] Suc.prems(2) show ?thesis by simp
  qed
qed (auto simp: msg_lists_def)

lemma alternate_eq:
  "alternate_rec_encode ch ac n i =
     rbind (carrier_add_loop (local_records (ch_payload ch)) ac n i) (\<lambda>(m, e).
     Ok (ch\<lparr>ch_payload := (ch_payload ch)\<lparr>local_records := m\<rparr>\<rparr>, e))"
proof (induction n arbitrary: ch i)
  case (Suc n)
  then show ?case
    by (cases "nfc_ndef_msg_record_add (local_records (ch_payload ch)) (Some (ac ! i))")
      (simp_all add: nfc_ndef_ch_rec_local_record_add_def)
qed simp

lemma ch_msg_create_eq:
  assumes ls: "msg_lists (local_records (ch_payload ch)) ls" and ms: "msg_lists m ms"
    and r: "rec_ac r = Some acs" "rec_carrier r = Some cs" "n \<le> length acs" "n \<le> length cs" "unat (rec_cnt r) = n"
  shows "\<exists>m' l' e. ch_msg_create bo u m ch r = Ok (m', ch\<lparr>ch_payload := (ch_payload ch)\<lparr>local_records := l'\<rparr>\<rparr>, e) \<and>
    (if length ls + n \<le> unat (max_record_count (local_records (ch_payload ch))) \<and> length ms + 1 + n \<le> unat (max_record_count m)
     then e = None \<and> msg_lists l' (ls @ take n acs) \<and>
       msg_lists m' (ms @ ch_record_desc bo u (ch\<lparr>ch_payload := (ch_payload ch)\<lparr>local_records := l'\<rparr>\<rparr>) # take n cs)
     else e = Some ENOSR)"
proof -
  from carrier_add [OF ls, of 0 n acs] r(3) obtain l' e where
    l: "carrier_add_loop (local_records (ch_payload ch)) acs n 0 = Ok (l', e)"
      "length ls + n \<le> unat (max_record_count (local_records (ch_payload ch))) \<longrightarrow> e = None \<and> msg_lists l' (ls @ take n acs)"
      "\<not> length ls + n \<le> unat (max_record_count (local_records (ch_payload ch))) \<longrightarrow> e = Some ENOSR"
    by auto
  let ?ch = "ch\<lparr>ch_payload := (ch_payload ch)\<lparr>local_records := l'\<rparr>\<rparr>"
  have C: "ch_msg_create bo u m ch r = (case e of Some e \<Rightarrow> Ok (m, ?ch, Some e)
      | None \<Rightarrow> rbind (ch_rec_create m (ch_record_desc bo u ?ch) cs n) (\<lambda>(m', e). Ok (m', ?ch, e)))"
    using l(1) r by (simp add: ch_msg_create_def alternate_eq)
  show ?thesis
  proof (cases "length ls + n \<le> unat (max_record_count (local_records (ch_payload ch)))")
    case room: True
    show ?thesis
    proof (cases "length ms < unat (max_record_count m)")
      case True
      with msg_lists_add [OF ms, of "ch_record_desc bo u ?ch"] obtain m1 where
        m1: "nfc_ndef_msg_record_add m (Some (ch_record_desc bo u ?ch)) = Ok m1" "msg_lists m1 (ms @ [ch_record_desc bo u ?ch])"
          "max_record_count m1 = max_record_count m" by auto
      from carrier_add [OF m1(2), of 0 n cs] r(4) obtain m' e' where
        "carrier_add_loop m1 cs n 0 = Ok (m', e')"
        "length ms + 1 + n \<le> unat (max_record_count m) \<longrightarrow> e' = None \<and> msg_lists m' (ms @ ch_record_desc bo u ?ch # take n cs)"
        "\<not> length ms + 1 + n \<le> unat (max_record_count m) \<longrightarrow> e' = Some ENOSR"
        by (auto simp: m1(3))
      with room l(2,3) C m1(1) show ?thesis by (intro exI [of _ m'] exI [of _ l'] exI [of _ e']) (simp add: ch_rec_create_def)
    next
      case False
      with msg_lists_add [OF ms, of "ch_record_desc bo u ?ch"] room l(2,3) C show ?thesis
        by (intro exI [of _ m] exI [of _ l'] exI [of _ "Some ENOSR"]) (simp add: ch_rec_create_def)
    qed
  next
    case False
    with l(2,3) C show ?thesis by (intro exI [of _ m] exI [of _ l'] exI [of _ "Some ENOSR"]) simp
  qed
qed

text \<open>
  The creation functions, each with the macro that declares its handover record, the second character of
  the record type, and the local records it adds in front of the alternative carriers.
\<close>

definition ch_creators :: "byteorder_ops \<Rightarrow> u16 \<Rightarrow>
    ((byteorder_ops \<Rightarrow> (u32 \<Rightarrow> u32) \<Rightarrow> nfc_ndef_msg_desc option \<Rightarrow> ch_record option \<Rightarrow> nfc_ndef_ch_msg_records option \<Rightarrow> ch_ret) \<times>
     (u8 \<Rightarrow> u8 \<Rightarrow> u32 \<Rightarrow> ch_record) \<times> u8 \<times> (nfc_ndef_record_desc \<times> u8 list) list) list" where
  "ch_creators bo v =
     [(nfc_ndef_ch_msg_hs_create, NFC_NDEF_CH_HS_RECORD_DESC_DEF, 0x73, []),
      (nfc_ndef_ch_msg_hm_create, NFC_NDEF_CH_HM_RECORD_DESC_DEF, 0x6D, []),
      (nfc_ndef_ch_msg_hi_create, NFC_NDEF_CH_HI_RECORD_DESC_DEF, 0x69, []),
      (\<lambda>bo u msg hr_rec. nfc_ndef_ch_msg_hr_create bo u msg hr_rec (Some (NFC_NDEF_CH_CR_RECORD_DESC_DEF bo v)),
       NFC_NDEF_CH_HR_RECORD_DESC_DEF, 0x72, [(NFC_NDEF_CH_CR_RECORD_DESC_DEF bo v, be_bytes 2 (unat v))])]"

text \<open>The payload of a handover record, and the message: the handover record, then the carriers.\<close>

abbreviation ac_locals :: "nfc_ndef_ch_ac_rec list \<Rightarrow> (nfc_ndef_record_desc \<times> u8 list) list" where
  "ac_locals acs \<equiv> map (\<lambda>ac. (ac_record_desc ac, ac_bytes ac)) acs"

definition ch_payload_bytes :: "u8 \<Rightarrow> u8 \<Rightarrow> (nfc_ndef_record_desc \<times> u8 list) list \<Rightarrow> u8 list" where
  "ch_payload_bytes major minor locs =
     ((push_bit 4 major AND 0xF0) OR (minor AND 0x0F)) # msg_bytes (length locs) 0 locs"

definition ch_msg_bytes :: "u8 \<Rightarrow> u8 list \<Rightarrow> (nfc_ndef_record_desc \<times> u8 list) list \<Rightarrow> u8 list" where
  "ch_msg_bytes ty pay carriers =
     [0x81, 2] @ be_bytes 4 (length pay) @ [0x48, ty] @ pay @ msg_bytes (Suc (length carriers)) 1 carriers"

abbreviation (input) ch_with :: "u8 \<Rightarrow> u8 \<Rightarrow> u8 \<Rightarrow> nfc_ndef_msg_desc \<Rightarrow> ch_record" where
  "ch_with ty major minor l \<equiv>
     \<lparr>ch_type = [0x48, ty], ch_payload = \<lparr>major_version = major, minor_version = minor, local_records = l\<rparr>\<rparr>"

lemma creators_start:
  assumes "(create, mk, ty, extra) \<in> set (ch_creators bo v)" "rec_ac r = Some acs" "rec_carrier r = Some cs" "rec_cnt r \<noteq> 0"
    and k: "length extra \<le> unat k"
  obtains l where "create bo u (Some m) (Some (mk major minor k)) (Some r) = ch_msg_create bo u m (ch_with ty major minor l) r"
    "msg_lists l (map fst extra)" "max_record_count l = k"
proof -
  let ?cr = "NFC_NDEF_CH_CR_RECORD_DESC_DEF bo v"
  note defs = nfc_ndef_ch_msg_hs_create_def nfc_ndef_ch_msg_hm_create_def nfc_ndef_ch_msg_hi_create_def nfc_ndef_ch_msg_hr_create_def
    NFC_NDEF_CH_HS_RECORD_DESC_DEF_def NFC_NDEF_CH_HM_RECORD_DESC_DEF_def NFC_NDEF_CH_HI_RECORD_DESC_DEF_def
    NFC_NDEF_CH_HR_RECORD_DESC_DEF_def NFC_NDEF_CH_RECORD_DESC_DEF_def ch_type_fields
  show ?thesis
  proof (cases "extra = []")
    case True
    with assms show ?thesis
      by (intro that [of "NFC_NDEF_MSG_DEF k"]) (auto simp: ch_creators_def defs msg_lists_fresh)
  next
    case False
    with k have "0 < unat k" by (cases extra) simp_all
    with msg_lists_add [OF msg_lists_fresh [of k], of ?cr] obtain l where
      "nfc_ndef_msg_record_add (NFC_NDEF_MSG_DEF k) (Some ?cr) = Ok l" "msg_lists l [?cr]" "max_record_count l = k" by auto
    with False assms show ?thesis
      by (intro that [of l]) (auto simp: ch_creators_def defs nfc_ndef_ch_rec_local_record_add_def)
  qed
qed

lemma creators_locals:
  assumes "(create, mk, ty, extra) \<in> set (ch_creators bo v)" "byteorder bo"
  shows "list_all (\<lambda>(r, pay). record_writes bo r pay) extra"
  using assms by (auto simp: ch_creators_def byteorder.cr_record_writes)

lemma ch_msg_layout:
  assumes "carriers \<noteq> []" "length carriers + 1 < 2 ^ 32"
  shows "msg_bytes (Suc (length carriers)) 0 ((ch_record_desc bo u (ch_with ty major minor l), pay) # carriers) =
    ch_msg_bytes ty pay carriers"
proof -
  have "record_place 0 (Suc (length carriers)) = NDEF_FIRST_RECORD"
    using assms by (simp add: record_place_def location_defs)
  then show ?thesis
    by (simp add: ch_msg_bytes_def record_bytes_def record_flags_def location_defs ch_record_desc_def
      NFC_NDEF_GENERIC_RECORD_DESC_DEF_def record_type_def record_id_def pbytes_def del: of_nat_Suc)
qed

text \<open>What a creation function leaves in the message.\<close>

lemma ch_message_built:
  assumes bo: "byteorder bo" and cr: "(create, mk, ty, extra) \<in> set (ch_creators bo v)"
    and acs: "list_all ac_ok acs" and cs: "list_all (\<lambda>(r, pay). record_writes bo r pay) carriers"
    and n: "acs \<noteq> []" "length carriers = length acs" "length extra + length acs \<le> unat k" "length acs + 1 \<le> unat k'"
    and pay: "length (ch_payload_bytes major minor (extra @ ac_locals acs)) < 2 ^ 32"
  obtains m l where "create bo u (Some (NFC_NDEF_MSG_DEF k')) (Some (mk major minor k))
      (Some \<lparr>rec_ac = Some (map ac_record_desc acs), rec_carrier = Some (map fst carriers), rec_cnt = of_nat (length acs)\<rparr>) =
        Ok (m, ch_with ty major minor l, None)"
    "msg_writes bo m ((ch_record_desc bo u (ch_with ty major minor l), ch_payload_bytes major minor (extra @ ac_locals acs)) # carriers)"
    "extra = [] \<Longrightarrow> list_all (\<lambda>(r, pay). record_encodes bo r pay) carriers \<Longrightarrow>
     msg_holds bo m ((ch_record_desc bo u (ch_with ty major minor l), ch_payload_bytes major minor (extra @ ac_locals acs)) # carriers)"
proof -
  let ?n = "length acs" and ?L = "extra @ ac_locals acs"
  let ?r = "\<lparr>rec_ac = Some (map ac_record_desc acs), rec_carrier = Some (map fst carriers), rec_cnt = of_nat ?n\<rparr>"
  have un: "unat (of_nat ?n :: u32) = ?n" using n(3) unat_u32_less [of k] by (intro unat_of_nat_u32) simp
  then have cnt: "rec_cnt ?r \<noteq> 0" using n(1) by (metis length_0_conv nfc_ndef_ch_msg_records.select_convs(3) unsigned_0)
  have "length extra \<le> unat k" using n(3) by simp
  from creators_start [OF cr _ _ cnt this, of "map ac_record_desc acs" "map fst carriers" u "NFC_NDEF_MSG_DEF k'" major minor]
  obtain l0 where
    C: "create bo u (Some (NFC_NDEF_MSG_DEF k')) (Some (mk major minor k)) (Some ?r) =
      ch_msg_create bo u (NFC_NDEF_MSG_DEF k') (ch_with ty major minor l0) ?r"
    and l0: "msg_lists l0 (map fst extra)" "max_record_count l0 = k" by auto
  have "\<exists>m l e. ch_msg_create bo u (NFC_NDEF_MSG_DEF k') (ch_with ty major minor l0) ?r =
      Ok (m, ch_with ty major minor l, e) \<and> e = None \<and> msg_lists l (map fst ?L) \<and>
      msg_lists m (ch_record_desc bo u (ch_with ty major minor l) # map fst carriers)"
    using ch_msg_create_eq [of "ch_with ty major minor l0" "map fst extra" "NFC_NDEF_MSG_DEF k'" "[]" ?r
        "map ac_record_desc acs" "map fst carriers" ?n bo u] n un l0 by (simp add: msg_lists_fresh comp_def)
  then obtain m l where m: "ch_msg_create bo u (NFC_NDEF_MSG_DEF k') (ch_with ty major minor l0) ?r =
      Ok (m, ch_with ty major minor l, None)" and l: "msg_lists l (map fst ?L)"
    and ml: "msg_lists m (ch_record_desc bo u (ch_with ty major minor l) # map fst carriers)" by blast
  let ?ch = "ch_with ty major minor l"
  have pb: "ch_bytes (ch_payload ?ch, ?L) = ch_payload_bytes major minor ?L"
    by (simp add: ch_bytes_def ch_version_def ch_payload_bytes_def)
  note ac = ac_record_encodes [OF bo]
  have "msg_writes bo l ?L"
    using l acs ac creators_locals [OF cr bo]
    by (intro msg_lists_writes) (auto simp: list_all_iff record_encodes_def)
  then have "ch_ok bo (ch_payload ?ch, ?L)" using pay pb by (simp add: ch_ok_def)
  from ch_record_writes [OF bo this] pb
  have "record_writes bo (ch_record_desc bo u ?ch) (ch_payload_bytes major minor ?L)" by simp
  with ml cs have W: "msg_writes bo m ((ch_record_desc bo u ?ch, ch_payload_bytes major minor ?L) # carriers)"
    by (intro msg_lists_writes) (auto simp: list_all_iff)
  have "msg_holds bo m ((ch_record_desc bo u ?ch, ch_payload_bytes major minor ?L) # carriers)"
    if "extra = []" "list_all (\<lambda>(r, pay). record_encodes bo r pay) carriers"
  proof -
    have "msg_holds bo l ?L" using l acs ac that(1) by (intro msg_lists_holds) (auto simp: list_all_iff)
    then have "ch_size_ok bo (ch_payload ?ch, ?L)" using pay pb by (simp add: ch_size_ok_def)
    from ch_record_encodes [OF bo this] pb
    have "record_encodes bo (ch_record_desc bo u ?ch) (ch_payload_bytes major minor ?L)" by simp
    with ml that(2) show ?thesis by (intro msg_lists_holds) (auto simp: list_all_iff)
  qed
  with C m W show ?thesis by (intro that) simp_all
qed

section \<open>Properties\<close>

text \<open>
  C20. A handover message. From a fresh handover record and a fresh message with room for them, the creation
  functions of the Handover Select, Mediation, Initiate and Request messages add the alternative carriers as
  local records, a request also the collision resolution in front of them, and the carriers behind the
  handover record. Encoding the message writes exactly the layout of the Connection Handover
  specification: the handover record, whose payload is the version and the embedded message of local
  records, followed by the carrier records. When every record answers the size query, which the collision
  resolution record does not, the size query of the message reports the length of that layout.
\<close>

theorem ch_message_correct:
  assumes bo: "byteorder bo" and cr: "(create, mk, ty, extra) \<in> set (ch_creators bo v)"
    and acs: "list_all ac_ok acs" and cs: "list_all (\<lambda>(r, pay). record_writes bo r pay) carriers"
    and n: "acs \<noteq> []" "length carriers = length acs" "length extra + length acs \<le> unat k" "length acs + 1 \<le> unat k'"
    and pay: "length (ch_payload_bytes major minor (extra @ ac_locals acs)) < 2 ^ 32"
  shows "\<exists>m ch. create bo u (Some (NFC_NDEF_MSG_DEF k')) (Some (mk major minor k))
      (Some \<lparr>rec_ac = Some (map ac_record_desc acs), rec_carrier = Some (map fst carriers), rec_cnt = of_nat (length acs)\<rparr>) =
        Ok (m, ch, None) \<and>
    (let x = ch_msg_bytes ty (ch_payload_bytes major minor (extra @ ac_locals acs)) carriers in
     (length x \<le> unat len \<longrightarrow> unat len \<le> length b \<longrightarrow>
      nfc_ndef_msg_encode bo w (Some m) (Some b) (Some len) = Ok (Some (x @ drop (length x) b), of_nat (length x))) \<and>
     (extra = [] \<longrightarrow> list_all (\<lambda>(r, pay). record_encodes bo r pay) carriers \<longrightarrow>
      nfc_ndef_msg_encode bo w (Some m) None (Some len) = Ok (None, of_nat (length x))))"
proof -
  obtain m l where m: "create bo u (Some (NFC_NDEF_MSG_DEF k')) (Some (mk major minor k))
      (Some \<lparr>rec_ac = Some (map ac_record_desc acs), rec_carrier = Some (map fst carriers), rec_cnt = of_nat (length acs)\<rparr>) =
        Ok (m, ch_with ty major minor l, None)"
    "msg_writes bo m ((ch_record_desc bo u (ch_with ty major minor l), ch_payload_bytes major minor (extra @ ac_locals acs)) # carriers)"
    "extra = [] \<Longrightarrow> list_all (\<lambda>(r, pay). record_encodes bo r pay) carriers \<Longrightarrow>
     msg_holds bo m ((ch_record_desc bo u (ch_with ty major minor l), ch_payload_bytes major minor (extra @ ac_locals acs)) # carriers)"
    by (rule ch_message_built [OF assms]) blast
  have "carriers \<noteq> []" "length carriers + 1 < 2 ^ 32" using n unat_u32_less [of k'] by auto
  note L = ch_msg_layout [OF this]
  note H = msg_written [OF m(2), unfolded list.size add_0_right add_Suc_right L] msg_encode_size [OF m(3), unfolded list.size add_0_right add_Suc_right L]
  show ?thesis unfolding Let_def using m(1) H by (intro exI [of _ m] exI [of _ "ch_with ty major minor l"]) simp
qed

definition ac_demo :: nfc_ndef_ch_ac_rec where
  "ac_demo = NFC_NDEF_CH_AC_RECORD_DESC_DEF \<lparr>ref_length = 0, ref_data = None\<rparr> 1 1 (Some [0x30]) 2"

lemma ac_demo_ok: "ac_ok ac_demo" "ac_bytes ac_demo = [1, 1, 0x30, 0]"
  by (simp_all add: ac_demo_def NFC_NDEF_CH_AC_RECORD_DESC_DEF_def ac_ok_def ac_refs_def ref_ok_def readable_def
    ac_bytes_def ref_bytes_def pbytes_def)

lemma ch_demo_payload:
  "ch_payload_bytes 1 5 ((NFC_NDEF_CH_CR_RECORD_DESC_DEF byteorder_ref 0x1234, [0x12, 0x34]) # ac_locals [ac_demo]) =
     [0x15, 0x81, 2, 0, 0, 0, 2, 0x63, 0x72, 0x12, 0x34, 0x41, 2, 0, 0, 0, 4, 0x61, 0x63, 1, 1, 0x30, 0]"
  by (simp add: ch_payload_bytes_def ac_demo_ok(2) ac_record_desc_def NFC_NDEF_CH_CR_RECORD_DESC_DEF_def record_bytes_def
    record_flags_def record_place_def NFC_NDEF_GENERIC_RECORD_DESC_DEF_def ch_type_fields
    record_type_def record_id_def pbytes_def be_bytes_4)

abbreviation oob_demo_rec :: nfc_ndef_record_desc where
  "oob_demo_rec \<equiv> NFC_NDEF_LE_OOB_RECORD_DESC_DEF bt_env_ref 0x30 (Some oob_demo)"

lemma ch_demo_message:
  "ch_msg_bytes 0x72 pay [(oob_demo_rec, ad_bytes (le_oob_ads bt_env_ref oob_demo))] =
     [0x81, 2] @ be_bytes 4 (length pay) @ [0x48, 0x72] @ pay @ [0x4A, 32, 0, 0, 0, 23, 1] @ nfc_ndef_le_oob_rec_type_field @
     [0x30] @ [8, 0x1B, 1, 2, 3, 4, 5, 6, 1, 2, 0x1C, 2, 3, 0x19, 0x41, 0x03, 2, 0x01, 0x06, 3, 0x09, 0x41, 0x42]"
  by (simp add: ch_msg_bytes_def oob_demo_ok(4) NFC_NDEF_LE_OOB_RECORD_DESC_DEF_def NFC_NDEF_GENERIC_RECORD_DESC_DEF_def
    record_bytes_def record_flags_def record_place_def record_type_def record_id_def pbytes_def be_bytes_4
    nfc_ndef_le_oob_rec_type_field_def)

theorem ch_message_correct_witness:
  "\<exists>m ch. nfc_ndef_ch_msg_hr_create byteorder_ref (\<lambda>_. 0) (Some (NFC_NDEF_MSG_DEF 2))
      (Some (NFC_NDEF_CH_HR_RECORD_DESC_DEF 1 5 2)) (Some (NFC_NDEF_CH_CR_RECORD_DESC_DEF byteorder_ref 0x1234))
      (Some \<lparr>rec_ac = Some [ac_record_desc ac_demo], rec_carrier = Some [oob_demo_rec], rec_cnt = 1\<rparr>) = Ok (m, ch, None) \<and>
    nfc_ndef_msg_encode byteorder_ref (\<lambda>_. 0) (Some m) (Some (replicate 94 0)) (Some 94) =
      Ok (Some ([0x81, 2, 0, 0, 0, 23, 0x48, 0x72, 0x15, 0x81, 2, 0, 0, 0, 2, 0x63, 0x72, 0x12, 0x34,
                 0x41, 2, 0, 0, 0, 4, 0x61, 0x63, 1, 1, 0x30, 0, 0x4A, 32, 0, 0, 0, 23, 1] @ nfc_ndef_le_oob_rec_type_field @
                [0x30, 8, 0x1B, 1, 2, 3, 4, 5, 6, 1, 2, 0x1C, 2, 3, 0x19, 0x41, 0x03, 2, 0x01, 0x06, 3, 0x09, 0x41, 0x42]), 94)"
proof -
  have cr: "(\<lambda>bo u msg hr_rec. nfc_ndef_ch_msg_hr_create bo u msg hr_rec (Some (NFC_NDEF_CH_CR_RECORD_DESC_DEF bo 0x1234)),
      NFC_NDEF_CH_HR_RECORD_DESC_DEF, 0x72, [(NFC_NDEF_CH_CR_RECORD_DESC_DEF byteorder_ref 0x1234, [0x12, 0x34])])
      \<in> set (ch_creators byteorder_ref 0x1234)"
    by (simp add: ch_creators_def be_bytes_2)
  have w: "record_writes byteorder_ref oob_demo_rec (ad_bytes (le_oob_ads bt_env_ref oob_demo))"
    by (rule oob_ref.le_oob_record_writes [OF ref.byteorder_axioms oob_demo_ok(1)])
  have l: "length nfc_ndef_le_oob_rec_type_field = 32" by (simp add: nfc_ndef_le_oob_rec_type_field_def)
  from ch_message_correct [OF ref.byteorder_axioms cr, of "[ac_demo]" "[(oob_demo_rec, ad_bytes (le_oob_ads bt_env_ref oob_demo))]" 2 2 1 5
      "\<lambda>_. 0" 94 "replicate 94 0" "\<lambda>_. 0"]
  show ?thesis
    by (simp add: ac_demo_ok(1) w ch_demo_payload [simplified] ch_demo_message l be_bytes_4)
qed

text \<open>
  The size query of a collision resolution record leaves out its two payload bytes, and a buffer of the
  reported size is refused.
\<close>

theorem cr_size_query:
  assumes "byteorder bo" "loc AND NOT 0xC0 = 0" "8 \<le> length b"
  shows "nfc_ndef_record_encode bo u (Some (NFC_NDEF_CH_CR_RECORD_DESC_DEF bo x)) loc None len = Ok (None, 8) \<and>
    nfc_ndef_record_encode bo u (Some (NFC_NDEF_CH_CR_RECORD_DESC_DEF bo x)) loc (Some b) 8 = Err ENOMEM"
proof -
  let ?r = "NFC_NDEF_CH_CR_RECORD_DESC_DEF bo x"
  have h: "record_header_size_calc ?r = 8" and wf: "record_wf ?r"
    by (simp_all add: record_header_size_calc_def NFC_NDEF_CH_CR_RECORD_DESC_DEF_def NFC_NDEF_GENERIC_RECORD_DESC_DEF_def
      record_wf_def readable_def ch_type_fields)
  have t: "tnf ?r = TNF_WELL_KNOWN" "payload_constructor ?r = Some (PAYLOAD_FN (nfc_ndef_ch_cr_rec_payload_encode bo \<lparr>random = x\<rparr>))"
    by (simp_all add: NFC_NDEF_CH_CR_RECORD_DESC_DEF_def NFC_NDEF_GENERIC_RECORD_DESC_DEF_def)
  have "unat (record_header_size_calc ?r) \<le> length b" using assms(3) h by simp
  from record_header_write_Ok [OF wf this] assms(2) show ?thesis
    by (simp add: nfc_ndef_record_encode_def h t Let_def nfc_ndef_ch_cr_rec_payload_encode_def)
qed

text \<open>An LE OOB message into a buffer: the single record, when it fits.\<close>

theorem le_oob_message_written:
  assumes "byteorder bo" "bt_layout env" "le_oob_desc_ok env d"
    and x: "x = msg_bytes 1 0 [(NFC_NDEF_LE_OOB_RECORD_DESC_DEF env 0 (Some d), ad_bytes (le_oob_ads env d))]"
    and fit: "length x \<le> unat len" "unat len \<le> length b"
  shows "nfc_ndef_ch_msg_le_oob_encode bo u env (Some d) (Some b) (Some len) = Ok (Some (x @ drop (length x) b), of_nat (length x))"
proof -
  let ?r = "NFC_NDEF_LE_OOB_RECORD_DESC_DEF env 0 (Some d)"
  from msg_lists_add [OF msg_lists_fresh [of 1], of ?r] obtain m where
    m: "nfc_ndef_msg_record_add (NFC_NDEF_MSG_DEF 1) (Some ?r) = Ok m" "msg_lists m [?r]" by auto
  have "msg_writes bo m [(?r, ad_bytes (le_oob_ads env d))]"
    using m(2) bt_layout.le_oob_record_writes [OF assms(2,1,3), of 0] by (intro msg_lists_writes) simp_all
  from msg_written [OF this] fit m(1) show ?thesis by (simp add: nfc_ndef_ch_msg_le_oob_encode_def x)
qed

text \<open>Asking for the size of an LE OOB message writes through the null pointer, depending on an uninitialised length.\<close>

theorem le_oob_message_size_query:
  assumes "bt_layout env" "le_oob_desc_ok env d"
  shows "nfc_ndef_ch_msg_le_oob_encode bo u env (Some d) None (Some len) = (if u 0 < 9 then Err ENOMEM else Fault)"
proof -
  let ?r = "NFC_NDEF_LE_OOB_RECORD_DESC_DEF env 0 (Some d)"
  have t: "tnf ?r = TNF_MEDIA_TYPE" "payload_constructor ?r = Some (PAYLOAD_FN (nfc_ndef_le_oob_rec_payload_constructor env (Some d)))"
    by (simp_all add: NFC_NDEF_LE_OOB_RECORD_DESC_DEF_def NFC_NDEF_GENERIC_RECORD_DESC_DEF_def)
  show ?thesis
    by (simp add: nfc_ndef_ch_msg_le_oob_encode_def nfc_ndef_msg_record_add_def NFC_NDEF_MSG_DEF_def nfc_ndef_msg_encode_def
      msg_encode_loop.simps nfc_ndef_record_encode_def t bt_layout.constructor_null [OF assms])
qed

end
