(* ===== verification/NDEF_CH_Parser.thy ===== *)
theory NDEF_CH_Parser
  imports NDEF_CH NDEF_Parser
begin

unbundle bit_operations_syntax

text \<open>
  The parsers of Connection Handover records, \<^verbatim>\<open>ndef/ch_rec_parser.c\<close>. They copy what they find into a
  result buffer with the allocator of \<^verbatim>\<open>NDEF_LeOob\<close>; a handover record's local records are parsed as a
  message.
\<close>

section \<open>Parameters\<close>

text \<open>The sizes of the structures that are allocated in the result buffer.\<close>

record ch_abi =
  sizeof_hc_rec :: u32
  sizeof_ac_rec :: u32
  sizeof_ac_rec_ref :: u32
  sizeof_ch_rec :: u32

text \<open>The bytes at a payload pointer; nothing can be read through \<^verbatim>\<open>NULL\<close>.\<close>

definition payload_bytes :: "nfc_ndef_bin_payload_desc \<Rightarrow> u8 list" where
  "payload_bytes pd = (case payload pd of None \<Rightarrow> [] | Some b \<Rightarrow> b)"

section \<open>Record types\<close>

definition rec_type_check :: "nfc_ndef_record_desc option \<Rightarrow> u8 list \<Rightarrow> bool res" where
  "rec_type_check rec_desc type_field =
     (case rec_desc of
        None \<Rightarrow> Ok False
      | Some r \<Rightarrow>
          if tnf r = TNF_EMPTY then Ok False
          else if tnf r \<noteq> TNF_WELL_KNOWN then Ok False
          else if unat (type_length r) \<noteq> length type_field then Ok False
          else rbind (memcpy_src (type_ptr r) (length type_field)) (\<lambda>xs. Ok (xs = type_field)))"

definition ch_rec_check :: "nfc_ndef_record_desc option \<Rightarrow> bool res" where
  "ch_rec_check rec_desc =
     (case rec_desc of
        None \<Rightarrow> Ok False
      | Some r \<Rightarrow>
          if tnf r = TNF_EMPTY then Ok False
          else if tnf r \<noteq> TNF_WELL_KNOWN then Ok False
          else if unat (type_length r) \<noteq> length nfc_ndef_ch_hs_rec_type_field then Ok False
          else rbind (memcpy_src (type_ptr r) (length nfc_ndef_ch_hs_rec_type_field)) (\<lambda>xs.
               if xs = nfc_ndef_ch_hs_rec_type_field then Ok True
               else if xs = nfc_ndef_ch_hr_rec_type_field then Ok True
               else if xs = nfc_ndef_ch_hm_rec_type_field then Ok True
               else if xs = nfc_ndef_ch_hi_rec_type_field then Ok True
               else Ok False))"

definition nfc_ndef_ch_hc_rec_check :: "nfc_ndef_record_desc option \<Rightarrow> bool res" where
  "nfc_ndef_ch_hc_rec_check rec_desc = rec_type_check rec_desc nfc_ndef_ch_hc_rec_type_field"

definition nfc_ndef_ch_cr_rec_check :: "nfc_ndef_record_desc option \<Rightarrow> bool res" where
  "nfc_ndef_ch_cr_rec_check rec_desc = rec_type_check rec_desc nfc_ndef_ch_cr_rec_type_field"

definition nfc_ndef_ch_ac_rec_check :: "nfc_ndef_record_desc option \<Rightarrow> bool res" where
  "nfc_ndef_ch_ac_rec_check rec_desc = rec_type_check rec_desc nfc_ndef_ch_ac_rec_type_field"

datatype nfc_ndef_ch_rec_type =
    NFC_NDEF_CH_REC_TYPE_HANDOVER_SELECT | NFC_NDEF_CH_REC_TYPE_HANDOVER_REQUEST
  | NFC_NDEF_CH_REC_TYPE_HANDOVER_INITIATE | NFC_NDEF_CH_REC_TYPE_HANDOVER_MEDIATION

primrec nfc_ndef_ch_rec_check :: "nfc_ndef_record_desc option \<Rightarrow> nfc_ndef_ch_rec_type \<Rightarrow> bool res" where
  "nfc_ndef_ch_rec_check rec_desc NFC_NDEF_CH_REC_TYPE_HANDOVER_SELECT = rec_type_check rec_desc nfc_ndef_ch_hs_rec_type_field"
| "nfc_ndef_ch_rec_check rec_desc NFC_NDEF_CH_REC_TYPE_HANDOVER_REQUEST = rec_type_check rec_desc nfc_ndef_ch_hr_rec_type_field"
| "nfc_ndef_ch_rec_check rec_desc NFC_NDEF_CH_REC_TYPE_HANDOVER_INITIATE = rec_type_check rec_desc nfc_ndef_ch_hi_rec_type_field"
| "nfc_ndef_ch_rec_check rec_desc NFC_NDEF_CH_REC_TYPE_HANDOVER_MEDIATION = rec_type_check rec_desc nfc_ndef_ch_hm_rec_type_field"

section \<open>Payloads\<close>

text \<open>
  The carrier type format is set from the payload pointer, not from the byte it points to: \<open>address\<close> is
  the value of the pointer after the conversion.
\<close>

definition hc_rec_payload_parse ::
    "ch_abi \<Rightarrow> 'b net_buf_ops \<Rightarrow> u32 \<Rightarrow> nfc_ndef_bin_payload_desc \<Rightarrow> u32 \<Rightarrow> (nfc_ndef_ch_hc_rec \<times> u32) res" where
  "hc_rec_payload_parse abi nb address payload_desc buf_size =
     (let payload_buf = payload_bytes payload_desc;
          payload_len = payload_length payload_desc;
          buf = net_buf_simple_reset nb (net_buf_simple_init_with_data nb buf_size);
          (buf, p) = memory_allocate nb buf (sizeof_hc_rec abi) in
      if \<not> p then Err ENOMEM
      else if payload_len < 1 then Err EINVAL
      else
        let payload_len = payload_len - 1 in
        if payload_len < 1 then Err EINVAL
        else
          rbind (rd payload_buf 1) (\<lambda>type_len.
          let payload_len = payload_len - 1 in
          if payload_len < ucast type_len then Err EINVAL
          else
            let (buf, p) = memory_allocate nb buf (ucast type_len) in
            if \<not> p then Err ENOMEM
            else
              rbind (memcpy_src (Some (drop 2 payload_buf)) (unat type_len)) (\<lambda>ty.
              let payload_len = payload_len - ucast type_len;
                  hc = \<lparr>ctf = address, carrier_type_len = type_len, carrier_type = Some ty,
                        carrier_data_len = 0, carrier_data = None\<rparr> in
              if payload_len < 1 then Ok (hc, buf_size - net_buf_simple_tailroom nb buf)
              else
                let data_len = ucast payload_len :: u8;
                    (buf, p) = memory_allocate nb buf (ucast data_len) in
                if \<not> p then Err ENOMEM
                else
                  rbind (memcpy_src (Some (drop (2 + unat type_len) payload_buf)) (unat data_len)) (\<lambda>dat.
                  Ok (hc\<lparr>carrier_data_len := data_len, carrier_data := Some dat\<rparr>,
                      buf_size - net_buf_simple_tailroom nb buf)))))"

text \<open>The allocator, the reference, and what is left of the payload.\<close>

definition ac_reference_parse ::
    "'b net_buf_ops \<Rightarrow> 'b \<Rightarrow> u8 list \<Rightarrow> u32 \<Rightarrow> ('b \<times> nfc_ndef_ch_ac_rec_ref \<times> u8 list \<times> u32) res" where
  "ac_reference_parse nb buf payload_buf payload_len =
     (if payload_len < 1 then Err EINVAL
      else
        rbind (rd payload_buf 0) (\<lambda>n.
        let payload_buf = drop 1 payload_buf; payload_len = payload_len - 1 in
        if payload_len < ucast n then Err EINVAL
        else
          let (buf, p) = memory_allocate nb buf (ucast n) in
          if \<not> p then Err ENOMEM
          else
            rbind (memcpy_src (Some payload_buf) (unat n)) (\<lambda>xs.
            Ok (buf, \<lparr>ref_length = n, ref_data = Some xs\<rparr>, drop (unat n) payload_buf, payload_len - ucast n))))"

primrec ac_reference_loop ::
    "'b net_buf_ops \<Rightarrow> nat \<Rightarrow> 'b \<Rightarrow> u8 list \<Rightarrow> u32 \<Rightarrow> nfc_ndef_ch_ac_rec_ref list \<Rightarrow> ('b \<times> nfc_ndef_ch_ac_rec_ref list) res" where
  "ac_reference_loop nb 0 buf payload_buf payload_len refs = Ok (buf, refs)"
| "ac_reference_loop nb (Suc n) buf payload_buf payload_len refs =
     rbind (ac_reference_parse nb buf payload_buf payload_len) (\<lambda>(buf, r, payload_buf, payload_len).
     ac_reference_loop nb n buf payload_buf payload_len (refs @ [r]))"

definition ac_rec_payload_parse ::
    "ch_abi \<Rightarrow> 'b net_buf_ops \<Rightarrow> nfc_ndef_bin_payload_desc \<Rightarrow> u32 \<Rightarrow> (nfc_ndef_ch_ac_rec \<times> u32) res" where
  "ac_rec_payload_parse abi nb payload_desc buf_size =
     (let payload_buf = payload_bytes payload_desc;
          payload_len = payload_length payload_desc;
          buf = net_buf_simple_reset nb (net_buf_simple_init_with_data nb buf_size);
          (buf, p) = memory_allocate nb buf (sizeof_ac_rec abi) in
      if \<not> p then Err ENOMEM
      else if payload_len < 1 then Err EINVAL
      else
        rbind (rd payload_buf 0) (\<lambda>state.
        rbind (ac_reference_parse nb buf (drop 1 payload_buf) (payload_len - 1)) (\<lambda>(buf, carrier, payload_buf, payload_len).
        if payload_len < 1 then Err EINVAL
        else
          rbind (rd payload_buf 0) (\<lambda>cnt.
          let payload_buf = drop 1 payload_buf; payload_len = payload_len - 1;
              ac = \<lparr>cps = ucast state, carrier_data_ref = carrier, max_aux_data_ref_cnt = 0, aux_data_ref_cnt = cnt,
                    aux_data_ref = None\<rparr> in
          if cnt = 0 then Ok (ac, buf_size - net_buf_simple_tailroom nb buf)
          else
            let (buf, p) = memory_allocate nb buf (ucast cnt * sizeof_ac_rec_ref abi) in
            if \<not> p then Err ENOMEM
            else
              rbind (ac_reference_loop nb (unat cnt) buf payload_buf payload_len []) (\<lambda>(buf, refs).
              Ok (ac\<lparr>aux_data_ref := Some refs\<rparr>, buf_size - net_buf_simple_tailroom nb buf))))))"

definition ch_rec_payload_parse ::
    "byteorder_ops \<Rightarrow> ch_abi \<Rightarrow> ndef_abi \<Rightarrow> 'b net_buf_ops \<Rightarrow> nfc_ndef_bin_payload_desc \<Rightarrow> nfc_ndef_record_desc \<Rightarrow>
     nfc_ndef_bin_payload_desc \<Rightarrow> u32 \<Rightarrow> (nfc_ndef_ch_rec \<times> u32) res" where
  "ch_rec_payload_parse bo abi nabi nb junk_bin junk_rec payload_desc buf_size =
     (let payload_buf = payload_bytes payload_desc;
          payload_len = payload_length payload_desc;
          buf = net_buf_simple_reset nb (net_buf_simple_init_with_data nb buf_size);
          (buf, p) = memory_allocate nb buf (sizeof_ch_rec abi) in
      if \<not> p then Err ENOMEM
      else if payload_len < 1 then Err EINVAL
      else
        rbind (rd payload_buf 0) (\<lambda>v.
        let local_msg_size = net_buf_simple_tailroom nb buf;
            (buf, p) = memory_allocate nb buf local_msg_size in
        if \<not> p then Err ENOMEM
        else
          rbind (nfc_ndef_msg_parse bo nabi junk_bin junk_rec local_msg_size (drop 1 payload_buf) (payload_len - 1)) (\<lambda>(m, _, _).
          Ok (\<lparr>major_version = drop_bit 4 v AND 0x0F, minor_version = v AND 0x0F, local_records = m\<rparr>,
              buf_size - net_buf_simple_tailroom nb buf))))"

section \<open>Entry points\<close>

text \<open>The checks of the entry points that fill a result buffer; \<open>result_buf\<close> says that it is not \<^verbatim>\<open>NULL\<close>.\<close>

definition ch_entry ::
    "bool res \<Rightarrow> nfc_ndef_record_desc option \<Rightarrow> bool \<Rightarrow> u32 option \<Rightarrow> (nfc_ndef_bin_payload_desc \<Rightarrow> u32 \<Rightarrow> 'a res) \<Rightarrow> 'a res" where
  "ch_entry check rec_desc result_buf result_buf_len f =
     (if rec_desc = None \<or> \<not> result_buf \<or> result_buf_len = None then Err EINVAL
      else
        rbind check (\<lambda>c.
        if \<not> c then Err EINVAL
        else
          case payload_constructor (the rec_desc) of
            Some (BIN_PAYLOAD pd) \<Rightarrow> f pd (the result_buf_len)
          | _ \<Rightarrow> Err ENOTSUP))"

definition nfc_ndef_ch_hc_rec_parse ::
    "ch_abi \<Rightarrow> 'b net_buf_ops \<Rightarrow> u32 \<Rightarrow> nfc_ndef_record_desc option \<Rightarrow> bool \<Rightarrow> u32 option \<Rightarrow> (nfc_ndef_ch_hc_rec \<times> u32) res" where
  "nfc_ndef_ch_hc_rec_parse abi nb address rec_desc result_buf result_buf_len =
     ch_entry (nfc_ndef_ch_hc_rec_check rec_desc) rec_desc result_buf result_buf_len (hc_rec_payload_parse abi nb address)"

definition nfc_ndef_ch_cr_rec_parse ::
    "byteorder_ops \<Rightarrow> nfc_ndef_record_desc option \<Rightarrow> bool \<Rightarrow> nfc_ndef_ch_cr_rec res" where
  "nfc_ndef_ch_cr_rec_parse bo rec_desc cr_rec =
     (if rec_desc = None \<or> \<not> cr_rec then Err EINVAL
      else
        rbind (nfc_ndef_ch_cr_rec_check rec_desc) (\<lambda>c.
        if \<not> c then Err EINVAL
        else
          case payload_constructor (the rec_desc) of
            Some (BIN_PAYLOAD pd) \<Rightarrow>
              if payload_length pd < 2 then Err EINVAL
              else rbind (be16_at bo (payload_bytes pd) 0) (\<lambda>v. Ok \<lparr>random = v\<rparr>)
          | _ \<Rightarrow> Err ENOTSUP))"

definition nfc_ndef_ch_ac_rec_parse ::
    "ch_abi \<Rightarrow> 'b net_buf_ops \<Rightarrow> nfc_ndef_record_desc option \<Rightarrow> bool \<Rightarrow> u32 option \<Rightarrow> (nfc_ndef_ch_ac_rec \<times> u32) res" where
  "nfc_ndef_ch_ac_rec_parse abi nb rec_desc result_buf result_buf_len =
     ch_entry (nfc_ndef_ch_ac_rec_check rec_desc) rec_desc result_buf result_buf_len (ac_rec_payload_parse abi nb)"

definition nfc_ndef_ch_rec_parse ::
    "byteorder_ops \<Rightarrow> ch_abi \<Rightarrow> ndef_abi \<Rightarrow> 'b net_buf_ops \<Rightarrow> nfc_ndef_bin_payload_desc \<Rightarrow> nfc_ndef_record_desc \<Rightarrow>
     nfc_ndef_record_desc option \<Rightarrow> bool \<Rightarrow> u32 option \<Rightarrow> (nfc_ndef_ch_rec \<times> u32) res" where
  "nfc_ndef_ch_rec_parse bo abi nabi nb junk_bin junk_rec rec_desc result_buf result_buf_len =
     ch_entry (ch_rec_check rec_desc) rec_desc result_buf result_buf_len
       (ch_rec_payload_parse bo abi nabi nb junk_bin junk_rec)"

section \<open>Memory safety\<close>

text \<open>A record descriptor whose type and binary payload can be read.\<close>

definition rec_readable :: "nfc_ndef_record_desc \<Rightarrow> bool" where
  "rec_readable r \<longleftrightarrow> readable (type_ptr r) (unat (type_length r)) \<and>
     (case payload_constructor r of Some (BIN_PAYLOAD pd) \<Rightarrow> bin_ok pd | _ \<Rightarrow> True)"

lemma bin_ok_bytes: "bin_ok pd \<Longrightarrow> unat (payload_length pd) \<le> length (payload_bytes pd)"
  by (auto simp: bin_ok_def readable_def payload_bytes_def split: option.splits)

lemma type_check_safe:
  "(\<And>r. rec = Some r \<Longrightarrow> rec_readable r) \<Longrightarrow> rec_type_check rec ty \<noteq> Fault"
  "(\<And>r. rec = Some r \<Longrightarrow> rec_readable r) \<Longrightarrow> ch_rec_check rec \<noteq> Fault"
  by (auto simp: rec_type_check_def ch_rec_check_def rec_readable_def memcpy_src_readable rbind_iffs split: option.splits if_splits)

lemma entry_safe:
  assumes "\<And>r. rec = Some r \<Longrightarrow> rec_readable r" "check \<noteq> Fault" "\<And>pd n. bin_ok pd \<Longrightarrow> f pd n \<noteq> Fault"
  shows "ch_entry check rec rb len f \<noteq> Fault"
  using assms by (auto simp: ch_entry_def rec_readable_def rbind_iffs split: option.splits payload_constructor_t.splits)

lemma rd_safe: "rd b i \<noteq> Fault \<longleftrightarrow> i < length b"
  by (simp add: rd_def)

lemma memcpy_drop_safe: "k + n \<le> length b \<Longrightarrow> memcpy_src (Some (drop k b)) n \<noteq> Fault"
  by (auto simp: memcpy_src_def rdn_def)

lemma unat_minus: "\<not> x < y \<Longrightarrow> unat (x - y) = unat x - unat y" "\<not> x < y \<Longrightarrow> unat y \<le> unat x" for x y :: u32
  by (simp_all only: not_less unat_sub word_le_nat_alt)

lemma unat_ucast_le: "unat (ucast x :: u8) \<le> unat x" for x :: u32
  by (simp add: unsigned_ucast_eq unsigned_take_bit_eq)

lemma hc_payload_safe:
  assumes "bin_ok pd"
  shows "hc_rec_payload_parse abi nb address pd n \<noteq> Fault"
proof -
  define L where "L = payload_length pd"
  define b where "b = payload_bytes pd"
  have l: "unat L \<le> length b" unfolding L_def b_def using assms by (rule bin_ok_bytes)
  have 2: "unat (L - 1 - 1) = unat L - 2 \<and> 2 \<le> unat L" if "\<not> L < 1" "\<not> L - 1 < 1"
    using unat_minus [OF that(1)] unat_minus [OF that(2)] unfolding unsigned_1 by linarith
  have ty: "unat t \<le> unat L - 2" if "\<not> L < 1" "\<not> L - 1 < 1" "\<not> L - 1 - 1 < ucast t" for t :: u8
    using 2 [OF that(1,2)] unat_minus(2) [OF that(3)] by (simp only: unat_ucast_up)
  have dat: "unat (ucast (L - 1 - 1 - ucast t) :: u8) \<le> unat L - 2 - unat t"
    if "\<not> L < 1" "\<not> L - 1 < 1" "\<not> L - 1 - 1 < ucast t" for t :: u8
  proof -
    have "unat (L - 1 - 1 - ucast t) = unat L - 2 - unat t"
      using 2 [OF that(1,2)] unat_minus(1) [OF that(3)] by (simp only: unat_ucast_up)
    then show ?thesis by (metis unat_ucast_le)
  qed
  have r: "rd b 1 \<noteq> Fault" if "\<not> L < 1" "\<not> L - 1 < 1"
    using 2 [OF that] l by (simp add: rd_safe)
  have m1: "memcpy_src (Some (drop 2 b)) (unat t) \<noteq> Fault" if "\<not> L < 1" "\<not> L - 1 < 1" "\<not> L - 1 - 1 < ucast t" for t :: u8
    using 2 [OF that(1,2)] ty [OF that] l by (intro memcpy_drop_safe) linarith
  have m2: "memcpy_src (Some (drop (2 + unat t) b)) (unat (ucast (L - 1 - 1 - ucast t) :: u8)) \<noteq> Fault"
    if "\<not> L < 1" "\<not> L - 1 < 1" "\<not> L - 1 - 1 < ucast t" for t :: u8
    using 2 [OF that(1,2)] ty [OF that] dat [OF that] l by (intro memcpy_drop_safe) linarith
  show ?thesis
    unfolding hc_rec_payload_parse_def Let_def split_beta L_def [symmetric] b_def [symmetric]
    by (intro safe_intros r m1 m2) simp_all
qed

lemma rd_first:
  fixes len :: u32
  assumes "\<not> len < 1" "unat len \<le> length pl"
  shows "rd pl 0 \<noteq> Fault" "unat (len - 1) \<le> length (drop 1 pl)"
  using unat_minus [OF assms(1)] assms(2) by (cases pl; simp add: rd_def)+

lemma ac_reference_safe:
  assumes l: "unat len \<le> length pl"
  shows "ac_reference_parse nb m pl len \<noteq> Fault"
    and "ac_reference_parse nb m pl len = Ok (m', r, pl', len') \<Longrightarrow> unat len' \<le> length pl'"
proof -
  note r = rd_first(1) [OF _ l]
  have n: "1 + unat n \<le> unat len" if "\<not> len < 1" "\<not> len - 1 < ucast n" for n :: u8
    using unat_minus [OF that(1)] unat_minus(2) [OF that(2)] by simp
  have c: "memcpy_src (Some (drop 1 pl)) (unat n) \<noteq> Fault" if "\<not> len < 1" "\<not> len - 1 < ucast n" for n :: u8
    using n [OF that] l by (intro memcpy_drop_safe) linarith
  show "ac_reference_parse nb m pl len \<noteq> Fault"
    unfolding ac_reference_parse_def Let_def split_beta by (intro safe_intros r c) simp_all
  show "unat len' \<le> length pl'" if ok: "ac_reference_parse nb m pl len = Ok (m', r, pl', len')"
  proof -
    from ok obtain n where n': "\<not> len < 1" "\<not> len - 1 < ucast n" "pl' = drop (unat n) (drop 1 pl)" "len' = len - 1 - ucast (n :: u8)"
      by (auto simp: ac_reference_parse_def Let_def split_beta rbind_iffs split: if_splits)
    show ?thesis
      using unat_minus [OF n'(1)] unat_minus [OF n'(2)] l unfolding n'(3,4) by simp
  qed
qed

lemma ac_loop_safe: "unat len \<le> length pl \<Longrightarrow> ac_reference_loop nb n m pl len refs \<noteq> Fault"
proof (induction n arbitrary: m pl len refs)
  case (Suc n)
  show ?case
    using ac_reference_safe(1) [OF Suc.prems, of nb m] ac_reference_safe(2) [OF Suc.prems, of nb m] Suc.IH
    by (cases "ac_reference_parse nb m pl len") (fastforce simp: split_beta)+
qed simp

lemma ac_payload_safe:
  assumes "bin_ok pd"
  shows "ac_rec_payload_parse abi nb pd n \<noteq> Fault"
proof -
  define L where "L = payload_length pd"
  define b where "b = payload_bytes pd"
  have l: "unat L \<le> length b" unfolding L_def b_def using assms by (rule bin_ok_bytes)
  note r = rd_first [OF _ l]
  have k: "unat (snd (snd (snd x))) \<le> length (fst (snd (snd x)))"
    if "ac_reference_parse nb m (drop 1 b) (L - 1) = Ok x" "\<not> L < 1" for m x
    using ac_reference_safe(2) [OF r(2) [OF that(2)]] that(1) by (cases x) auto
  show ?thesis
    unfolding ac_rec_payload_parse_def Let_def split_beta L_def [symmetric] b_def [symmetric]
    by (intro safe_intros r(1) ac_reference_safe(1) r(2) rd_first(1) [OF _ k] ac_loop_safe rd_first(2) [OF _ k];
        (assumption | simp))
qed

lemma ch_payload_safe:
  assumes "bin_ok pd" "abi_packed nabi"
  shows "ch_rec_payload_parse bo abi nabi nb jb jr pd n \<noteq> Fault"
proof -
  define L where "L = payload_length pd"
  define b where "b = payload_bytes pd"
  have l: "unat L \<le> length b" unfolding L_def b_def using assms(1) by (rule bin_ok_bytes)
  note r = rd_first [OF _ l]
  show ?thesis
    unfolding ch_rec_payload_parse_def Let_def split_beta L_def [symmetric] b_def [symmetric]
    by (intro safe_intros r(1) msg_parse_in_bounds [OF assms(2), THEN conjunct1] r(2)) simp_all
qed

lemma cr_parse_safe:
  assumes "\<And>r. rec = Some r \<Longrightarrow> rec_readable r"
  shows "nfc_ndef_ch_cr_rec_parse bo rec cr \<noteq> Fault"
proof -
  have "be16_at bo (payload_bytes pd) 0 \<noteq> Fault" if "bin_ok pd" "\<not> payload_length pd < 2" for pd
    using bin_ok_bytes [OF that(1)] unat_minus(2) [OF that(2)] by (simp add: be16_at_def rdn_def)
  then show ?thesis
    using assms type_check_safe(1) [of rec nfc_ndef_ch_cr_rec_type_field]
    by (auto simp: nfc_ndef_ch_cr_rec_parse_def nfc_ndef_ch_cr_rec_check_def rec_readable_def rbind_iffs
        split: option.splits payload_constructor_t.splits if_splits)
qed

section \<open>Alternative carriers round trip\<close>

text \<open>What the parser stores for a reference and for a record.\<close>

definition parsed_ref :: "nfc_ndef_ch_ac_rec_ref \<Rightarrow> nfc_ndef_ch_ac_rec_ref" where
  "parsed_ref r = \<lparr>ref_length = ref_length r, ref_data = Some (pbytes (ref_data r) (unat (ref_length r)))\<rparr>"

definition parsed_ac :: "nfc_ndef_ch_ac_rec \<Rightarrow> nfc_ndef_ch_ac_rec" where
  "parsed_ac ac = \<lparr>cps = cps ac, carrier_data_ref = parsed_ref (carrier_data_ref ac), max_aux_data_ref_cnt = 0,
     aux_data_ref_cnt = aux_data_ref_cnt ac,
     aux_data_ref = (if aux_data_ref_cnt ac = 0 then None else Some (map parsed_ref (ac_refs ac)))\<rparr>"

definition refs_cost :: "nfc_ndef_ch_ac_rec_ref list \<Rightarrow> nat" where
  "refs_cost rs = sum_list (map (unat \<circ> ref_length) rs)"

definition ac_cost :: "ch_abi \<Rightarrow> nfc_ndef_ch_ac_rec \<Rightarrow> nat" where
  "ac_cost abi ac = unat (sizeof_ac_rec abi) + unat (ref_length (carrier_data_ref ac)) +
     length (ac_refs ac) * unat (sizeof_ac_rec_ref abi) + refs_cost (ac_refs ac)"

lemma pbytes_0: "pbytes p 0 = []"
  by (simp add: pbytes_def split: option.splits)

lemma used_size:
  fixes n t :: u32
  assumes "unat t = unat n - c" "c \<le> unat n"
  shows "n - t = of_nat c"
proof -
  have "unat (n - t) = c" using assms by (subst unat_sub) (simp_all add: word_le_nat_alt)
  also have "c = unat (of_nat c :: u32)" using assms(2) unat_u32_less [of n] by (subst unat_of_nat_u32) simp_all
  finally show ?thesis by (simp only: word_unat_eq_iff)
qed

lemma cps_byte: "x \<le> 3 \<Longrightarrow> ucast (ucast x :: u8) = x" for x :: u32
  by (simp add: word_unat_eq_iff unsigned_ucast_eq unsigned_take_bit_eq take_bit_nat_eq_self word_le_nat_alt)

context net_buf_alloc
begin

lemma ref_parse:
  assumes "ref_ok r" "length (ref_bytes r) \<le> unat len" "unat (ref_length r) \<le> unat (net_buf_simple_tailroom nb m)"
  obtains m' where
    "ac_reference_parse nb m (ref_bytes r @ rest) len = Ok (m', parsed_ref r, rest, len - 1 - ucast (ref_length r))"
    "unat (net_buf_simple_tailroom nb m') = unat (net_buf_simple_tailroom nb m) - unat (ref_length r)"
    "unat (len - 1 - ucast (ref_length r)) = unat len - length (ref_bytes r)"
proof -
  let ?n = "ref_length r"
  have "unat (ucast ?n :: u32) \<le> unat (net_buf_simple_tailroom nb m)" using assms(3) by simp
  from allocate [OF this] obtain m' where m': "memory_allocate nb m (ucast ?n) = (m', True)"
    "unat (net_buf_simple_tailroom nb m') = unat (net_buf_simple_tailroom nb m) - unat ?n" by auto
  have "1 \<le> unat len" using assms(1,2) by simp
  then have l: "\<not> len < 1" by (simp only: not_less word_le_nat_alt unsigned_1)
  have k: "\<not> len - 1 < ucast ?n"
    using assms(1,2) unat_minus(1) [OF l] by (simp add: not_less word_le_nat_alt)
  have u: "unat (len - 1 - ucast ?n) = unat len - length (ref_bytes r)"
    using unat_minus(1) [OF l] unat_minus(1) [OF k] assms(1) by simp
  from k l m' assms(1) have "ac_reference_parse nb m (ref_bytes r @ rest) len =
      Ok (m', parsed_ref r, rest, len - 1 - ucast ?n)"
    unfolding ac_reference_parse_def by (simp add: ref_bytes_def rd_def ref_ok_def memcpy_src_def rdn_def parsed_ref_def pbytes_0)
  with m'(2) u show ?thesis by (intro that)
qed

lemma refs_parse:
  assumes "list_all ref_ok rs" "length (concat (map ref_bytes rs)) \<le> unat len"
    and "refs_cost rs \<le> unat (net_buf_simple_tailroom nb m)"
  shows "\<exists>m'. ac_reference_loop nb (length rs) m (concat (map ref_bytes rs) @ rest) len acc = Ok (m', acc @ map parsed_ref rs) \<and>
    unat (net_buf_simple_tailroom nb m') = unat (net_buf_simple_tailroom nb m) - refs_cost rs"
  using assms
proof (induction rs arbitrary: m len acc)
  case (Cons r rs)
  let ?n = "ref_length r"
  have ok: "ref_ok r" "list_all ref_ok rs" using Cons.prems(1) by simp_all
  have len: "1 + unat ?n + length (concat (map ref_bytes rs)) \<le> unat len" using Cons.prems(2) ok by simp
  have "length (ref_bytes r) \<le> unat len" "unat ?n \<le> unat (net_buf_simple_tailroom nb m)"
    using len ok(1) Cons.prems(3) by (simp_all add: refs_cost_def)
  from ref_parse [OF ok(1) this, where rest = "concat (map ref_bytes rs) @ rest"] obtain m1 where
    m1: "ac_reference_parse nb m (ref_bytes r @ (concat (map ref_bytes rs) @ rest)) len =
      Ok (m1, parsed_ref r, concat (map ref_bytes rs) @ rest, len - 1 - ucast ?n)"
    "unat (net_buf_simple_tailroom nb m1) = unat (net_buf_simple_tailroom nb m) - unat ?n"
    and u: "unat (len - 1 - ucast ?n) = unat len - length (ref_bytes r)" .
  have "length (concat (map ref_bytes rs)) \<le> unat (len - 1 - ucast ?n)"
    unfolding u using len ok(1) by simp
  moreover have "refs_cost rs \<le> unat (net_buf_simple_tailroom nb m1)"
    unfolding m1(2) using Cons.prems(3) by (simp add: refs_cost_def)
  ultimately obtain m2 where
    "ac_reference_loop nb (length rs) m1 (concat (map ref_bytes rs) @ rest) (len - 1 - ucast ?n) (acc @ [parsed_ref r]) =
       Ok (m2, (acc @ [parsed_ref r]) @ map parsed_ref rs)"
    "unat (net_buf_simple_tailroom nb m2) = unat (net_buf_simple_tailroom nb m1) - refs_cost rs"
    using Cons.IH [OF ok(2), of "len - 1 - ucast ?n" m1 "acc @ [parsed_ref r]"] by blast
  with m1 show ?case by (intro exI [of _ m2]) (simp add: refs_cost_def)
qed (simp add: refs_cost_def)

lemma ac_parse_bytes:
  assumes ok: "ac_ok ac" and n: "unat n < 2 ^ 16" "ac_cost abi ac \<le> unat n"
    and pd: "payload pd = Some (ac_bytes ac @ rest)" "payload_length pd = of_nat (length (ac_bytes ac))"
  shows "ac_rec_payload_parse abi nb pd n = Ok (parsed_ac ac, of_nat (ac_cost abi ac))"
proof -
  let ?c = "carrier_data_ref ac" and ?R = "concat (map ref_bytes (ac_refs ac))"
  let ?m0 = "net_buf_simple_reset nb (net_buf_simple_init_with_data nb n)"
  define L where "L = (of_nat (length (ac_bytes ac)) :: u32)"
  have c: "ref_ok ?c" "list_all ref_ok (ac_refs ac)" "length (ac_refs ac) = unat (aux_data_ref_cnt ac)" "cps ac \<le> 3"
    using ok by (simp_all add: ac_ok_def)
  have len: "length (ac_bytes ac) = 1 + length (ref_bytes ?c) + 1 + length ?R" by (simp add: ac_bytes_def)
  have uL: "unat L = length (ac_bytes ac)" unfolding L_def by (rule unat_of_nat_u32 [OF ac_pl.bounded [OF ok]])
  then have L: "\<not> L < 1" using len by (simp only: not_less word_le_nat_alt unsigned_1)
  have uL1: "unat (L - 1) = length (ref_bytes ?c) + 1 + length ?R" using unat_minus(1) [OF L] uL len by simp
  have t0: "net_buf_simple_tailroom nb ?m0 = n" by (rule tailroom_init [OF n(1)])
  have "unat (sizeof_ac_rec abi) \<le> unat (net_buf_simple_tailroom nb ?m0)" using n(2) t0 by (simp add: ac_cost_def)
  from allocate [OF this] obtain m1 where m1: "memory_allocate nb ?m0 (sizeof_ac_rec abi) = (m1, True)"
    "unat (net_buf_simple_tailroom nb m1) = unat n - unat (sizeof_ac_rec abi)" unfolding t0 .
  have "length (ref_bytes ?c) \<le> unat (L - 1)" "unat (ref_length ?c) \<le> unat (net_buf_simple_tailroom nb m1)"
    using uL1 m1(2) n(2) by (simp_all add: ac_cost_def)
  from ref_parse [OF c(1) this, where rest = "aux_data_ref_cnt ac # ?R @ rest"] obtain m2 where
    m2: "ac_reference_parse nb m1 (ref_bytes ?c @ aux_data_ref_cnt ac # ?R @ rest) (L - 1) =
      Ok (m2, parsed_ref ?c, aux_data_ref_cnt ac # ?R @ rest, L - 1 - 1 - ucast (ref_length ?c))"
    "unat (net_buf_simple_tailroom nb m2) = unat (net_buf_simple_tailroom nb m1) - unat (ref_length ?c)"
    and uL2': "unat (L - 1 - 1 - ucast (ref_length ?c)) = unat (L - 1) - length (ref_bytes ?c)" .
  define L2 where "L2 = L - 1 - 1 - ucast (ref_length ?c)"
  have uL2: "unat L2 = 1 + length ?R" using uL2' uL1 by (simp add: L2_def)
  then have L2: "\<not> L2 < 1" by (simp only: not_less word_le_nat_alt unsigned_1)
  let ?ac = "\<lparr>cps = cps ac, carrier_data_ref = parsed_ref ?c, max_aux_data_ref_cnt = 0, aux_data_ref_cnt = aux_data_ref_cnt ac,
      aux_data_ref = None\<rparr>"
  have P: "ac_rec_payload_parse abi nb pd n =
     (if aux_data_ref_cnt ac = 0 then Ok (?ac, n - net_buf_simple_tailroom nb m2)
      else let (buf, p) = memory_allocate nb m2 (ucast (aux_data_ref_cnt ac) * sizeof_ac_rec_ref abi) in
        if \<not> p then Err ENOMEM
        else rbind (ac_reference_loop nb (unat (aux_data_ref_cnt ac)) buf (?R @ rest) (L2 - 1) []) (\<lambda>(buf, refs).
             Ok (?ac\<lparr>aux_data_ref := Some refs\<rparr>, n - net_buf_simple_tailroom nb buf)))"
    using L L2 m1(1) m2(1) [folded L2_def] cps_byte [OF c(4)]
    unfolding ac_rec_payload_parse_def payload_bytes_def pd L_def [symmetric]
    by (simp add: ac_bytes_def rd_def)
  show ?thesis
  proof (cases "aux_data_ref_cnt ac = 0")
    case True
    with c(3) have [simp]: "ac_refs ac = []" by simp
    have "n - net_buf_simple_tailroom nb m2 = of_nat (ac_cost abi ac)"
      using m1(2) m2(2) n(2) by (intro used_size) (simp_all add: ac_cost_def refs_cost_def)
    with True P show ?thesis by (simp add: parsed_ac_def)
  next
    case False
    let ?k = "ucast (aux_data_ref_cnt ac) * sizeof_ac_rec_ref abi"
    have k: "unat ?k = length (ac_refs ac) * unat (sizeof_ac_rec_ref abi)"
    proof -
      have "length (ac_refs ac) * unat (sizeof_ac_rec_ref abi) < 2 ^ 32" using n by (simp add: ac_cost_def)
      then show ?thesis using c(3) by (simp add: unat_word_ariths)
    qed
    have "unat ?k \<le> unat (net_buf_simple_tailroom nb m2)"
      unfolding k using m1(2) m2(2) n(2) by (simp add: ac_cost_def)
    from allocate [OF this] obtain m3 where m3: "memory_allocate nb m2 ?k = (m3, True)"
      "unat (net_buf_simple_tailroom nb m3) = unat (net_buf_simple_tailroom nb m2) - unat ?k" .
    have "length ?R \<le> unat (L2 - 1)" using unat_minus(1) [OF L2] uL2 by simp
    moreover have "refs_cost (ac_refs ac) \<le> unat (net_buf_simple_tailroom nb m3)"
      unfolding m3(2) k using m1(2) m2(2) n(2) by (simp add: ac_cost_def)
    ultimately obtain m4 where
      m4: "ac_reference_loop nb (length (ac_refs ac)) m3 (?R @ rest) (L2 - 1) [] = Ok (m4, [] @ map parsed_ref (ac_refs ac))"
        "unat (net_buf_simple_tailroom nb m4) = unat (net_buf_simple_tailroom nb m3) - refs_cost (ac_refs ac)"
      using refs_parse [OF c(2), of "L2 - 1" m3 rest "[]"] by blast
    have "n - net_buf_simple_tailroom nb m4 = of_nat (ac_cost abi ac)"
      using m1(2) m2(2) m3(2) m4(2) n(2) unfolding k by (intro used_size) (simp_all add: ac_cost_def)
    with False P m3(1) m4(1) c(3) show ?thesis by (simp add: parsed_ac_def)
  qed
qed

end
section \<open>Properties\<close>

text \<open>
  C21. The parsers of all Connection Handover records are memory safe: on any record descriptor whose type
  and binary payload can be read, with any result buffer and any allocator, they read only inside the
  type and the payload.
\<close>

theorem ch_parse_safe:
  assumes rec: "rec_readable r" and abi: "abi_packed nabi"
  shows "nfc_ndef_ch_rec_parse bo abi nabi nb jb jr (Some r) rb len \<noteq> Fault \<and>
    nfc_ndef_ch_ac_rec_parse abi nb (Some r) rb len \<noteq> Fault \<and>
    nfc_ndef_ch_hc_rec_parse abi nb address (Some r) rb len \<noteq> Fault \<and>
    nfc_ndef_ch_cr_rec_parse bo (Some r) rb \<noteq> Fault \<and>
    nfc_ndef_ch_rec_check (Some r) ty \<noteq> Fault"
proof (intro conjI)
  have r: "rec_readable r'" if "Some r = Some r'" for r' using that rec by simp
  note check = type_check_safe [OF r]
  show "nfc_ndef_ch_rec_parse bo abi nabi nb jb jr (Some r) rb len \<noteq> Fault"
    unfolding nfc_ndef_ch_rec_parse_def by (intro entry_safe r check ch_payload_safe abi)
  show "nfc_ndef_ch_ac_rec_parse abi nb (Some r) rb len \<noteq> Fault"
    unfolding nfc_ndef_ch_ac_rec_parse_def nfc_ndef_ch_ac_rec_check_def by (intro entry_safe r check ac_payload_safe)
  show "nfc_ndef_ch_hc_rec_parse abi nb address (Some r) rb len \<noteq> Fault"
    unfolding nfc_ndef_ch_hc_rec_parse_def nfc_ndef_ch_hc_rec_check_def by (intro entry_safe r check hc_payload_safe)
  show "nfc_ndef_ch_cr_rec_parse bo (Some r) rb \<noteq> Fault" by (intro cr_parse_safe r)
  show "nfc_ndef_ch_rec_check (Some r) ty \<noteq> Fault" by (cases ty) (simp_all add: check)
qed

definition ch_abi_32 :: ch_abi where
  "ch_abi_32 = \<lparr>sizeof_hc_rec = 20, sizeof_ac_rec = 20, sizeof_ac_rec_ref = 8, sizeof_ch_rec = 8\<rparr>"

theorem ch_parse_safe_witness:
  "nfc_ndef_ch_ac_rec_parse ch_abi_32 net_buf_ref
     (Some (NFC_NDEF_RECORD_BIN_DATA_DEF TNF_WELL_KNOWN None 0 (Some [0x61, 0x63]) 2 (Some [1, 9, 0x30]) 3)) True (Some 64) \<noteq> Fault"
  using ch_parse_safe [of "NFC_NDEF_RECORD_BIN_DATA_DEF TNF_WELL_KNOWN None 0 (Some [0x61, 0x63]) 2 (Some [1, 9, 0x30]) 3",
    OF _ abi_32_packed, of byteorder_ref ch_abi_32 net_buf_ref "\<lparr>payload = None, payload_length = 0\<rparr>" "plain_record []" True "Some 64"]
  by (simp add: rec_readable_def NFC_NDEF_RECORD_BIN_DATA_DEF_def readable_def bin_ok_def)

text \<open>
  Alternative carrier records round trip: what the constructor writes into a buffer, stored as the
  payload of a record of that type, is parsed into the same power state, carrier reference and auxiliary
  references, and the reported length is what the structure, the array of references and the copied data
  take of the result buffer.
\<close>

theorem ac_record_round_trip:
  assumes nb: "net_buf_alloc nb" and ok: "ac_ok ac" and b: "unat len \<le> length b"
    and enc: "nfc_ndef_ch_ac_rec_payload_encode ac (Some b) len = Ok (Some out, k)"
    and n: "unat n < 2 ^ 16" "ac_cost abi ac \<le> unat n"
  shows "nfc_ndef_ch_ac_rec_parse abi nb
      (Some (NFC_NDEF_RECORD_BIN_DATA_DEF TNF_WELL_KNOWN id_arg id_len (Some nfc_ndef_ch_ac_rec_type_field) 2 (Some out) k))
      True (Some n) = Ok (parsed_ac ac, of_nat (ac_cost abi ac))"
proof -
  have "length (ac_bytes ac) \<le> unat len"
    using ac_pl.too_small [OF ok, of len b] enc by (cases "unat len < length (ac_bytes ac)") simp_all
  from ac_pl.fits [OF ok this b] enc have "out = ac_bytes ac @ drop (length (ac_bytes ac)) b" "k = of_nat (length (ac_bytes ac))"
    by simp_all
  then show ?thesis
    using net_buf_alloc.ac_parse_bytes [OF nb ok n]
    by (simp add: nfc_ndef_ch_ac_rec_parse_def nfc_ndef_ch_ac_rec_check_def ch_entry_def rec_type_check_def
      NFC_NDEF_RECORD_BIN_DATA_DEF_def ch_type_fields memcpy_src_def rdn_def)
qed

definition ac_demo_aux :: nfc_ndef_ch_ac_rec where
  "ac_demo_aux = ac_demo\<lparr>aux_data_ref := Some [\<lparr>ref_length = 1, ref_data = Some [0x31]\<rparr>, \<lparr>ref_length = 0, ref_data = None\<rparr>],
     aux_data_ref_cnt := 1\<rparr>"

lemma ac_demo_aux_ok:
  "nfc_ndef_ch_ac_rec_auxiliary_data_ref_add ac_demo (Some [0x31]) 1 = Ok ac_demo_aux"
  "ac_ok ac_demo_aux" "ac_bytes ac_demo_aux = [1, 1, 0x30, 1, 1, 0x31]" "ac_cost ch_abi_32 ac_demo_aux = 30"
  by (simp_all add: nfc_ndef_ch_ac_rec_auxiliary_data_ref_add_def ac_demo_aux_def ac_demo_def NFC_NDEF_CH_AC_RECORD_DESC_DEF_def
    ac_ok_def ac_refs_def ref_ok_def readable_def ac_bytes_def ref_bytes_def pbytes_def ac_cost_def refs_cost_def ch_abi_32_def
    replicate_2)

theorem ac_record_round_trip_witness:
  "nfc_ndef_ch_ac_rec_parse ch_abi_32 net_buf_ref
      (Some (NFC_NDEF_RECORD_BIN_DATA_DEF TNF_WELL_KNOWN None 0 (Some nfc_ndef_ch_ac_rec_type_field) 2
               (Some [1, 1, 0x30, 1, 1, 0x31]) 6)) True (Some 64) =
    Ok (\<lparr>cps = 1, carrier_data_ref = \<lparr>ref_length = 1, ref_data = Some [0x30]\<rparr>, max_aux_data_ref_cnt = 0,
         aux_data_ref_cnt = 1, aux_data_ref = Some [\<lparr>ref_length = 1, ref_data = Some [0x31]\<rparr>]\<rparr>, 30)"
proof -
  have e: "nfc_ndef_ch_ac_rec_payload_encode ac_demo_aux (Some (replicate 6 0)) 6 = Ok (Some [1, 1, 0x30, 1, 1, 0x31], 6)"
    using ac_pl.fits [OF ac_demo_aux_ok(2), of 6 "replicate 6 0"] by (simp add: ac_demo_aux_ok(3))
  have p: "parsed_ac ac_demo_aux = \<lparr>cps = 1, carrier_data_ref = \<lparr>ref_length = 1, ref_data = Some [0x30]\<rparr>, max_aux_data_ref_cnt = 0,
         aux_data_ref_cnt = 1, aux_data_ref = Some [\<lparr>ref_length = 1, ref_data = Some [0x31]\<rparr>]\<rparr>"
    by (simp add: parsed_ac_def parsed_ref_def ac_demo_aux_def ac_demo_def NFC_NDEF_CH_AC_RECORD_DESC_DEF_def ac_refs_def pbytes_def)
  show ?thesis
    using ac_record_round_trip [OF oob_ref.net_buf_alloc_axioms ac_demo_aux_ok(2) _ e, of 64 ch_abi_32 None 0]
    by (simp add: ac_demo_aux_ok(4) p)
qed

text \<open>
  The carrier type format of a parsed Handover Carrier record is the address of the payload, whatever the
  payload says, and optional data of more than 255 bytes is cut.
\<close>

theorem hc_parse_ctf:
  assumes "hc_rec_payload_parse abi nb address pd n = Ok (hc, used)"
  shows "ctf hc = address \<and>
    carrier_data_len hc = ucast (payload_length pd - 2 - ucast (carrier_type_len hc))"
  using assms
  by (auto simp: hc_rec_payload_parse_def Let_def split_beta rbind_iffs split: if_splits)

end
