(* ===== verification/NDEF_Handover.thy ===== *)
theory NDEF_Handover
  imports NDEF_CH_Parser
begin

unbundle bit_operations_syntax

text \<open>
  Connection Handover from end to end: the messages of \<^verbatim>\<open>NDEF_CH\<close>, encoded and given to the message
  parser of \<^verbatim>\<open>NDEF_Parser\<close>, and their records given to the parsers of \<^verbatim>\<open>NDEF_CH_Parser\<close>.
\<close>

section \<open>Parsing a record that the message parser found\<close>

lemma same_ac:
  assumes "net_buf_alloc nb" "ac_ok ac" "same_record (ac_record_desc ac) (ac_bytes ac) r'"
    and "unat n < 2 ^ 16" "ac_cost abi ac \<le> unat n"
  shows "nfc_ndef_ch_ac_rec_parse abi nb (Some r') True (Some n) = Ok (parsed_ac ac, of_nat (ac_cost abi ac))"
proof -
  have t: "tnf (ac_record_desc ac) = TNF_WELL_KNOWN" "record_type (ac_record_desc ac) = [0x61, 0x63]"
    by (simp_all add: ac_record_desc_def NFC_NDEF_GENERIC_RECORD_DESC_DEF_def record_type_def ch_type_fields pbytes_def)
  have "ac_bytes ac \<noteq> []" by (simp add: ac_bytes_def)
  from same_payload [OF assms(3) this] obtain pd rest where pd: "payload_constructor r' = Some (BIN_PAYLOAD pd)"
    "payload pd = Some (ac_bytes ac @ rest)" "payload_length pd = of_nat (length (ac_bytes ac))" .
  from net_buf_alloc.ac_parse_bytes [OF assms(1,2,4,5) pd(2,3)] pd(1) same_type [OF assms(3) t]
  show ?thesis
    by (simp add: nfc_ndef_ch_ac_rec_parse_def nfc_ndef_ch_ac_rec_check_def ch_entry_def rec_type_check_def ch_type_fields)
qed

lemma same_cr:
  assumes "byteorder bo" "same_record (NFC_NDEF_CH_CR_RECORD_DESC_DEF bo v) (be_bytes 2 (unat v)) r'"
  shows "nfc_ndef_ch_cr_rec_parse bo (Some r') True = Ok \<lparr>random = v\<rparr>"
proof -
  have t: "tnf (NFC_NDEF_CH_CR_RECORD_DESC_DEF bo v) = TNF_WELL_KNOWN" "record_type (NFC_NDEF_CH_CR_RECORD_DESC_DEF bo v) = [0x63, 0x72]"
    by (simp_all add: NFC_NDEF_CH_CR_RECORD_DESC_DEF_def NFC_NDEF_GENERIC_RECORD_DESC_DEF_def record_type_def ch_type_fields pbytes_def)
  have "be_bytes 2 (unat v) \<noteq> []" by (simp add: be_bytes_2)
  from same_payload [OF assms(2) this] obtain pd rest where pd: "payload_constructor r' = Some (BIN_PAYLOAD pd)"
    "payload pd = Some (be_bytes 2 (unat v) @ rest)" "payload_length pd = of_nat (length (be_bytes 2 (unat v)))" .
  from byteorder.be16_at_put [OF assms(1), of "[]" v rest] have "be16_at bo (payload_bytes pd) 0 = Ok v"
    by (simp add: payload_bytes_def pd(2))
  with pd(1,3) same_type [OF assms(2) t] show ?thesis
    by (simp add: nfc_ndef_ch_cr_rec_parse_def nfc_ndef_ch_cr_rec_check_def rec_type_check_def ch_type_fields)
qed

lemma version_nibbles:
  fixes a b :: u8
  defines "v \<equiv> (push_bit 4 a AND 0xF0) OR (b AND 0x0F)"
  shows "drop_bit 4 v AND 0x0F = a AND 0x0F" "v AND 0x0F = b AND 0x0F"
proof -
  have m: "(0x0F :: u8) = mask 4" "(0xF0 :: u8) = push_bit 4 (mask 4)" by (simp_all add: mask_eq_decr_exp)
  show "drop_bit 4 v AND 0x0F = a AND 0x0F" "v AND 0x0F = b AND 0x0F"
    unfolding v_def m by (auto intro!: bit_word_eqI simp: bit_simps)
qed

text \<open>What the parser of a handover record needs of its result buffer.\<close>

definition ch_room :: "ch_abi \<Rightarrow> ndef_abi \<Rightarrow> nat \<Rightarrow> nat" where
  "ch_room abi nabi k = unat (sizeof_ch_rec abi) + unat (sizeof_msg_desc nabi) +
     k * (unat (sizeof_rec_ptr nabi) + unat (sizeof_bin_pay nabi) + unat (sizeof_rec_desc nabi))"

lemma same_ch:
  assumes bo: "byteorder bo" and nabi: "abi_packed nabi" and nb: "net_buf_alloc nb"
    and ty: "ty \<in> {0x73, 0x72, 0x6D, 0x69}"
    and same: "same_record (ch_record_desc bo u (ch_with ty major minor l)) (ch_payload_bytes major minor locs) r'"
    and locs: "locs \<noteq> []" "length locs < 2 ^ 32" "\<forall>(r, pay) \<in> set locs. record_wf r"
    and n: "unat n < 2 ^ 16" "ch_room abi nabi (length locs) \<le> unat n"
  obtains m' arr ex where
    "nfc_ndef_ch_rec_parse bo abi nabi nb jb jr (Some r') True (Some n) =
       Ok (\<lparr>major_version = major AND 0x0F, minor_version = minor AND 0x0F, local_records = m'\<rparr>, n)"
    "record_count m' = of_nat (length locs)" "record_array m' = Some (map Some arr @ ex)"
    "list_all2 (\<lambda>(r, pay) r'. same_record r pay r') locs arr"
proof -
  let ?ch = "ch_record_desc bo u (ch_with ty major minor l)" and ?x = "msg_bytes (length locs) 0 locs"
  let ?m0 = "net_buf_simple_reset nb (net_buf_simple_init_with_data nb n)"
  have t: "tnf ?ch = TNF_WELL_KNOWN" "record_type ?ch = [0x48, ty]"
    by (simp_all add: ch_record_desc_def NFC_NDEF_GENERIC_RECORD_DESC_DEF_def record_type_def pbytes_def)
  have "ch_payload_bytes major minor locs \<noteq> []" by (simp add: ch_payload_bytes_def)
  from same_payload [OF same this] obtain pd rest where pd: "payload_constructor r' = Some (BIN_PAYLOAD pd)"
    "payload pd = Some (ch_payload_bytes major minor locs @ rest)"
    "payload_length pd = of_nat (length (ch_payload_bytes major minor locs))" "length (ch_payload_bytes major minor locs) < 2 ^ 32" .
  define L where "L = payload_length pd"
  have uL: "unat L = Suc (length ?x)" unfolding L_def pd(3) unat_of_nat_u32 [OF pd(4)] by (simp add: ch_payload_bytes_def)
  then have L: "\<not> L < 1" by (simp only: not_less word_le_nat_alt unsigned_1)
  have uL1: "unat (L - 1) = length ?x" using unat_minus(1) [OF L] uL by simp
  have t0: "net_buf_simple_tailroom nb ?m0 = n" by (rule net_buf_alloc.tailroom_init [OF nb n(1)])
  have "unat (sizeof_ch_rec abi) \<le> unat (net_buf_simple_tailroom nb ?m0)" using n(2) t0 by (simp add: ch_room_def)
  from net_buf_alloc.allocate [OF nb this] obtain m1 where m1: "memory_allocate nb ?m0 (sizeof_ch_rec abi) = (m1, True)"
    "unat (net_buf_simple_tailroom nb m1) = unat n - unat (sizeof_ch_rec abi)" unfolding t0 .
  from net_buf_alloc.allocate [OF nb order_refl, of m1] obtain m2 where
    m2: "memory_allocate nb m1 (net_buf_simple_tailroom nb m1) = (m2, True)" "net_buf_simple_tailroom nb m2 = 0"
    by (metis diff_self_eq_0 unat_eq_zero)
  have room: "unat (sizeof_msg_desc nabi) + length locs *
       (unat (sizeof_rec_ptr nabi) + unat (sizeof_bin_pay nabi) + unat (sizeof_rec_desc nabi)) \<le> unat (net_buf_simple_tailroom nb m1)"
    using n(2) m1(2) by (simp add: ch_room_def)
  have "length ?x \<le> unat (L - 1)" by (simp add: uL1)
  from msg_parse_bytes [OF bo nabi locs room this, of jb jr rest] obtain m' ex used where m':
    "nfc_ndef_msg_parse bo nabi jb jr (net_buf_simple_tailroom nb m1) (?x @ rest) (L - 1) = Ok (m', used, of_nat (length ?x))"
    "used \<le> net_buf_simple_tailroom nb m1" "record_count m' = of_nat (length locs)"
    "record_array m' = Some (map Some (parsed_records (length locs) 0 locs rest) @ ex)" .
  have "nfc_ndef_ch_rec_parse bo abi nabi nb jb jr (Some r') True (Some n) =
      ch_rec_payload_parse bo abi nabi nb jb jr pd n"
    using pd(1) same_type [OF same t] ty
    by (auto simp: nfc_ndef_ch_rec_parse_def ch_rec_check_def ch_entry_def ch_type_fields)
  also have "\<dots> = Ok (\<lparr>major_version = major AND 0x0F, minor_version = minor AND 0x0F, local_records = m'\<rparr>, n)"
    using L m1(1) m2 m'(1) version_nibbles [of major minor]
    by (simp add: ch_rec_payload_parse_def payload_bytes_def pd(2) rd_def ch_payload_bytes_def flip: L_def)
  finally show ?thesis
    using same_parsed_records [OF locs(3), of "length locs" 0 rest] pd(4) m'(3,4)
    by (intro that) (simp_all add: ch_payload_bytes_def)
qed

lemma creators_wf:
  assumes "(create, mk, ty, extra) \<in> set (ch_creators bo v)" "byteorder bo" "list_all ac_ok acs"
  shows "\<forall>(r, pay) \<in> set (extra @ ac_locals acs). record_wf r" "ty \<in> {0x73, 0x72, 0x6D, 0x69}"
    "extra = [] \<or> extra = [(NFC_NDEF_CH_CR_RECORD_DESC_DEF bo v, be_bytes 2 (unat v))]"
proof -
  have "record_wf (ac_record_desc ac)" if "ac \<in> set acs" for ac
    using ac_record_encodes [OF assms(2)] that assms(3) by (auto simp: list_all_iff record_encodes_def record_writes_def)
  then show "\<forall>(r, pay) \<in> set (extra @ ac_locals acs). record_wf r"
    using creators_locals [OF assms(1,2)] by (auto simp: list_all_iff record_writes_def)
qed (use assms(1) in \<open>auto simp: ch_creators_def\<close>)

section \<open>Properties\<close>

text \<open>
  C4. A handover survives the transfer. A Handover Select, Mediation, Initiate or Request message is
  created, encoded into a buffer and parsed: the message parser consumes the encoded bytes and finds
  the handover record and the carrier records. The parser of handover records finds the version and the
  local records in the first one, and the parsers of those find the carrier power state and all references
  of every alternative carrier, in order, and the random number of a request.
\<close>

theorem handover_round_trip:
  assumes bo: "byteorder bo" and nabi: "abi_packed nabi" and nb: "net_buf_alloc nb"
    and cr: "(create, mk, ty, extra) \<in> set (ch_creators bo v)"
    and acs: "list_all (\<lambda>ac. ac_ok ac \<and> ac_cost abi ac \<le> unat n) acs" "acs \<noteq> []"
    and cs: "list_all (\<lambda>(r, pay). record_writes bo r pay) carriers" "length carriers = length acs"
    and k: "length extra + length acs \<le> unat k" "length acs + 1 \<le> unat k'"
    and pay: "pay = ch_payload_bytes major minor (extra @ ac_locals acs)"
    and len: "length (ch_msg_bytes ty pay carriers) \<le> unat len" "unat len \<le> length b"
    and room: "unat (sizeof_msg_desc nabi) + (length acs + 1) *
       (unat (sizeof_rec_ptr nabi) + unat (sizeof_bin_pay nabi) + unat (sizeof_rec_desc nabi)) \<le> unat rlen"
    and n: "unat n < 2 ^ 16" "ch_room abi nabi (length extra + length acs) \<le> unat n"
  shows "\<exists>m ch b' size m' used r0 rs ex chr ls ex'.
    create bo u (Some (NFC_NDEF_MSG_DEF k')) (Some (mk major minor k))
      (Some \<lparr>rec_ac = Some (map ac_record_desc acs), rec_carrier = Some (map fst carriers), rec_cnt = of_nat (length acs)\<rparr>) =
      Ok (m, ch, None) \<and>
    nfc_ndef_msg_encode bo w (Some m) (Some b) (Some len) = Ok (Some b', size) \<and>
    nfc_ndef_msg_parse bo nabi jb jr rlen b' len = Ok (m', used, size) \<and>
    record_array m' = Some (map Some (r0 # rs) @ ex) \<and> record_count m' = of_nat (length acs + 1) \<and>
    list_all2 (\<lambda>(r, pay) r'. same_record r pay r') carriers rs \<and>
    nfc_ndef_ch_rec_parse bo abi nabi nb jb jr (Some r0) True (Some n) = Ok (chr, n) \<and>
    major_version chr = major AND 0x0F \<and> minor_version chr = minor AND 0x0F \<and>
    record_array (local_records chr) = Some (map Some ls @ ex') \<and>
    record_count (local_records chr) = of_nat (length extra + length acs) \<and>
    list_all2 (\<lambda>ac r. nfc_ndef_ch_ac_rec_parse abi nb (Some r) True (Some n) =
      Ok (parsed_ac ac, of_nat (ac_cost abi ac))) acs (drop (length extra) ls) \<and>
    (extra \<noteq> [] \<longrightarrow> nfc_ndef_ch_cr_rec_parse bo (Some (hd ls)) True = Ok \<lparr>random = v\<rparr>)"
proof -
  let ?L = "extra @ ac_locals acs"
  have ok: "list_all ac_ok acs" using acs(1) by (auto simp: list_all_iff)
  have lc: "carriers \<noteq> []" "length carriers + 1 < 2 ^ 32" using acs(2) cs(2) k unat_u32_less [of k'] by auto
  have lp: "length pay < 2 ^ 32" using len(1) unat_u32_less [of len] by (simp add: ch_msg_bytes_def)
  obtain m l where m: "create bo u (Some (NFC_NDEF_MSG_DEF k')) (Some (mk major minor k))
      (Some \<lparr>rec_ac = Some (map ac_record_desc acs), rec_carrier = Some (map fst carriers), rec_cnt = of_nat (length acs)\<rparr>) =
        Ok (m, ch_with ty major minor l, None)"
    "msg_writes bo m ((ch_record_desc bo u (ch_with ty major minor l), pay) # carriers)"
    unfolding pay by (rule ch_message_built [OF bo cr ok cs(1) acs(2) cs(2) k lp [unfolded pay]]) blast
  let ?ch = "ch_record_desc bo u (ch_with ty major minor l)" and ?x = "ch_msg_bytes ty pay carriers"
  have B: "msg_bytes (length ((?ch, pay) # carriers)) 0 ((?ch, pay) # carriers) = ?x"
    using ch_msg_layout [OF lc] by simp
  have room': "unat (sizeof_msg_desc nabi) + length ((?ch, pay) # carriers) *
       (unat (sizeof_rec_ptr nabi) + unat (sizeof_bin_pay nabi) + unat (sizeof_rec_desc nabi)) \<le> unat rlen"
    using room cs(2) by simp
  from msg_transfer [OF bo nabi m(2) list.distinct(2) _ len(2) room', unfolded B, OF len(1), of w jb jr]
  obtain b' sz m' used arr ex where p: "nfc_ndef_msg_encode bo w (Some m) (Some b) (Some len) = Ok (Some b', sz)"
    "nfc_ndef_msg_parse bo nabi jb jr rlen b' len = Ok (m', used, sz)" "used \<le> rlen" "record_count m' = record_count m"
    "record_array m' = Some (map Some arr @ ex)" "list_all2 (\<lambda>(r, pay) r'. same_record r pay r') ((?ch, pay) # carriers) arr" .
  then obtain r0 rs where r: "arr = r0 # rs" "same_record ?ch pay r0" "list_all2 (\<lambda>(r, pay) r'. same_record r pay r') carriers rs"
    by (auto simp: list_all2_Cons1)
  have rc: "record_count m = of_nat (length acs + 1)" using m(2) cs(2) by (simp add: msg_writes_def)
  note wfL = creators_wf [OF cr bo ok]
  have "?L \<noteq> []" "length ?L < 2 ^ 32" "ch_room abi nabi (length ?L) \<le> unat n" using acs(2) k unat_u32_less [of k] n(2) by simp_all
  from same_ch [OF bo nabi nb wfL(2) r(2) [unfolded pay] this(1,2) wfL(1) n(1) this(3), of jb jr]
  obtain lm ls ex' where c: "nfc_ndef_ch_rec_parse bo abi nabi nb jb jr (Some r0) True (Some n) =
       Ok (\<lparr>major_version = major AND 0x0F, minor_version = minor AND 0x0F, local_records = lm\<rparr>, n)"
    "record_count lm = of_nat (length ?L)" "record_array lm = Some (map Some ls @ ex')"
    "list_all2 (\<lambda>(r, pay) r'. same_record r pay r') ?L ls" .
  then obtain es as where ls: "ls = es @ as" "length es = length extra"
    "list_all2 (\<lambda>(r, pay) r'. same_record r pay r') extra es" "list_all2 (\<lambda>(r, pay) r'. same_record r pay r') (ac_locals acs) as"
    by (auto simp: list_all2_append1)
  from ls(4) acs(1) same_ac [OF nb _ _ n(1)]
  have A: "list_all2 (\<lambda>ac r. nfc_ndef_ch_ac_rec_parse abi nb (Some r) True (Some n) = Ok (parsed_ac ac, of_nat (ac_cost abi ac))) acs as"
    by (auto simp: list_all2_conv_all_nth list_all_length)
  have R: "nfc_ndef_ch_cr_rec_parse bo (Some (hd ls)) True = Ok \<lparr>random = v\<rparr>" if "extra \<noteq> []"
    using that wfL(3) ls(1,3) same_cr [OF bo] by (auto simp: list_all2_Cons1)
  show ?thesis
    using m(1) p r c ls(1,2) A R rc
    by (intro exI [of _ m] exI [of _ "ch_with ty major minor l"] exI [of _ b'] exI [of _ sz] exI [of _ m'] exI [of _ used]
        exI [of _ r0] exI [of _ rs] exI [of _ ex]
        exI [of _ "\<lparr>major_version = major AND 0x0F, minor_version = minor AND 0x0F, local_records = lm\<rparr>"]
        exI [of _ ls] exI [of _ ex']) simp
qed

theorem handover_round_trip_witness:
  "\<exists>m ch b' size m' used r0 rs ex chr ls ex'.
    nfc_ndef_ch_msg_hr_create byteorder_ref (\<lambda>_. 0) (Some (NFC_NDEF_MSG_DEF 2))
      (Some (NFC_NDEF_CH_HR_RECORD_DESC_DEF 1 5 2)) (Some (NFC_NDEF_CH_CR_RECORD_DESC_DEF byteorder_ref 0x1234))
      (Some \<lparr>rec_ac = Some [ac_record_desc ac_demo], rec_carrier = Some [oob_demo_rec], rec_cnt = 1\<rparr>) = Ok (m, ch, None) \<and>
    nfc_ndef_msg_encode byteorder_ref (\<lambda>_. 0) (Some m) (Some (replicate 94 0)) (Some 94) = Ok (Some b', size) \<and>
    nfc_ndef_msg_parse byteorder_ref abi_32 \<lparr>payload = None, payload_length = 0\<rparr> (plain_record []) 200 b' 94 = Ok (m', used, size) \<and>
    record_array m' = Some (map Some (r0 # rs) @ ex) \<and> record_count m' = 2 \<and>
    list_all2 (\<lambda>(r, pay) r'. same_record r pay r') [(oob_demo_rec, ad_bytes (le_oob_ads bt_env_ref oob_demo))] rs \<and>
    nfc_ndef_ch_rec_parse byteorder_ref ch_abi_32 abi_32 net_buf_ref \<lparr>payload = None, payload_length = 0\<rparr> (plain_record [])
      (Some r0) True (Some 200) = Ok (chr, 200) \<and>
    major_version chr = 1 \<and> minor_version chr = 5 \<and>
    record_array (local_records chr) = Some (map Some ls @ ex') \<and> record_count (local_records chr) = 2 \<and>
    list_all2 (\<lambda>ac r. nfc_ndef_ch_ac_rec_parse ch_abi_32 net_buf_ref (Some r) True (Some 200) =
      Ok (parsed_ac ac, of_nat (ac_cost ch_abi_32 ac))) [ac_demo] (drop 1 ls) \<and>
    nfc_ndef_ch_cr_rec_parse byteorder_ref (Some (hd ls)) True = Ok \<lparr>random = 0x1234\<rparr>"
proof -
  let ?cr = "[(NFC_NDEF_CH_CR_RECORD_DESC_DEF byteorder_ref 0x1234, [0x12, 0x34])]"
  have cr: "(\<lambda>bo u msg hr_rec. nfc_ndef_ch_msg_hr_create bo u msg hr_rec (Some (NFC_NDEF_CH_CR_RECORD_DESC_DEF bo 0x1234)),
      NFC_NDEF_CH_HR_RECORD_DESC_DEF, 0x72, ?cr) \<in> set (ch_creators byteorder_ref 0x1234)"
    by (simp add: ch_creators_def be_bytes_2)
  have w: "record_writes byteorder_ref oob_demo_rec (ad_bytes (le_oob_ads bt_env_ref oob_demo))"
    by (rule oob_ref.le_oob_record_writes [OF ref.byteorder_axioms oob_demo_ok(1)])
  have c: "ac_cost ch_abi_32 ac_demo \<le> 200"
    by (simp add: ac_cost_def ac_demo_def NFC_NDEF_CH_AC_RECORD_DESC_DEF_def ac_refs_def refs_cost_def ch_abi_32_def)
  have sizes: "sizeof_msg_desc abi_32 = 12" "sizeof_rec_ptr abi_32 = 4" "sizeof_bin_pay abi_32 = 8" "sizeof_rec_desc abi_32 = 28"
    "ch_room ch_abi_32 abi_32 (Suc (Suc 0)) \<le> 200"
    by (simp_all add: abi_32_def ch_abi_32_def ch_room_def)
  show ?thesis
    using handover_round_trip [OF ref.byteorder_axioms abi_32_packed oob_ref.net_buf_alloc_axioms cr, of ch_abi_32 200 "[ac_demo]"
      "[(oob_demo_rec, ad_bytes (le_oob_ads bt_env_ref oob_demo))]" 2 2 _ 1 5 94 "replicate 94 0" 200 "\<lambda>_. 0" "\<lambda>_. 0"
      "\<lparr>payload = None, payload_length = 0\<rparr>" "plain_record []", OF _ _ _ _ _ _ refl]
    by (simp add: ac_demo_ok(1) w c ch_demo_payload [simplified] ch_demo_message be_bytes_4 nfc_ndef_le_oob_rec_type_field_def
      sizes)
qed

end
