(* ===== verification/T4T_APDU.thy ===== *)
theory T4T_APDU
  imports NFC_Prelude
begin

unbundle bit_operations_syntax

text \<open>
  Command and response APDUs and the NDEF file of a Type 4 Tag:
  \<^verbatim>\<open>include/nfc/t4t/apdu.h\<close>, \<^verbatim>\<open>subsys/nfc/t4t/apdu.c\<close>, \<^verbatim>\<open>include/nfc/t4t/ndef_file.h\<close> and
  \<^verbatim>\<open>subsys/nfc/t4t/ndef_file.c\<close>.
\<close>

section \<open>Data\<close>

abbreviation (input) NFC_T4T_APDU_SELECT_BY_FILE_ID :: u16
  where "NFC_T4T_APDU_SELECT_BY_FILE_ID \<equiv> 0x000C"
abbreviation (input) NFC_T4T_APDU_SELECT_BY_NAME :: u16
  where "NFC_T4T_APDU_SELECT_BY_NAME \<equiv> 0x0400"
abbreviation (input) NFC_T4T_APDU_RAPDU_STATUS_CMD_COMPLETED :: u16
  where "NFC_T4T_APDU_RAPDU_STATUS_CMD_COMPLETED \<equiv> 0x9000"

text \<open>
  The instruction enumeration stays a byte: clearing a descriptor stores a value that is none of
  its constants.
\<close>

type_synonym nfc_t4t_apdu_comm_ins = u8

definition NFC_T4T_APDU_COMM_INS_SELECT :: nfc_t4t_apdu_comm_ins
  where "NFC_T4T_APDU_COMM_INS_SELECT = 0xA4"
definition NFC_T4T_APDU_COMM_INS_READ :: nfc_t4t_apdu_comm_ins
  where "NFC_T4T_APDU_COMM_INS_READ = 0xB0"
definition NFC_T4T_APDU_COMM_INS_UPDATE :: nfc_t4t_apdu_comm_ins
  where "NFC_T4T_APDU_COMM_INS_UPDATE = 0xD6"

lemmas ins_defs = NFC_T4T_APDU_COMM_INS_SELECT_def NFC_T4T_APDU_COMM_INS_READ_def
  NFC_T4T_APDU_COMM_INS_UPDATE_def

record nfc_t4t_apdu_data =
  apdu_len :: u16
  apdu_buff :: cptr

record nfc_t4t_apdu_comm =
  class_byte :: u8
  instruction :: nfc_t4t_apdu_comm_ins
  parameter :: u16
  comm_data :: nfc_t4t_apdu_data
  resp_len :: u16

record nfc_t4t_apdu_resp =
  resp_status :: u16
  resp_data :: nfc_t4t_apdu_data

definition nfc_t4t_apdu_comm_clear :: "nfc_t4t_apdu_comm \<Rightarrow> nfc_t4t_apdu_comm" where
  "nfc_t4t_apdu_comm_clear cmd_apdu =
     \<lparr>class_byte = 0, instruction = 0, parameter = 0,
      comm_data = \<lparr>apdu_len = 0, apdu_buff = None\<rparr>, resp_len = 0\<rparr>"

definition nfc_t4t_apdu_resp_clear :: "nfc_t4t_apdu_resp \<Rightarrow> nfc_t4t_apdu_resp" where
  "nfc_t4t_apdu_resp_clear resp_apdu =
     \<lparr>resp_status = 0, resp_data = \<lparr>apdu_len = 0, apdu_buff = None\<rparr>\<rparr>"

section \<open>Operations\<close>

abbreviation (input) LC_LONG_FORMAT_THR :: u16 where "LC_LONG_FORMAT_THR \<equiv> 0xFF"
abbreviation (input) LE_LONG_FORMAT_THR :: u16 where "LE_LONG_FORMAT_THR \<equiv> 0x0100"
abbreviation (input) LE_FIELD_ABSENT :: u16 where "LE_FIELD_ABSENT \<equiv> 0"

definition nfc_t4t_apdu_comm_size_calc :: "nfc_t4t_apdu_comm \<Rightarrow> u16" where
  "nfc_t4t_apdu_comm_size_calc c =
     (let d = comm_data c; res = 4;
          res = (if apdu_buff d \<noteq> None
                 then if apdu_len d > LC_LONG_FORMAT_THR then res + 3 else res + 1 else res);
          res = res + apdu_len d
      in if resp_len c \<noteq> LE_FIELD_ABSENT
         then if resp_len c > LE_LONG_FORMAT_THR then res + 2 else res + 1 else res)"

definition nfc_t4t_apdu_comm_args_validate ::
    "nfc_t4t_apdu_comm option \<Rightarrow> cptr \<Rightarrow> u16 option \<Rightarrow> unit res" where
  "nfc_t4t_apdu_comm_args_validate c raw_data len =
     (if c = None \<or> raw_data = None \<or> len = None then Err EINVAL
      else if apdu_buff (comm_data (the c)) \<noteq> None \<and> apdu_len (comm_data (the c)) = 0 then Err EFAULT
      else Ok ())"

text \<open>The optional data field: the buffer and the write position behind it.\<close>

definition apdu_data_write ::
    "byteorder_ops \<Rightarrow> nfc_t4t_apdu_data \<Rightarrow> u8 list \<Rightarrow> nat \<Rightarrow> (u8 list \<times> nat) res" where
  "apdu_data_write bo d b p =
     (case apdu_buff d of
        None \<Rightarrow> Ok (b, p)
      | Some x \<Rightarrow>
          rbind (if apdu_len d > LC_LONG_FORMAT_THR
                 then rbind (wr b p [0x00]) (\<lambda>b.
                      rbind (wr b (p + 1) (sys_put_be16 bo (apdu_len d))) (\<lambda>b. Ok (b, p + 3)))
                 else rbind (wr b p [ucast (apdu_len d)]) (\<lambda>b. Ok (b, p + 1))) (\<lambda>(b, p).
          rbind (memcpy_src (Some x) (unat (apdu_len d))) (\<lambda>xs.
          rbind (wr b p xs) (\<lambda>b. Ok (b, p + unat (apdu_len d))))))"

text \<open>The optional response length field.\<close>

definition apdu_le_write :: "byteorder_ops \<Rightarrow> u16 \<Rightarrow> u8 list \<Rightarrow> nat \<Rightarrow> u8 list res" where
  "apdu_le_write bo le b p =
     (if le = LE_FIELD_ABSENT then Ok b
      else if le > LE_LONG_FORMAT_THR then wr b p (sys_put_be16 bo le)
      else if le = LE_LONG_FORMAT_THR then wr b p [0x00]
      else wr b p [ucast le])"

definition nfc_t4t_apdu_comm_encode ::
    "byteorder_ops \<Rightarrow> nfc_t4t_apdu_comm option \<Rightarrow> cptr \<Rightarrow> u16 option \<Rightarrow> (u8 list \<times> u16) res" where
  "nfc_t4t_apdu_comm_encode bo cmd_apdu raw_data len =
     rbind (nfc_t4t_apdu_comm_args_validate cmd_apdu raw_data len) (\<lambda>_.
     let c = the cmd_apdu; comm_apdu_len = nfc_t4t_apdu_comm_size_calc c in
     if comm_apdu_len > the len then Err ENOMEM
     else
       rbind (wr (the raw_data) 0 [class_byte c]) (\<lambda>b.
       rbind (wr b 1 [instruction c]) (\<lambda>b.
       rbind (wr b 2 (sys_put_be16 bo (parameter c))) (\<lambda>b.
       rbind (apdu_data_write bo (comm_data c) b 4) (\<lambda>(b, p).
       rbind (apdu_le_write bo (resp_len c) b p) (\<lambda>b.
       Ok (b, comm_apdu_len)))))))"

definition nfc_t4t_apdu_resp_args_validate :: "nfc_t4t_apdu_resp option \<Rightarrow> cptr \<Rightarrow> u16 \<Rightarrow> unit res" where
  "nfc_t4t_apdu_resp_args_validate resp_apdu raw_data len =
     (if resp_apdu = None \<or> raw_data = None then Err EINVAL
      else if len < 2 then Err EPERM
      else Ok ())"

definition nfc_t4t_apdu_resp_decode ::
    "byteorder_ops \<Rightarrow> nfc_t4t_apdu_resp option \<Rightarrow> cptr \<Rightarrow> u16 \<Rightarrow> nfc_t4t_apdu_resp res" where
  "nfc_t4t_apdu_resp_decode bo resp_apdu raw_data len =
     rbind (nfc_t4t_apdu_resp_args_validate resp_apdu raw_data len) (\<lambda>_.
     let r = nfc_t4t_apdu_resp_clear (the resp_apdu);
         r = (if len > 2 then r\<lparr>resp_data := \<lparr>apdu_len = len - 2, apdu_buff = raw_data\<rparr>\<rparr> else r) in
     rbind (be16_at bo (the raw_data) (unat (apdu_len (resp_data r)))) (\<lambda>st.
     Ok (r\<lparr>resp_status := st\<rparr>)))"

text \<open>\<^verbatim>\<open>nfc_t4t_ndef_file_encode\<close> puts the message length in front of the message.\<close>

definition nfc_t4t_ndef_file_encode ::
    "byteorder_ops \<Rightarrow> cptr \<Rightarrow> u32 option \<Rightarrow> (u8 list \<times> u32) res" where
  "nfc_t4t_ndef_file_encode bo file_buf msg_size =
     (case (file_buf, msg_size) of
        (Some b, Some n) \<Rightarrow>
          if n < 1 then Err EINVAL
          else if n > 0xFFFF then Err ENOTSUP
          else rbind (wr b 0 (sys_cpu_to_be16 bo (ucast n))) (\<lambda>b. Ok (b, n + 2))
      | _ \<Rightarrow> Err EINVAL)"

definition nfc_t4t_ndef_file_msg_get :: "u8 list \<Rightarrow> u8 list" where
  "nfc_t4t_ndef_file_msg_get file_buf = drop 2 file_buf"

section \<open>The layout of a command\<close>

definition lc_bytes :: "nfc_t4t_apdu_data \<Rightarrow> u8 list" where
  "lc_bytes d =
     (case apdu_buff d of
        None \<Rightarrow> []
      | Some x \<Rightarrow> (if apdu_len d > 0xFF then 0 # be_bytes 2 (unat (apdu_len d)) else [ucast (apdu_len d)]) @
                  take (unat (apdu_len d)) x)"

definition le_bytes :: "u16 \<Rightarrow> u8 list" where
  "le_bytes le = (if le = 0 then [] else if le > 0x100 then be_bytes 2 (unat le) else [ucast le])"

definition apdu_bytes :: "nfc_t4t_apdu_comm \<Rightarrow> u8 list" where
  "apdu_bytes c = [class_byte c, instruction c] @ be_bytes 2 (unat (parameter c)) @
     lc_bytes (comm_data c) @ le_bytes (resp_len c)"

text \<open>
  A descriptor with a consistent data field. The last conjunct says that the size of the command
  is a 16-bit number.
\<close>

definition apdu_data_ok :: "nfc_t4t_apdu_data \<Rightarrow> bool" where
  "apdu_data_ok d \<longleftrightarrow>
     (case apdu_buff d of None \<Rightarrow> apdu_len d = 0
      | Some x \<Rightarrow> apdu_len d \<noteq> 0 \<and> unat (apdu_len d) \<le> length x)"

definition apdu_ok :: "nfc_t4t_apdu_comm \<Rightarrow> bool" where
  "apdu_ok c \<longleftrightarrow> apdu_data_ok (comm_data c) \<and> length (apdu_bytes c) < 2 ^ 16"

lemma ucast_100 [simp]: "(ucast (0x100 :: u16) :: u8) = 0"
  by simp

lemma length_le_bytes: "length (le_bytes le) = (if le = 0 then 0 else if le > 0x100 then 2 else 1)"
  by (simp add: le_bytes_def)

lemma length_lc_bytes:
  assumes "apdu_data_ok d"
  shows "length (lc_bytes d) =
    (if apdu_buff d = None then 0 else if apdu_len d > 0xFF then 3 else 1) + unat (apdu_len d)"
  using assms by (auto simp: lc_bytes_def apdu_data_ok_def split: option.splits)

lemma apdu_size_calc:
  assumes "apdu_ok c"
  shows "nfc_t4t_apdu_comm_size_calc c = of_nat (length (apdu_bytes c))"
    "unat (nfc_t4t_apdu_comm_size_calc c) = length (apdu_bytes c)"
proof -
  have d: "apdu_data_ok (comm_data c)" and l: "length (apdu_bytes c) < 2 ^ 16"
    using assms by (simp_all add: apdu_ok_def)
  have "length (apdu_bytes c) = 4 + length (lc_bytes (comm_data c)) + length (le_bytes (resp_len c))"
    by (simp add: apdu_bytes_def)
  then show e: "nfc_t4t_apdu_comm_size_calc c = of_nat (length (apdu_bytes c))"
    unfolding length_le_bytes length_lc_bytes [OF d]
    by (simp add: nfc_t4t_apdu_comm_size_calc_def Let_def)
  show "unat (nfc_t4t_apdu_comm_size_calc c) = length (apdu_bytes c)"
    unfolding e using l by (simp add: unat_of_nat)
qed

lemma apdu_data_write_Ok:
  assumes bo: "byteorder bo" and ok: "apdu_data_ok d" and n: "length (lc_bytes d) \<le> length r"
  shows "apdu_data_write bo d (pre @ r) (length pre) =
    Ok (pre @ lc_bytes d @ drop (length (lc_bytes d)) r, length pre + length (lc_bytes d))"
proof (cases "apdu_buff d")
  case None
  then show ?thesis using ok by (simp add: apdu_data_write_def lc_bytes_def)
next
  case (Some x)
  let ?h = "if apdu_len d > 0xFF then 3 else 1 :: nat"
  have x: "unat (apdu_len d) \<le> length x" using ok Some by (simp add: apdu_data_ok_def)
  have "sum_list [?h, unat (apdu_len d)] \<le> length r"
    using n length_lc_bytes [OF ok] Some by (simp add: add.commute)
  from chop_fields [OF this] obtain a y q where
    r: "r = a @ y @ q" and l: "length a = ?h" "length y = unat (apdu_len d)"
    by (auto simp: map_eq_Cons_conv)
  show ?thesis
  proof (cases "apdu_len d > 0xFF")
    case True
    then obtain a0 a' where "a = a0 # a'" "length a' = 2"
      using l(1) by (cases a) auto
    then show ?thesis
      using True Some r l(2) x byteorder.put_be16 [OF bo]
      by (simp add: apdu_data_write_def lc_bytes_def memcpy_src_Ok wr_def drop_Cons')
  next
    case False
    then obtain a0 where "a = [a0]" using l(1) by (auto simp: length_Suc_conv)
    then show ?thesis
      using False Some r l(2) x
      by (simp add: apdu_data_write_def lc_bytes_def memcpy_src_Ok wr_def)
  qed
qed

lemma apdu_le_write_Ok:
  assumes bo: "byteorder bo" and n: "length (le_bytes le) \<le> length r"
  shows "apdu_le_write bo le (pre @ r) (length pre) =
    Ok (pre @ le_bytes le @ drop (length (le_bytes le)) r)"
proof -
  have "le_bytes (0x100 :: u16) = [0]" by (simp add: le_bytes_def)
  then show ?thesis
    using n byteorder.put_be16 [OF bo]
    by (cases "le = 0x100") (auto simp: apdu_le_write_def le_bytes_def wr_def split: if_splits)
qed

lemma apdu_encode_fits:
  assumes bo: "byteorder bo" and ok: "apdu_ok c"
    and n: "length (apdu_bytes c) \<le> unat len" "unat len \<le> length b"
  shows "nfc_t4t_apdu_comm_encode bo (Some c) (Some b) (Some len) =
    Ok (apdu_bytes c @ drop (length (apdu_bytes c)) b, of_nat (length (apdu_bytes c)))"
proof -
  have d: "apdu_data_ok (comm_data c)" using ok by (simp add: apdu_ok_def)
  then have v: "nfc_t4t_apdu_comm_args_validate (Some c) (Some b) (Some len) = Ok ()"
    by (auto simp: nfc_t4t_apdu_comm_args_validate_def apdu_data_ok_def split: option.splits)
  let ?lc = "lc_bytes (comm_data c)" and ?le = "le_bytes (resp_len c)"
  have "sum_list [1, 1, 2, length ?lc, length ?le] \<le> length b"
    using n by (simp add: apdu_bytes_def)
  from chop_fields [OF this] obtain a0 a1 p x y r where
    b: "b = a0 # a1 # p @ x @ y @ r"
    and l: "length p = 2" "length x = length ?lc" "length y = length ?le"
    by (auto simp: map_eq_Cons_conv length_Suc_conv)
  let ?h = "[class_byte c, instruction c] @ be_bytes 2 (unat (parameter c))"
  have h: "rbind (wr b 0 [class_byte c]) (\<lambda>b. rbind (wr b (Suc 0) [instruction c]) (\<lambda>b.
      rbind (wr b 2 (sys_put_be16 bo (parameter c))) f)) = f (?h @ x @ y @ r)" for f :: "u8 list \<Rightarrow> (u8 list \<times> u16) res"
    using b l byteorder.put_be16 [OF bo] by (simp add: wr_def drop_Cons' take_Cons')
  have dw: "apdu_data_write bo (comm_data c) (?h @ x @ y @ r) 4 = Ok (?h @ ?lc @ y @ r, 4 + length ?lc)"
    using apdu_data_write_Ok [OF bo d, of "x @ y @ r" ?h] l by simp
  have lh: "length (?h @ ?lc) = 4 + length ?lc" by simp
  have lw: "apdu_le_write bo (resp_len c) (?h @ ?lc @ y @ r) (4 + length ?lc) = Ok (?h @ ?lc @ ?le @ r)"
    using apdu_le_write_Ok [OF bo, of "resp_len c" "y @ r" "?h @ ?lc"] l unfolding lh by simp
  have "\<not> len < nfc_t4t_apdu_comm_size_calc c"
    using n apdu_size_calc(2) [OF ok] by (simp add: word_less_nat_alt)
  moreover have "drop (length (apdu_bytes c)) b = r"
    using b l by (simp add: apdu_bytes_def)
  ultimately show ?thesis
    using v dw lw unfolding apdu_size_calc(1) [OF ok, symmetric]
    by (simp add: nfc_t4t_apdu_comm_encode_def Let_def h) (simp add: apdu_bytes_def)
qed

lemma apdu_encode_too_small:
  assumes "apdu_ok c" "unat len < length (apdu_bytes c)"
  shows "nfc_t4t_apdu_comm_encode bo (Some c) (Some b) (Some len) = Err ENOMEM"
proof -
  have "nfc_t4t_apdu_comm_args_validate (Some c) (Some b) (Some len) = Ok ()"
    using assms(1)
    by (auto simp: nfc_t4t_apdu_comm_args_validate_def apdu_ok_def apdu_data_ok_def split: option.splits)
  then show ?thesis
    using assms(2) apdu_size_calc(2) [OF assms(1)]
    by (simp add: nfc_t4t_apdu_comm_encode_def Let_def word_less_nat_alt)
qed

section \<open>Responses\<close>

lemma apdu_resp_decode_bytes:
  assumes bo: "byteorder bo" and len: "unat len = length xs + 2"
  shows "nfc_t4t_apdu_resp_decode bo (Some r0) (Some (xs @ be_bytes 2 (unat st) @ rest)) len =
    Ok \<lparr>resp_status = st, resp_data = (if xs = [] then \<lparr>apdu_len = 0, apdu_buff = None\<rparr>
        else \<lparr>apdu_len = of_nat (length xs), apdu_buff = Some (xs @ be_bytes 2 (unat st) @ rest)\<rparr>)\<rparr>"
proof -
  have "unat (len - 2) = length xs" using len by (simp add: unat_sub word_le_nat_alt)
  then have l: "len - 2 = of_nat (length xs)" "unat (of_nat (length xs) :: u16) = length xs"
    using len unat_u16_less [of len] by (simp_all add: word_unat_eq_iff unat_of_nat)
  have gt: "2 < len \<longleftrightarrow> xs \<noteq> []" "\<not> len < 2"
    using len by (auto simp: word_less_nat_alt)
  have "be16_at bo (xs @ be_bytes 2 (unat st) @ rest) (length xs) = Ok st"
    by (rule byteorder.be16_at_put [OF bo])
  then show ?thesis
    using gt l by (auto simp: nfc_t4t_apdu_resp_decode_def nfc_t4t_apdu_resp_args_validate_def
        nfc_t4t_apdu_resp_clear_def Let_def)
qed

lemma apdu_resp_decode_short:
  "len < 2 \<Longrightarrow> nfc_t4t_apdu_resp_decode bo (Some r0) (Some raw) len = Err EPERM"
  by (simp add: nfc_t4t_apdu_resp_decode_def nfc_t4t_apdu_resp_args_validate_def)

text \<open>A decoded response: its data field lies inside the received bytes.\<close>

lemma apdu_resp_decode_OkD:
  assumes bo: "byteorder bo" and len: "unat len \<le> length raw"
    and ok: "nfc_t4t_apdu_resp_decode bo r0 (Some raw) len = Ok r"
  shows "2 \<le> unat len" "unat (apdu_len (resp_data r)) = unat len - 2"
    "apdu_buff (resp_data r) = (if apdu_len (resp_data r) = 0 then None else Some raw)"
    "take (unat len) raw = take (unat len - 2) raw @ be_bytes 2 (unat (resp_status r))"
proof -
  have v: "nfc_t4t_apdu_resp_args_validate r0 (Some raw) len = Ok ()"
    using ok by (auto simp: nfc_t4t_apdu_resp_decode_def rbind_iffs)
  then have "\<not> len < 2" by (auto simp: nfc_t4t_apdu_resp_args_validate_def split: if_splits)
  then show l2: "2 \<le> unat len" by (simp add: word_less_nat_alt)
  have eq: "2 < len \<or> len = 2" using \<open>\<not> len < 2\<close> by auto
  have u: "unat (len - 2) = unat len - 2" using l2 by (simp add: unat_sub word_le_nat_alt)
  have d: "resp_data r = (if len > 2 then \<lparr>apdu_len = len - 2, apdu_buff = Some raw\<rparr>
      else \<lparr>apdu_len = 0, apdu_buff = None\<rparr>)"
    and st: "be16_at bo raw (unat (apdu_len (resp_data r))) = Ok (resp_status r)"
    using ok v by (auto simp: nfc_t4t_apdu_resp_decode_def nfc_t4t_apdu_resp_clear_def rbind_iffs
        Let_def split: if_splits)
  show a: "unat (apdu_len (resp_data r)) = unat len - 2"
    using d u eq by (auto split: if_splits)
  show "apdu_buff (resp_data r) = (if apdu_len (resp_data r) = 0 then None else Some raw)"
    using d eq by auto
  have "take 2 (drop (unat len - 2) raw) = be_bytes 2 (unat (resp_status r))"
    using st a by (simp add: byteorder.be16_at_Ok_iff [OF bo])
  then show "take (unat len) raw = take (unat len - 2) raw @ be_bytes 2 (unat (resp_status r))"
    using take_add [of "unat len - 2" 2 raw] unfolding le_add_diff_inverse2 [OF l2] by simp
qed

lemma apdu_resp_decode_not_Fault:
  assumes "unat len \<le> length raw"
  shows "nfc_t4t_apdu_resp_decode bo r0 (Some raw) len \<noteq> Fault"
proof -
  have "2 \<le> unat len" if "\<not> len < 2" using that by (simp add: word_less_nat_alt)
  then show ?thesis
    using assms
    by (auto simp: nfc_t4t_apdu_resp_decode_def nfc_t4t_apdu_resp_args_validate_def
        nfc_t4t_apdu_resp_clear_def rbind_iffs Let_def be16_at_def rdn_def unat_sub word_le_nat_alt
        word_less_nat_alt split: if_splits)
qed

lemma ndef_file_encode_Ok:
  assumes bo: "byteorder bo" and n: "0 < n" "n \<le> 0xFFFF" and b: "2 \<le> length b"
  shows "nfc_t4t_ndef_file_encode bo (Some b) (Some n) =
    Ok (be_bytes 2 (unat n) @ nfc_t4t_ndef_file_msg_get b, n + 2)"
proof -
  have "unat n < 65536" using n(2) by (simp add: word_le_nat_alt)
  then have "sys_cpu_to_be16 bo (ucast n) = be_bytes 2 (unat n)"
    using byteorder.cpu_to_be16 [OF bo, of "ucast n"] by (simp add: unat_ucast_down)
  moreover have "\<not> n < 1" "\<not> 0xFFFF < n" using n by (auto simp: word_gt_0 not_less)
  ultimately show ?thesis
    using b by (simp add: nfc_t4t_ndef_file_encode_def wr_def nfc_t4t_ndef_file_msg_get_def)
      (simp add: numeral_2_eq_2)
qed

section \<open>Theorems\<close>

text \<open>
  C13. The command encoder writes exactly the APDU layout (header, Lc and data, Le, each in the
  short or long form its value demands) at the start of the buffer, reports its size and leaves
  the rest alone; when the layout does not fit it returns \<^verbatim>\<open>-ENOMEM\<close>. This holds for every
  descriptor whose size is a 16-bit number.
\<close>

theorem apdu_comm_encode_correct:
  assumes "byteorder bo" "apdu_ok c" "unat len \<le> length b"
  shows "nfc_t4t_apdu_comm_encode bo (Some c) (Some b) (Some len) =
    (if length (apdu_bytes c) \<le> unat len
     then Ok (apdu_bytes c @ drop (length (apdu_bytes c)) b, of_nat (length (apdu_bytes c)))
     else Err ENOMEM)"
  using apdu_encode_fits [OF assms(1,2) _ assms(3)] apdu_encode_too_small [OF assms(2), of len bo b]
  by auto

definition apdu_example :: nfc_t4t_apdu_comm where
  "apdu_example = \<lparr>class_byte = 0, instruction = NFC_T4T_APDU_COMM_INS_SELECT, parameter = 0x000C,
     comm_data = \<lparr>apdu_len = 2, apdu_buff = Some [0xE1, 0x03]\<rparr>, resp_len = 0x100\<rparr>"

theorem apdu_comm_encode_correct_witness:
  "apdu_ok apdu_example \<and>
   nfc_t4t_apdu_comm_encode byteorder_ref (Some apdu_example) (Some (replicate 9 0xEE)) (Some 9) =
     Ok ([0x00, 0xA4, 0x00, 0x0C, 0x02, 0xE1, 0x03, 0x00, 0xEE], 8) \<and>
   nfc_t4t_apdu_comm_encode byteorder_ref (Some apdu_example) (Some (replicate 9 0xEE)) (Some 7) =
     Err ENOMEM"
proof -
  have b: "apdu_bytes apdu_example = [0x00, 0xA4, 0x00, 0x0C, 0x02, 0xE1, 0x03, 0x00]"
    by (simp add: apdu_bytes_def apdu_example_def lc_bytes_def le_bytes_def ins_defs be_bytes_2)
  have ok: "apdu_ok apdu_example"
    unfolding apdu_ok_def b by (simp add: apdu_data_ok_def apdu_example_def)
  have "replicate 9 (0xEE :: u8) = [0xEE, 0xEE, 0xEE, 0xEE, 0xEE, 0xEE, 0xEE, 0xEE, 0xEE]"
    by (simp add: numeral_eq_Suc)
  with apdu_comm_encode_correct [OF ref.byteorder_axioms ok, of 9 "replicate 9 0xEE"]
    apdu_comm_encode_correct [OF ref.byteorder_axioms ok, of 7 "replicate 9 0xEE"]
  show ?thesis using ok b by simp
qed

text \<open>
  C39. The size of a command is computed in 16 bits. A data field of 65529 bytes or more makes it
  wrap, so the check against the buffer size passes for a buffer that cannot hold the command,
  and the encoder writes behind the end of the buffer.
\<close>

theorem apdu_comm_encode_overflow:
  assumes bo: "byteorder bo"
    and d: "comm_data c = \<lparr>apdu_len = n, apdu_buff = Some x\<rparr>" "unat n \<le> length x" "0xFFF9 \<le> n"
    and le: "resp_len c = 0"
    and b: "unat len = length b" "6 < length b" "length b < 7 + unat n"
  shows "nfc_t4t_apdu_comm_encode bo (Some c) (Some b) (Some len) = Fault"
proof -
  have n: "65529 \<le> unat n" using d(3) by (simp add: word_le_nat_alt)
  have "(7 + unat n) mod 65536 = (7 + unat n - 65536) mod 65536"
    using n by (intro le_mod_geq) simp
  then have "(7 + unat n) mod 65536 \<le> 6"
    using unat_u16_less [of n] by simp
  then have "unat (nfc_t4t_apdu_comm_size_calc c) \<le> 6"
    using n d le
    by (simp add: nfc_t4t_apdu_comm_size_calc_def Let_def unat_word_ariths word_less_nat_alt)
  then have s: "\<not> len < nfc_t4t_apdu_comm_size_calc c" using b by (simp add: word_less_nat_alt)
  have "n \<noteq> 0" "0xFF < n" using n by (auto simp: word_less_nat_alt)
  moreover from this(1) have "nfc_t4t_apdu_comm_args_validate (Some c) (Some b) (Some len) = Ok ()"
    using d by (simp add: nfc_t4t_apdu_comm_args_validate_def)
  ultimately show ?thesis
    using s d le b(2,3) byteorder.put_be16 [OF bo]
    by (simp add: nfc_t4t_apdu_comm_encode_def Let_def apdu_data_write_def wr_def memcpy_src_Ok)
qed

theorem apdu_comm_encode_overflow_witness:
  "nfc_t4t_apdu_comm_encode byteorder_ref
     (Some \<lparr>class_byte = 0, instruction = NFC_T4T_APDU_COMM_INS_UPDATE, parameter = 0,
            comm_data = \<lparr>apdu_len = 0xFFFF, apdu_buff = Some (replicate 65535 0)\<rparr>, resp_len = 0\<rparr>)
     (Some (replicate 64 0)) (Some 64) = Fault"
  by (rule apdu_comm_encode_overflow [OF ref.byteorder_axioms, where n = "0xFFFF" and x = "replicate 65535 0"])
    simp_all

text \<open>
  C28. Decoding a response is memory safe for every received buffer, rejects what is shorter than
  the status field with \<^verbatim>\<open>-EPERM\<close>, and otherwise gives back exactly the received data field and
  status.
\<close>

theorem apdu_resp_decode_correct:
  assumes bo: "byteorder bo" and len: "unat len \<le> length raw"
  shows "nfc_t4t_apdu_resp_decode bo (Some r0) (Some raw) len \<noteq> Fault \<and>
    (nfc_t4t_apdu_resp_decode bo (Some r0) (Some raw) len = Err EPERM \<longleftrightarrow> len < 2) \<and>
    (2 \<le> len \<longrightarrow> (\<exists>r. nfc_t4t_apdu_resp_decode bo (Some r0) (Some raw) len = Ok r \<and>
        pbytes (apdu_buff (resp_data r)) (unat (apdu_len (resp_data r))) @
          be_bytes 2 (unat (resp_status r)) = take (unat len) raw))"
proof -
  have nf: "nfc_t4t_apdu_resp_decode bo (Some r0) (Some raw) len \<noteq> Fault"
    using len by (rule apdu_resp_decode_not_Fault)
  have e: "len < 2" if "nfc_t4t_apdu_resp_decode bo (Some r0) (Some raw) len = Err x" for x
    using that by (auto simp: nfc_t4t_apdu_resp_decode_def nfc_t4t_apdu_resp_args_validate_def
        rbind_iffs be16_at_def rdn_def Let_def split: if_splits)
  have ok: "pbytes (apdu_buff (resp_data r)) (unat (apdu_len (resp_data r))) @
          be_bytes 2 (unat (resp_status r)) = take (unat len) raw"
    if "nfc_t4t_apdu_resp_decode bo (Some r0) (Some raw) len = Ok r" for r
    using apdu_resp_decode_OkD [OF bo len that] by (auto simp: pbytes_def)
  show ?thesis
  proof (cases "nfc_t4t_apdu_resp_decode bo (Some r0) (Some raw) len")
    case (Ok r)
    then show ?thesis using ok apdu_resp_decode_short [of len bo r0 raw] by auto
  next
    case (Err x)
    then show ?thesis using e [OF Err] apdu_resp_decode_short [of len bo r0 raw] by auto
  qed (use nf in simp)
qed

theorem apdu_resp_decode_correct_witness:
  "\<exists>r. nfc_t4t_apdu_resp_decode byteorder_ref
         (Some \<lparr>resp_status = 0, resp_data = \<lparr>apdu_len = 0, apdu_buff = None\<rparr>\<rparr>)
         (Some [0xAB, 0xCD, 0x90, 0x00]) 4 = Ok r \<and>
     pbytes (apdu_buff (resp_data r)) (unat (apdu_len (resp_data r))) @
       be_bytes 2 (unat (resp_status r)) = [0xAB, 0xCD, 0x90, 0x00]"
  using apdu_resp_decode_correct [OF ref.byteorder_axioms, of 4 "[0xAB, 0xCD, 0x90, 0x00]"
      "\<lparr>resp_status = 0, resp_data = \<lparr>apdu_len = 0, apdu_buff = None\<rparr>\<rparr>"]
  by simp

end
