(* ===== verification/TNEP_Base.thy ===== *)
theory TNEP_Base
  imports NDEF_Parser NDEF_Payloads T4T_APDU
begin

unbundle bit_operations_syntax

text \<open>
  What both sides of the Tag NDEF Exchange Protocol share (\<^verbatim>\<open>tnep/base.h\<close>, \<^verbatim>\<open>ndef/tnep_rec.h\<close>, \<^verbatim>\<open>ndef/msg_parser.h\<close>):
  constants, record types and the size of the buffer for a parsed message.
\<close>

abbreviation (input) NFC_TNEP_VERSION :: u8 where "NFC_TNEP_VERSION \<equiv> 0x10"
abbreviation (input) NFC_TNEP_COMM_MODE_SINGLE_RESPONSE :: u8 where "NFC_TNEP_COMM_MODE_SINGLE_RESPONSE \<equiv> 0"
abbreviation (input) NFC_TNEP_STATUS_SUCCESS :: u8 where "NFC_TNEP_STATUS_SUCCESS \<equiv> 0"
abbreviation (input) NFC_TNEP_STATUS_PROTOCOL_ERROR :: u8 where "NFC_TNEP_STATUS_PROTOCOL_ERROR \<equiv> 1"
abbreviation (input) NFC_NDEF_TNEP_REC_TYPE_LEN :: nat where "NFC_NDEF_TNEP_REC_TYPE_LEN \<equiv> 2"
abbreviation (input) nfc_ndef_tnep_rec_type_svc_select :: "u8 list" where "nfc_ndef_tnep_rec_type_svc_select \<equiv> [0x54, 0x73]"
abbreviation (input) nfc_ndef_tnep_rec_type_svc_param :: "u8 list" where "nfc_ndef_tnep_rec_type_svc_param \<equiv> [0x54, 0x70]"
abbreviation (input) nfc_ndef_tnep_rec_type_status :: "u8 list" where "nfc_ndef_tnep_rec_type_status \<equiv> [0x54, 0x65]"

definition NFC_NDEF_PARSER_REQUIRED_MEM :: "ndef_abi \<Rightarrow> u32 \<Rightarrow> u32" where
  "NFC_NDEF_PARSER_REQUIRED_MEM abi max_count_of_records =
     sizeof_msg_1 abi + NFC_NDEF_MSG_PARSER_DELTA abi * (max_count_of_records - 1)"

end
