(* ===== verification/TNEP_Tag.thy ===== *)
theory TNEP_Tag
  imports TNEP_Base
begin

unbundle bit_operations_syntax

text \<open>
  The tag side of the Tag NDEF Exchange Protocol (\<^verbatim>\<open>tnep/tag.h\<close>, \<^verbatim>\<open>tnep/tag.c\<close>). The poller writes a
  message into the tag, the tag prepares the answer and puts it where the poller reads. The first exchange
  selects one of the services that the initial message announces; then messages are exchanged with that
  service until it is deselected.

  The static variables of the module are one record. The two transmit buffers belong to the application and
  are handed to the NFC library by reference: a buffer is an address (\<open>buf_ptr\<close>) into the memory \<open>tag_mem\<close>.
  Callbacks into the application and calls of the NFC library and of the kernel are output events. The
  functions of a service are called at the end of a handler, so that a service that calls the module from
  \<^verbatim>\<open>selected\<close> or \<^verbatim>\<open>message_received\<close> makes the next input; only after \<^verbatim>\<open>deselected\<close> the handler goes on.
\<close>

section \<open>Data\<close>

datatype tnep_event = TNEP_EVENT_DUMMY | TNEP_EVENT_MSG_RX_NEW | TNEP_EVENT_TAG_SELECTED

datatype tnep_state_name = TNEP_STATE_DISABLED | TNEP_STATE_SERVICE_READY | TNEP_STATE_SERVICE_SELECTED

datatype tnep_svc_record_status = TNEP_SVC_NOT_FOUND | TNEP_SVC_SELECTED | TNEP_SVC_DESELECTED

datatype tnep_app_data_state = TNEP_APP_DATA_UNEXPECTED | TNEP_APP_DATA_EXPECTED

abbreviation (input) NFC_TNEP_EVENTS_NUMBER :: u8 where "NFC_TNEP_EVENTS_NUMBER \<equiv> 2"

type_synonym buf_ptr = nat

record tnep_buffer =
  tx_data :: "buf_ptr option"
  tx_swap_data :: "buf_ptr option"
  tx_len :: u32

record tnep_rx_buffer =
  rx_data :: cptr
  rx_len :: u32

text \<open>A service; its callbacks are events with the number of the service.\<close>

record nfc_tnep_tag_service =
  parameters :: nfc_ndef_tnep_rec_svc_param
  ndef_record :: nfc_ndef_record_desc

definition NFC_TNEP_TAG_SERVICE_DEF ::
    "byteorder_ops \<Rightarrow> cptr \<Rightarrow> u8 \<Rightarrow> u8 \<Rightarrow> u8 \<Rightarrow> u8 \<Rightarrow> u16 \<Rightarrow> nfc_tnep_tag_service" where
  "NFC_TNEP_TAG_SERVICE_DEF bo svc_uri svc_uri_length mode t_wait n_wait max_msg_size =
     (let p = \<lparr>version = NFC_TNEP_VERSION, uri_length = svc_uri_length, param_uri = svc_uri, communication_mode = mode,
               min_time = t_wait, max_time_ext = n_wait, max_size = max_msg_size\<rparr> in
      \<lparr>parameters = p, ndef_record = NFC_TNEP_SERIVCE_PARAM_RECORD_DESC_DEF bo p\<rparr>)"

definition NFC_TNEP_TAG_APP_MSG_DEF :: "u32 \<Rightarrow> nfc_ndef_msg_desc" where
  "NFC_TNEP_TAG_APP_MSG_DEF max_record_cnt = NFC_NDEF_MSG_DEF (max_record_cnt + 1)"

record tnep_tag =
  current_state :: tnep_state_name
  tx :: tnep_buffer
  rx :: tnep_rx_buffer
  svc_active :: "nat option"
  svc_cnt :: u32
  max_records_cnt :: u32
  app_data_expected :: tnep_app_data_state
  data_set :: bool
  initial_msg_encode :: bool
  current_buff :: "buf_ptr option"
  tag_mem :: "buf_ptr \<Rightarrow> u8 list"

text \<open>
  \<open>Data_set p b n\<close> is the call of \<^verbatim>\<open>data_set\<close> with buffer \<open>p\<close>, which holds \<open>b\<close>, and length \<open>n\<close>;
  \<open>Signal\<close> raises a poll signal of the kernel.
\<close>

datatype tnep_out =
    Data_set buf_ptr "u8 list" u32
  | Selected nat
  | Deselected nat
  | Message_received nat cptr u32
  | Error_detected nat errno
  | Signal tnep_event

type_synonym tnep_ret = "(tnep_tag \<times> tnep_out list \<times> errno option) res"

text \<open>
  What the module is built with and what surrounds it: the services of the application, in the order of the
  linker section; the configuration; the parameters of the encoder and parser models; what a
  message encoder that fails leaves in its buffer (\<open>enc_partial\<close>); and the application's callback that encodes
  the initial message.
\<close>

record tnep_env =
  services :: "nfc_tnep_tag_service list"
  CONFIG_NFC_T4T_NRFXLIB :: bool
  CONFIG_NFC_TNEP_RX_MAX_RECORD_CNT :: u32
  CONFIG_NFC_TNEP_RX_MAX_RECORD_SIZE :: nat
  env_bo :: byteorder_ops
  env_abi :: ndef_abi
  env_junk_bin :: nfc_ndef_bin_payload_desc
  env_junk_rec :: nfc_ndef_record_desc
  enc_junk :: "u32 \<Rightarrow> u32"
  enc_partial :: "u8 list \<Rightarrow> u8 list"
  initial_cb :: "tnep_tag \<Rightarrow> nfc_ndef_msg_desc \<Rightarrow> tnep_ret"

section \<open>Messages to the poller\<close>

text \<open>
  The message is encoded into the buffer that is not in use, and the NFC library gets that buffer. With
  a Type 4 Tag the buffer is the NDEF file, whose first two bytes are the message length; the result of
  \<^verbatim>\<open>nfc_t4t_ndef_file_encode\<close> is ignored.
\<close>

definition tnep_tx_msg_encode :: "tnep_env \<Rightarrow> nfc_ndef_msg_desc option \<Rightarrow> tnep_tag \<Rightarrow> tnep_ret" where
  "tnep_tx_msg_encode env msg s =
     (let cur = (if current_buff s = tx_data (tx s) then tx_swap_data (tx s) else tx_data (tx s)) in
      case cur of
        None \<Rightarrow> Fault
      | Some p \<Rightarrow>
          rbind (wr (tag_mem s p) 0 (replicate (unat (tx_len (tx s))) 0)) (\<lambda>b.
          let off = (if CONFIG_NFC_T4T_NRFXLIB env then 2 else 0);
              len = tx_len (tx s) - of_nat off in
          rbind (case msg of
                   None \<Rightarrow> Ok (b, len, None)
                 | Some m \<Rightarrow>
                     if record_count m > 0 then
                       case nfc_ndef_msg_encode (env_bo env) (enc_junk env) (Some m) (Some (drop off b)) (Some len) of
                         Ok (w, n) \<Rightarrow> Ok (take off b @ the w, n, None)
                       | Err e \<Rightarrow> Ok (take off b @ enc_partial env (drop off b), len, Some e)
                       | Fault \<Rightarrow> Fault
                     else Ok (b, len, None)) (\<lambda>(b, len, err).
          rbind (if CONFIG_NFC_T4T_NRFXLIB env
                 then case nfc_t4t_ndef_file_encode (env_bo env) (Some b) (Some len) of
                        Ok (b, _) \<Rightarrow> Ok b
                      | Err _ \<Rightarrow> Ok b
                      | Fault \<Rightarrow> Fault
                 else Ok b) (\<lambda>b.
          if \<not> data_set s then Fault
          else Ok (s\<lparr>current_buff := cur, tag_mem := (tag_mem s)(p := b)\<rparr>, [Data_set p b (tx_len (tx s))], err)))))"

definition tnep_tx_msg_add_rec :: "nfc_ndef_msg_desc \<Rightarrow> nfc_ndef_record_desc option \<Rightarrow> nfc_ndef_msg_desc res" where
  "tnep_tx_msg_add_rec msg rec = (if rec = None then Err EINVAL else nfc_ndef_msg_record_add msg rec)"

text \<open>
  The status record is a static variable of the module: the descriptor that is added holds the new status. The
  message comes back also when the record could not be added, since a protocol error has cleared it.
\<close>

definition tnep_tx_msg_add_rec_status :: "nfc_ndef_msg_desc \<Rightarrow> u8 \<Rightarrow> (nfc_ndef_msg_desc \<times> errno option) res" where
  "tnep_tx_msg_add_rec_status msg st =
     (let msg = (if st = NFC_TNEP_STATUS_PROTOCOL_ERROR then nfc_ndef_msg_clear msg else msg) in
      case tnep_tx_msg_add_rec msg (Some (NFC_TNEP_STATUS_RECORD_DESC_DEF st)) of
        Ok msg \<Rightarrow> Ok (msg, None)
      | Err e \<Rightarrow> Ok (msg, Some e)
      | Fault \<Rightarrow> Fault)"

text \<open>The loop over the records of an array, and the one over the services.\<close>

primrec tnep_add_records :: "nfc_ndef_msg_desc \<Rightarrow> nfc_ndef_record_desc list \<Rightarrow> nfc_ndef_msg_desc res" where
  "tnep_add_records msg [] = Ok msg"
| "tnep_add_records msg (r # rs) = rbind (tnep_tx_msg_add_rec msg (Some r)) (\<lambda>msg. tnep_add_records msg rs)"

definition tnep_add_services :: "tnep_env \<Rightarrow> nfc_ndef_msg_desc \<Rightarrow> nfc_ndef_msg_desc res" where
  "tnep_add_services env msg = tnep_add_records msg (map ndef_record (services env))"

text \<open>Encodes the message that has been built, or returns the error of building it.\<close>

definition tnep_encode_built :: "tnep_env \<Rightarrow> nfc_ndef_msg_desc res \<Rightarrow> tnep_tag \<Rightarrow> tnep_ret" where
  "tnep_encode_built env msg s =
     (case msg of
        Ok m \<Rightarrow> tnep_tx_msg_encode env (Some m) s
      | Err e \<Rightarrow> Ok (s, [], Some e)
      | Fault \<Rightarrow> Fault)"

definition nfc_tnep_initial_msg_encode ::
    "tnep_env \<Rightarrow> nfc_ndef_msg_desc option \<Rightarrow> nfc_ndef_record_desc list option \<Rightarrow> u32 \<Rightarrow> tnep_tag \<Rightarrow> tnep_ret" where
  "nfc_tnep_initial_msg_encode env msg records records_cnt s =
     (if msg = None then Ok (s, [], Some EINVAL)
      else if records = None \<and> records_cnt > 0 then Ok (s, [], Some EINVAL)
      else
        let used_records = record_count (the msg) + svc_cnt s in
        if records_cnt > max_records_cnt s - used_records then Ok (s, [], Some ENOMEM)
        else
          let rs = (case records of None \<Rightarrow> [] | Some rs \<Rightarrow> rs) in
          if unat records_cnt \<le> length rs
          then tnep_encode_built env
                 (rbind (tnep_add_records (the msg) (take (unat records_cnt) rs)) (tnep_add_services env)) s
          else Fault)"

definition tnep_tx_initial_msg_set :: "tnep_env \<Rightarrow> tnep_tag \<Rightarrow> tnep_ret" where
  "tnep_tx_initial_msg_set env s =
     (let initial_msg = nfc_ndef_msg_clear (NFC_NDEF_MSG_DEF (svc_cnt s + max_records_cnt s)) in
      if initial_msg_encode s \<and> max_records_cnt s > 0 then initial_cb env s initial_msg
      else tnep_encode_built env (tnep_add_services env initial_msg) s)"

section \<open>Service selection\<close>

definition ndef_check_rec_type :: "nfc_ndef_record_desc \<Rightarrow> u8 list \<Rightarrow> bool res" where
  "ndef_check_rec_type rec type_field =
     (if unat (type_length rec) \<noteq> length type_field then Ok False
      else rbind (memcpy_src (type_ptr rec) (length type_field)) (\<lambda>xs. Ok (xs = type_field)))"

text \<open>The loop of \<^verbatim>\<open>tnep_svc_set_active\<close> over the services from number \<open>i\<close> on.\<close>

primrec svc_find :: "cptr \<Rightarrow> nat \<Rightarrow> nfc_tnep_tag_service list \<Rightarrow> nat \<Rightarrow> nat option res" where
  "svc_find uri_name ulen [] i = Ok None"
| "svc_find uri_name ulen (svc # svcs) i =
     (if unat (uri_length (parameters svc)) = ulen then
        rbind (memcpy_src uri_name ulen) (\<lambda>xs.
        rbind (memcpy_src (param_uri (parameters svc)) ulen) (\<lambda>ys.
        if xs = ys then Ok (Some i) else svc_find uri_name ulen svcs (Suc i)))
      else svc_find uri_name ulen svcs (Suc i))"

definition tnep_svc_set_active :: "tnep_env \<Rightarrow> cptr \<Rightarrow> nat \<Rightarrow> tnep_tag \<Rightarrow> (tnep_tag \<times> tnep_svc_record_status) res" where
  "tnep_svc_set_active env uri_name ulen s =
     rbind (svc_find uri_name ulen (services env) 0) (\<lambda>found.
     case found of
       Some i \<Rightarrow> Ok (s\<lparr>svc_active := Some i\<rparr>, TNEP_SVC_SELECTED)
     | None \<Rightarrow> Ok (s\<lparr>svc_active := None\<rparr>, TNEP_SVC_DESELECTED))"

text \<open>
  The body of the search for a service select record: the payload is copied into an array, and the result
  of the copy is ignored, so that a longer payload leaves the array zero.
\<close>

definition svc_select_record :: "tnep_env \<Rightarrow> nfc_ndef_record_desc \<Rightarrow> tnep_tag \<Rightarrow> (tnep_tag \<times> tnep_svc_record_status) res" where
  "svc_select_record env rec s =
     (let n = CONFIG_NFC_TNEP_RX_MAX_RECORD_SIZE env; bin_rec = replicate n 0 in
      case payload_constructor rec of
        None \<Rightarrow> Fault
      | Some pc \<Rightarrow>
          rbind (case call_payload_constructor pc (Some bin_rec) (of_nat n) of
                   Ok (w, _) \<Rightarrow> Ok (the w)
                 | Err _ \<Rightarrow> Ok bin_rec
                 | Fault \<Rightarrow> Fault) (\<lambda>bin_rec.
          rbind (rd bin_rec 0) (\<lambda>ulen.
          tnep_svc_set_active env (Some (drop 1 bin_rec)) (unat ulen) s)))"

text \<open>The loop over the records of the message from record \<open>i\<close> on, with \<open>n\<close> records left.\<close>

primrec svc_select_loop :: "tnep_env \<Rightarrow> nfc_ndef_record_desc option list \<Rightarrow> nat \<Rightarrow> nat \<Rightarrow> tnep_tag \<Rightarrow>
    (tnep_tag \<times> tnep_svc_record_status) res" where
  "svc_select_loop env recs 0 i s = Ok (s, TNEP_SVC_NOT_FOUND)"
| "svc_select_loop env recs (Suc n) i s =
     (if i < length recs then
        case recs ! i of
          None \<Rightarrow> Fault
        | Some r \<Rightarrow>
            rbind (ndef_check_rec_type r nfc_ndef_tnep_rec_type_svc_select) (\<lambda>select_rec.
            if select_rec then svc_select_record env r s
            else svc_select_loop env recs n (Suc i) s)
      else Fault)"

abbreviation rx_bytes :: "tnep_tag \<Rightarrow> u8 list" where
  "rx_bytes s \<equiv> (case rx_data (rx s) of None \<Rightarrow> [] | Some b \<Rightarrow> b)"

abbreviation rx_parse :: "tnep_env \<Rightarrow> tnep_tag \<Rightarrow> (nfc_ndef_msg_desc \<times> u32 \<times> u32) res" where
  "rx_parse env s \<equiv> nfc_ndef_msg_parse (env_bo env) (env_abi env) (env_junk_bin env) (env_junk_rec env)
     (NFC_NDEF_PARSER_REQUIRED_MEM (env_abi env) (CONFIG_NFC_TNEP_RX_MAX_RECORD_CNT env)) (rx_bytes s) (rx_len (rx s))"

text \<open>
  \<^term>\<open>None\<close> is the error code \<^verbatim>\<open>-EINVAL\<close>, which the callers store in a variable of the status type. The
  parser replaces the length of the message by the length it has parsed.
\<close>

definition tnep_svc_select_from_msg :: "tnep_env \<Rightarrow> tnep_tag \<Rightarrow> (tnep_tag \<times> tnep_svc_record_status option) res" where
  "tnep_svc_select_from_msg env s =
     (case rx_parse env s of
        Err _ \<Rightarrow> Ok (s, None)
      | Fault \<Rightarrow> Fault
      | Ok (msg, _, parsed) \<Rightarrow>
          (case record_array msg of
             None \<Rightarrow> Fault
           | Some recs \<Rightarrow>
               rbind (svc_select_loop env recs (unat (record_count msg)) 0 (s\<lparr>rx := (rx s)\<lparr>rx_len := parsed\<rparr>\<rparr>)) (\<lambda>(s, st).
               Ok (s, Some st))))"

section \<open>The state machine\<close>

definition tnep_error_check :: "errno option \<Rightarrow> tnep_tag \<Rightarrow> tnep_out list" where
  "tnep_error_check error_code s =
     (case (error_code, svc_active s) of (Some e, Some i) \<Rightarrow> [Error_detected i e] | _ \<Rightarrow> [])"

definition tnep_new_app_msg_prepare ::
    "tnep_env \<Rightarrow> nfc_ndef_msg_desc \<Rightarrow> u8 \<Rightarrow> tnep_tag \<Rightarrow> (tnep_tag \<times> nfc_ndef_msg_desc \<times> tnep_out list \<times> errno option) res" where
  "tnep_new_app_msg_prepare env msg st s =
     rbind (tnep_tx_msg_add_rec_status msg st) (\<lambda>(msg, err).
     case err of
       Some e \<Rightarrow> Ok (s, msg, [], Some e)
     | None \<Rightarrow> rbind (tnep_tx_msg_encode env (Some msg) s) (\<lambda>(s, ev, err). Ok (s, msg, ev, err)))"

text \<open>The active service, when its callbacks are called.\<close>

definition svc_call :: "tnep_tag \<Rightarrow> (nat \<Rightarrow> tnep_out) \<Rightarrow> tnep_out list res" where
  "svc_call s f = (case svc_active s of None \<Rightarrow> Fault | Some i \<Rightarrow> Ok [f i])"

definition service_ready_rx_status_process :: "tnep_env \<Rightarrow> tnep_svc_record_status option \<Rightarrow> tnep_tag \<Rightarrow> tnep_ret" where
  "service_ready_rx_status_process env st s =
     (case st of
        Some TNEP_SVC_SELECTED \<Rightarrow>
          (let s = s\<lparr>app_data_expected := TNEP_APP_DATA_EXPECTED, current_state := TNEP_STATE_SERVICE_SELECTED\<rparr> in
           rbind (svc_call s Selected) (\<lambda>ev. Ok (s, ev, None)))
      | Some TNEP_SVC_NOT_FOUND \<Rightarrow> tnep_tx_initial_msg_set env s
      | Some TNEP_SVC_DESELECTED \<Rightarrow> tnep_tx_initial_msg_set env s
      | None \<Rightarrow> Ok (s, [], Some ENOTSUP))"

text \<open>What both states do with a received message before they look at the result of the search.\<close>

definition tnep_rx_process ::
    "tnep_env \<Rightarrow> (tnep_svc_record_status option \<Rightarrow> tnep_tag \<Rightarrow> tnep_ret) \<Rightarrow> tnep_tag \<Rightarrow> tnep_ret" where
  "tnep_rx_process env status_process s =
     rbind (tnep_tx_msg_encode env None s) (\<lambda>(s, ev, err).
     case err of
       Some e \<Rightarrow> Ok (s, ev, Some e)
     | None \<Rightarrow>
         rbind (tnep_svc_select_from_msg env s) (\<lambda>(s, st).
         rbind (status_process st s) (\<lambda>(s, ev', err). Ok (s, ev @ ev', err))))"

definition with_error_check :: "tnep_ret \<Rightarrow> (tnep_tag \<times> tnep_out list) res" where
  "with_error_check r = rbind r (\<lambda>(s, ev, err). Ok (s, ev @ tnep_error_check err s))"

definition tnep_sm_service_ready :: "tnep_env \<Rightarrow> tnep_event \<Rightarrow> tnep_tag \<Rightarrow> (tnep_tag \<times> tnep_out list) res" where
  "tnep_sm_service_ready env event s =
     with_error_check
       (case event of
          TNEP_EVENT_MSG_RX_NEW \<Rightarrow> tnep_rx_process env (service_ready_rx_status_process env) s
        | TNEP_EVENT_TAG_SELECTED \<Rightarrow> tnep_tx_initial_msg_set env s
        | TNEP_EVENT_DUMMY \<Rightarrow> Ok (s, [], Some ENOTSUP))"

definition service_selected_rx_status_process ::
    "tnep_env \<Rightarrow> nat \<Rightarrow> tnep_svc_record_status option \<Rightarrow> tnep_tag \<Rightarrow> tnep_ret" where
  "service_selected_rx_status_process env service st s =
     (case st of
        Some TNEP_SVC_NOT_FOUND \<Rightarrow>
          (let s = s\<lparr>app_data_expected := TNEP_APP_DATA_EXPECTED\<rparr> in
           rbind (svc_call s (\<lambda>i. Message_received i (rx_data (rx s)) (rx_len (rx s)))) (\<lambda>ev. Ok (s, ev, None)))
      | Some TNEP_SVC_SELECTED \<Rightarrow>
          (let s = s\<lparr>app_data_expected := TNEP_APP_DATA_EXPECTED\<rparr> in
           rbind (svc_call s Selected) (\<lambda>ev. Ok (s, Deselected service # ev, None)))
      | Some TNEP_SVC_DESELECTED \<Rightarrow>
          rbind (tnep_tx_initial_msg_set env s) (\<lambda>(s, ev, err).
          Ok (s\<lparr>app_data_expected := TNEP_APP_DATA_UNEXPECTED, current_state := TNEP_STATE_SERVICE_READY\<rparr>,
              ev @ [Deselected service], err))
      | None \<Rightarrow> Ok (s, [], Some ENOTSUP))"

definition tnep_sm_service_selected :: "tnep_env \<Rightarrow> tnep_event \<Rightarrow> tnep_tag \<Rightarrow> (tnep_tag \<times> tnep_out list) res" where
  "tnep_sm_service_selected env event s =
     (case svc_active s of
        None \<Rightarrow> Ok (s, [])
      | Some last_service \<Rightarrow>
          with_error_check
            (case event of
               TNEP_EVENT_MSG_RX_NEW \<Rightarrow> tnep_rx_process env (service_selected_rx_status_process env last_service) s
             | TNEP_EVENT_TAG_SELECTED \<Rightarrow>
                 rbind (tnep_tx_initial_msg_set env s) (\<lambda>(s, ev, err).
                 Ok (s\<lparr>current_state := TNEP_STATE_SERVICE_READY\<rparr>, ev, err))
             | TNEP_EVENT_DUMMY \<Rightarrow> Ok (s, [], None)))"

definition tnep_state_machine :: "tnep_env \<Rightarrow> tnep_event \<Rightarrow> tnep_tag \<Rightarrow> (tnep_tag \<times> tnep_out list) res" where
  "tnep_state_machine env event s =
     (case current_state s of
        TNEP_STATE_DISABLED \<Rightarrow> Ok (s, [])
      | TNEP_STATE_SERVICE_READY \<Rightarrow> tnep_sm_service_ready env event s
      | TNEP_STATE_SERVICE_SELECTED \<Rightarrow> tnep_sm_service_selected env event s)"

section \<open>Interface\<close>

definition nfc_tnep_tag_tx_msg_buffer_register ::
    "buf_ptr option \<Rightarrow> buf_ptr option \<Rightarrow> u32 \<Rightarrow> tnep_tag \<Rightarrow> tnep_ret" where
  "nfc_tnep_tag_tx_msg_buffer_register tx_buff tx_swap_buff len s =
     (if tx_buff = None \<or> tx_swap_buff = None \<or> len = 0 then Ok (s, [], Some EINVAL)
      else Ok (s\<lparr>tx := \<lparr>tx_data = tx_buff, tx_swap_data = tx_swap_buff, tx_len = len\<rparr>\<rparr>, [], None))"

definition nfc_tnep_tag_rx_msg_indicate :: "cptr \<Rightarrow> u32 \<Rightarrow> tnep_tag \<Rightarrow> tnep_tag \<times> tnep_out list" where
  "nfc_tnep_tag_rx_msg_indicate rx_buffer len s =
     (if len < 1 \<or> rx_buffer = None then (s, [])
      else (s\<lparr>rx := \<lparr>rx_data = rx_buffer, rx_len = len\<rparr>\<rparr>, [Signal TNEP_EVENT_MSG_RX_NEW]))"

text \<open>\<open>events\<close> and \<open>payload_set\<close> say that the arguments are not \<^verbatim>\<open>NULL\<close>.\<close>

definition nfc_tnep_tag_init :: "tnep_env \<Rightarrow> bool \<Rightarrow> u8 \<Rightarrow> bool \<Rightarrow> tnep_tag \<Rightarrow> tnep_ret" where
  "nfc_tnep_tag_init env events event_cnt payload_set s =
     (if \<not> events then Ok (s, [], Some EINVAL)
      else if \<not> payload_set then Ok (s, [], Some EINVAL)
      else if event_cnt \<noteq> NFC_TNEP_EVENTS_NUMBER then Ok (s, [], Some EINVAL)
      else if current_state s \<noteq> TNEP_STATE_DISABLED then Ok (s, [], Some ENOTSUP)
      else if tx_data (tx s) = None \<or> tx_swap_data (tx s) = None \<or> tx_len (tx s) = 0 then Ok (s, [], Some EIO)
      else Ok (s\<lparr>current_buff := tx_data (tx s), data_set := True, svc_cnt := of_nat (length (services env))\<rparr>, [], None))"

definition nfc_tnep_tag_initial_msg_create :: "tnep_env \<Rightarrow> u32 \<Rightarrow> bool \<Rightarrow> tnep_tag \<Rightarrow> tnep_ret" where
  "nfc_tnep_tag_initial_msg_create env max_record_cnt msg_encode_cb s =
     (if max_record_cnt \<noteq> 0 \<and> \<not> msg_encode_cb then Ok (s, [], Some EINVAL)
      else if svc_cnt s < 1 then Ok (s, [], Some EFAULT)
      else
        rbind (tnep_tx_initial_msg_set env (s\<lparr>max_records_cnt := max_record_cnt, initial_msg_encode := msg_encode_cb\<rparr>))
          (\<lambda>(s, ev, err).
        case err of
          Some e \<Rightarrow> Ok (s, ev, Some e)
        | None \<Rightarrow> Ok (s\<lparr>current_state := TNEP_STATE_SERVICE_READY\<rparr>, ev, None)))"

text \<open>The two poll events of the kernel, in order: the result of an event that has been signalled.\<close>

definition nfc_tnep_tag_process ::
    "tnep_env \<Rightarrow> tnep_event option \<Rightarrow> tnep_event option \<Rightarrow> tnep_tag \<Rightarrow> (tnep_tag \<times> tnep_out list) res" where
  "nfc_tnep_tag_process env rx_event tx_event s =
     rbind (case rx_event of None \<Rightarrow> Ok (s, []) | Some e \<Rightarrow> tnep_state_machine env e s) (\<lambda>(s, ev).
     rbind (case tx_event of None \<Rightarrow> Ok (s, []) | Some e \<Rightarrow> tnep_state_machine env e s) (\<lambda>(s, ev').
     Ok (s, ev @ ev')))"

definition nfc_tnep_tag_tx_msg_app_data ::
    "tnep_env \<Rightarrow> nfc_ndef_msg_desc option \<Rightarrow> u8 \<Rightarrow> tnep_tag \<Rightarrow>
     (tnep_tag \<times> nfc_ndef_msg_desc option \<times> tnep_out list \<times> errno option) res" where
  "nfc_tnep_tag_tx_msg_app_data env msg st s =
     (case msg of
        None \<Rightarrow> Ok (s, None, [], Some EINVAL)
      | Some m \<Rightarrow>
          if current_state s \<noteq> TNEP_STATE_SERVICE_SELECTED then Ok (s, msg, [], Some EACCES)
          else if app_data_expected s \<noteq> TNEP_APP_DATA_EXPECTED then Ok (s, msg, [], Some EACCES)
          else
            rbind (tnep_new_app_msg_prepare env m st (s\<lparr>app_data_expected := TNEP_APP_DATA_UNEXPECTED\<rparr>)) (\<lambda>(s, m, ev, err).
            Ok (s, Some m, ev, err)))"

definition nfc_tnep_tag_tx_msg_no_app_data :: "tnep_env \<Rightarrow> tnep_tag \<Rightarrow> tnep_ret" where
  "nfc_tnep_tag_tx_msg_no_app_data env s =
     (if current_state s \<noteq> TNEP_STATE_SERVICE_SELECTED then Ok (s, [], Some EACCES)
      else if app_data_expected s \<noteq> TNEP_APP_DATA_EXPECTED then Ok (s, [], Some EACCES)
      else
        let s = s\<lparr>app_data_expected := TNEP_APP_DATA_UNEXPECTED\<rparr> in
        rbind (tnep_tx_msg_add_rec_status (nfc_ndef_msg_clear (NFC_NDEF_MSG_DEF 1)) NFC_TNEP_STATUS_SUCCESS) (\<lambda>(msg, err).
        case err of
          Some e \<Rightarrow> Ok (s, [], Some e)
        | None \<Rightarrow> tnep_tx_msg_encode env (Some msg) s))"

definition nfc_tnep_tag_on_selected :: "tnep_tag \<Rightarrow> tnep_tag \<times> tnep_out list" where
  "nfc_tnep_tag_on_selected s = (s, [Signal TNEP_EVENT_TAG_SELECTED])"

definition nfc_tnep_tag_svc_count_get :: "tnep_tag \<Rightarrow> u32" where
  "nfc_tnep_tag_svc_count_get s = svc_cnt s"

end
