(* ===== verification/TNEP_Tag_Safe.thy ===== *)
theory TNEP_Tag_Safe
  imports TNEP_Tag
begin

unbundle bit_operations_syntax

text \<open>
  The invariant of the TNEP tag: whatever the poller writes and in whatever order the application calls the
  module, it stays inside its buffers, and it never writes into the buffer that the NFC library is showing to
  the poller.
\<close>

section \<open>The application\<close>

text \<open>
  A service whose record can be encoded, whose name can be read and fits the array into which the module
  copies the payload of a service select record.
\<close>

definition svc_ok :: "tnep_env \<Rightarrow> nfc_tnep_tag_service \<Rightarrow> bool" where
  "svc_ok env svc \<longleftrightarrow> record_total (env_bo env) (ndef_record svc) \<and>
     readable (param_uri (parameters svc)) (unat (uri_length (parameters svc))) \<and>
     unat (uri_length (parameters svc)) < CONFIG_NFC_TNEP_RX_MAX_RECORD_SIZE env"

text \<open>
  What the module relies on. As its documentation demands, the callback for the initial message finishes with
  \<^verbatim>\<open>nfc_tnep_initial_msg_encode\<close>.
\<close>

locale tnep_app =
  fixes env :: tnep_env and recs :: "nfc_ndef_record_desc list" and recs_cnt :: u32
  assumes byteorder_env: "byteorder (env_bo env)"
    and abi_env: "abi_packed (env_abi env)"
    and partial_length: "length (enc_partial env b) = length b"
    and services_ok: "list_all (svc_ok env) (services env)"
    and record_size: "0 < CONFIG_NFC_TNEP_RX_MAX_RECORD_SIZE env" "CONFIG_NFC_TNEP_RX_MAX_RECORD_SIZE env < 2 ^ 32"
    and callback: "initial_cb env s m = nfc_tnep_initial_msg_encode env (Some m) (Some recs) recs_cnt s"
    and callback_recs: "list_all (record_total (env_bo env)) recs" "unat recs_cnt \<le> length recs"

lemma service_def_ok:
  assumes "byteorder (env_bo env)" "readable u (unat n)" "0 < n" "unat n < CONFIG_NFC_TNEP_RX_MAX_RECORD_SIZE env"
  shows "svc_ok env (NFC_TNEP_TAG_SERVICE_DEF (env_bo env) u n mode t_wait n_wait max_msg_size)"
proof -
  let ?p = "\<lparr>version = NFC_TNEP_VERSION, uri_length = n, param_uri = u, communication_mode = mode,
    min_time = t_wait, max_time_ext = n_wait, max_size = max_msg_size\<rparr>"
  have "param_ok ?p" using assms(2,3) by (simp add: param_ok_def)
  from generic_record_total [OF byteorder.axioms_param_pl [OF assms(1)] assms(1) this, of TNF_WELL_KNOWN None 0 "Some [0x54, 0x70]" 2]
  have "record_total (env_bo env) (NFC_TNEP_SERIVCE_PARAM_RECORD_DESC_DEF (env_bo env) ?p)"
    by (simp add: NFC_TNEP_SERIVCE_PARAM_RECORD_DESC_DEF_def readable_def)
  with assms show ?thesis by (simp add: svc_ok_def NFC_TNEP_TAG_SERVICE_DEF_def Let_def)
qed

lemma status_record_total: "byteorder bo \<Longrightarrow> record_total bo (NFC_TNEP_STATUS_RECORD_DESC_DEF st)"
  using generic_record_total [OF status_pl.payload_encoder_axioms _ TrueI, of bo TNF_WELL_KNOWN None 0 "Some [0x54, 0x65]" 2 "\<lparr>status = st\<rparr>"]
  by (simp add: NFC_TNEP_STATUS_RECORD_DESC_DEF_def readable_def)

section \<open>Buffers on air\<close>

text \<open>The buffer that the NFC library shows after some events, and that each new buffer differs from the one shown.\<close>

fun air :: "buf_ptr option \<Rightarrow> tnep_out list \<Rightarrow> buf_ptr option" where
  "air c [] = c"
| "air c (Data_set p b n # es) = air (Some p) es"
| "air c (_ # es) = air c es"

fun alternates :: "buf_ptr option \<Rightarrow> tnep_out list \<Rightarrow> bool" where
  "alternates c [] \<longleftrightarrow> True"
| "alternates c (Data_set p b n # es) \<longleftrightarrow> c \<noteq> Some p \<and> alternates (Some p) es"
| "alternates c (_ # es) \<longleftrightarrow> alternates c es"

definition shown :: "tnep_out list \<Rightarrow> buf_ptr set" where
  "shown es = {p. \<exists>b n. Data_set p b n \<in> set es}"

lemma air_append [simp]: "air c (xs @ ys) = air (air c xs) ys"
  by (induction c xs rule: air.induct) simp_all

lemma alternates_append [simp]: "alternates c (xs @ ys) \<longleftrightarrow> alternates c xs \<and> alternates (air c xs) ys"
  by (induction c xs rule: alternates.induct) simp_all

lemma shown_append [simp]: "shown (xs @ ys) = shown xs \<union> shown ys"
  by (auto simp: shown_def)

lemma air_quiet: "shown es = {} \<Longrightarrow> air c es = c" "shown es = {} \<Longrightarrow> alternates c es"
  by (induction c es rule: air.induct) (auto simp: shown_def)

lemma air_shown: "shown es \<noteq> {} \<Longrightarrow> air c es = air c' es"
proof (induction c es arbitrary: c' rule: air.induct)
  case (2 c p b n es)
  then show ?case by (cases "shown es = {}") (simp_all add: air_quiet)
qed (auto simp: shown_def)

lemma alternates_None: "alternates c es \<Longrightarrow> alternates None es"
  by (induction c es rule: alternates.induct) simp_all

text \<open>
  A step that leaves the registration of the buffers alone: only buffers that it hands to the NFC library
  change, and none of them while it is shown.
\<close>

definition framed :: "tnep_tag \<Rightarrow> tnep_out list \<Rightarrow> tnep_tag \<Rightarrow> bool" where
  "framed s es s' \<longleftrightarrow> tx s' = tx s \<and> data_set s' = data_set s \<and> current_buff s' = air (current_buff s) es \<and>
     (\<forall>p. length (tag_mem s' p) = length (tag_mem s p)) \<and> (\<forall>p. p \<notin> shown es \<longrightarrow> tag_mem s' p = tag_mem s p) \<and>
     (tx_data (tx s) \<noteq> tx_swap_data (tx s) \<longrightarrow> alternates (current_buff s) es) \<and>
     (\<forall>p b n. Data_set p b n \<in> set es \<longrightarrow> unat n \<le> length b) \<and> (\<not> data_set s \<longrightarrow> shown es = {})"

lemma framed_trans: "framed s es s' \<Longrightarrow> framed s' es' s'' \<Longrightarrow> framed s (es @ es') s''"
  by (auto simp: framed_def)

lemma framed_refl:
  "tx s' = tx s \<Longrightarrow> data_set s' = data_set s \<Longrightarrow> current_buff s' = current_buff s \<Longrightarrow> tag_mem s' = tag_mem s \<Longrightarrow>
   shown es = {} \<Longrightarrow> framed s es s'"
proof -
  assume a: "tx s' = tx s" "data_set s' = data_set s" "current_buff s' = current_buff s" "tag_mem s' = tag_mem s" "shown es = {}"
  note air_quiet [OF a(5)]
  moreover have "Data_set p b n \<notin> set es" for p b n using a(5) by (auto simp: shown_def)
  ultimately show ?thesis using a by (simp add: framed_def)
qed

section \<open>The invariant\<close>

definition tag_inv0 :: "tnep_env \<Rightarrow> tnep_tag \<Rightarrow> bool" where
  "tag_inv0 env s \<longleftrightarrow>
     (\<forall>p. tx_data (tx s) = Some p \<or> tx_swap_data (tx s) = Some p \<longrightarrow> unat (tx_len (tx s)) \<le> length (tag_mem s p)) \<and>
     (data_set s \<longrightarrow> tx_data (tx s) \<noteq> None \<and> tx_swap_data (tx s) \<noteq> None) \<and>
     (CONFIG_NFC_T4T_NRFXLIB env \<and> tx_data (tx s) \<noteq> None \<longrightarrow> 2 \<le> tx_len (tx s)) \<and>
     (svc_cnt s \<noteq> 0 \<or> current_state s \<noteq> TNEP_STATE_DISABLED \<longrightarrow> data_set s) \<and>
     (\<forall>i. svc_active s = Some i \<longrightarrow> i < length (services env)) \<and>
     unat (rx_len (rx s)) \<le> length (rx_bytes s)"

definition tag_inv :: "tnep_env \<Rightarrow> tnep_tag \<Rightarrow> bool" where
  "tag_inv env s \<longleftrightarrow> tag_inv0 env s \<and> (current_state s = TNEP_STATE_SERVICE_SELECTED \<longrightarrow> svc_active s \<noteq> None)"

text \<open>The result of a call that keeps \<open>P\<close>.\<close>

definition good :: "(tnep_tag \<Rightarrow> bool) \<Rightarrow> tnep_tag \<Rightarrow> tnep_ret \<Rightarrow> bool" where
  "good P s r \<longleftrightarrow> (\<exists>s' es err. r = Ok (s', es, err) \<and> P s' \<and> framed s es s')"

lemma goodI: "P s' \<Longrightarrow> framed s es s' \<Longrightarrow> good P s (Ok (s', es, err))"
  by (auto simp: good_def)

lemma good_bind:
  assumes "good P s r" "\<And>s' es err. P s' \<Longrightarrow> framed s es s' \<Longrightarrow> good Q s (f (s', es, err))"
  shows "good Q s (rbind r f)"
  using assms by (auto simp: good_def)

text \<open>A step that changes nothing but the buffers.\<close>

definition tx_only :: "tnep_tag \<Rightarrow> tnep_tag \<Rightarrow> bool" where
  "tx_only s s' \<longleftrightarrow> (\<exists>c m. s' = s\<lparr>current_buff := c, tag_mem := m\<rparr>)"

lemma tx_only_fields:
  assumes "tx_only s s'"
  shows "current_state s' = current_state s" "svc_active s' = svc_active s" "rx s' = rx s" "svc_cnt s' = svc_cnt s"
    "app_data_expected s' = app_data_expected s" "max_records_cnt s' = max_records_cnt s" "initial_msg_encode s' = initial_msg_encode s"
  using assms by (auto simp: tx_only_def)

lemma tx_only_refl: "tx_only s s"
  unfolding tx_only_def by (intro exI [of _ "current_buff s"] exI [of _ "tag_mem s"]) simp

lemma file_encode_safe:
  assumes "byteorder bo" "2 \<le> length b"
  shows "case nfc_t4t_ndef_file_encode bo (Some b) (Some n) of Ok (b', _) \<Rightarrow> length b' = length b | Err _ \<Rightarrow> True | Fault \<Rightarrow> False"
  using assms(2) byteorder.cpu_to_be16 [OF assms(1)] by (auto simp: nfc_t4t_ndef_file_encode_def wr_def)

abbreviation built_total :: "byteorder_ops \<Rightarrow> nfc_ndef_msg_desc res \<Rightarrow> bool" where
  "built_total bo r \<equiv> (case r of Ok m \<Rightarrow> msg_total bo m | Err e \<Rightarrow> True | Fault \<Rightarrow> False)"

lemma built_total_bind:
  "built_total bo r \<Longrightarrow> (\<And>m. msg_total bo m \<Longrightarrow> built_total bo (f m)) \<Longrightarrow> built_total bo (rbind r f)"
  by (cases r) auto

lemma add_records_total: "msg_total bo m \<Longrightarrow> list_all (record_total bo) rs \<Longrightarrow> built_total bo (tnep_add_records m rs)"
proof (induction rs arbitrary: m)
  case (Cons r rs)
  then show ?case
    unfolding tnep_add_records.simps
    by (intro built_total_bind) (simp_all add: tnep_tx_msg_add_rec_def msg_total_add)
qed simp

context tnep_app
begin

lemma tx_encode_shape:
  assumes inv: "tag_inv0 env s" "data_set s" and msg: "\<And>m. msg = Some m \<Longrightarrow> msg_total (env_bo env) m"
  obtains p b err where
    "tnep_tx_msg_encode env msg s =
       Ok (s\<lparr>current_buff := Some p, tag_mem := (tag_mem s)(p := b)\<rparr>, [Data_set p b (tx_len (tx s))], err)"
    "length b = length (tag_mem s p)" "Some p = (if current_buff s = tx_data (tx s) then tx_swap_data (tx s) else tx_data (tx s))"
    "msg = None \<Longrightarrow> err = None"
proof -
  let ?n = "unat (tx_len (tx s))"
  have "(if current_buff s = tx_data (tx s) then tx_swap_data (tx s) else tx_data (tx s)) \<noteq> None"
    using inv by (simp add: tag_inv0_def)
  then obtain p where p: "Some p = (if current_buff s = tx_data (tx s) then tx_swap_data (tx s) else tx_data (tx s))"
    by (metis option.exhaust)
  then have "tx_data (tx s) = Some p \<or> tx_swap_data (tx s) = Some p" by (auto split: if_splits)
  then have l: "?n \<le> length (tag_mem s p)" using inv(1) by (auto simp: tag_inv0_def)
  define b0 where "b0 = replicate ?n 0 @ drop ?n (tag_mem s p)"
  have b0: "wr (tag_mem s p) 0 (replicate ?n 0) = Ok b0" "length b0 = length (tag_mem s p)" using l by (simp_all add: wr_def b0_def)
  define off :: nat where "off = (if CONFIG_NFC_T4T_NRFXLIB env then 2 else 0)"
  define len where "len = tx_len (tx s) - of_nat off"
  have off: "off \<le> ?n" using inv by (auto simp: tag_inv0_def off_def word_le_nat_alt)
  then have "unat (of_nat off :: u32) = off" using unat_u32_less [of "tx_len (tx s)"] by (intro unat_of_nat_u32) simp
  then have "unat len = ?n - off" using off by (simp add: len_def unat_sub word_le_nat_alt)
  then have len: "unat len \<le> length (drop off b0)" using l b0(2) by simp
  let ?enc = "case msg of None \<Rightarrow> Ok (b0, len, None)
    | Some m \<Rightarrow>
        if record_count m > 0 then
          case nfc_ndef_msg_encode (env_bo env) (enc_junk env) (Some m) (Some (drop off b0)) (Some len) of
            Ok (w, n) \<Rightarrow> Ok (take off b0 @ the w, n, None)
          | Err e \<Rightarrow> Ok (take off b0 @ enc_partial env (drop off b0), len, Some e)
          | Fault \<Rightarrow> Fault
        else Ok (b0, len, None)"
  have "\<exists>b1 n err. ?enc = Ok (b1, n, err) \<and> length b1 = length b0 \<and> (msg = None \<longrightarrow> err = None)"
  proof (cases msg)
    case (Some m)
    have "encode_total (drop off b0) len (nfc_ndef_msg_encode (env_bo env) (enc_junk env) (Some m) (Some (drop off b0)) (Some len))"
      using msg_total_encode [OF msg [OF Some] len] .
    with Some off l b0(2) show ?thesis
      by (auto simp: encode_total_def partial_length split: res.splits option.splits prod.splits)
  qed simp
  then obtain b1 n err where b1: "?enc = Ok (b1, n, err)" "length b1 = length b0" "msg = None \<Longrightarrow> err = None" by blast
  let ?file = "if CONFIG_NFC_T4T_NRFXLIB env
    then case nfc_t4t_ndef_file_encode (env_bo env) (Some b1) (Some n) of Ok (b, _) \<Rightarrow> Ok b | Err _ \<Rightarrow> Ok b1 | Fault \<Rightarrow> Fault
    else Ok b1"
  have "2 \<le> length b1" if "CONFIG_NFC_T4T_NRFXLIB env" using that off l b0(2) b1(2) by (simp add: off_def)
  then have "\<exists>b2. ?file = Ok b2 \<and> length b2 = length b1"
    using file_encode_safe [OF byteorder_env, of b1 n] by (auto split: res.splits)
  then obtain b2 where b2: "?file = Ok b2" "length b2 = length b1" by blast
  have E: "tnep_tx_msg_encode env msg s =
      Ok (s\<lparr>current_buff := Some p, tag_mem := (tag_mem s)(p := b2)\<rparr>, [Data_set p b2 (tx_len (tx s))], err)"
    using b0(1) b1(1) b2(1) inv(2) unfolding tnep_tx_msg_encode_def p [symmetric] off_def [symmetric] len_def [symmetric] Let_def
    by simp
  have "length b2 = length (tag_mem s p)" by (simp add: b2(2) b1(2) b0(2))
  from that [OF E this p b1(3)] show ?thesis by blast
qed

lemma tx_encode_good:
  assumes inv: "tag_inv0 env s" "data_set s" and msg: "\<And>m. msg = Some m \<Longrightarrow> msg_total (env_bo env) m"
  shows "good (\<lambda>s'. tag_inv0 env s' \<and> tx_only s s') s (tnep_tx_msg_encode env msg s)"
proof -
  from tx_encode_shape [OF assms] obtain p b err where r: "tnep_tx_msg_encode env msg s =
       Ok (s\<lparr>current_buff := Some p, tag_mem := (tag_mem s)(p := b)\<rparr>, [Data_set p b (tx_len (tx s))], err)"
    "length b = length (tag_mem s p)" "Some p = (if current_buff s = tx_data (tx s) then tx_swap_data (tx s) else tx_data (tx s))" .
  show ?thesis unfolding r(1)
  proof (intro goodI conjI)
    show "tag_inv0 env (s\<lparr>current_buff := Some p, tag_mem := (tag_mem s)(p := b)\<rparr>)"
      using inv(1) r(2) by (auto simp: tag_inv0_def)
    show "tx_only s (s\<lparr>current_buff := Some p, tag_mem := (tag_mem s)(p := b)\<rparr>)" by (auto simp: tx_only_def)
    show "framed s [Data_set p b (tx_len (tx s))] (s\<lparr>current_buff := Some p, tag_mem := (tag_mem s)(p := b)\<rparr>)"
      using r(2,3) inv by (auto simp: framed_def shown_def tag_inv0_def split: if_splits)
  qed
qed

lemma encode_built_good:
  assumes "tag_inv0 env s" "data_set s" "built_total (env_bo env) r"
  shows "good (\<lambda>s'. tag_inv0 env s' \<and> tx_only s s') s (tnep_encode_built env r s)"
  using assms tx_encode_good [OF assms(1,2)]
  by (cases r) (auto simp: tnep_encode_built_def intro!: goodI framed_refl tx_only_refl simp: shown_def)

lemma add_services_total: "msg_total (env_bo env) m \<Longrightarrow> built_total (env_bo env) (tnep_add_services env m)"
  unfolding tnep_add_services_def using services_ok
  by (intro add_records_total) (auto simp: list_all_iff svc_ok_def)

lemma initial_msg_encode_good:
  assumes "tag_inv0 env s" "data_set s" "msg_total (env_bo env) m" "list_all (record_total (env_bo env)) rs" "unat n \<le> length rs"
  shows "good (\<lambda>s'. tag_inv0 env s' \<and> tx_only s s') s (nfc_tnep_initial_msg_encode env (Some m) (Some rs) n s)"
proof -
  have t: "list_all (record_total (env_bo env)) (take (unat n) rs)" using assms(4) by (auto simp: list_all_iff dest: in_set_takeD)
  have "built_total (env_bo env) (rbind (tnep_add_records m (take (unat n) rs)) (tnep_add_services env))"
    by (intro built_total_bind add_records_total assms(3) t add_services_total)
  from encode_built_good [OF assms(1,2) this] assms(1,5) show ?thesis
    by (auto simp: nfc_tnep_initial_msg_encode_def Let_def intro!: goodI framed_refl tx_only_refl simp: shown_def)
qed

lemma initial_msg_set_good:
  assumes "tag_inv0 env s" "data_set s"
  shows "good (\<lambda>s'. tag_inv0 env s' \<and> tx_only s s') s (tnep_tx_initial_msg_set env s)"
  unfolding tnep_tx_initial_msg_set_def Let_def callback
  by (auto intro!: initial_msg_encode_good encode_built_good add_services_total assms callback_recs msg_total_clear msg_total_fresh)

end

section \<open>Service selection\<close>

text \<open>No record of the received message announces a payload length close to the 32-bit limit.\<close>

definition record_sane :: "nfc_ndef_record_desc option \<Rightarrow> bool" where
  "record_sane r \<longleftrightarrow>
     (case r of
        None \<Rightarrow> True
      | Some r \<Rightarrow> (case payload_constructor r of Some (BIN_PAYLOAD pd) \<Rightarrow> unat (payload_length pd) + 517 < 2 ^ 32 | _ \<Rightarrow> True))"

definition rx_sane :: "tnep_env \<Rightarrow> tnep_tag \<Rightarrow> bool" where
  "rx_sane env s \<longleftrightarrow>
     (case rx_parse env s of
        Ok (m, _, _) \<Rightarrow> list_all record_sane (take (unat (record_count m)) (the (record_array m)))
      | _ \<Rightarrow> True)"

text \<open>The outcome of the search.\<close>

definition selection :: "tnep_env \<Rightarrow> tnep_tag \<Rightarrow> tnep_tag \<Rightarrow> tnep_svc_record_status \<Rightarrow> bool" where
  "selection env s s' st \<longleftrightarrow>
     (case st of
        TNEP_SVC_NOT_FOUND \<Rightarrow> s' = s
      | TNEP_SVC_SELECTED \<Rightarrow> (\<exists>i<length (services env). s' = s\<lparr>svc_active := Some i\<rparr>)
      | TNEP_SVC_DESELECTED \<Rightarrow> s' = s\<lparr>svc_active := None\<rparr>)"

lemma svc_find_safe:
  "list_all (svc_ok env) svcs \<Longrightarrow> CONFIG_NFC_TNEP_RX_MAX_RECORD_SIZE env \<le> Suc (length xs) \<Longrightarrow>
   \<exists>f. svc_find (Some xs) n svcs i = Ok f \<and> (\<forall>j. f = Some j \<longrightarrow> i \<le> j \<and> j < i + length svcs)"
proof (induction svcs arbitrary: i)
  case (Cons svc svcs)
  from Cons.IH [of "Suc i"] Cons.prems obtain f where
    f: "svc_find (Some xs) n svcs (Suc i) = Ok f" "\<forall>j. f = Some j \<longrightarrow> Suc i \<le> j \<and> j < Suc i + length svcs" by auto
  have "memcpy_src (param_uri (parameters svc)) n \<noteq> Fault" if "unat (uri_length (parameters svc)) = n"
    using Cons.prems(1) that by (auto simp: svc_ok_def memcpy_src_readable)
  moreover have "memcpy_src (Some xs) n \<noteq> Fault" if "unat (uri_length (parameters svc)) = n"
    using Cons.prems that by (auto simp: svc_ok_def memcpy_src_def rdn_def)
  moreover have "memcpy_src p n \<noteq> Err e" for p e by (auto simp: memcpy_src_def rdn_def split: option.splits)
  ultimately show ?case
    using f by (cases "memcpy_src (param_uri (parameters svc)) n"; cases "memcpy_src (Some xs) n") auto
qed simp

context tnep_app
begin

lemma select_record_safe:
  assumes "parsed_ok r" "record_sane (Some r)"
  obtains s' st where "svc_select_record env r s = Ok (s', st)" "selection env s s' st"
proof -
  let ?n = "CONFIG_NFC_TNEP_RX_MAX_RECORD_SIZE env"
  from assms obtain pd where pd: "payload_constructor r = Some (BIN_PAYLOAD pd)" "bin_ok pd"
    by (auto simp: parsed_ok_def record_sane_def)
  have u: "unat (of_nat ?n :: u32) = ?n" using record_size(2) by (intro unat_of_nat_u32) simp
  let ?c = "case nfc_ndef_bin_payload_memcopy pd (Some (replicate ?n 0)) (of_nat ?n) of
     Ok (w, _) \<Rightarrow> Ok (the w) | Err _ \<Rightarrow> Ok (replicate ?n 0) | Fault \<Rightarrow> Fault"
  have "\<exists>b. ?c = Ok b \<and> length b = ?n"
  proof (cases "of_nat ?n < payload_length pd")
    case False
    then have "unat (payload_length pd) \<le> ?n" using u by (simp add: not_less word_le_nat_alt)
    with False show ?thesis
      using pd(2) by (simp add: nfc_ndef_bin_payload_memcopy_def bin_ok_def memcpy_src_readable wr_def)
  qed (simp add: nfc_ndef_bin_payload_memcopy_def)
  then obtain b where b: "?c = Ok b" "length b = ?n" by blast
  have "?n \<le> Suc (length (drop 1 b))" using b(2) by simp
  from svc_find_safe [OF services_ok this, of "unat (b ! 0)" 0] obtain f where
    f: "svc_find (Some (drop 1 b)) (unat (b ! 0)) (services env) 0 = Ok f" "\<forall>j. f = Some j \<longrightarrow> j < length (services env)" by auto
  have "svc_select_record env r s = (case f of
       Some i \<Rightarrow> Ok (s\<lparr>svc_active := Some i\<rparr>, TNEP_SVC_SELECTED) | None \<Rightarrow> Ok (s\<lparr>svc_active := None\<rparr>, TNEP_SVC_DESELECTED))"
    using pd(1) b f(1) record_size(1) by (cases b) (simp_all add: svc_select_record_def Let_def rd_def tnep_svc_set_active_def)
  with f(2) show ?thesis
    by (cases f) (auto intro!: that simp: selection_def)
qed

lemma select_loop_safe:
  assumes "i + n \<le> length arr" "\<And>j. i \<le> j \<Longrightarrow> j < i + n \<Longrightarrow> \<exists>r. arr ! j = Some r \<and> parsed_ok r \<and> record_sane (Some r)"
  shows "\<exists>s' st. svc_select_loop env arr n i s = Ok (s', st) \<and> selection env s s' st"
  using assms
proof (induction n arbitrary: i)
  case (Suc n)
  from Suc.prems(2) [of i] obtain r where r: "arr ! i = Some r" "parsed_ok r" "record_sane (Some r)" by auto
  then have "readable (type_ptr r) (unat (type_length r))" by (auto simp: parsed_ok_def record_sane_def record_wf_def)
  then have "\<exists>c. ndef_check_rec_type r nfc_ndef_tnep_rec_type_svc_select = Ok c"
    by (auto simp: ndef_check_rec_type_def memcpy_src_readable)
  then obtain c where "ndef_check_rec_type r nfc_ndef_tnep_rec_type_svc_select = Ok c" by blast
  moreover have "\<exists>s' st. svc_select_record env r s = Ok (s', st) \<and> selection env s s' st"
    by (rule select_record_safe [OF r(2,3)]) blast
  ultimately show ?case using r(1) Suc.prems Suc.IH [of "Suc i"] by (cases c) auto
qed (simp add: selection_def)

lemma select_from_msg_safe:
  assumes inv: "tag_inv0 env s" and sane: "rx_sane env s"
  obtains s' st where "tnep_svc_select_from_msg env s = Ok (s', st)" "tag_inv0 env s'" "tx s' = tx s" "data_set s' = data_set s"
    "current_buff s' = current_buff s" "tag_mem s' = tag_mem s" "current_state s' = current_state s"
    "st = Some TNEP_SVC_SELECTED \<Longrightarrow> svc_active s' \<noteq> None" "st \<noteq> Some TNEP_SVC_DESELECTED \<Longrightarrow> svc_active s \<noteq> None \<Longrightarrow> svc_active s' \<noteq> None"
proof -
  have len: "unat (rx_len (rx s)) \<le> length (rx_bytes s)" using inv by (simp add: tag_inv0_def)
  note safe = msg_parse_in_bounds [OF abi_env len]
  show ?thesis
  proof (cases "rx_parse env s")
    case (Ok q)
    then obtain m used parsed where q: "rx_parse env s = Ok (m, used, parsed)" by (cases q) auto
    obtain arr where arr: "record_array m = Some arr" "unat (record_count m) \<le> length arr"
      "\<forall>i<unat (record_count m). \<exists>r. arr ! i = Some r \<and> parsed_ok r"
      by (rule msg_parse_records [OF abi_env len q]) blast
    have "record_sane (arr ! i)" if "i < unat (record_count m)" for i
      using sane that arr(1,2) by (auto simp: rx_sane_def q list_all_length)
    with arr have "\<exists>r. arr ! j = Some r \<and> parsed_ok r \<and> record_sane (Some r)" if "j < unat (record_count m)" for j
      using that by metis
    with arr(2) obtain s' st where st: "svc_select_loop env arr (unat (record_count m)) 0 (s\<lparr>rx := (rx s)\<lparr>rx_len := parsed\<rparr>\<rparr>) = Ok (s', st)"
      "selection env (s\<lparr>rx := (rx s)\<lparr>rx_len := parsed\<rparr>\<rparr>) s' st"
      using select_loop_safe [of 0 "unat (record_count m)" arr "s\<lparr>rx := (rx s)\<lparr>rx_len := parsed\<rparr>\<rparr>"] by auto
    have "parsed \<le> rx_len (rx s)" using safe q by blast
    then have "unat parsed \<le> length (rx_bytes s)" using len by (simp add: word_le_nat_alt)
    with st(2) inv have "tag_inv0 env s'" by (cases st) (auto simp: selection_def tag_inv0_def)
    moreover have "tnep_svc_select_from_msg env s = Ok (s', Some st)"
      using q arr(1) st(1) by (simp add: tnep_svc_select_from_msg_def)
    ultimately show ?thesis using st(2) by (intro that [of s' "Some st"]) (cases st; auto simp: selection_def)+
  next
    case (Err e)
    then show ?thesis using inv by (intro that [of s None]) (simp_all add: tnep_svc_select_from_msg_def)
  qed (use safe in simp)
qed

end

section \<open>The state machine\<close>

definition goodp :: "(tnep_tag \<Rightarrow> bool) \<Rightarrow> tnep_tag \<Rightarrow> (tnep_tag \<times> tnep_out list) res \<Rightarrow> bool" where
  "goodp P s r \<longleftrightarrow> (\<exists>s' es. r = Ok (s', es) \<and> P s' \<and> framed s es s')"

lemma good_mono: "good P s r \<Longrightarrow> (\<And>s'. P s' \<Longrightarrow> Q s') \<Longrightarrow> good Q s r"
  by (auto simp: good_def)

lemma quiet: "shown [] = {}" "shown [Selected i] = {}" "shown [Deselected i] = {}" "shown [Message_received i d n] = {}"
  "shown [Signal e] = {}" "shown (Deselected i # es) = shown es" "shown (tnep_error_check err s) = {}"
  by (auto simp: shown_def tnep_error_check_def split: option.splits)

lemma framed_quiet: "framed s es s' \<Longrightarrow> shown es' = {} \<Longrightarrow> framed s (es @ es') s'"
  by (rule framed_trans [OF _ framed_refl]) simp_all

lemma framed_update:
  "framed s es s' \<Longrightarrow> tx s'' = tx s' \<Longrightarrow> data_set s'' = data_set s' \<Longrightarrow> current_buff s'' = current_buff s' \<Longrightarrow>
   tag_mem s'' = tag_mem s' \<Longrightarrow> framed s es s''"
  by (simp add: framed_def)

lemma ready_again:
  assumes "tag_inv0 env s'" "framed s es s'" "data_set s"
  shows "tag_inv env (s'\<lparr>current_state := TNEP_STATE_SERVICE_READY\<rparr>)" "framed s es (s'\<lparr>current_state := TNEP_STATE_SERVICE_READY\<rparr>)"
    "tag_inv env (s'\<lparr>app_data_expected := x, current_state := TNEP_STATE_SERVICE_READY\<rparr>)"
    "framed s es (s'\<lparr>app_data_expected := x, current_state := TNEP_STATE_SERVICE_READY\<rparr>)"
proof -
  have "data_set s'" using assms(2,3) by (simp add: framed_def)
  with assms(1) show "tag_inv env (s'\<lparr>current_state := TNEP_STATE_SERVICE_READY\<rparr>)"
    "tag_inv env (s'\<lparr>app_data_expected := x, current_state := TNEP_STATE_SERVICE_READY\<rparr>)"
    by (simp_all add: tag_inv_def tag_inv0_def)
  show "framed s es (s'\<lparr>current_state := TNEP_STATE_SERVICE_READY\<rparr>)"
    "framed s es (s'\<lparr>app_data_expected := x, current_state := TNEP_STATE_SERVICE_READY\<rparr>)"
    by (rule framed_update [OF assms(2)]; simp)+
qed

lemma with_error_check_good: "good P s r \<Longrightarrow> goodp P s (with_error_check r)"
  by (auto simp: good_def goodp_def with_error_check_def intro!: framed_quiet quiet)

context tnep_app
begin

lemma ready_status_good:
  assumes "tag_inv0 env s" "data_set s" "current_state s = TNEP_STATE_SERVICE_READY" "st = Some TNEP_SVC_SELECTED \<Longrightarrow> svc_active s \<noteq> None"
  shows "good (tag_inv env) s (service_ready_rx_status_process env st s)"
proof -
  have init: "good (tag_inv env) s (tnep_tx_initial_msg_set env s)"
    by (rule good_mono [OF initial_msg_set_good [OF assms(1,2)]]) (use assms(3) in \<open>auto simp: tag_inv_def dest: tx_only_fields\<close>)
  have inv: "tag_inv env s" using assms(1,3) by (simp add: tag_inv_def)
  have sel: "good (tag_inv env) s (service_ready_rx_status_process env (Some TNEP_SVC_SELECTED) s)" if a: "svc_active s = Some i" for i
    using assms(1,2) a
    by (auto simp: service_ready_rx_status_process_def svc_call_def tag_inv_def tag_inv0_def intro!: goodI framed_refl quiet)
  show ?thesis
  proof (cases st)
    case None
    then show ?thesis using inv by (auto simp: service_ready_rx_status_process_def intro!: goodI framed_refl quiet)
  next
    case (Some x)
    then show ?thesis using sel init assms(4) by (cases x) (auto simp: service_ready_rx_status_process_def)
  qed
qed

lemma selected_status_good:
  assumes "tag_inv0 env s" "data_set s" "current_state s = TNEP_STATE_SERVICE_SELECTED" "st \<noteq> Some TNEP_SVC_DESELECTED \<Longrightarrow> svc_active s \<noteq> None"
  shows "good (tag_inv env) s (service_selected_rx_status_process env i st s)"
proof -
  have des: "good (tag_inv env) s (service_selected_rx_status_process env i (Some TNEP_SVC_DESELECTED) s)"
    unfolding service_selected_rx_status_process_def option.case tnep_svc_record_status.case
    by (rule good_bind [OF initial_msg_set_good [OF assms(1,2)]])
      (simp, elim conjE, rule goodI, erule (1) ready_again [OF _ _ assms(2)], rule framed_quiet, erule (1) ready_again [OF _ _ assms(2)], rule quiet)
  have oth: "good (tag_inv env) s (service_selected_rx_status_process env i st s)" if a: "svc_active s = Some j" "st \<noteq> Some TNEP_SVC_DESELECTED" for j
  proof (cases st)
    case (Some x)
    then show ?thesis using assms(1,2) a
      by (cases x) (auto simp: service_selected_rx_status_process_def svc_call_def tag_inv_def tag_inv0_def quiet intro!: goodI framed_refl)
  qed (use assms(1) a in \<open>auto simp: service_selected_rx_status_process_def tag_inv_def intro!: goodI framed_refl quiet\<close>)
  show ?thesis using des oth assms(4) by (cases "st = Some TNEP_SVC_DESELECTED") auto
qed

lemma rx_process_good:
  assumes inv: "tag_inv env s" "data_set s" "rx_sane env s"
    and f: "\<And>st s'. tag_inv0 env s' \<Longrightarrow> data_set s' \<Longrightarrow> current_state s' = current_state s \<Longrightarrow>
      (st = Some TNEP_SVC_SELECTED \<Longrightarrow> svc_active s' \<noteq> None) \<Longrightarrow>
      (st \<noteq> Some TNEP_SVC_DESELECTED \<Longrightarrow> svc_active s \<noteq> None \<Longrightarrow> svc_active s' \<noteq> None) \<Longrightarrow> good (tag_inv env) s' (f st s')"
  shows "good (tag_inv env) s (tnep_rx_process env f s)"
proof -
  have i0: "tag_inv0 env s" using inv(1) by (simp add: tag_inv_def)
  from tx_encode_shape [OF i0 inv(2), of None] obtain p b err where
    e: "tnep_tx_msg_encode env None s = Ok (s\<lparr>current_buff := Some p, tag_mem := (tag_mem s)(p := b)\<rparr>, [Data_set p b (tx_len (tx s))], err)"
      "err = None" by (metis option.distinct(1))
  let ?s = "s\<lparr>current_buff := Some p, tag_mem := (tag_mem s)(p := b)\<rparr>" and ?e = "[Data_set p b (tx_len (tx s))]"
  have s: "tag_inv0 env ?s" "framed s ?e ?s" using tx_encode_good [OF i0 inv(2), of None] e by (simp_all add: good_def)
  have "rx_sane env ?s" using inv(3) by (simp add: rx_sane_def)
  from select_from_msg_safe [OF s(1) this] obtain s' st where
    t: "tnep_svc_select_from_msg env ?s = Ok (s', st)" "tag_inv0 env s'" "tx s' = tx s" "data_set s' = data_set s"
      "current_buff s' = current_buff ?s" "tag_mem s' = tag_mem ?s" "current_state s' = current_state s"
      "st = Some TNEP_SVC_SELECTED \<Longrightarrow> svc_active s' \<noteq> None"
      "st \<noteq> Some TNEP_SVC_DESELECTED \<Longrightarrow> svc_active s \<noteq> None \<Longrightarrow> svc_active s' \<noteq> None" by auto
  have "good (tag_inv env) s' (f st s')" using f [OF t(2) _ t(7)] t(4,8,9) inv(2) by simp
  then obtain s'' es err' where u: "f st s' = Ok (s'', es, err')" "tag_inv env s''" "framed s' es s''" by (auto simp: good_def)
  have "framed s ?e s'" using s(2) t(3-6) by (auto elim: framed_update)
  from framed_trans [OF this u(3)] u(2) have "good (tag_inv env) s (Ok (s'', ?e @ es, err'))" by (rule goodI [rotated])
  then show ?thesis by (simp add: tnep_rx_process_def e t(1) u(1))
qed

lemma state_machine_good:
  assumes inv: "tag_inv env s" and e: "event = TNEP_EVENT_MSG_RX_NEW \<Longrightarrow> rx_sane env s"
  shows "goodp (tag_inv env) s (tnep_state_machine env event s)"
proof (cases "current_state s")
  case TNEP_STATE_DISABLED
  then show ?thesis using inv by (auto simp: tnep_state_machine_def goodp_def intro!: framed_refl quiet)
next
  case TNEP_STATE_SERVICE_READY
  then have d: "tag_inv0 env s" "data_set s" using inv by (auto simp: tag_inv_def tag_inv0_def)
  have "good (tag_inv env) s (tnep_tx_initial_msg_set env s)"
    by (rule good_mono [OF initial_msg_set_good [OF d]]) (use TNEP_STATE_SERVICE_READY in \<open>auto simp: tag_inv_def dest: tx_only_fields\<close>)
  moreover have "good (tag_inv env) s (tnep_rx_process env (service_ready_rx_status_process env) s)" if "event = TNEP_EVENT_MSG_RX_NEW"
    using rx_process_good [OF inv d(2) e [OF that]] ready_status_good TNEP_STATE_SERVICE_READY by simp
  moreover have "good (tag_inv env) s (Ok (s, [], Some ENOTSUP))" using inv by (intro goodI framed_refl quiet) simp_all
  ultimately show ?thesis using TNEP_STATE_SERVICE_READY
    by (cases event) (auto simp: tnep_state_machine_def tnep_sm_service_ready_def intro!: with_error_check_good)
next
  case TNEP_STATE_SERVICE_SELECTED
  with inv obtain i where i: "svc_active s = Some i" by (auto simp: tag_inv_def)
  have d: "tag_inv0 env s" "data_set s" using inv TNEP_STATE_SERVICE_SELECTED by (auto simp: tag_inv_def tag_inv0_def)
  have "good (tag_inv env) s (rbind (tnep_tx_initial_msg_set env s) (\<lambda>(s, ev, err). Ok (s\<lparr>current_state := TNEP_STATE_SERVICE_READY\<rparr>, ev, err)))"
    by (rule good_bind [OF initial_msg_set_good [OF d]])
      (simp, elim conjE, rule goodI, (erule (1) ready_again [OF _ _ d(2)])+)
  moreover have "good (tag_inv env) s (tnep_rx_process env (service_selected_rx_status_process env i) s)" if "event = TNEP_EVENT_MSG_RX_NEW"
    using rx_process_good [OF inv d(2) e [OF that], of "service_selected_rx_status_process env i"] selected_status_good TNEP_STATE_SERVICE_SELECTED i by simp
  moreover have "good (tag_inv env) s (Ok (s, [], None))" using inv by (intro goodI framed_refl quiet) simp_all
  ultimately show ?thesis using TNEP_STATE_SERVICE_SELECTED i
    by (cases event) (auto simp: tnep_state_machine_def tnep_sm_service_selected_def intro!: with_error_check_good)
qed

lemma process_good:
  assumes inv: "tag_inv env s" and e: "r \<in> {None, Some TNEP_EVENT_MSG_RX_NEW}" "t \<in> {None, Some TNEP_EVENT_TAG_SELECTED}" "r \<noteq> None \<Longrightarrow> rx_sane env s"
  shows "goodp (tag_inv env) s (nfc_tnep_tag_process env r t s)"
proof -
  have refl: "goodp (tag_inv env) s (Ok (s, []))" if "tag_inv env s" for s
    using that by (auto simp: goodp_def intro!: framed_refl quiet)
  have "goodp (tag_inv env) s (case r of None \<Rightarrow> Ok (s, []) | Some e \<Rightarrow> tnep_state_machine env e s)"
    using e(1,3) inv state_machine_good [OF inv] refl by auto
  then obtain s1 es1 where 1: "(case r of None \<Rightarrow> Ok (s, []) | Some e \<Rightarrow> tnep_state_machine env e s) = Ok (s1, es1)"
    "tag_inv env s1" "framed s es1 s1" by (auto simp: goodp_def)
  have "goodp (tag_inv env) s1 (case t of None \<Rightarrow> Ok (s1, []) | Some e \<Rightarrow> tnep_state_machine env e s1)"
    using e(2) state_machine_good [OF 1(2), of TNEP_EVENT_TAG_SELECTED] refl [OF 1(2)] by auto
  then obtain s2 es2 where 2: "(case t of None \<Rightarrow> Ok (s1, []) | Some e \<Rightarrow> tnep_state_machine env e s1) = Ok (s2, es2)"
    "tag_inv env s2" "framed s1 es2 s2" by (auto simp: goodp_def)
  from framed_trans [OF 1(3) 2(3)] 2(2) have "goodp (tag_inv env) s (Ok (s2, es1 @ es2))" by (auto simp: goodp_def)
  then show ?thesis by (simp add: nfc_tnep_tag_process_def 1(1) 2(1))
qed

end

section \<open>Runs\<close>

text \<open>A call of the module by the application or by the NFC library.\<close>

datatype tnep_in =
    Buffer_register "buf_ptr option" "buf_ptr option" u32
  | Rx_indicate cptr u32
  | Init bool u8 bool
  | Initial_msg_create u32 bool
  | Process "tnep_event option" "tnep_event option"
  | App_data "nfc_ndef_msg_desc option" u8
  | No_app_data
  | On_selected

definition tnep_call :: "tnep_env \<Rightarrow> tnep_in \<Rightarrow> tnep_tag \<Rightarrow> tnep_ret" where
  "tnep_call env inp s =
     (case inp of
        Buffer_register p q n \<Rightarrow> nfc_tnep_tag_tx_msg_buffer_register p q n s
      | Rx_indicate b n \<Rightarrow> (case nfc_tnep_tag_rx_msg_indicate b n s of (s, es) \<Rightarrow> Ok (s, es, None))
      | Init events cnt payload_set \<Rightarrow> nfc_tnep_tag_init env events cnt payload_set s
      | Initial_msg_create n cb \<Rightarrow> nfc_tnep_tag_initial_msg_create env n cb s
      | Process r t \<Rightarrow> rbind (nfc_tnep_tag_process env r t s) (\<lambda>(s, es). Ok (s, es, None))
      | App_data m st \<Rightarrow> rbind (nfc_tnep_tag_tx_msg_app_data env m st s) (\<lambda>(s, _, es, err). Ok (s, es, err))
      | No_app_data \<Rightarrow> nfc_tnep_tag_tx_msg_no_app_data env s
      | On_selected \<Rightarrow> (case nfc_tnep_tag_on_selected s of (s, es) \<Rightarrow> Ok (s, es, None)))"

text \<open>
  The calls that the interface allows: buffers are as long as their length says (and a Type 4 Tag file holds at
  least its length field), each poll object delivers the event that is raised on it, and the message of the
  application can be encoded.
\<close>

definition tnep_admissible :: "tnep_env \<Rightarrow> tnep_tag \<Rightarrow> tnep_in \<Rightarrow> bool" where
  "tnep_admissible env s inp =
     (case inp of
        Buffer_register p q n \<Rightarrow>
          list_all (\<lambda>a. case a of None \<Rightarrow> True | Some a \<Rightarrow> unat n \<le> length (tag_mem s a)) [p, q] \<and>
          (CONFIG_NFC_T4T_NRFXLIB env \<longrightarrow> 2 \<le> n)
      | Rx_indicate b n \<Rightarrow> (case b of None \<Rightarrow> True | Some b \<Rightarrow> unat n \<le> length b)
      | Process r t \<Rightarrow> r \<in> {None, Some TNEP_EVENT_MSG_RX_NEW} \<and> t \<in> {None, Some TNEP_EVENT_TAG_SELECTED} \<and>
          (r \<noteq> None \<longrightarrow> rx_sane env s)
      | App_data m st \<Rightarrow> (case m of None \<Rightarrow> True | Some m \<Rightarrow> msg_total (env_bo env) m)
      | _ \<Rightarrow> True)"

text \<open>The variables of the module when the program starts, and the runs from there.\<close>

definition tnep_zero :: "(buf_ptr \<Rightarrow> u8 list) \<Rightarrow> tnep_tag" where
  "tnep_zero mem =
     \<lparr>current_state = TNEP_STATE_DISABLED, tx = \<lparr>tx_data = None, tx_swap_data = None, tx_len = 0\<rparr>,
      rx = \<lparr>rx_data = None, rx_len = 0\<rparr>, svc_active = None, svc_cnt = 0, max_records_cnt = 0,
      app_data_expected = TNEP_APP_DATA_UNEXPECTED, data_set = False, initial_msg_encode = False,
      current_buff = None, tag_mem = mem\<rparr>"

text \<open>The calls so far, each with its result, and what they have put out.\<close>

type_synonym tnep_log = "(tnep_in \<times> errno option) list"

inductive tnep_reach :: "tnep_env \<Rightarrow> (buf_ptr \<Rightarrow> u8 list) \<Rightarrow> tnep_log \<Rightarrow> tnep_out list \<Rightarrow> tnep_tag \<Rightarrow> bool" for env mem where
  start: "tnep_reach env mem [] [] (tnep_zero mem)"
| call: "tnep_reach env mem h es s \<Longrightarrow> tnep_admissible env s inp \<Longrightarrow> tnep_call env inp s = Ok (s', es', err) \<Longrightarrow>
    tnep_reach env mem (h @ [(inp, err)]) (es @ es') s'"

text \<open>How often the module has been initialised.\<close>

definition is_start :: "tnep_in \<times> errno option \<Rightarrow> bool" where
  "is_start c = (case c of (Init _ _ _, None) \<Rightarrow> True | _ \<Rightarrow> False)"

definition starts :: "tnep_log \<Rightarrow> nat" where
  "starts h = length (filter is_start h)"

abbreviation registers :: "tnep_in \<Rightarrow> bool" where
  "registers inp \<equiv> (case inp of Buffer_register _ _ _ \<Rightarrow> True | Init _ _ _ \<Rightarrow> True | _ \<Rightarrow> False)"

text \<open>What a call keeps. Only registering buffers and initialising the module may choose the buffer anew.\<close>

definition chooses :: "tnep_in \<Rightarrow> tnep_tag \<Rightarrow> tnep_out list \<Rightarrow> tnep_tag \<Rightarrow> errno option \<Rightarrow> bool" where
  "chooses inp s es s' err \<longleftrightarrow> shown es = {} \<and> tag_mem s' = tag_mem s \<and>
     (if is_start (inp, err) then data_set s' else data_set s' = data_set s \<and> current_buff s' = current_buff s)"

definition stepped :: "tnep_env \<Rightarrow> tnep_in \<Rightarrow> tnep_tag \<Rightarrow> tnep_ret \<Rightarrow> bool" where
  "stepped env inp s r \<longleftrightarrow> (\<exists>s' es err. r = Ok (s', es, err) \<and> tag_inv env s' \<and>
     (if registers inp then chooses inp s es s' err else framed s es s'))"

text \<open>The module knows which buffer the NFC library shows, unless it has been initialised again.\<close>

definition air_known :: "tnep_log \<Rightarrow> tnep_out list \<Rightarrow> tnep_tag \<Rightarrow> bool" where
  "air_known h es s \<longleftrightarrow> (starts h = 0 \<longrightarrow> \<not> data_set s) \<and> (\<not> data_set s \<longrightarrow> air None es = None) \<and>
     (starts h \<le> 1 \<longrightarrow> air None es = None \<or> air None es = current_buff s)"

lemma air_known_step:
  assumes "air_known h es s" "if registers inp then chooses inp s es' s' err else framed s es' s'"
  shows "air_known (h @ [(inp, err)]) (es @ es') s'"
proof (cases "registers inp")
  case True
  with assms have c: "shown es' = {}" "if is_start (inp, err) then data_set s' else data_set s' = data_set s \<and> current_buff s' = current_buff s"
    by (simp_all add: chooses_def)
  with assms(1) show ?thesis by (auto simp: air_known_def starts_def air_quiet(1) split: if_splits)
next
  case False
  with assms(2) have f: "framed s es' s'" by simp
  from False have "\<not> is_start (inp, err)" by (cases inp) (simp_all add: is_start_def)
  moreover have "air (air None es) es' = (if shown es' = {} then air None es else current_buff s')"
    using f air_shown [of es'] by (auto simp: framed_def air_quiet(1))
  moreover have "shown es' = {} \<Longrightarrow> current_buff s' = current_buff s" using f by (simp add: framed_def air_quiet(1))
  ultimately show ?thesis using assms(1) f by (auto simp: air_known_def starts_def framed_def)
qed

lemma good_stepped: "\<not> registers inp \<Longrightarrow> good (tag_inv env) s r \<Longrightarrow> stepped env inp s r"
  by (auto simp: good_def stepped_def)

lemma good_same: "tag_inv env s \<Longrightarrow> good (tag_inv env) s (Ok (s, [], err))"
  by (intro goodI framed_refl quiet) simp_all

lemma good_from:
  "good P s' r \<Longrightarrow> tx s' = tx s \<Longrightarrow> data_set s' = data_set s \<Longrightarrow> current_buff s' = current_buff s \<Longrightarrow> tag_mem s' = tag_mem s \<Longrightarrow> good P s r"
  by (simp add: good_def framed_def)

context tnep_app
begin

lemma initial_msg_create_good:
  assumes "tag_inv env s"
  shows "good (tag_inv env) s (nfc_tnep_tag_initial_msg_create env n cb s)"
proof (cases "(n \<noteq> 0 \<and> \<not> cb) \<or> svc_cnt s < 1")
  case True
  then show ?thesis using good_same [OF assms] by (auto simp: nfc_tnep_tag_initial_msg_create_def)
next
  case False
  let ?s = "s\<lparr>max_records_cnt := n, initial_msg_encode := cb\<rparr>"
  from False have "svc_cnt s \<noteq> 0" by auto
  with assms have d: "data_set s" "tag_inv0 env s" by (auto simp: tag_inv_def tag_inv0_def)
  then have i: "tag_inv0 env ?s" "data_set ?s" by (simp_all add: tag_inv0_def)
  have err: "tag_inv env s'" if "tag_inv0 env s'" "tx_only ?s s'" for s'
    using that assms tx_only_fields [OF that(2)] by (simp add: tag_inv_def)
  have "good (tag_inv env) ?s (rbind (tnep_tx_initial_msg_set env ?s) (\<lambda>(s, ev, err).
        case err of Some e \<Rightarrow> Ok (s, ev, Some e) | None \<Rightarrow> Ok (s\<lparr>current_state := TNEP_STATE_SERVICE_READY\<rparr>, ev, None)))"
  proof (rule good_bind [OF initial_msg_set_good [OF i]], elim conjE)
    fix s' es err
    assume a: "tag_inv0 env s'" "tx_only ?s s'" "framed ?s es s'"
    show "good (tag_inv env) ?s (case (s', es, err) of (s, ev, err) \<Rightarrow>
        case err of Some e \<Rightarrow> Ok (s, ev, Some e) | None \<Rightarrow> Ok (s\<lparr>current_state := TNEP_STATE_SERVICE_READY\<rparr>, ev, None))"
      using err [OF a(1,2)] a(3) ready_again(1,2) [OF a(1,3) i(2)] by (cases err) (simp_all add: goodI)
  qed
  then show ?thesis using False by (auto simp: nfc_tnep_tag_initial_msg_create_def intro: good_from)
qed

lemma status_total:
  "msg_total (env_bo env) m \<Longrightarrow> \<exists>m' err. tnep_tx_msg_add_rec_status m st = Ok (m', err) \<and> msg_total (env_bo env) m'"
proof -
  assume m: "msg_total (env_bo env) m"
  define m' where "m' = (if st = NFC_TNEP_STATUS_PROTOCOL_ERROR then nfc_ndef_msg_clear m else m)"
  have "msg_total (env_bo env) m'" using m by (simp add: m'_def msg_total_clear)
  with msg_total_add [OF this status_record_total [OF byteorder_env], of st] show ?thesis
    by (auto simp: tnep_tx_msg_add_rec_status_def m'_def [symmetric] Let_def tnep_tx_msg_add_rec_def split: res.splits)
qed

lemma answer_good:
  assumes "tag_inv env s" "current_state s = TNEP_STATE_SERVICE_SELECTED" "msg_total (env_bo env) m"
  shows "good (tag_inv env) s (tnep_tx_msg_encode env (Some m) (s\<lparr>app_data_expected := x\<rparr>))"
proof (rule good_from [of _ "s\<lparr>app_data_expected := x\<rparr>"])
  have "tag_inv0 env (s\<lparr>app_data_expected := x\<rparr>)" "data_set (s\<lparr>app_data_expected := x\<rparr>)"
    using assms(1,2) by (auto simp: tag_inv_def tag_inv0_def)
  from tx_encode_good [OF this, of "Some m"] assms(3)
  have "good (\<lambda>s'. tag_inv0 env s' \<and> tx_only (s\<lparr>app_data_expected := x\<rparr>) s') (s\<lparr>app_data_expected := x\<rparr>)
      (tnep_tx_msg_encode env (Some m) (s\<lparr>app_data_expected := x\<rparr>))" by simp
  then show "good (tag_inv env) (s\<lparr>app_data_expected := x\<rparr>) (tnep_tx_msg_encode env (Some m) (s\<lparr>app_data_expected := x\<rparr>))"
    by (rule good_mono) (use assms(1,2) in \<open>auto simp: tag_inv_def dest: tx_only_fields\<close>)
qed simp_all

lemma unexpected_good:
  "tag_inv env s \<Longrightarrow> good (tag_inv env) s (Ok (s\<lparr>app_data_expected := x\<rparr>, [], err))"
  by (intro goodI framed_refl quiet) (simp_all add: tag_inv_def tag_inv0_def)

lemma app_data_good:
  assumes "tag_inv env s" "\<And>x. m = Some x \<Longrightarrow> msg_total (env_bo env) x"
  shows "good (tag_inv env) s (rbind (nfc_tnep_tag_tx_msg_app_data env m st s) (\<lambda>(s, _, es, err). Ok (s, es, err)))"
proof (cases "m \<noteq> None \<and> current_state s = TNEP_STATE_SERVICE_SELECTED \<and> app_data_expected s = TNEP_APP_DATA_EXPECTED")
  case True
  then obtain x where x: "m = Some x" by blast
  from status_total [OF assms(2) [OF x]] obtain m' err where m': "tnep_tx_msg_add_rec_status x st = Ok (m', err)" "msg_total (env_bo env) m'"
    by blast
  let ?s = "s\<lparr>app_data_expected := TNEP_APP_DATA_UNEXPECTED\<rparr>"
  from answer_good [OF assms(1) _ m'(2), of TNEP_APP_DATA_UNEXPECTED] True
  obtain s' es e where "tnep_tx_msg_encode env (Some m') ?s = Ok (s', es, e)" "tag_inv env s'" "framed s es s'" by (auto simp: good_def)
  then show ?thesis using True m'(1) unexpected_good [OF assms(1), of TNEP_APP_DATA_UNEXPECTED]
    by (cases err) (auto simp: x nfc_tnep_tag_tx_msg_app_data_def tnep_new_app_msg_prepare_def intro: goodI)
next
  case False
  then show ?thesis using good_same [OF assms(1)] by (cases m) (auto simp: nfc_tnep_tag_tx_msg_app_data_def)
qed

lemma no_app_data_good:
  assumes "tag_inv env s"
  shows "good (tag_inv env) s (nfc_tnep_tag_tx_msg_no_app_data env s)"
proof (cases "current_state s = TNEP_STATE_SERVICE_SELECTED \<and> app_data_expected s = TNEP_APP_DATA_EXPECTED")
  case True
  from status_total [OF msg_total_clear [OF msg_total_fresh]] obtain m err where
    m: "tnep_tx_msg_add_rec_status (nfc_ndef_msg_clear (NFC_NDEF_MSG_DEF 1)) NFC_TNEP_STATUS_SUCCESS = Ok (m, err)" "msg_total (env_bo env) m"
    by blast
  then show ?thesis using True answer_good [OF assms _ m(2)] unexpected_good [OF assms]
    by (cases err) (auto simp: nfc_tnep_tag_tx_msg_no_app_data_def Let_def)
next
  case False
  then show ?thesis using good_same [OF assms] by (auto simp: nfc_tnep_tag_tx_msg_no_app_data_def)
qed

lemma call_stepped:
  assumes "tag_inv env s" "tnep_admissible env s inp"
  shows "stepped env inp s (tnep_call env inp s)"
proof (cases inp)
  case (Buffer_register p q n)
  with assms show ?thesis
    by (auto simp: stepped_def chooses_def is_start_def tnep_call_def nfc_tnep_tag_tx_msg_buffer_register_def tnep_admissible_def tag_inv_def
        tag_inv0_def quiet)
next
  case (Rx_indicate b n)
  with assms show ?thesis
    by (auto simp: tnep_call_def nfc_tnep_tag_rx_msg_indicate_def tnep_admissible_def tag_inv_def tag_inv0_def
        intro!: good_stepped goodI framed_refl quiet)
next
  case (Init e c d)
  with assms(1) show ?thesis by (auto simp: stepped_def chooses_def is_start_def tnep_call_def nfc_tnep_tag_init_def tag_inv_def tag_inv0_def quiet)
next
  case (Initial_msg_create n cb)
  then show ?thesis using initial_msg_create_good [OF assms(1)] by (auto simp: tnep_call_def intro: good_stepped)
next
  case (Process r t)
  with assms(2) have "goodp (tag_inv env) s (nfc_tnep_tag_process env r t s)"
    by (intro process_good [OF assms(1)]) (auto simp: tnep_admissible_def)
  with Process show ?thesis by (auto simp: tnep_call_def goodp_def intro!: good_stepped goodI)
next
  case (App_data m st)
  then show ?thesis using app_data_good [OF assms(1), of m st] assms(2)
    by (auto simp: tnep_call_def tnep_admissible_def intro!: good_stepped split: option.splits)
next
  case No_app_data
  then show ?thesis using no_app_data_good [OF assms(1)] by (auto simp: tnep_call_def intro: good_stepped)
next
  case On_selected
  with assms(1) show ?thesis
    by (auto simp: tnep_call_def nfc_tnep_tag_on_selected_def intro!: good_stepped goodI framed_refl quiet)
qed

lemma reach_inv: "tnep_reach env mem h es s \<Longrightarrow> tag_inv env s \<and> air_known h es s"
proof (induction rule: tnep_reach.induct)
  case start
  show ?case by (simp add: tnep_zero_def tag_inv_def tag_inv0_def air_known_def)
next
  case (call h es s inp s' es' err)
  with call_stepped [OF _ call.hyps(2)] air_known_step show ?case by (auto simp: stepped_def)
qed

end

text \<open>
  A second initialisation loses track of the buffer that the NFC library shows. When the first initial message
  could not be encoded, the module is still disabled and has handed over the second buffer; after another
  initialisation the next message is written into that buffer again.
\<close>

theorem tnep_init_again:
  assumes "tnep_app env recs recs_cnt" "tag_inv env s" "data_set s" "current_state s = TNEP_STATE_DISABLED" "tx_len (tx s) \<noteq> 0"
    and "tx_swap_data (tx s) = Some p" "current_buff s = Some p" "\<And>m. msg = Some m \<Longrightarrow> msg_total (env_bo env) m"
  shows "\<exists>s1 s2 b err. nfc_tnep_tag_init env True NFC_TNEP_EVENTS_NUMBER True s = Ok (s1, [], None) \<and>
    tnep_tx_msg_encode env msg s1 = Ok (s2, [Data_set p b (tx_len (tx s))], err)"
proof -
  have i: "tag_inv0 env s" "tx_data (tx s) \<noteq> None" using assms(2,3) by (auto simp: tag_inv_def tag_inv0_def)
  let ?s = "s\<lparr>current_buff := tx_data (tx s), data_set := True, svc_cnt := of_nat (length (services env))\<rparr>"
  have "tag_inv0 env ?s" "data_set ?s" using i(1) assms(3) by (simp_all add: tag_inv0_def)
  from tnep_app.tx_encode_shape [OF assms(1) this, of msg] assms(8) obtain q b err where
    e: "tnep_tx_msg_encode env msg ?s = Ok (?s\<lparr>current_buff := Some q, tag_mem := (tag_mem ?s)(q := b)\<rparr>, [Data_set q b (tx_len (tx ?s))], err)"
      "Some q = (if current_buff ?s = tx_data (tx ?s) then tx_swap_data (tx ?s) else tx_data (tx ?s))" by metis
  then have "q = p" using assms(6) by simp
  with e(1) i(2) assms(4-6) show ?thesis by (simp add: nfc_tnep_tag_init_def)
qed

end
