(* ===== verification/TNEP_Poller.thy ===== *)
theory TNEP_Poller
  imports TNEP_Base
begin

unbundle bit_operations_syntax

text \<open>
  The poller side of the Tag NDEF Exchange Protocol (\<^verbatim>\<open>tnep/poller.h\<close>, \<^verbatim>\<open>tnep/poller.c\<close>): searching the initial
  message for services, selecting and deselecting a service, writing a message to it and reading its answer
  after the waiting time that the service announces.

  The static variable of the module is one record. The service parameters live in the application and are
  compared by address: a service is an address (\<open>svc_ptr\<close>), and the memory behind it is part of the
  environment. The registered callbacks, the functions of the NDEF interface and the delayed work item are
  output events; their results come from the environment, and the times the kernel reports are arguments.
\<close>

section \<open>Data\<close>

datatype tnep_poller_state =
    TNEP_POLLER_STATE_IDLE | TNEP_POLLER_STATE_SELECTING | TNEP_POLLER_STATE_DESELECTING
  | TNEP_POLLER_STATE_READING | TNEP_POLLER_STATE_UPDATING

datatype nfc_tnep_tag_type = NFC_TNEP_TAG_TYPE_UNSUPPORTED | NFC_TNEP_TAG_TYPE_T2T | NFC_TNEP_TAG_TYPE_T4T

abbreviation (input) NFC_TNEP_SERVICE_PARAM_MIN_LEN :: u32 where "NFC_TNEP_SERVICE_PARAM_MIN_LEN \<equiv> 7"
abbreviation (input) NFC_TNEP_STATUS_RECORD_LEN :: u32 where "NFC_TNEP_STATUS_RECORD_LEN \<equiv> 1"
abbreviation (input) TNEP_SELECT_MSG_RECORD_CNT :: u32 where "TNEP_SELECT_MSG_RECORD_CNT \<equiv> 1"

type_synonym svc_ptr = nat

record nfc_tnep_poller_msg =
  pm_status :: u8
  pm_msg :: "nfc_ndef_msg_desc option"

text \<open>Which of the functions of a callback structure are set.\<close>

record nfc_tnep_poller_cb =
  svc_selected :: bool
  svc_deselected :: bool
  svc_received :: bool
  svc_sent :: bool
  cb_error :: bool

record nfc_tnep_buf =
  nb_data :: cptr
  nb_size :: u32

record tnep_poller =
  p_rx :: "nfc_tnep_buf option"
  p_tx :: "nfc_tnep_buf option"
  svc_to_select :: "svc_ptr option"
  active_svc :: "svc_ptr option"
  p_api :: bool
  callback_list :: "nfc_tnep_poller_cb list"
  last_time :: int
  p_state :: tnep_poller_state
  p_type :: nfc_tnep_tag_type
  wait_time :: u32
  retry_cnt :: u8

text \<open>Calls of a registered callback carry its position in the list.\<close>

datatype poller_out =
    Svc_selected nat "svc_ptr option" "nfc_tnep_poller_msg option" bool
  | Svc_deselected nat
  | Svc_received nat "svc_ptr option" "nfc_tnep_poller_msg option" bool
  | Svc_sent nat "svc_ptr option" "nfc_tnep_poller_msg option" bool
  | Svc_error nat errno
  | Reschedule int
  | Ndef_read cptr u16
  | Ndef_update cptr u16

text \<open>
  The environment: the service parameters of the application, the configuration, the parameters of the
  message encoder and parser, the result of \<^verbatim>\<open>k_work_reschedule\<close> (a negative code or a number), the results of
  the functions of the NDEF interface, and the rounded division macro of the kernel.
\<close>

record poller_env =
  svc_at :: "svc_ptr \<Rightarrow> nfc_ndef_tnep_rec_svc_param"
  CONFIG_ASSERT :: bool
  CONFIG_NFC_TNEP_POLLER_RX_MAX_RECORD_CNT :: u32
  p_bo :: byteorder_ops
  p_abi :: ndef_abi
  p_junk_bin :: nfc_ndef_bin_payload_desc
  p_junk_rec :: nfc_ndef_record_desc
  p_enc_junk :: "u32 \<Rightarrow> u32"
  p_enc_partial :: "u8 list \<Rightarrow> u8 list"
  k_work_reschedule :: "int \<Rightarrow> errno + nat"
  ndef_read :: "cptr \<Rightarrow> u16 \<Rightarrow> errno option"
  ndef_update :: "cptr \<Rightarrow> u16 \<Rightarrow> errno option"
  DIV_ROUND_UP :: "int \<Rightarrow> int \<Rightarrow> int"

type_synonym poller_ret = "(tnep_poller \<times> poller_out list \<times> errno option) res"

text \<open>A negative shift count, or one that leaves the range of an \<^verbatim>\<open>int\<close>, is undefined.\<close>

definition NFC_TNEP_MIN_WAIT_TIME :: "(int \<Rightarrow> int \<Rightarrow> int) \<Rightarrow> u8 \<Rightarrow> u32 res" where
  "NFC_TNEP_MIN_WAIT_TIME div_round_up t =
     (let k = div_round_up (uint t) 4 - 1 in
      if k < 0 \<or> k > 30 then Fault else Ok (push_bit (nat k) 1))"

section \<open>Notifications\<close>

definition notify_all :: "tnep_poller \<Rightarrow> (nfc_tnep_poller_cb \<Rightarrow> bool) \<Rightarrow> (nat \<Rightarrow> poller_out) \<Rightarrow> poller_out list" where
  "notify_all s is_set f = map (\<lambda>(i, cb). f i) (filter (\<lambda>(i, cb). is_set cb) (enumerate 0 (callback_list s)))"

definition svc_select_notify :: "svc_ptr option \<Rightarrow> nfc_tnep_poller_msg option \<Rightarrow> bool \<Rightarrow> tnep_poller \<Rightarrow> poller_out list" where
  "svc_select_notify param msg timeout s = notify_all s svc_selected (\<lambda>i. Svc_selected i param msg timeout)"

definition svc_deselect_notify :: "tnep_poller \<Rightarrow> poller_out list" where
  "svc_deselect_notify s = notify_all s svc_deselected Svc_deselected"

definition svc_received_notify :: "svc_ptr option \<Rightarrow> nfc_tnep_poller_msg option \<Rightarrow> bool \<Rightarrow> tnep_poller \<Rightarrow> poller_out list" where
  "svc_received_notify param msg timeout s = notify_all s svc_received (\<lambda>i. Svc_received i param msg timeout)"

definition svc_sent_notify :: "svc_ptr option \<Rightarrow> nfc_tnep_poller_msg option \<Rightarrow> bool \<Rightarrow> tnep_poller \<Rightarrow> poller_out list" where
  "svc_sent_notify param msg timeout s = notify_all s svc_sent (\<lambda>i. Svc_sent i param msg timeout)"

definition svc_error_notify :: "errno \<Rightarrow> tnep_poller \<Rightarrow> poller_out list" where
  "svc_error_notify err s = notify_all s cb_error (\<lambda>i. Svc_error i err)"

section \<open>Messages\<close>

text \<open>
  Encodes the message into the transmit buffer; the number is the length to send. The result of
  \<^verbatim>\<open>nfc_t4t_ndef_file_encode\<close> is ignored.
\<close>

definition tnep_tag_update_prepare :: "poller_env \<Rightarrow> nfc_ndef_msg_desc \<Rightarrow> tnep_poller \<Rightarrow> (tnep_poller \<times> u32 \<times> errno option) res" where
  "tnep_tag_update_prepare env msg s =
     (if CONFIG_ASSERT env \<and> \<not> p_api s then Fault
      else
        case p_tx s of
          None \<Rightarrow> Fault
        | Some buf \<Rightarrow>
            (case nb_data buf of
               None \<Rightarrow> Fault
             | Some b \<Rightarrow>
                 let t4t = (p_type s = NFC_TNEP_TAG_TYPE_T4T);
                     off = (if t4t then 2 else 0);
                     len = nb_size buf - of_nat off;
                     store = (\<lambda>b. s\<lparr>p_tx := Some (buf\<lparr>nb_data := Some b\<rparr>)\<rparr>) in
                 case nfc_ndef_msg_encode (p_bo env) (p_enc_junk env) (Some msg) (Some (drop off b)) (Some len) of
                   Fault \<Rightarrow> Fault
                 | Err e \<Rightarrow> Ok (store (take off b @ p_enc_partial env (drop off b)), 0, Some e)
                 | Ok (w, n) \<Rightarrow>
                     let b = take off b @ the w in
                     if t4t
                     then case nfc_t4t_ndef_file_encode (p_bo env) (Some b) (Some n) of
                            Fault \<Rightarrow> Fault
                          | Err _ \<Rightarrow> Ok (store b, n, None)
                          | Ok (b, n) \<Rightarrow> Ok (store b, n, None)
                     else Ok (store b, n, None)))"

text \<open>The length of the type field is only compared with 0.\<close>

definition status_record_check :: "nfc_ndef_record_desc \<Rightarrow> u8 list \<Rightarrow> bool res" where
  "status_record_check record type_field =
     (if type_length record = 0 then Ok False
      else rbind (memcpy_src (type_ptr record) (length type_field)) (\<lambda>xs. Ok (xs = type_field)))"

text \<open>
  The descriptor of a parsed record. A descriptor of another kind is not the structure as which the code
  reads it.
\<close>

definition payload_desc :: "nfc_ndef_record_desc \<Rightarrow> nfc_ndef_bin_payload_desc res" where
  "payload_desc r = (case payload_constructor r of Some (BIN_PAYLOAD pd) \<Rightarrow> Ok pd | _ \<Rightarrow> Fault)"

definition ptr_bytes :: "cptr \<Rightarrow> u8 list res" where
  "ptr_bytes p = (case p of None \<Rightarrow> Fault | Some b \<Rightarrow> Ok b)"

text \<open>The loop over the records from record \<open>i\<close> on, with \<open>n\<close> records left: the status.\<close>

primrec data_analyze_loop :: "nfc_ndef_record_desc option list \<Rightarrow> nat \<Rightarrow> nat \<Rightarrow> u8 res" where
  "data_analyze_loop recs 0 i = Err EAGAIN"
| "data_analyze_loop recs (Suc n) i =
     (if i < length recs then
        case recs ! i of
          None \<Rightarrow> Fault
        | Some record \<Rightarrow>
            rbind (status_record_check record nfc_ndef_tnep_rec_type_status) (\<lambda>found.
            if found then
              rbind (payload_desc record) (\<lambda>desc.
              if payload_length desc \<noteq> NFC_TNEP_STATUS_RECORD_LEN then Err EINVAL
              else rbind (ptr_bytes (payload desc)) (\<lambda>b. rd b 0))
            else data_analyze_loop recs n (Suc i))
      else Fault)"

definition tnep_data_analyze :: "nfc_ndef_msg_desc \<Rightarrow> nfc_tnep_poller_msg res" where
  "tnep_data_analyze msg =
     (case record_array msg of
        None \<Rightarrow> if record_count msg = 0 then Err EAGAIN else Fault
      | Some recs \<Rightarrow>
          rbind (data_analyze_loop recs (unat (record_count msg)) 0) (\<lambda>st.
          Ok \<lparr>pm_status = st, pm_msg = Some msg\<rparr>))"

definition service_param_rec_check :: "poller_env \<Rightarrow> nfc_ndef_record_tnf \<Rightarrow> cptr \<Rightarrow> u8 \<Rightarrow> bool res" where
  "service_param_rec_check env t typ len =
     (if CONFIG_ASSERT env \<and> typ = None then Fault
      else if t \<noteq> TNF_WELL_KNOWN then Ok False
      else if unat len \<noteq> NFC_NDEF_TNEP_REC_TYPE_LEN then Ok False
      else rbind (memcpy_src typ NFC_NDEF_TNEP_REC_TYPE_LEN) (\<lambda>xs. Ok (xs = nfc_ndef_tnep_rec_type_svc_param)))"

text \<open>
  Fills in the parameters at the address \<open>param\<close>, which is \<^term>\<open>None\<close> behind the end of the array of the caller.
  The version and the length of the name are stored also when the record is refused.
\<close>

definition svc_param_record_get ::
    "poller_env \<Rightarrow> nfc_ndef_bin_payload_desc \<Rightarrow> nfc_ndef_tnep_rec_svc_param option \<Rightarrow>
     (nfc_ndef_tnep_rec_svc_param option \<times> errno option) res" where
  "svc_param_record_get env bin_pay_desc param =
     (if payload_length bin_pay_desc < NFC_TNEP_SERVICE_PARAM_MIN_LEN then Ok (param, Some EFAULT)
      else
        case param of
          None \<Rightarrow> Fault
        | Some q \<Rightarrow>
            rbind (ptr_bytes (payload bin_pay_desc)) (\<lambda>b.
            rbind (rd b 0) (\<lambda>ver.
            rbind (rd b 1) (\<lambda>ulen.
            let q = q\<lparr>version := ver, uri_length := ulen\<rparr>; u = unat ulen in
            if unat (payload_length bin_pay_desc) \<noteq> unat NFC_TNEP_SERVICE_PARAM_MIN_LEN + u then Ok (Some q, Some EFAULT)
            else
              rbind (rd b (2 + u)) (\<lambda>mode.
              rbind (rd b (3 + u)) (\<lambda>mint.
              rbind (rd b (4 + u)) (\<lambda>maxt.
              rbind (be16_at (p_bo env) b (5 + u)) (\<lambda>msize.
              Ok (Some (q\<lparr>param_uri := Some (drop 2 b), communication_mode := mode, min_time := mint,
                          max_time_ext := maxt, max_size := msize\<rparr>), None)))))))))"

section \<open>Delayed reading\<close>

text \<open>\<open>now\<close> is the time of the call: \<^verbatim>\<open>k_uptime_delta\<close> returns the time since the stored one and stores the new one.\<close>

definition on_svc_delayed_operation :: "poller_env \<Rightarrow> int \<Rightarrow> tnep_poller \<Rightarrow> (tnep_poller \<times> poller_out list) res" where
  "on_svc_delayed_operation env now s =
     (let time_spent = now - last_time s;
          s = s\<lparr>last_time := now\<rparr>;
          delay = (if time_spent > uint (wait_time s) then 0 else uint (wait_time s) - time_spent) in
      case k_work_reschedule env delay of
        Inl e \<Rightarrow> Ok (s, Reschedule delay # svc_error_notify e s)
      | Inr ret \<Rightarrow> if CONFIG_ASSERT env \<and> ret \<noteq> 1 then Fault else Ok (s, [Reschedule delay]))"

definition tnep_delay_handler :: "poller_env \<Rightarrow> tnep_poller \<Rightarrow> (tnep_poller \<times> poller_out list) res" where
  "tnep_delay_handler env s =
     (let failed = (\<lambda>err. case err of None \<Rightarrow> [] | Some e \<Rightarrow> svc_error_notify e s) in
      if p_state s \<in> {TNEP_POLLER_STATE_SELECTING, TNEP_POLLER_STATE_READING, TNEP_POLLER_STATE_UPDATING} then
        case p_rx s of
          None \<Rightarrow> Fault
        | Some buf \<Rightarrow>
            if \<not> p_api s then Fault
            else
              let n = ucast (nb_size buf) in
              Ok (s, Ndef_read (nb_data buf) n # failed (ndef_read env (nb_data buf) n))
      else Ok (s, failed (Some EPERM)))"

definition on_ndef_read_cb :: "nfc_tnep_poller_msg option \<Rightarrow> bool \<Rightarrow> tnep_poller \<Rightarrow> poller_out list \<times> errno option" where
  "on_ndef_read_cb poller_msg timeout s =
     (case p_state s of
        TNEP_POLLER_STATE_SELECTING \<Rightarrow> (svc_select_notify (active_svc s) poller_msg timeout s, None)
      | TNEP_POLLER_STATE_READING \<Rightarrow> (svc_received_notify (active_svc s) poller_msg timeout s, None)
      | TNEP_POLLER_STATE_UPDATING \<Rightarrow> (svc_sent_notify (active_svc s) poller_msg timeout s, None)
      | _ \<Rightarrow> ([], Some ENOTSUP))"

section \<open>Interface\<close>

definition nfc_tnep_poller_cb_register :: "nfc_tnep_poller_cb option \<Rightarrow> tnep_poller \<Rightarrow> tnep_poller" where
  "nfc_tnep_poller_cb_register cb s =
     (case cb of None \<Rightarrow> s | Some cb \<Rightarrow> s\<lparr>callback_list := callback_list s @ [cb]\<rparr>)"

definition nfc_tnep_poller_init :: "nfc_tnep_buf option \<Rightarrow> tnep_poller \<Rightarrow> tnep_poller \<times> errno option" where
  "nfc_tnep_poller_init tx_buf s =
     (case tx_buf of
        None \<Rightarrow> (s, Some EINVAL)
      | Some buf \<Rightarrow>
          if nb_data buf = None then (s, Some EINVAL)
          else if nb_size buf < 1 then (s, Some ENOMEM)
          else (s\<lparr>p_tx := tx_buf, p_state := TNEP_POLLER_STATE_IDLE\<rparr>, None))"

definition nfc_tnep_poller_api_set :: "bool \<Rightarrow> nfc_tnep_tag_type \<Rightarrow> tnep_poller \<Rightarrow> tnep_poller \<times> errno option" where
  "nfc_tnep_poller_api_set api tag_type s =
     (if \<not> api then (s, Some EINVAL)
      else if tag_type \<noteq> NFC_TNEP_TAG_TYPE_T2T \<and> tag_type \<noteq> NFC_TNEP_TAG_TYPE_T4T then (s, Some EINVAL)
      else (s\<lparr>p_api := True, p_type := tag_type\<rparr>, None))"

text \<open>
  The loop of the search from record \<open>i\<close> on, with \<open>n\<close> records left. The array of the caller and the number of
  services found so far come back also with an error.
\<close>

primrec svc_search_loop ::
    "poller_env \<Rightarrow> nfc_ndef_record_desc option list \<Rightarrow> u8 \<Rightarrow> nat \<Rightarrow> nat \<Rightarrow> nfc_ndef_tnep_rec_svc_param list \<Rightarrow> u8 \<Rightarrow>
     (nfc_ndef_tnep_rec_svc_param list \<times> u8 \<times> errno option) res" where
  "svc_search_loop env recs len 0 i params cnt = Ok (params, cnt, None)"
| "svc_search_loop env recs len (Suc n) i params cnt =
     (if i < length recs then
        case recs ! i of
          None \<Rightarrow> Fault
        | Some record \<Rightarrow>
            rbind (service_param_rec_check env (tnf record) (type_ptr record) (type_length record)) (\<lambda>found.
            if found then
              if cnt > len then Ok (params, cnt, Some ENOMEM)
              else
                rbind (payload_desc record) (\<lambda>desc.
                let k = unat cnt in
                rbind (svc_param_record_get env desc (if k < length params then Some (params ! k) else None)) (\<lambda>(q, err).
                let params = (case q of None \<Rightarrow> params | Some q \<Rightarrow> params[k := q]) in
                svc_search_loop env recs len n (Suc i) params (if err = None then cnt + 1 else cnt)))
            else svc_search_loop env recs len n (Suc i) params cnt)
      else Fault)"

definition nfc_tnep_poller_svc_search ::
    "poller_env \<Rightarrow> nfc_ndef_msg_desc option \<Rightarrow> nfc_ndef_tnep_rec_svc_param list option \<Rightarrow> u8 option \<Rightarrow>
     (nfc_ndef_tnep_rec_svc_param list option \<times> u8 option \<times> errno option) res" where
  "nfc_tnep_poller_svc_search env ndef_msg params cnt =
     (case (ndef_msg, params, cnt) of
        (Some msg, Some ps, Some c) \<Rightarrow>
          if c < 1 then Ok (params, cnt, Some ENOMEM)
          else if record_count msg < 1 then Ok (params, Some 0, None)
          else
            (case record_array msg of
               None \<Rightarrow> Fault
             | Some recs \<Rightarrow>
                 rbind (svc_search_loop env recs c (unat (record_count msg)) 0 ps 0) (\<lambda>(ps, c, err).
                 Ok (Some ps, Some c, err)))
      | _ \<Rightarrow> Ok (params, cnt, Some EINVAL))"

text \<open>Sends what has been prepared.\<close>

definition update_request :: "poller_env \<Rightarrow> u32 \<Rightarrow> tnep_poller \<Rightarrow> poller_ret" where
  "update_request env len s =
     (case p_tx s of
        None \<Rightarrow> Fault
      | Some buf \<Rightarrow>
          if \<not> p_api s then Fault
          else
            let n = ucast len in
            Ok (s, [Ndef_update (nb_data buf) n], ndef_update env (nb_data buf) n))"

text \<open>The message with one service select record that selects, or with an empty name deselects, a service.\<close>

definition select_message :: "u8 \<Rightarrow> cptr \<Rightarrow> nfc_ndef_msg_desc res" where
  "select_message len uri_ptr =
     nfc_ndef_msg_record_add (nfc_ndef_msg_clear (NFC_NDEF_MSG_DEF TNEP_SELECT_MSG_RECORD_CNT))
       (Some (NFC_TNEP_SERIVCE_SELECT_RECORD_DESC_DEF len uri_ptr))"

definition nfc_tnep_poller_svc_select ::
    "poller_env \<Rightarrow> int \<Rightarrow> nfc_tnep_buf option \<Rightarrow> svc_ptr option \<Rightarrow> u32 \<Rightarrow> tnep_poller \<Rightarrow> poller_ret" where
  "nfc_tnep_poller_svc_select env now svc_buf svc max_ndef_area_size s =
     (case (svc_buf, svc) of
        (Some buf, Some p) \<Rightarrow>
          if nb_data buf = None then Ok (s, [], Some EINVAL)
          else if nb_size buf < 1 then Ok (s, [], Some ENOMEM)
          else
            let s = s\<lparr>p_state := TNEP_POLLER_STATE_SELECTING\<rparr>; par = svc_at env p in
            if svc = active_svc s then rbind (on_svc_delayed_operation env now s) (\<lambda>(s, ev). Ok (s, ev, None))
            else if communication_mode par \<noteq> NFC_TNEP_COMM_MODE_SINGLE_RESPONSE then Ok (s, [], Some ENOTSUP)
            else if ucast (max_size par) > max_ndef_area_size then Ok (s, [], Some ENOMEM)
            else
              case select_message (uri_length par) (param_uri par) of
                Fault \<Rightarrow> Fault
              | Err e \<Rightarrow> Ok (s, [], Some e)
              | Ok msg \<Rightarrow>
                  rbind (tnep_tag_update_prepare env msg s) (\<lambda>(s, len, err).
                  case err of
                    Some e \<Rightarrow> Ok (s, [], Some e)
                  | None \<Rightarrow> update_request env len (s\<lparr>svc_to_select := svc, p_rx := svc_buf\<rparr>))
      | _ \<Rightarrow> Ok (s, [], Some EINVAL))"

definition nfc_tnep_poller_svc_deselect :: "poller_env \<Rightarrow> tnep_poller \<Rightarrow> poller_ret" where
  "nfc_tnep_poller_svc_deselect env s =
     (if active_svc s = None then Ok (s, [], None)
      else
        case select_message 0 None of
          Fault \<Rightarrow> Fault
        | Err e \<Rightarrow> Ok (s, [], Some e)
        | Ok msg \<Rightarrow>
            rbind (tnep_tag_update_prepare env msg s) (\<lambda>(s, len, err).
            case err of
              Some e \<Rightarrow> Ok (s, [], Some e)
            | None \<Rightarrow> update_request env len (s\<lparr>p_state := TNEP_POLLER_STATE_DESELECTING\<rparr>)))"

definition nfc_tnep_poller_svc_read :: "poller_env \<Rightarrow> int \<Rightarrow> nfc_tnep_buf option \<Rightarrow> tnep_poller \<Rightarrow> poller_ret" where
  "nfc_tnep_poller_svc_read env now svc_buf s =
     (case svc_buf of
        None \<Rightarrow> Ok (s, [], Some EINVAL)
      | Some buf \<Rightarrow>
          if nb_data buf = None then Ok (s, [], Some EINVAL)
          else if nb_size buf < 1 then Ok (s, [], Some ENOMEM)
          else
            rbind (on_svc_delayed_operation env now (s\<lparr>p_rx := svc_buf, p_state := TNEP_POLLER_STATE_READING\<rparr>)) (\<lambda>(s, ev).
            Ok (s, ev, None)))"

definition nfc_tnep_poller_svc_write ::
    "poller_env \<Rightarrow> nfc_ndef_msg_desc option \<Rightarrow> nfc_tnep_buf option \<Rightarrow> tnep_poller \<Rightarrow> poller_ret" where
  "nfc_tnep_poller_svc_write env msg resp_buf s =
     (case (msg, resp_buf) of
        (Some m, Some buf) \<Rightarrow>
          if record_count m < 1 then Ok (s, [], Some ENOMEM)
          else if nb_data buf = None then Ok (s, [], Some EINVAL)
          else if nb_size buf < 1 then Ok (s, [], Some ENOMEM)
          else
            rbind (tnep_tag_update_prepare env m (s\<lparr>p_rx := resp_buf, p_state := TNEP_POLLER_STATE_UPDATING\<rparr>)) (\<lambda>(s, len, err).
            case err of
              Some e \<Rightarrow> Ok (s, [], Some e)
            | None \<Rightarrow> update_request env len s)
      | _ \<Rightarrow> Ok (s, [], Some EINVAL))"

text \<open>\<open>now\<close> is the time at the start of the handler, \<open>later\<close> the one when the next read is scheduled.\<close>

definition nfc_tnep_poller_on_ndef_read :: "poller_env \<Rightarrow> int \<Rightarrow> int \<Rightarrow> u8 list \<Rightarrow> u32 \<Rightarrow> tnep_poller \<Rightarrow> poller_ret" where
  "nfc_tnep_poller_on_ndef_read env now later data len s =
     (let s = s\<lparr>last_time := now\<rparr> in
      if len = 0 then
        case active_svc s of
          None \<Rightarrow> Fault
        | Some p \<Rightarrow>
            if retry_cnt s < max_time_ext (svc_at env p)
            then rbind (on_svc_delayed_operation env later (s\<lparr>retry_cnt := retry_cnt s + 1\<rparr>)) (\<lambda>(s, ev). Ok (s, ev, None))
            else (case on_ndef_read_cb None True s of (ev, err) \<Rightarrow> Ok (s, ev, err))
      else
        let s = s\<lparr>retry_cnt := 0\<rparr> in
        case nfc_ndef_msg_parse (p_bo env) (p_abi env) (p_junk_bin env) (p_junk_rec env)
               (NFC_NDEF_PARSER_REQUIRED_MEM (p_abi env) (CONFIG_NFC_TNEP_POLLER_RX_MAX_RECORD_CNT env)) data len of
          Fault \<Rightarrow> Fault
        | Err e \<Rightarrow> Ok (s, [], Some e)
        | Ok (msg, _, _) \<Rightarrow>
            (case tnep_data_analyze msg of
               Fault \<Rightarrow> Fault
             | Err e \<Rightarrow> Ok (s, [], Some e)
             | Ok poller_msg \<Rightarrow> (case on_ndef_read_cb (Some poller_msg) False s of (ev, err) \<Rightarrow> Ok (s, ev, err))))"

definition nfc_tnep_poller_on_ndef_write :: "poller_env \<Rightarrow> int \<Rightarrow> int \<Rightarrow> tnep_poller \<Rightarrow> poller_ret" where
  "nfc_tnep_poller_on_ndef_write env now later s =
     (let s = s\<lparr>last_time := now\<rparr> in
      case p_state s of
        TNEP_POLLER_STATE_SELECTING \<Rightarrow>
          (case svc_to_select s of
             None \<Rightarrow> Fault
           | Some p \<Rightarrow>
               rbind (NFC_TNEP_MIN_WAIT_TIME (DIV_ROUND_UP env) (min_time (svc_at env p))) (\<lambda>w.
               rbind (on_svc_delayed_operation env later (s\<lparr>active_svc := Some p, wait_time := w, svc_to_select := None\<rparr>)) (\<lambda>(s, ev).
               Ok (s, ev, None))))
      | TNEP_POLLER_STATE_DESELECTING \<Rightarrow>
          (let s = s\<lparr>active_svc := None, p_state := TNEP_POLLER_STATE_IDLE\<rparr> in Ok (s, svc_deselect_notify s, None))
      | TNEP_POLLER_STATE_UPDATING \<Rightarrow> rbind (on_svc_delayed_operation env later s) (\<lambda>(s, ev). Ok (s, ev, None))
      | _ \<Rightarrow> Ok (s, [], Some ENOTSUP))"

section \<open>The search for services\<close>

text \<open>The service that a record announces.\<close>

definition is_param :: "nfc_ndef_record_desc \<Rightarrow> bool" where
  "is_param r \<longleftrightarrow> tnf r = TNF_WELL_KNOWN \<and> record_type r = nfc_ndef_tnep_rec_type_svc_param"

definition param_of :: "byteorder_ops \<Rightarrow> u8 list \<Rightarrow> cptr \<Rightarrow> nfc_ndef_tnep_rec_svc_param option" where
  "param_of bo x p =
     (if 7 \<le> length x \<and> length x = 7 + unat (x ! 1) then
        let u = unat (x ! 1) in
        Some \<lparr>version = x ! 0, uri_length = x ! 1, param_uri = map_option (drop 2) p, communication_mode = x ! (2 + u),
              min_time = x ! (3 + u), max_time_ext = x ! (4 + u), max_size = sys_get_be16 bo (x ! (5 + u)) (x ! (6 + u))\<rparr>
      else None)"

definition svc_param_of :: "byteorder_ops \<Rightarrow> nfc_ndef_record_desc \<Rightarrow> nfc_ndef_tnep_rec_svc_param option" where
  "svc_param_of bo r =
     (case payload_constructor r of
        Some (BIN_PAYLOAD pd) \<Rightarrow> if is_param r then param_of bo (bin_bytes pd) (payload pd) else None
      | _ \<Rightarrow> None)"

text \<open>A record of a parsed message.\<close>

definition parsed_rec :: "nfc_ndef_record_desc \<Rightarrow> bool" where
  "parsed_rec r \<longleftrightarrow> record_wf r \<and> (\<exists>pd. payload_constructor r = Some (BIN_PAYLOAD pd) \<and> bin_ok pd)"

lemma param_check:
  assumes "record_wf r" "\<not> CONFIG_ASSERT env"
  shows "service_param_rec_check env (tnf r) (type_ptr r) (type_length r) = Ok (is_param r)"
proof (cases "unat (type_length r) = 2")
  case True
  have "readable (type_ptr r) (unat (type_length r))" using assms(1) by (simp add: record_wf_def)
  then have "memcpy_src (type_ptr r) 2 = Ok (record_type r)"
    unfolding True [symmetric] by (simp add: memcpy_src_readable record_type_def)
  with True assms(2) show ?thesis by (simp add: service_param_rec_check_def is_param_def)
next
  case False
  have "length (record_type r) = unat (type_length r)" using assms(1) by simp
  then have "record_type r \<noteq> [0x54, 0x70]" using False by auto
  with False assms(2) show ?thesis by (simp add: service_param_rec_check_def is_param_def)
qed

lemma param_get:
  assumes "bin_ok pd"
  shows "\<exists>q'. svc_param_record_get env pd (Some q) =
    (case param_of (p_bo env) (bin_bytes pd) (payload pd) of Some q \<Rightarrow> Ok (Some q, None) | None \<Rightarrow> Ok (Some q', Some EFAULT))"
proof (cases "payload_length pd < 7")
  case True
  then have "length (bin_bytes pd) < 7" using assms by (simp add: word_less_nat_alt)
  then show ?thesis using True by (auto simp: svc_param_record_get_def param_of_def)
next
  case False
  let ?x = "bin_bytes pd"
  have l: "unat (payload_length pd) = length ?x" using assms by simp
  then have 7: "7 \<le> length ?x" using False by (simp add: not_less word_le_nat_alt)
  then have "payload pd \<noteq> None" by (cases "payload pd") (simp_all add: bin_bytes_def pbytes_def)
  then obtain b where b: "payload pd = Some b" by blast
  then have x: "?x = take (length ?x) b" unfolding l [symmetric] by (simp add: bin_bytes_def pbytes_def)
  then have lb: "length ?x \<le> length b" by (metis length_take min.cobounded1)
  have nth: "rd b i = Ok (?x ! i)" if "i < length ?x" for i
    using that lb by (subst x) (simp add: rd_def)
  show ?thesis
  proof (cases "length ?x = 7 + unat (?x ! 1)")
    case True
    let ?u = "unat (?x ! 1)"
    have "be16_at (p_bo env) b (5 + ?u) = Ok (sys_get_be16 (p_bo env) (?x ! (5 + ?u)) (?x ! (6 + ?u)))"
    proof -
      have "?x ! i = b ! i" if "i < length ?x" for i using that by (subst x) simp
      then show ?thesis using True lb by (simp add: be16_at_def rdn_def)
    qed
    then show ?thesis
      using True 7 l b nth False by (auto simp: svc_param_record_get_def param_of_def ptr_bytes_def Let_def)
  next
    case F: False
    have "rd b 0 = Ok (?x ! 0)" "rd b 1 = Ok (?x ! 1)" by (rule nth, use 7 in linarith)+
    with F show ?thesis
      using 7 l b False by (auto simp: svc_param_record_get_def param_of_def ptr_bytes_def Let_def)
  qed
qed

lemma search_loop:
  assumes "list_all parsed_rec rs" "\<not> CONFIG_ASSERT env"
    and "unat cnt + length (filter is_param rs) \<le> unat len" "unat len \<le> length params" "take (unat cnt) params = found" 
  shows "\<exists>params'. svc_search_loop env (map Some (pre @ rs) @ ex) len (length rs) (length pre) params cnt =
      Ok (params', cnt + of_nat (length (List.map_filter (svc_param_of (p_bo env)) rs)), None) \<and> length params' = length params \<and>
    take (unat cnt + length (List.map_filter (svc_param_of (p_bo env)) rs)) params' = found @ List.map_filter (svc_param_of (p_bo env)) rs"
  using assms
proof (induction rs arbitrary: pre params cnt found)
  case Nil
  then show ?case by (auto simp: List.map_filter_def)
next
  case (Cons r rs)
  let ?F = "List.map_filter (svc_param_of (p_bo env))"
  from Cons.prems(1) obtain pd where r: "record_wf r" "payload_constructor r = Some (BIN_PAYLOAD pd)" "bin_ok pd"
    by (auto simp: parsed_rec_def)
  have pre: "(pre @ [r]) @ rs = pre @ r # rs" "length (pre @ [r]) = Suc (length pre)" by simp_all
  have at: "(map Some (pre @ r # rs) @ ex) ! length pre = Some r" "length pre < length (map Some (pre @ r # rs) @ ex)"
    by (simp_all add: nth_append)
  note chk = param_check [OF r(1) Cons.prems(2)]
  show ?case
  proof (cases "is_param r")
    case False
    then have f: "?F (r # rs) = ?F rs" using r(2) by (simp add: List.map_filter_simps svc_param_of_def)
    have "unat cnt + length (filter is_param rs) \<le> unat len" using Cons.prems(3) False by simp
    from Cons.IH [OF _ Cons.prems(2) this Cons.prems(4,5), of "pre @ [r]"] Cons.prems(1) False
    show ?thesis unfolding pre f using at chk by simp
  next
    case True
    then have k: "unat cnt < unat len" "unat cnt < length params" using Cons.prems(3,4) by simp_all
    then have c: "\<not> cnt > len" by (simp add: word_less_nat_alt)
    have u: "unat (cnt + 1) = Suc (unat cnt)"
      using k(1) unat_u8_less [of len] by (simp add: unat_word_ariths)
    obtain q' where q: "svc_param_record_get env pd (Some (params ! unat cnt)) =
      (case svc_param_of (p_bo env) r of Some q \<Rightarrow> Ok (Some q, None) | None \<Rightarrow> Ok (Some q', Some EFAULT))"
      using param_get [OF r(3), of env "params ! unat cnt"] r(2) True by (auto simp: svc_param_of_def)
    show ?thesis
    proof (cases "svc_param_of (p_bo env) r")
      case None
      then have f: "?F (r # rs) = ?F rs" by (simp add: List.map_filter_simps)
      have "unat cnt + length (filter is_param rs) \<le> unat len" "unat len \<le> length (params[unat cnt := q'])"
        "take (unat cnt) (params[unat cnt := q']) = found" using Cons.prems(3-5) True by simp_all
      from Cons.IH [OF _ Cons.prems(2) this, of "pre @ [r]"] Cons.prems(1)
      show ?thesis unfolding pre f using at chk c k(2) q None r(2) True by (simp add: payload_desc_def Let_def)
    next
      case (Some p)
      then have f: "?F (r # rs) = p # ?F rs" by (simp add: List.map_filter_simps)
      have "unat (cnt + 1) + length (filter is_param rs) \<le> unat len" "unat len \<le> length (params[unat cnt := p])"
        "take (unat (cnt + 1)) (params[unat cnt := p]) = found @ [p]"
        using Cons.prems(3-5) True k(2) by (simp_all add: u take_Suc_conv_app_nth)
      from Cons.IH [OF _ Cons.prems(2) this, of "pre @ [r]"] Cons.prems(1)
      show ?thesis unfolding pre f using at chk c k(2) q Some r(2) True u by (simp add: payload_desc_def Let_def add.assoc)
    qed
  qed
qed

text \<open>
  For a parsed message with at most as many service parameters records as the array of the caller has elements, the
  search stores exactly the services that the well-formed records announce, in their order, skips
  corrupted records and records of other types, and returns their number.
\<close>

lemma svc_search_correct:
  assumes "list_all parsed_rec rs" "\<not> CONFIG_ASSERT env" "rs \<noteq> []" "length rs < 2 ^ 32"
    and "record_array m = Some (map Some rs @ ex)" "record_count m = of_nat (length rs)"
    and "length (filter is_param rs) \<le> unat c" "0 < c" "unat c \<le> length params"
  shows "\<exists>params'. nfc_tnep_poller_svc_search env (Some m) (Some params) (Some c) =
      Ok (Some params', Some (of_nat (length (List.map_filter (svc_param_of (p_bo env)) rs))), None) \<and>
    length params' = length params \<and>
    take (length (List.map_filter (svc_param_of (p_bo env)) rs)) params' = List.map_filter (svc_param_of (p_bo env)) rs"
proof -
  have n: "unat (record_count m) = length rs" using assms(4,6) by (simp add: unat_of_nat_u32)
  then have "\<not> record_count m < 1" using assms(3) by (auto simp: word_less_nat_alt)
  with search_loop [OF assms(1,2), of 0 c params "[]" "[]" ex] assms(5-9) n show ?thesis
    by (auto simp: nfc_tnep_poller_svc_search_def word_less_nat_alt)
qed

text \<open>
  The number of services found is compared with the size of the array one too late: with an array of one
  service, a second service parameters record is stored behind the array.
\<close>

theorem svc_search_overrun:
  assumes "\<not> CONFIG_ASSERT env" "record_array m = Some (map Some [r, r'] @ ex)" "record_count m = 2"
    and "parsed_rec r" "svc_param_of (p_bo env) r \<noteq> None" "parsed_rec r'" "svc_param_of (p_bo env) r' \<noteq> None"
  shows "nfc_tnep_poller_svc_search env (Some m) (Some [q]) (Some 1) = Fault"
proof -
  from assms(4) obtain pd where r: "record_wf r" "payload_constructor r = Some (BIN_PAYLOAD pd)" "bin_ok pd" by (auto simp: parsed_rec_def)
  from assms(6) obtain pd' where r': "record_wf r'" "payload_constructor r' = Some (BIN_PAYLOAD pd')" "bin_ok pd'" by (auto simp: parsed_rec_def)
  obtain p where p: "param_of (p_bo env) (bin_bytes pd) (payload pd) = Some p" "is_param r"
    using assms(5) r(2) by (auto simp: svc_param_of_def split: if_splits)
  have p': "param_of (p_bo env) (bin_bytes pd') (payload pd') \<noteq> None" "is_param r'"
    using assms(7) r'(2) by (auto simp: svc_param_of_def split: if_splits)
  then have "7 \<le> length (bin_bytes pd')" by (auto simp: param_of_def split: if_splits)
  then have "\<not> payload_length pd' < 7" using r'(3) by (simp add: word_less_nat_alt)
  then have "svc_param_record_get env pd' None = Fault" by (simp add: svc_param_record_get_def)
  moreover from param_get [OF r(3), of env q] p(1) have "svc_param_record_get env pd (Some q) = Ok (Some p, None)" by auto
  ultimately have "svc_search_loop env (Some r # Some r' # ex) 1 (Suc (Suc 0)) 0 [q] 0 = Fault"
    using param_check [OF r(1) assms(1)] param_check [OF r'(1) assms(1)] p(2) p'(2) r(2) r'(2) by (simp add: payload_desc_def)
  then have "svc_search_loop env (Some r # Some r' # ex) 1 2 0 [q] 0 = Fault" by (simp only: numeral_2_eq_2)
  then show ?thesis using assms(2,3) by (simp add: nfc_tnep_poller_svc_search_def)
qed

end
