(* ===== verification/TNEP_Exchange.thy ===== *)
theory TNEP_Exchange
  imports TNEP_Tag_Sample TNEP_Poller
begin

unbundle bit_operations_syntax

text \<open>
  The two sides of the Tag NDEF Exchange Protocol together, over a Type 4 Tag file: the poller finds the
  services that the tag announces, the tag selects the service that the poller asks for, and the poller
  receives the answer of that service with its status.
\<close>

section \<open>Files\<close>

text \<open>The message in an NDEF file: as many bytes behind the length field as it says.\<close>

definition ndef_of_file :: "u8 list \<Rightarrow> u8 list" where
  "ndef_of_file b = take (be_val (take 2 b)) (drop 2 b)"

lemma ndef_of_file_bytes: "length x < 2 ^ 16 \<Longrightarrow> ndef_of_file (be_bytes 2 (length x) @ x @ rest) = x"
  by (simp add: ndef_of_file_def be_val_bytes)


text \<open>What the tag shows when it sends a message.\<close>

lemma swap_buffer:
  assumes "tag_inv0 env s" "data_set s"
  obtains p where "Some p = (if current_buff s = tx_data (tx s) then tx_swap_data (tx s) else tx_data (tx s))"
    "unat (tx_len (tx s)) \<le> length (tag_mem s p)"
proof -
  have "(if current_buff s = tx_data (tx s) then tx_swap_data (tx s) else tx_data (tx s)) \<noteq> None"
    using assms by (simp add: tag_inv0_def)
  then obtain p where p: "Some p = (if current_buff s = tx_data (tx s) then tx_swap_data (tx s) else tx_data (tx s))"
    by (metis option.exhaust)
  then have "tx_data (tx s) = Some p \<or> tx_swap_data (tx s) = Some p" by (auto split: if_splits)
  then have "unat (tx_len (tx s)) \<le> length (tag_mem s p)" using assms(1) by (auto simp: tag_inv0_def)
  with p show ?thesis by (rule that)
qed


text \<open>
  What the tag shows as the empty message: the length field announces the rest of the buffer, so that the
  poller reads zeros and not a message of length 0.
\<close>

theorem empty_message_shown:
  assumes bo: "byteorder (env_bo env)" and inv: "tag_inv0 env s" "data_set s" and t4t: "CONFIG_NFC_T4T_NRFXLIB env"
    and n: "2 < unat (tx_len (tx s))" "unat (tx_len (tx s)) < 2 ^ 16"
  shows "\<exists>p b. tnep_tx_msg_encode env None s =
      Ok (s\<lparr>current_buff := Some p, tag_mem := (tag_mem s)(p := b)\<rparr>, [Data_set p b (tx_len (tx s))], None) \<and>
    ndef_of_file b = replicate (unat (tx_len (tx s)) - 2) 0"
proof -
  let ?n = "unat (tx_len (tx s))"
  obtain p where p: "Some p = (if current_buff s = tx_data (tx s) then tx_swap_data (tx s) else tx_data (tx s))"
    "?n \<le> length (tag_mem s p)" by (rule swap_buffer [OF inv])
  define x where "x = replicate (?n - 2) (0 :: u8)"
  define r where "r = drop ?n (tag_mem s p)"
  have "replicate (2 + (?n - 2)) 0 = replicate 2 0 @ x" unfolding x_def by (rule replicate_add)
  moreover have "2 + (?n - 2) = ?n" using n(1) by simp
  ultimately have "replicate ?n 0 = replicate 2 0 @ x" by metis
  moreover have lx: "Suc (Suc (length x)) = ?n" using n(1) by (simp add: x_def)
  ultimately have w: "wr (tag_mem s p) 0 (replicate ?n 0) = Ok (replicate 2 0 @ x @ r)" 
    using p(2) lx by (simp add: wr_def r_def)
  have l: "unat (tx_len (tx s) - 2) = length x" using n(1) by (simp add: x_def unat_sub word_le_nat_alt)
  then have "0 < tx_len (tx s) - 2" "tx_len (tx s) - 2 \<le> 0xFFFF" using n by (simp_all add: word_less_nat_alt word_le_nat_alt x_def)
  from ndef_file_encode_Ok [OF bo this, of "replicate 2 0 @ x @ r"] l
  have "nfc_t4t_ndef_file_encode (env_bo env) (Some (replicate 2 0 @ x @ r)) (Some (tx_len (tx s) - 2)) =
      Ok (be_bytes 2 (length x) @ x @ r, tx_len (tx s) - 2 + 2)" by (simp add: nfc_t4t_ndef_file_msg_get_def)
  with w t4t inv(2) have "tnep_tx_msg_encode env None s =
      Ok (s\<lparr>current_buff := Some p, tag_mem := (tag_mem s)(p := be_bytes 2 (length x) @ x @ r)\<rparr>,
        [Data_set p (be_bytes 2 (length x) @ x @ r) (tx_len (tx s))], None)"
    unfolding tnep_tx_msg_encode_def p(1) [symmetric] Let_def by simp
  moreover have "ndef_of_file (be_bytes 2 (length x) @ x @ r) = x" using n(2) by (intro ndef_of_file_bytes) (simp add: x_def)
  ultimately show ?thesis unfolding x_def by blast
qed




section \<open>The services\<close>














section \<open>The tag selects a service\<close>












section \<open>Service discovery\<close>


section \<open>Selection and answer\<close>


















section \<open>The sample\<close>





















end
