(* ===== verification/T2T_Parser.thy ===== *)
theory T2T_Parser
  imports NFC_Prelude
begin

unbundle bit_operations_syntax

text \<open>
  The Type 2 Tag parser: \<^verbatim>\<open>include/nfc/t2t/parser.h\<close>, \<^verbatim>\<open>include/nfc/t2t/tlv_block.h\<close> and
  \<^verbatim>\<open>subsys/nfc/t2t/parser.c\<close>. The loop over the data area is a partial function whose result
  \<^term>\<open>None\<close> stands for running forever; it is proved to return for every tag image.
\<close>

section \<open>Data\<close>

definition NFC_T2T_TLV_NULL :: u8 where "NFC_T2T_TLV_NULL = 0x00"
definition NFC_T2T_TLV_LOCK_CONTROL :: u8 where "NFC_T2T_TLV_LOCK_CONTROL = 0x01"
definition NFC_T2T_TLV_MEMORY_CONTROL :: u8 where "NFC_T2T_TLV_MEMORY_CONTROL = 0x02"
definition NFC_T2T_TLV_NDEF_MESSAGE :: u8 where "NFC_T2T_TLV_NDEF_MESSAGE = 0x03"
definition NFC_T2T_TLV_PROPRIETARY :: u8 where "NFC_T2T_TLV_PROPRIETARY = 0xFD"
definition NFC_T2T_TLV_TERMINATOR :: u8 where "NFC_T2T_TLV_TERMINATOR = 0xFE"

lemmas t2t_tag_defs = NFC_T2T_TLV_NULL_def NFC_T2T_TLV_LOCK_CONTROL_def
  NFC_T2T_TLV_MEMORY_CONTROL_def NFC_T2T_TLV_NDEF_MESSAGE_def NFC_T2T_TLV_PROPRIETARY_def
  NFC_T2T_TLV_TERMINATOR_def

abbreviation (input) NFC_T2T_TLV_T_LENGTH :: u16 where "NFC_T2T_TLV_T_LENGTH \<equiv> 1"
abbreviation (input) NFC_T2T_TLV_L_SHORT_LENGTH :: u16 where "NFC_T2T_TLV_L_SHORT_LENGTH \<equiv> 1"
abbreviation (input) NFC_T2T_TLV_L_LONG_LENGTH :: u16 where "NFC_T2T_TLV_L_LONG_LENGTH \<equiv> 3"
abbreviation (input) NFC_T2T_TLV_NULL_TERMINATOR_LEN :: u16
  where "NFC_T2T_TLV_NULL_TERMINATOR_LEN \<equiv> 0"
abbreviation (input) NFC_T2T_TLV_LOCK_MEMORY_CTRL_LEN :: u16
  where "NFC_T2T_TLV_LOCK_MEMORY_CTRL_LEN \<equiv> 3"
abbreviation (input) NFC_T2T_FIRST_DATA_BLOCK_OFFSET :: u16
  where "NFC_T2T_FIRST_DATA_BLOCK_OFFSET \<equiv> 16"

record nfc_t2t_tlv_block =
  t2t_tag :: u8
  t2t_length :: u16
  t2t_value :: cptr

record nfc_t2t_sn =
  manufacturer_id :: u8
  serial_number_part_1 :: u16
  serial_number_part_2 :: u32
  check_byte_0 :: u8
  check_byte_1 :: u8
  internal_byte :: u8

record nfc_t2t_cc =
  t2t_major_version :: u8
  t2t_minor_version :: u8
  data_area_size :: u16
  t2t_read_access :: u8
  t2t_write_access :: u8

record nfc_t2t =
  t2t_sn :: nfc_t2t_sn
  lock_bytes :: u16
  t2t_cc :: nfc_t2t_cc
  t2t_max_tlv_blocks :: u16
  t2t_block_array :: "nfc_t2t_tlv_block list"
  t2t_tlv_count :: u16

definition t2t_block_zero :: nfc_t2t_tlv_block where
  "t2t_block_zero = \<lparr>t2t_tag = 0, t2t_length = 0, t2t_value = None\<rparr>"

definition t2t_sn_zero :: nfc_t2t_sn where
  "t2t_sn_zero = \<lparr>manufacturer_id = 0, serial_number_part_1 = 0, serial_number_part_2 = 0,
     check_byte_0 = 0, check_byte_1 = 0, internal_byte = 0\<rparr>"

definition t2t_cc_zero :: nfc_t2t_cc where
  "t2t_cc_zero = \<lparr>t2t_major_version = 0, t2t_minor_version = 0, data_area_size = 0,
     t2t_read_access = 0, t2t_write_access = 0\<rparr>"

definition NFC_T2T_DESC_DEF :: "u16 \<Rightarrow> nfc_t2t" where
  "NFC_T2T_DESC_DEF max_blocks =
     \<lparr>t2t_sn = t2t_sn_zero, lock_bytes = 0, t2t_cc = t2t_cc_zero, t2t_max_tlv_blocks = max_blocks,
      t2t_block_array = replicate (unat max_blocks) t2t_block_zero, t2t_tlv_count = 0\<rparr>"

section \<open>Operations\<close>

definition t2t_LSN_GET :: "u8 \<Rightarrow> u8" where "t2t_LSN_GET v = v AND 0x0F"
definition t2t_MSN_GET :: "u8 \<Rightarrow> u8" where "t2t_MSN_GET v = drop_bit 4 v AND 0x0F"

definition nfc_t2t_tlv_block_insert :: "nfc_t2t \<Rightarrow> nfc_t2t_tlv_block \<Rightarrow> nfc_t2t res" where
  "nfc_t2t_tlv_block_insert t2t tlv_block =
     (if t2t_tlv_count t2t = t2t_max_tlv_blocks t2t then Err ENOMEM
      else if unat (t2t_tlv_count t2t) < length (t2t_block_array t2t)
      then Ok (t2t\<lparr>t2t_block_array := (t2t_block_array t2t)[unat (t2t_tlv_count t2t) := tlv_block],
                   t2t_tlv_count := t2t_tlv_count t2t + 1\<rparr>)
      else Fault)"

definition tlv_block_is_data_length_correct :: "nfc_t2t_tlv_block \<Rightarrow> bool" where
  "tlv_block_is_data_length_correct b =
     (if t2t_tag b = NFC_T2T_TLV_NULL \<or> t2t_tag b = NFC_T2T_TLV_TERMINATOR
      then t2t_length b = NFC_T2T_TLV_NULL_TERMINATOR_LEN
      else if t2t_tag b = NFC_T2T_TLV_LOCK_CONTROL \<or> t2t_tag b = NFC_T2T_TLV_MEMORY_CONTROL
      then t2t_length b = NFC_T2T_TLV_LOCK_MEMORY_CTRL_LEN
      else True)"

text \<open>The operands are promoted to \<^verbatim>\<open>int\<close>, so these sums do not wrap.\<close>

definition nfc_t2t_is_end_reached :: "nfc_t2t \<Rightarrow> u16 \<Rightarrow> bool" where
  "nfc_t2t_is_end_reached t2t offset \<longleftrightarrow>
     unat offset = unat (data_area_size (t2t_cc t2t)) + unat NFC_T2T_FIRST_DATA_BLOCK_OFFSET"

definition nfc_t2t_is_version_supported :: "nfc_t2t \<Rightarrow> bool" where
  "nfc_t2t_is_version_supported t2t \<longleftrightarrow> t2t_major_version (t2t_cc t2t) = 1"

definition nfc_t2t_is_field_within_data_range :: "nfc_t2t \<Rightarrow> u16 \<Rightarrow> u16 \<Rightarrow> bool" where
  "nfc_t2t_is_field_within_data_range t2t offset field_length =
     (if field_length = 0 then False
      else unat offset + unat field_length - 1 <
             unat (data_area_size (t2t_cc t2t)) + unat NFC_T2T_FIRST_DATA_BLOCK_OFFSET \<and>
           offset \<ge> NFC_T2T_FIRST_DATA_BLOCK_OFFSET)"

definition nfc_t2t_type_extract ::
    "nfc_t2t \<Rightarrow> u8 list \<Rightarrow> u16 \<Rightarrow> nfc_t2t_tlv_block \<Rightarrow> (u16 \<times> nfc_t2t_tlv_block) res" where
  "nfc_t2t_type_extract t2t raw_data t_offset tlv_buf =
     (if \<not> nfc_t2t_is_field_within_data_range t2t t_offset NFC_T2T_TLV_T_LENGTH then Err EINVAL
      else rbind (rd raw_data (unat t_offset)) (\<lambda>ty.
           Ok (t_offset + NFC_T2T_TLV_T_LENGTH, tlv_buf\<lparr>t2t_tag := ty\<rparr>)))"

definition nfc_t2t_length_extract ::
    "byteorder_ops \<Rightarrow> nfc_t2t \<Rightarrow> u8 list \<Rightarrow> u16 \<Rightarrow> nfc_t2t_tlv_block \<Rightarrow> (u16 \<times> nfc_t2t_tlv_block) res" where
  "nfc_t2t_length_extract bo t2t raw_data l_offset tlv_buf =
     (if \<not> nfc_t2t_is_field_within_data_range t2t l_offset NFC_T2T_TLV_L_SHORT_LENGTH then Err EINVAL
      else
        rbind (rd raw_data (unat l_offset)) (\<lambda>l0.
        if l0 = 0xFF then
          if \<not> nfc_t2t_is_field_within_data_range t2t l_offset NFC_T2T_TLV_L_LONG_LENGTH then Err EINVAL
          else rbind (be16_at bo raw_data (unat l_offset + 1)) (\<lambda>l.
               if l < 0xFF then Err EINVAL
               else Ok (l_offset + NFC_T2T_TLV_L_LONG_LENGTH, tlv_buf\<lparr>t2t_length := l\<rparr>))
        else Ok (l_offset + NFC_T2T_TLV_L_SHORT_LENGTH, tlv_buf\<lparr>t2t_length := ucast l0\<rparr>)))"

definition nfc_t2t_value_ptr_extract ::
    "nfc_t2t \<Rightarrow> u8 list \<Rightarrow> u16 \<Rightarrow> nfc_t2t_tlv_block \<Rightarrow> (u16 \<times> nfc_t2t_tlv_block) res" where
  "nfc_t2t_value_ptr_extract t2t raw_data v_offset tlv_buf =
     (if t2t_length tlv_buf = 0 then Ok (v_offset, tlv_buf\<lparr>t2t_value := None\<rparr>)
      else if \<not> nfc_t2t_is_field_within_data_range t2t v_offset (t2t_length tlv_buf) then Err EINVAL
      else Ok (v_offset + t2t_length tlv_buf, tlv_buf\<lparr>t2t_value := Some (drop (unat v_offset) raw_data)\<rparr>))"

definition nfc_t2t_tlv_block_extract ::
    "byteorder_ops \<Rightarrow> nfc_t2t \<Rightarrow> u8 list \<Rightarrow> u16 \<Rightarrow> (u16 \<times> nfc_t2t_tlv_block) res" where
  "nfc_t2t_tlv_block_extract bo t2t raw_data offset =
     rbind (nfc_t2t_type_extract t2t raw_data offset t2t_block_zero) (\<lambda>(offset, tlv_buf).
     if t2t_tag tlv_buf = NFC_T2T_TLV_NULL then Ok (offset, tlv_buf)
     else if t2t_tag tlv_buf = NFC_T2T_TLV_TERMINATOR then Ok (0, tlv_buf)
     else
       rbind (nfc_t2t_length_extract bo t2t raw_data offset tlv_buf) (\<lambda>(offset, tlv_buf).
       if t2t_length tlv_buf > 0 then nfc_t2t_value_ptr_extract t2t raw_data offset tlv_buf
       else Ok (offset, tlv_buf)))"

definition nfc_t2t_is_bcc_correct :: "nfc_t2t_sn \<Rightarrow> bool" where
  "nfc_t2t_is_bcc_correct sn =
     (let p1 = serial_number_part_1 sn; p2 = serial_number_part_2 sn;
          bcc1 = 0x88 XOR manufacturer_id sn XOR ucast (drop_bit 8 p1 AND 0xFF) XOR ucast (p1 AND 0xFF);
          bcc2 = ucast (drop_bit 24 p2 AND 0xFF) XOR ucast (drop_bit 16 p2 AND 0xFF) XOR
                 ucast (drop_bit 8 p2 AND 0xFF) XOR ucast (p2 AND 0xFF)
      in bcc1 = check_byte_0 sn \<and> bcc2 = check_byte_1 sn)"

text \<open>
  \<^verbatim>\<open>nfc_t2t_internal_parse\<close>. A wrong checksum only writes a log message, so it does not show
  in the result.
\<close>

definition nfc_t2t_internal_parse :: "byteorder_ops \<Rightarrow> nfc_t2t \<Rightarrow> u8 list \<Rightarrow> nfc_t2t res" where
  "nfc_t2t_internal_parse bo t2t raw_data =
     rbind (rd raw_data 0) (\<lambda>mid.
     rbind (be16_at bo raw_data 1) (\<lambda>s1.
     rbind (rd raw_data 3) (\<lambda>c0.
     rbind (be32_at bo raw_data 4) (\<lambda>s2.
     rbind (rd raw_data 8) (\<lambda>c1.
     rbind (rd raw_data 9) (\<lambda>i.
     rbind (be16_at bo raw_data 10) (\<lambda>lock.
     Ok (t2t\<lparr>t2t_sn := \<lparr>manufacturer_id = mid, serial_number_part_1 = s1, serial_number_part_2 = s2,
                         check_byte_0 = c0, check_byte_1 = c1, internal_byte = i\<rparr>,
             lock_bytes := lock\<rparr>))))))))"

definition nfc_t2t_cc_parse :: "nfc_t2t \<Rightarrow> u8 list \<Rightarrow> nfc_t2t res" where
  "nfc_t2t_cc_parse t2t raw_data =
     rbind (rd raw_data 12) (\<lambda>magic.
     if magic \<noteq> 0xE1 then Err EINVAL
     else
       rbind (rd raw_data 13) (\<lambda>ver.
       rbind (rd raw_data 14) (\<lambda>sz.
       rbind (rd raw_data 15) (\<lambda>acc.
       Ok (t2t\<lparr>t2t_cc := \<lparr>t2t_major_version = t2t_MSN_GET ver, t2t_minor_version = t2t_LSN_GET ver,
                           data_area_size = ucast sz * 8,
                           t2t_read_access = t2t_MSN_GET acc, t2t_write_access = t2t_LSN_GET acc\<rparr>\<rparr>)))))"

text \<open>\<^verbatim>\<open>nfc_t2t_tlv_parse\<close>: the descriptor and the next offset.\<close>

definition nfc_t2t_tlv_parse ::
    "byteorder_ops \<Rightarrow> nfc_t2t \<Rightarrow> u8 list \<Rightarrow> u16 \<Rightarrow> (nfc_t2t \<times> u16) res" where
  "nfc_t2t_tlv_parse bo t2t raw_data tlv_offset =
     rbind (nfc_t2t_tlv_block_extract bo t2t raw_data tlv_offset) (\<lambda>(offset, new_block).
     if \<not> tlv_block_is_data_length_correct new_block then Err EINVAL
     else if t2t_tag new_block = NFC_T2T_TLV_NULL \<or> t2t_tag new_block = NFC_T2T_TLV_TERMINATOR
     then Ok (t2t, offset)
     else rbind (nfc_t2t_tlv_block_insert t2t new_block) (\<lambda>t2t. Ok (t2t, offset)))"

definition nfc_t2t_clear :: "nfc_t2t \<Rightarrow> nfc_t2t" where
  "nfc_t2t_clear t2t = t2t\<lparr>t2t_tlv_count := 0, t2t_cc := t2t_cc_zero, t2t_sn := t2t_sn_zero\<rparr>"

text \<open>A failing step leaves the descriptor as it was before the step.\<close>

partial_function (option) t2t_parse_loop ::
    "byteorder_ops \<Rightarrow> nfc_t2t \<Rightarrow> u8 list \<Rightarrow> u16 \<Rightarrow> (nfc_t2t \<times> unit res) option" where
  [code]: "t2t_parse_loop bo t2t raw_data offset =
     (if offset > 0 then
        if nfc_t2t_is_end_reached t2t offset then Some (t2t, Ok ())
        else case nfc_t2t_tlv_parse bo t2t raw_data offset of
               Ok p \<Rightarrow> t2t_parse_loop bo (fst p) raw_data (snd p)
             | Err e \<Rightarrow> Some (t2t, Err e)
             | Fault \<Rightarrow> Some (t2t, Fault)
      else Some (t2t, Ok ()))"

definition nfc_t2t_parse ::
    "byteorder_ops \<Rightarrow> nfc_t2t \<Rightarrow> u8 list \<Rightarrow> (nfc_t2t \<times> unit res) option" where
  "nfc_t2t_parse bo t2t raw_data =
     (let t2t = nfc_t2t_clear t2t in
      case nfc_t2t_internal_parse bo t2t raw_data of
        Err e \<Rightarrow> Some (t2t, Err e)
      | Fault \<Rightarrow> Some (t2t, Fault)
      | Ok t2t \<Rightarrow>
          (case nfc_t2t_cc_parse t2t raw_data of
             Err e \<Rightarrow> Some (t2t, Err e)
           | Fault \<Rightarrow> Some (t2t, Fault)
           | Ok t2t \<Rightarrow>
               if \<not> nfc_t2t_is_version_supported t2t then Some (t2t, Err EFAULT)
               else t2t_parse_loop bo t2t raw_data NFC_T2T_FIRST_DATA_BLOCK_OFFSET))"

section \<open>Tag images\<close>

text \<open>
  The data area of a tag is a sequence of padding bytes and TLV blocks, closed by a terminator
  or by the end of the area (NFC Forum Type 2 Tag, section 2.3).
\<close>

datatype t2t_elem = Pad | Blk u8 "u8 list"

definition t2t_len_bytes :: "nat \<Rightarrow> u8 list" where
  "t2t_len_bytes n = (if n < 255 then [of_nat n] else 0xFF # be_bytes 2 n)"

primrec t2t_elem_bytes :: "t2t_elem \<Rightarrow> u8 list" where
  "t2t_elem_bytes Pad = [NFC_T2T_TLV_NULL]"
| "t2t_elem_bytes (Blk ty v) = ty # t2t_len_bytes (length v) @ v"

primrec t2t_elem_ok :: "t2t_elem \<Rightarrow> bool" where
  "t2t_elem_ok Pad = True"
| "t2t_elem_ok (Blk ty v) =
     (ty \<noteq> NFC_T2T_TLV_NULL \<and> ty \<noteq> NFC_T2T_TLV_TERMINATOR \<and> length v < 65536 \<and>
      (ty = NFC_T2T_TLV_LOCK_CONTROL \<or> ty = NFC_T2T_TLV_MEMORY_CONTROL \<longrightarrow> length v = 3))"

text \<open>The blocks of a sequence of elements, and what it means that descriptors hold them.\<close>

fun t2t_content :: "t2t_elem list \<Rightarrow> (u8 \<times> u8 list) list" where
  "t2t_content [] = []"
| "t2t_content (Pad # es) = t2t_content es"
| "t2t_content (Blk ty v # es) = (ty, v) # t2t_content es"

definition t2t_block_holds :: "nfc_t2t_tlv_block \<Rightarrow> u8 \<times> u8 list \<Rightarrow> bool" where
  "t2t_block_holds b p \<longleftrightarrow> t2t_tag b = fst p \<and> unat (t2t_length b) = length (snd p) \<and>
     readable (t2t_value b) (length (snd p)) \<and> pbytes (t2t_value b) (length (snd p)) = snd p"

definition t2t_wf :: "nfc_t2t \<Rightarrow> bool" where
  "t2t_wf t \<longleftrightarrow> length (t2t_block_array t) = unat (t2t_max_tlv_blocks t) \<and>
     t2t_tlv_count t \<le> t2t_max_tlv_blocks t"

definition t2t_blocks :: "nfc_t2t \<Rightarrow> nfc_t2t_tlv_block list" where
  "t2t_blocks t = take (unat (t2t_tlv_count t)) (t2t_block_array t)"

text \<open>The end of the data area; the size byte of the Capability Container bounds it by 2056.\<close>

definition t2t_end :: "nfc_t2t \<Rightarrow> nat" where
  "t2t_end t = unat (data_area_size (t2t_cc t)) + 16"

definition t2t_head :: "nfc_t2t \<Rightarrow> nfc_t2t_sn \<times> u16 \<times> nfc_t2t_cc \<times> u16" where
  "t2t_head t = (t2t_sn t, lock_bytes t, t2t_cc t, t2t_max_tlv_blocks t)"

lemma t2t_within_iff:
  "nfc_t2t_is_field_within_data_range t off n \<longleftrightarrow>
     n \<noteq> 0 \<and> unat off + unat n \<le> t2t_end t \<and> 16 \<le> off"
proof -
  have "n \<noteq> 0 \<Longrightarrow> 0 < unat n" by (simp add: unat_gt_0)
  then show ?thesis by (auto simp: nfc_t2t_is_field_within_data_range_def t2t_end_def)
qed

lemma t2t_end_head: "t2t_head t = t2t_head t' \<Longrightarrow> t2t_end t = t2t_end t'"
  by (simp add: t2t_head_def t2t_end_def)

lemma t2t_offset_add:
  fixes off n :: u16
  assumes "unat off + unat n \<le> e" "e < 65536"
  shows "unat (off + n) = unat off + unat n"
  using assms by (simp add: unat_word_ariths)

lemma t2t_insert_cases:
  assumes wf: "t2t_wf t"
  obtains "t2t_tlv_count t = t2t_max_tlv_blocks t" "nfc_t2t_tlv_block_insert t b = Err ENOMEM"
  | t' where "t2t_tlv_count t < t2t_max_tlv_blocks t" "nfc_t2t_tlv_block_insert t b = Ok t'"
      "t2t_wf t'" "t2t_blocks t' = t2t_blocks t @ [b]" "t2t_head t' = t2t_head t"
      "t2t_tlv_count t' = t2t_tlv_count t + 1"
proof (cases "t2t_tlv_count t = t2t_max_tlv_blocks t")
  case True
  then show ?thesis by (intro that(1)) (simp_all add: nfc_t2t_tlv_block_insert_def)
next
  case False
  with wf have lt: "t2t_tlv_count t < t2t_max_tlv_blocks t" by (auto simp: t2t_wf_def)
  then have i: "unat (t2t_tlv_count t) < length (t2t_block_array t)"
    and s: "unat (t2t_tlv_count t + 1) = Suc (unat (t2t_tlv_count t))"
    using wf by (simp_all add: t2t_wf_def word_less_nat_alt unat_less_Suc)
  let ?t = "t\<lparr>t2t_block_array := (t2t_block_array t)[unat (t2t_tlv_count t) := b],
              t2t_tlv_count := t2t_tlv_count t + 1\<rparr>"
  show ?thesis
  proof (rule that(2))
    show "nfc_t2t_tlv_block_insert t b = Ok ?t" using False i by (simp add: nfc_t2t_tlv_block_insert_def)
    show "t2t_wf ?t" using wf i s by (simp add: t2t_wf_def word_le_nat_alt)
    show "t2t_blocks ?t = t2t_blocks t @ [b]" using i s by (simp add: t2t_blocks_def take_Suc_conv_app_nth)
  qed (simp_all add: lt t2t_head_def)
qed

section \<open>Single fields\<close>

lemma t2t_length_extract_OkD:
  assumes bo: "byteorder bo" and e: "t2t_end t < 65536" "t2t_end t \<le> length raw"
    and ok: "nfc_t2t_length_extract bo t raw off buf = Ok (off', buf')"
  shows "\<exists>l. buf' = buf\<lparr>t2t_length := l\<rparr> \<and> unat off' \<le> t2t_end t \<and> 16 \<le> unat off \<and>
    unat off' = unat off + length (t2t_len_bytes (unat l)) \<and>
    take (length (t2t_len_bytes (unat l))) (drop (unat off) raw) = t2t_len_bytes (unat l)"
proof -
  from ok have r1: "unat off + 1 \<le> t2t_end t" "16 \<le> unat off" and lr: "unat off < length raw"
    by (auto simp: nfc_t2t_length_extract_def t2t_within_iff rbind_iffs rd_def word_le_nat_alt
        split: if_splits)
  then have d: "drop (unat off) raw = raw ! unat off # drop (Suc (unat off)) raw"
    by (simp add: Cons_nth_drop_Suc)
  show ?thesis
  proof (cases "raw ! unat off = 0xFF")
    case True
    with ok obtain l where l: "be16_at bo raw (unat off + 1) = Ok l" "\<not> l < 0xFF"
      "off' = off + 3" "buf' = buf\<lparr>t2t_length := l\<rparr>" and r3: "unat off + 3 \<le> t2t_end t"
      by (auto simp: nfc_t2t_length_extract_def t2t_within_iff rbind_iffs rd_def split: if_splits)
    have "take 2 (drop (Suc (unat off)) raw) = be_bytes 2 (unat l)"
      using l(1) by (simp add: byteorder.be16_at_Ok_iff [OF bo])
    moreover have "t2t_len_bytes (unat l) = 0xFF # be_bytes 2 (unat l)"
      using l(2) by (simp add: t2t_len_bytes_def word_less_nat_alt)
    moreover have "unat off' = unat off + 3"
      using t2t_offset_add [of off 3] r3 e(1) l(3) by simp
    ultimately show ?thesis
      using l(4) r1 r3 d True by (intro exI [of _ l]) (simp add: numeral_3_eq_3 numeral_2_eq_2)
  next
    case False
    with ok have o: "off' = off + 1" "buf' = buf\<lparr>t2t_length := ucast (raw ! unat off)\<rparr>"
      by (auto simp: nfc_t2t_length_extract_def t2t_within_iff rbind_iffs rd_def split: if_splits)
    have "unat (raw ! unat off) \<noteq> unat (0xFF :: u8)" using False unfolding word_unat_eq_iff by simp
    then have "unat (raw ! unat off) < 255" using unat_u8_less [of "raw ! unat off"] by simp
    then have "t2t_len_bytes (unat (ucast (raw ! unat off) :: u16)) = [raw ! unat off]"
      by (simp add: t2t_len_bytes_def)
    moreover have "unat off' = unat off + 1"
      using t2t_offset_add [of off 1] r1 e(1) o(1) by simp
    ultimately show ?thesis
      using o(2) r1 d by (intro exI [of _ "ucast (raw ! unat off)"]) simp
  qed
qed

text \<open>A successfully extracted block, and the bytes it was extracted from.\<close>

lemma t2t_block_extract_OkD:
  assumes bo: "byteorder bo" and e: "t2t_end t < 65536" "t2t_end t \<le> length raw"
    and ok: "nfc_t2t_tlv_block_extract bo t raw off = Ok (off', b)"
  shows "16 \<le> unat off \<and> unat off < t2t_end t \<and>
    (t2t_tag b = NFC_T2T_TLV_NULL \<and> t2t_length b = 0 \<and> raw ! unat off = NFC_T2T_TLV_NULL \<and>
       unat off' = unat off + 1 \<or>
     t2t_tag b = NFC_T2T_TLV_TERMINATOR \<and> t2t_length b = 0 \<and> raw ! unat off = NFC_T2T_TLV_TERMINATOR \<and>
       off' = 0 \<or>
     (\<exists>v. t2t_tag b \<noteq> NFC_T2T_TLV_NULL \<and> t2t_tag b \<noteq> NFC_T2T_TLV_TERMINATOR \<and> length v < 65536 \<and>
        t2t_block_holds b (t2t_tag b, v) \<and> unat off' \<le> t2t_end t \<and>
        unat off' = unat off + length (t2t_elem_bytes (Blk (t2t_tag b) v)) \<and>
        take (length (t2t_elem_bytes (Blk (t2t_tag b) v))) (drop (unat off) raw) =
          t2t_elem_bytes (Blk (t2t_tag b) v)))"
proof -
  let ?o1 = "off + 1" and ?b1 = "t2t_block_zero\<lparr>t2t_tag := raw ! unat off\<rparr>"
  from ok have r: "unat off + 1 \<le> t2t_end t" "16 \<le> unat off"
    and ty: "nfc_t2t_type_extract t raw off t2t_block_zero = Ok (?o1, ?b1)"
    by (auto simp: nfc_t2t_tlv_block_extract_def nfc_t2t_type_extract_def t2t_within_iff rbind_iffs
        rd_def word_le_nat_alt split: if_splits)
  have o1: "unat ?o1 = unat off + 1" using t2t_offset_add [of off 1] r e(1) by simp
  show ?thesis
  proof (cases "raw ! unat off = NFC_T2T_TLV_NULL \<or> raw ! unat off = NFC_T2T_TLV_TERMINATOR")
    case True
    then show ?thesis
      using ok ty r o1 by (auto simp: nfc_t2t_tlv_block_extract_def t2t_block_zero_def t2t_tag_defs)
  next
    case False
    with ok ty obtain o2 b2 where
      le: "nfc_t2t_length_extract bo t raw ?o1 ?b1 = Ok (o2, b2)" and
      vp: "(if t2t_length b2 > 0 then nfc_t2t_value_ptr_extract t raw o2 b2 else Ok (o2, b2)) = Ok (off', b)"
      by (auto simp: nfc_t2t_tlv_block_extract_def rbind_iffs)
    from t2t_length_extract_OkD [OF bo e le] obtain l where
      b2: "b2 = ?b1\<lparr>t2t_length := l\<rparr>" and o2: "unat o2 \<le> t2t_end t"
        "unat o2 = unat ?o1 + length (t2t_len_bytes (unat l))"
      and hb: "take (length (t2t_len_bytes (unat l))) (drop (unat ?o1) raw) = t2t_len_bytes (unat l)"
      by blast
    let ?h = "t2t_len_bytes (unat l)"
    define v where "v = take (unat l) (drop (unat o2) raw)"
    have off': "unat off' = unat o2 + unat l" "unat off' \<le> t2t_end t" "t2t_length b = l"
      "t2t_tag b = raw ! unat off" "t2t_value b = (if l = 0 then None else Some (drop (unat o2) raw))"
      using vp o2 b2 e(1) t2t_offset_add [of o2 l "t2t_end t"]
      by (auto simp: nfc_t2t_value_ptr_extract_def t2t_within_iff t2t_block_zero_def word_gt_0
          split: if_splits)
    have lv: "length v = unat l" using off' e(2) by (simp add: v_def)
    have holds: "t2t_block_holds b (t2t_tag b, v)"
      using off' lv by (auto simp: t2t_block_holds_def readable_def pbytes_def v_def)
    have "drop (unat off) raw = raw ! unat off # drop (unat ?o1) raw"
      using r e(2) o1 by (simp add: Cons_nth_drop_Suc)
    moreover have "take (length ?h + unat l) (drop (unat ?o1) raw) = ?h @ v"
      using take_add [of "length ?h" "unat l" "drop (unat ?o1) raw"] hb o2(2)
      by (simp add: v_def add.commute)
    ultimately have "take (length (t2t_elem_bytes (Blk (t2t_tag b) v))) (drop (unat off) raw) =
        t2t_elem_bytes (Blk (t2t_tag b) v)"
      using lv off'(4) by simp
    moreover have "length v < 65536" using lv unat_u16_less [of l] by simp
    ultimately show ?thesis
      using r False off' o1 o2 lv holds by (intro conjI disjI2 exI [of _ v]) auto
  qed
qed

text \<open>No field is read outside the data area.\<close>

lemma t2t_block_extract_not_Fault:
  assumes e: "t2t_end t < 65536" "t2t_end t \<le> length raw"
  shows "nfc_t2t_tlv_block_extract bo t raw off \<noteq> Fault"
proof -
  have "nfc_t2t_type_extract t raw off b \<noteq> Fault" for b
    using e by (auto simp: nfc_t2t_type_extract_def t2t_within_iff rbind_iffs rd_def)
  moreover have "nfc_t2t_length_extract bo t raw o' b \<noteq> Fault" for o' b
    using e by (auto simp: nfc_t2t_length_extract_def t2t_within_iff rbind_iffs rd_def be16_at_def
        rdn_def split: if_splits)
  moreover have "nfc_t2t_value_ptr_extract t raw o' b \<noteq> Fault" for o' b
    by (simp add: nfc_t2t_value_ptr_extract_def)
  ultimately show ?thesis
    by (auto simp: nfc_t2t_tlv_block_extract_def rbind_iffs split: if_splits)
qed

section \<open>The loop\<close>

lemma t2t_content_Cons: "t2t_content (el # es) = t2t_content [el] @ t2t_content es"
  by (cases el) simp_all

lemma t2t_tlv_parse_step:
  assumes bo: "byteorder bo" and wf: "t2t_wf t" and e: "t2t_end t < 65536" "t2t_end t \<le> length raw"
    and ok: "nfc_t2t_tlv_parse bo t raw off = Ok (t', off')"
  shows "t2t_wf t' \<and> t2t_head t' = t2t_head t \<and>
    (off' = 0 \<and> t' = t \<and> unat off < t2t_end t \<and> raw ! unat off = NFC_T2T_TLV_TERMINATOR \<or>
     (\<exists>el bs. t2t_elem_ok el \<and> unat off' = unat off + length (t2t_elem_bytes el) \<and>
        unat off' \<le> t2t_end t \<and> 16 \<le> unat off \<and>
        take (length (t2t_elem_bytes el)) (drop (unat off) raw) = t2t_elem_bytes el \<and>
        t2t_blocks t' = t2t_blocks t @ bs \<and> list_all2 t2t_block_holds bs (t2t_content [el])))"
proof -
  from ok obtain b where ex: "nfc_t2t_tlv_block_extract bo t raw off = Ok (off', b)"
    and len: "tlv_block_is_data_length_correct b"
    and ins: "if t2t_tag b = NFC_T2T_TLV_NULL \<or> t2t_tag b = NFC_T2T_TLV_TERMINATOR then t' = t
              else nfc_t2t_tlv_block_insert t b = Ok t'"
    by (auto simp: nfc_t2t_tlv_parse_def rbind_iffs split: if_splits)
  from t2t_block_extract_OkD [OF bo e ex] have off: "16 \<le> unat off" "unat off < t2t_end t"
    and d: "t2t_tag b = NFC_T2T_TLV_NULL \<and> raw ! unat off = NFC_T2T_TLV_NULL \<and> unat off' = unat off + 1 \<or>
     t2t_tag b = NFC_T2T_TLV_TERMINATOR \<and> raw ! unat off = NFC_T2T_TLV_TERMINATOR \<and> off' = 0 \<or>
     (\<exists>v. t2t_tag b \<noteq> NFC_T2T_TLV_NULL \<and> t2t_tag b \<noteq> NFC_T2T_TLV_TERMINATOR \<and> length v < 65536 \<and>
        t2t_block_holds b (t2t_tag b, v) \<and> unat off' \<le> t2t_end t \<and>
        unat off' = unat off + length (t2t_elem_bytes (Blk (t2t_tag b) v)) \<and>
        take (length (t2t_elem_bytes (Blk (t2t_tag b) v))) (drop (unat off) raw) =
          t2t_elem_bytes (Blk (t2t_tag b) v))"
    by blast+
  from d show ?thesis
  proof (elim disjE exE)
    assume p: "t2t_tag b = NFC_T2T_TLV_NULL \<and> raw ! unat off = NFC_T2T_TLV_NULL \<and> unat off' = unat off + 1"
    have "take 1 (drop (unat off) raw) = [raw ! unat off]"
      using off e(2) by (simp add: take_Suc_conv_app_nth)
    with p ins wf off show ?thesis
      by (intro conjI disjI2 exI [of _ Pad] exI [of _ "[]"]) auto
  next
    assume "t2t_tag b = NFC_T2T_TLV_TERMINATOR \<and> raw ! unat off = NFC_T2T_TLV_TERMINATOR \<and> off' = 0"
    with ins wf off show ?thesis by auto
  next
    fix v
    assume p: "t2t_tag b \<noteq> NFC_T2T_TLV_NULL \<and> t2t_tag b \<noteq> NFC_T2T_TLV_TERMINATOR \<and> length v < 65536 \<and>
        t2t_block_holds b (t2t_tag b, v) \<and> unat off' \<le> t2t_end t \<and>
        unat off' = unat off + length (t2t_elem_bytes (Blk (t2t_tag b) v)) \<and>
        take (length (t2t_elem_bytes (Blk (t2t_tag b) v))) (drop (unat off) raw) =
          t2t_elem_bytes (Blk (t2t_tag b) v)"
    then have "t2t_elem_ok (Blk (t2t_tag b) v)"
      using len by (auto simp: tlv_block_is_data_length_correct_def t2t_block_holds_def)
    moreover have i: "nfc_t2t_tlv_block_insert t b = Ok t'" using ins p by simp
    have "t2t_wf t' \<and> t2t_head t' = t2t_head t \<and> t2t_blocks t' = t2t_blocks t @ [b]"
      by (rule t2t_insert_cases [OF wf, of b]) (use i in auto)
    ultimately show ?thesis
      using p off(1) by (intro conjI disjI2 exI [of _ "Blk (t2t_tag b) v"] exI [of _ "[b]"]) auto
  qed
qed

lemma t2t_tlv_parse_not_Fault:
  assumes "t2t_wf t" "t2t_end t < 65536" "t2t_end t \<le> length raw"
  shows "nfc_t2t_tlv_parse bo t raw off \<noteq> Fault"
proof -
  have "nfc_t2t_tlv_block_insert t b \<noteq> Fault" for b
    by (rule t2t_insert_cases [OF assms(1), of b]) simp_all
  then show ?thesis
    using t2t_block_extract_not_Fault [OF assms(2,3)]
    by (auto simp: nfc_t2t_tlv_parse_def rbind_iffs split: if_splits)
qed

definition t2t_area_is :: "u8 list \<Rightarrow> t2t_elem list \<Rightarrow> bool" where
  "t2t_area_is area es \<longleftrightarrow> (\<forall>el \<in> set es. t2t_elem_ok el) \<and>
     (area = concat (map t2t_elem_bytes es) \<or>
      (\<exists>rest. area = concat (map t2t_elem_bytes es) @ NFC_T2T_TLV_TERMINATOR # rest))"

text \<open>The loop returns, stays inside the data area and stores what the area contains.\<close>

lemma t2t_parse_loop_sound:
  assumes bo: "byteorder bo"
  shows "t2t_wf t \<Longrightarrow> t2t_end t < 65536 \<Longrightarrow> t2t_end t \<le> length raw \<Longrightarrow> 16 \<le> unat off \<Longrightarrow>
    unat off \<le> t2t_end t \<Longrightarrow>
    \<exists>t' r. t2t_parse_loop bo t raw off = Some (t', r) \<and> t2t_wf t' \<and> t2t_head t' = t2t_head t \<and> r \<noteq> Fault \<and>
      (r = Ok () \<longrightarrow> (\<exists>es bs. t2t_area_is (take (t2t_end t - unat off) (drop (unat off) raw)) es \<and>
         t2t_blocks t' = t2t_blocks t @ bs \<and> list_all2 t2t_block_holds bs (t2t_content es)))"
proof (induction "t2t_end t - unat off" arbitrary: t off rule: less_induct)
  case less
  note wf = less.prems(1) and e = less.prems(2,3)
  have pos: "off > 0" using less.prems(4) by (simp add: word_less_nat_alt del: unat_gt_0)
  have endr: "nfc_t2t_is_end_reached t off \<longleftrightarrow> unat off = t2t_end t"
    by (simp add: nfc_t2t_is_end_reached_def t2t_end_def)
  show ?case
  proof (cases "unat off = t2t_end t")
    case True
    then show ?thesis
      using pos endr wf
      by (subst t2t_parse_loop.simps) (auto simp: t2t_area_is_def intro!: exI [of _ "[]"])
  next
    case False
    show ?thesis
    proof (cases "nfc_t2t_tlv_parse bo t raw off")
      case (Err x)
      then show ?thesis using pos endr False wf by (subst t2t_parse_loop.simps) auto
    next
      case Fault
      then show ?thesis using t2t_tlv_parse_not_Fault [OF wf e] by simp
    next
      case (Ok p)
      obtain t1 off1 where p: "p = (t1, off1)" by (cases p)
      from t2t_tlv_parse_step [OF bo wf e, of off t1 off1] Ok p
      have t1: "t2t_wf t1" "t2t_head t1 = t2t_head t"
        and d: "off1 = 0 \<and> t1 = t \<and> raw ! unat off = NFC_T2T_TLV_TERMINATOR \<or>
         (\<exists>el bs. t2t_elem_ok el \<and> unat off1 = unat off + length (t2t_elem_bytes el) \<and>
          unat off1 \<le> t2t_end t \<and>
          take (length (t2t_elem_bytes el)) (drop (unat off) raw) = t2t_elem_bytes el \<and>
          t2t_blocks t1 = t2t_blocks t @ bs \<and> list_all2 t2t_block_holds bs (t2t_content [el]))"
        by auto
      have loop: "t2t_parse_loop bo t raw off = t2t_parse_loop bo t1 raw off1"
        using Ok p pos endr False by (subst t2t_parse_loop.simps) simp
      from d show ?thesis
      proof (elim disjE exE conjE)
        assume "off1 = 0" "t1 = t" and tm: "raw ! unat off = NFC_T2T_TLV_TERMINATOR"
        then have "t2t_parse_loop bo t raw off = Some (t, Ok ())"
          unfolding loop by (subst t2t_parse_loop.simps) simp
        moreover have "unat off < t2t_end t" using False less.prems(5) by simp
        then have "take (t2t_end t - unat off) (drop (unat off) raw) =
            NFC_T2T_TLV_TERMINATOR # take (t2t_end t - unat off - 1) (drop (Suc (unat off)) raw)"
          using e(2) tm by (simp add: Cons_nth_drop_Suc [symmetric] take_Cons')
        then have "t2t_area_is (take (t2t_end t - unat off) (drop (unat off) raw)) []"
          by (simp add: t2t_area_is_def)
        ultimately show ?thesis
          using wf by (auto intro!: exI [of _ "[]"])
      next
        fix el bs
        assume el: "t2t_elem_ok el" "unat off1 = unat off + length (t2t_elem_bytes el)"
          "unat off1 \<le> t2t_end t"
          "take (length (t2t_elem_bytes el)) (drop (unat off) raw) = t2t_elem_bytes el"
          "t2t_blocks t1 = t2t_blocks t @ bs" "list_all2 t2t_block_holds bs (t2t_content [el])"
        have e1: "t2t_end t1 = t2t_end t" using t1(2) by (rule t2t_end_head)
        have "0 < length (t2t_elem_bytes el)" by (cases el) simp_all
        then have "t2t_end t1 - unat off1 < t2t_end t - unat off" using el(2,3) e1 by linarith
        from less.hyps [OF this t1(1)] obtain t' r where
          IH: "t2t_parse_loop bo t1 raw off1 = Some (t', r)" "t2t_wf t'" "t2t_head t' = t2t_head t1" "r \<noteq> Fault"
            "r = Ok () \<longrightarrow> (\<exists>es bs. t2t_area_is (take (t2t_end t - unat off1) (drop (unat off1) raw)) es \<and>
               t2t_blocks t' = t2t_blocks t1 @ bs \<and> list_all2 t2t_block_holds bs (t2t_content es))"
          using e1 e el(2,3) less.prems(4) by auto
        have split: "take (t2t_end t - unat off) (drop (unat off) raw) =
            t2t_elem_bytes el @ take (t2t_end t - unat off1) (drop (unat off1) raw)"
          using take_add [of "length (t2t_elem_bytes el)" "t2t_end t - unat off1" "drop (unat off) raw"]
            el(2,3,4) by (simp add: add.commute)
        have "\<exists>es bs. t2t_area_is (take (t2t_end t - unat off) (drop (unat off) raw)) es \<and>
            t2t_blocks t' = t2t_blocks t @ bs \<and> list_all2 t2t_block_holds bs (t2t_content es)"
          if "r = Ok ()"
        proof -
          from IH(5) that obtain es bs' where
            "t2t_area_is (take (t2t_end t - unat off1) (drop (unat off1) raw)) es"
            "t2t_blocks t' = t2t_blocks t1 @ bs'" "list_all2 t2t_block_holds bs' (t2t_content es)"
            by blast
          then show ?thesis
            using el split t2t_content_Cons [of el es]
            by (intro exI [of _ "el # es"] exI [of _ "bs @ bs'"])
              (auto simp: t2t_area_is_def intro: list_all2_appendI)
        qed
        then show ?thesis using IH t1 loop by auto
      qed
    qed
  qed
qed

section \<open>Every image is accepted\<close>

lemma t2t_length_extract_bytes:
  assumes bo: "byteorder bo" and off: "16 \<le> unat off" and n: "n < 65536"
    and fit: "unat off + length (t2t_len_bytes n) \<le> t2t_end t"
    and raw: "drop (unat off) raw = t2t_len_bytes n @ rest"
  shows "nfc_t2t_length_extract bo t raw off buf =
    Ok (off + of_nat (length (t2t_len_bytes n)), buf\<lparr>t2t_length := of_nat n\<rparr>)"
proof -
  have lr: "unat off < length raw"
    using raw by (cases "unat off < length raw") (auto simp: t2t_len_bytes_def split: if_splits)
  then have d: "drop (unat off) raw = raw ! unat off # drop (Suc (unat off)) raw"
    by (simp add: Cons_nth_drop_Suc)
  show ?thesis
  proof (cases "n < 255")
    case True
    then have h: "raw ! unat off = of_nat n" using raw d by (simp add: t2t_len_bytes_def)
    have un: "unat (of_nat n :: u8) = n" using True by (simp add: unat_of_nat)
    then have "(of_nat n :: u8) \<noteq> 0xFF" using True by (auto simp: word_unat_eq_iff)
    moreover have "(ucast (of_nat n :: u8) :: u16) = of_nat n"
      using un True by (simp add: word_unat_eq_iff unat_of_nat)
    ultimately show ?thesis
      using True h lr off fit
      by (simp add: nfc_t2t_length_extract_def t2t_within_iff rd_def t2t_len_bytes_def word_le_nat_alt)
  next
    case False
    then have h: "raw ! unat off = 0xFF" "drop (Suc (unat off)) raw = be_bytes 2 n @ rest"
      using raw d by (simp_all add: t2t_len_bytes_def)
    have un: "unat (of_nat n :: u16) = n" using n by (simp add: unat_of_nat)
    have "length (drop (Suc (unat off)) raw) = 2 + length rest" unfolding h(2) by simp
    then have "unat off + 1 + 2 \<le> length raw" by simp
    then have "be16_at bo raw (unat off + 1) = Ok (of_nat n)"
      unfolding byteorder.be16_at_Ok_iff [OF bo] using h(2) un by simp
    moreover have "\<not> (of_nat n :: u16) < 0xFF" using False un by (simp add: word_less_nat_alt)
    ultimately show ?thesis
      using False h(1) lr off fit
      by (simp add: nfc_t2t_length_extract_def t2t_within_iff rd_def t2t_len_bytes_def word_le_nat_alt)
  qed
qed

lemma t2t_block_extract_Blk:
  assumes bo: "byteorder bo" and off: "16 \<le> unat off" and ok: "t2t_elem_ok (Blk ty v)"
    and e: "t2t_end t < 65536"
    and fit: "unat off + length (t2t_elem_bytes (Blk ty v)) \<le> t2t_end t"
    and raw: "drop (unat off) raw = t2t_elem_bytes (Blk ty v) @ rest"
  shows "nfc_t2t_tlv_block_extract bo t raw off =
    Ok (off + of_nat (length (t2t_elem_bytes (Blk ty v))),
        \<lparr>t2t_tag = ty, t2t_length = of_nat (length v),
         t2t_value = (if v = [] then None else Some (v @ rest))\<rparr>)"
proof -
  let ?h = "t2t_len_bytes (length v)"
  have lr: "unat off < length raw" using raw by (cases "unat off < length raw") auto
  then have d: "raw ! unat off = ty" "drop (Suc (unat off)) raw = ?h @ v @ rest"
    using raw by (simp_all add: Cons_nth_drop_Suc [symmetric])
  have o1: "unat (off + 1) = unat off + 1"
    using t2t_offset_add [of off 1 "t2t_end t"] fit e by simp
  have o2: "unat (off + 1 + of_nat (length ?h)) = unat off + 1 + length ?h"
    using t2t_offset_add [of "off + 1" "of_nat (length ?h)" "t2t_end t"] fit e o1
    by (simp add: unat_of_nat)
  have le: "nfc_t2t_length_extract bo t raw (off + 1) b =
      Ok (off + 1 + of_nat (length ?h), b\<lparr>t2t_length := of_nat (length v)\<rparr>)" for b
    using off ok fit d(2) o1 by (intro t2t_length_extract_bytes [OF bo]) simp_all
  have v0: "(of_nat (length v) :: u16) = 0 \<longleftrightarrow> v = []" and uv: "unat (of_nat (length v) :: u16) = length v"
    using ok by (simp_all add: word_unat_eq_iff unat_of_nat)
  have "drop (unat (off + 1 + of_nat (length ?h))) raw = v @ rest"
    unfolding o2 using d(2) by (metis add.commute add.left_commute append_eq_conv_conj drop_drop plus_1_eq_Suc)
  then show ?thesis
    using d(1) lr off ok fit le v0 uv o1 o2
    by (auto simp: nfc_t2t_tlv_block_extract_def nfc_t2t_type_extract_def t2t_within_iff rd_def
        nfc_t2t_value_ptr_extract_def t2t_block_zero_def word_le_nat_alt word_gt_0 add.assoc)
qed

lemma t2t_tlv_parse_elem:
  assumes bo: "byteorder bo" and wf: "t2t_wf t" and e: "t2t_end t < 65536"
    and off: "16 \<le> unat off" and ok: "t2t_elem_ok el"
    and fit: "unat off + length (t2t_elem_bytes el) \<le> t2t_end t"
    and raw: "drop (unat off) raw = t2t_elem_bytes el @ rest"
    and room: "unat (t2t_tlv_count t) + length (t2t_content [el]) \<le> unat (t2t_max_tlv_blocks t)"
  obtains t' bs where
    "nfc_t2t_tlv_parse bo t raw off = Ok (t', off + of_nat (length (t2t_elem_bytes el)))"
    "t2t_wf t'" "t2t_head t' = t2t_head t" "t2t_blocks t' = t2t_blocks t @ bs"
    "unat (t2t_tlv_count t') = unat (t2t_tlv_count t) + length (t2t_content [el])"
    "list_all2 t2t_block_holds bs (t2t_content [el])"
proof (cases el)
  case Pad
  have lr: "unat off < length raw" using raw Pad by (cases "unat off < length raw") auto
  then have "raw ! unat off = NFC_T2T_TLV_NULL" using raw Pad by (simp add: Cons_nth_drop_Suc [symmetric])
  then have "nfc_t2t_tlv_parse bo t raw off = Ok (t, off + 1)"
    using off fit Pad lr
    by (simp add: nfc_t2t_tlv_parse_def nfc_t2t_tlv_block_extract_def nfc_t2t_type_extract_def
        t2t_within_iff rd_def word_le_nat_alt tlv_block_is_data_length_correct_def t2t_block_zero_def)
  then show ?thesis using wf Pad by (intro that [of t "[]"]) simp_all
next
  case (Blk ty v)
  let ?b = "\<lparr>t2t_tag = ty, t2t_length = of_nat (length v),
             t2t_value = (if v = [] then None else Some (v @ rest))\<rparr>"
  have ex: "nfc_t2t_tlv_block_extract bo t raw off = Ok (off + of_nat (length (t2t_elem_bytes el)), ?b)"
    using t2t_block_extract_Blk [OF bo off _ e] ok fit raw unfolding Blk by blast
  have uv: "unat (of_nat (length v) :: u16) = length v" using ok Blk by (simp add: unat_of_nat)
  have c: "tlv_block_is_data_length_correct ?b"
    using ok Blk by (auto simp: tlv_block_is_data_length_correct_def)
  have holds: "t2t_block_holds ?b (ty, v)"
    using uv by (auto simp: t2t_block_holds_def readable_def pbytes_def)
  show ?thesis
  proof (rule t2t_insert_cases [OF wf, of ?b])
    assume "t2t_tlv_count t = t2t_max_tlv_blocks t"
    then show ?thesis using room Blk by simp
  next
    fix t'
    assume t': "t2t_tlv_count t < t2t_max_tlv_blocks t" "nfc_t2t_tlv_block_insert t ?b = Ok t'"
      "t2t_wf t'" "t2t_blocks t' = t2t_blocks t @ [?b]" "t2t_head t' = t2t_head t"
      "t2t_tlv_count t' = t2t_tlv_count t + 1"
    have "nfc_t2t_tlv_parse bo t raw off = Ok (t', off + of_nat (length (t2t_elem_bytes el)))"
      using ex c t'(2) ok Blk by (simp add: nfc_t2t_tlv_parse_def)
    then show ?thesis
      using t' holds Blk by (intro that [of t' "[?b]"]) (simp_all add: unat_less_Suc)
  qed
qed

lemma t2t_parse_loop_complete:
  assumes bo: "byteorder bo"
  shows "t2t_wf t \<Longrightarrow> t2t_end t < 65536 \<Longrightarrow> 16 \<le> unat off \<Longrightarrow> \<forall>el \<in> set es. t2t_elem_ok el \<Longrightarrow>
    drop (unat off) raw = concat (map t2t_elem_bytes es) @ tail \<Longrightarrow>
    unat off + length (concat (map t2t_elem_bytes es)) = t2t_end t \<or>
    unat off + length (concat (map t2t_elem_bytes es)) < t2t_end t \<and>
      (\<exists>r. tail = NFC_T2T_TLV_TERMINATOR # r) \<Longrightarrow>
    unat (t2t_tlv_count t) + length (t2t_content es) \<le> unat (t2t_max_tlv_blocks t) \<Longrightarrow>
    \<exists>t' bs. t2t_parse_loop bo t raw off = Some (t', Ok ()) \<and> t2t_blocks t' = t2t_blocks t @ bs \<and>
      t2t_head t' = t2t_head t \<and> list_all2 t2t_block_holds bs (t2t_content es)"
proof (induction es arbitrary: t off)
  case Nil
  have pos: "off > 0" using Nil.prems(3) by (simp add: word_less_nat_alt del: unat_gt_0)
  have endr: "nfc_t2t_is_end_reached t off \<longleftrightarrow> unat off = t2t_end t"
    by (simp add: nfc_t2t_is_end_reached_def t2t_end_def)
  show ?case
  proof (cases "unat off = t2t_end t")
    case True
    then show ?thesis using pos endr by (subst t2t_parse_loop.simps) simp
  next
    case False
    with Nil.prems obtain r where r: "drop (unat off) raw = NFC_T2T_TLV_TERMINATOR # r" "unat off < t2t_end t"
      by auto
    then have lr: "unat off < length raw" by (cases "unat off < length raw") auto
    then have "raw ! unat off = NFC_T2T_TLV_TERMINATOR" using r(1) by (simp add: Cons_nth_drop_Suc [symmetric])
    then have "nfc_t2t_tlv_parse bo t raw off = Ok (t, 0)"
      using Nil.prems(3) r(2) lr
      by (simp add: nfc_t2t_tlv_parse_def nfc_t2t_tlv_block_extract_def nfc_t2t_type_extract_def
          t2t_within_iff rd_def word_le_nat_alt tlv_block_is_data_length_correct_def t2t_block_zero_def
          t2t_tag_defs)
    then have "t2t_parse_loop bo t raw off = t2t_parse_loop bo t raw 0"
      using pos endr False by (subst t2t_parse_loop.simps) simp
    then show ?thesis by (simp add: t2t_parse_loop.simps)
  qed
next
  case (Cons el es)
  let ?n = "length (t2t_elem_bytes el)"
  have fit: "unat off + ?n \<le> t2t_end t" using Cons.prems(6) by auto
  have raw: "drop (unat off) raw = t2t_elem_bytes el @ concat (map t2t_elem_bytes es) @ tail"
    using Cons.prems(5) by simp
  have cc: "length (t2t_content (el # es)) = length (t2t_content [el]) + length (t2t_content es)"
    by (subst t2t_content_Cons) simp
  then have "unat (t2t_tlv_count t) + length (t2t_content [el]) \<le> unat (t2t_max_tlv_blocks t)"
    using Cons.prems(7) by simp
  from t2t_tlv_parse_elem [OF bo Cons.prems(1,2,3) _ fit raw this] Cons.prems(4) obtain t1 bs where
    t1: "nfc_t2t_tlv_parse bo t raw off = Ok (t1, off + of_nat ?n)"
      "t2t_wf t1" "t2t_head t1 = t2t_head t" "t2t_blocks t1 = t2t_blocks t @ bs"
      "unat (t2t_tlv_count t1) = unat (t2t_tlv_count t) + length (t2t_content [el])"
      "list_all2 t2t_block_holds bs (t2t_content [el])"
    by (metis list.set_intros(1))
  have n: "0 < ?n" by (cases el) simp_all
  have o1: "unat (off + of_nat ?n) = unat off + ?n"
    using t2t_offset_add [of off "of_nat ?n" "t2t_end t"] fit Cons.prems(2) by (simp add: unat_of_nat)
  have e1: "t2t_end t1 = t2t_end t" "t2t_max_tlv_blocks t1 = t2t_max_tlv_blocks t"
    using t1(3) t2t_end_head [OF t1(3)] by (simp_all add: t2t_head_def)
  have dr: "drop (unat off + ?n) raw = concat (map t2t_elem_bytes es) @ tail"
    using raw by (metis add.commute append_eq_conv_conj drop_drop)
  have "\<exists>t' bs'. t2t_parse_loop bo t1 raw (off + of_nat ?n) = Some (t', Ok ()) \<and>
      t2t_blocks t' = t2t_blocks t1 @ bs' \<and> t2t_head t' = t2t_head t1 \<and>
      list_all2 t2t_block_holds bs' (t2t_content es)"
    using Cons.prems(2,3,4,6,7) t1(2,5) o1 e1 dr cc by (intro Cons.IH) auto
  moreover have "t2t_parse_loop bo t raw off = t2t_parse_loop bo t1 raw (off + of_nat ?n)"
  proof -
    have "off > 0" using Cons.prems(3) by (simp add: word_less_nat_alt del: unat_gt_0)
    moreover have "\<not> nfc_t2t_is_end_reached t off"
      using fit n by (simp add: nfc_t2t_is_end_reached_def t2t_end_def del: length_greater_0_conv)
    ultimately show ?thesis using t1(1) by (subst t2t_parse_loop.simps) simp
  qed
  ultimately show ?case
    using t1 t2t_content_Cons [of el es] by (auto intro: list_all2_appendI)
qed

section \<open>The header\<close>

lemma t2t_internal_parse_Ok:
  assumes "12 \<le> length raw"
  obtains t1 where "nfc_t2t_internal_parse bo t raw = Ok t1" "t2t_cc t1 = t2t_cc t"
    "t2t_tlv_count t1 = t2t_tlv_count t" "t2t_block_array t1 = t2t_block_array t"
    "t2t_max_tlv_blocks t1 = t2t_max_tlv_blocks t"
proof -
  from assms have "raw \<noteq> []" by auto
  with assms that show ?thesis
    by (auto simp: nfc_t2t_internal_parse_def rd_def be16_at_def be32_at_def rdn_def)
qed

lemma t2t_data_area_size: "unat (ucast (sz :: u8) * 8 :: u16) = 8 * unat sz"
  using unat_u8_less [of sz] by (simp add: unat_word_ariths)

text \<open>
  A tag image is complete when it holds the header and the data area its size byte announces.
\<close>

definition t2t_complete :: "u8 list \<Rightarrow> bool" where
  "t2t_complete raw \<longleftrightarrow> 16 \<le> length raw \<and> 16 + 8 * unat (raw ! 14) \<le> length raw"

definition t2t_area :: "u8 list \<Rightarrow> u8 list" where
  "t2t_area raw = take (8 * unat (raw ! 14)) (drop 16 raw)"

lemma t2t_parse_header:
  assumes wf: "t2t_wf t" and raw: "t2t_complete raw"
  obtains t1 where "t2t_wf t1" "t2t_blocks t1 = []" "t2t_tlv_count t1 = 0"
    "t2t_max_tlv_blocks t1 = t2t_max_tlv_blocks t"
    "nfc_t2t_parse bo t raw =
       (if raw ! 12 \<noteq> 0xE1 then Some (t1, Err EINVAL)
        else if t2t_MSN_GET (raw ! 13) \<noteq> 1 then Some (t1, Err EFAULT)
        else t2t_parse_loop bo t1 raw 16)"
    "raw ! 12 = 0xE1 \<longrightarrow> t2t_end t1 = 16 + 8 * unat (raw ! 14)"
proof -
  have l: "16 \<le> length raw" using raw by (simp add: t2t_complete_def)
  then have "12 \<le> length raw" by simp
  from t2t_internal_parse_Ok [OF this, of bo "nfc_t2t_clear t"] obtain t1 where
    t1: "nfc_t2t_internal_parse bo (nfc_t2t_clear t) raw = Ok t1" "t2t_cc t1 = t2t_cc (nfc_t2t_clear t)"
      "t2t_tlv_count t1 = 0" "t2t_block_array t1 = t2t_block_array t"
      "t2t_max_tlv_blocks t1 = t2t_max_tlv_blocks t"
    by (auto simp: nfc_t2t_clear_def)
  have w1: "t2t_wf t1" "t2t_blocks t1 = []" using wf t1 by (simp_all add: t2t_wf_def t2t_blocks_def)
  show ?thesis
  proof (cases "raw ! 12 = 0xE1")
    case False
    then have "nfc_t2t_cc_parse t1 raw = Err EINVAL" using l by (simp add: nfc_t2t_cc_parse_def rd_def)
    then show ?thesis
      using t1 w1 False by (intro that [of t1]) (simp_all add: nfc_t2t_parse_def)
  next
    case True
    let ?t2 = "t1\<lparr>t2t_cc := \<lparr>t2t_major_version = t2t_MSN_GET (raw ! 13),
      t2t_minor_version = t2t_LSN_GET (raw ! 13), data_area_size = ucast (raw ! 14) * 8,
      t2t_read_access = t2t_MSN_GET (raw ! 15), t2t_write_access = t2t_LSN_GET (raw ! 15)\<rparr>\<rparr>"
    have "nfc_t2t_cc_parse t1 raw = Ok ?t2" using l True by (simp add: nfc_t2t_cc_parse_def rd_def)
    then show ?thesis
      using t1 w1 True
      by (intro that [of ?t2]) (simp_all add: nfc_t2t_parse_def nfc_t2t_is_version_supported_def t2t_wf_def
          t2t_blocks_def t2t_end_def t2t_data_area_size)
  qed
qed

section \<open>Theorems\<close>

text \<open>
  C10. Parsing a complete tag image always returns, reads only inside the image and keeps the
  descriptor's invariant. When it succeeds, the image has the NFC Forum magic number and major
  version 1, its data area is a sequence of padding and TLV blocks up to a terminator or the end
  of the area, and the descriptor holds exactly those blocks.
\<close>

theorem t2t_parse_total_sound:
  assumes "byteorder bo" "t2t_wf t" "t2t_complete raw"
  shows "\<exists>t' r. nfc_t2t_parse bo t raw = Some (t', r) \<and> t2t_wf t' \<and> r \<noteq> Fault \<and>
    (r = Ok () \<longrightarrow> raw ! 12 = 0xE1 \<and> t2t_MSN_GET (raw ! 13) = 1 \<and>
       (\<exists>es. t2t_area_is (t2t_area raw) es \<and> list_all2 t2t_block_holds (t2t_blocks t') (t2t_content es)))"
proof -
  from assms(2,3) obtain t1 where t1: "t2t_wf t1" "t2t_blocks t1 = []"
    and p: "nfc_t2t_parse bo t raw =
       (if raw ! 12 \<noteq> 0xE1 then Some (t1, Err EINVAL)
        else if t2t_MSN_GET (raw ! 13) \<noteq> 1 then Some (t1, Err EFAULT)
        else t2t_parse_loop bo t1 raw 16)"
    and e: "raw ! 12 = 0xE1 \<longrightarrow> t2t_end t1 = 16 + 8 * unat (raw ! 14)"
    by (rule t2t_parse_header [where bo = bo])
  show ?thesis
  proof (cases "raw ! 12 = 0xE1 \<and> t2t_MSN_GET (raw ! 13) = 1")
    case True
    then have e1: "t2t_end t1 = 16 + 8 * unat (raw ! 14)" using e by simp
    then have "t2t_end t1 < 65536" "t2t_end t1 \<le> length raw"
      using unat_u8_less [of "raw ! 14"] assms(3) by (simp_all add: t2t_complete_def)
    from t2t_parse_loop_sound [OF assms(1) t1(1) this, of 16] show ?thesis
      using p True t1(2) e1 by (auto simp: t2t_area_def)
  qed (use p t1 in auto)
qed

text \<open>A tag with a lock control block, padding, an NDEF message of four bytes and a terminator.\<close>

definition t2t_example :: "u8 list" where
  "t2t_example = [0x04, 0x11, 0x22, 0xBF, 0x33, 0x44, 0x55, 0x66, 0x44, 0x48, 0x00, 0x00,
     0xE1, 0x10, 0x02, 0x00,
     0x01, 0x03, 0xA0, 0x10, 0x44, 0x00, 0x03, 0x04, 0xD0, 0x00, 0x00, 0x00, 0xFE, 0x00, 0x00, 0x00]"

theorem t2t_parse_total_sound_witness:
  "t2t_complete t2t_example \<and> t2t_wf (NFC_T2T_DESC_DEF 4) \<and>
   (\<exists>t' r. nfc_t2t_parse byteorder_ref (NFC_T2T_DESC_DEF 4) t2t_example = Some (t', r) \<and>
      t2t_wf t' \<and> r \<noteq> Fault)"
proof -
  have c: "t2t_complete t2t_example" "t2t_wf (NFC_T2T_DESC_DEF 4)"
    by (simp_all add: t2t_complete_def t2t_example_def t2t_wf_def NFC_T2T_DESC_DEF_def)
  then show ?thesis using t2t_parse_total_sound [OF ref.byteorder_axioms c(2,1)] by blast
qed

text \<open>
  C15. Every tag image of the supported version whose data area is a sequence of padding and
  well-formed TLV blocks that fit the descriptor is accepted, and the descriptor then holds the
  blocks in order, their values pointing at the right bytes.
\<close>

theorem t2t_parse_complete:
  assumes "byteorder bo" "t2t_wf t" "t2t_complete raw" "raw ! 12 = 0xE1" "t2t_MSN_GET (raw ! 13) = 1"
    and es: "t2t_area_is (t2t_area raw) es" "length (t2t_content es) \<le> unat (t2t_max_tlv_blocks t)"
  shows "\<exists>t'. nfc_t2t_parse bo t raw = Some (t', Ok ()) \<and>
    list_all2 t2t_block_holds (t2t_blocks t') (t2t_content es)"
proof -
  from assms(2,3) obtain t1 where t1: "t2t_wf t1" "t2t_blocks t1 = []" "t2t_tlv_count t1 = 0"
    "t2t_max_tlv_blocks t1 = t2t_max_tlv_blocks t"
    and p: "nfc_t2t_parse bo t raw =
       (if raw ! 12 \<noteq> 0xE1 then Some (t1, Err EINVAL)
        else if t2t_MSN_GET (raw ! 13) \<noteq> 1 then Some (t1, Err EFAULT)
        else t2t_parse_loop bo t1 raw 16)"
    and e: "raw ! 12 = 0xE1 \<longrightarrow> t2t_end t1 = 16 + 8 * unat (raw ! 14)"
    by (rule t2t_parse_header [where bo = bo])
  let ?img = "concat (map t2t_elem_bytes es)" and ?n = "8 * unat (raw ! 14)"
  have e1: "t2t_end t1 = 16 + ?n" using e assms(4) by simp
  have la: "length (t2t_area raw) = ?n" using assms(3) by (auto simp: t2t_area_def t2t_complete_def min_def)
  have d: "drop 16 raw = t2t_area raw @ drop (16 + ?n) raw"
    by (simp add: t2t_area_def) (metis add.commute append_take_drop_id drop_drop)
  from es(1) obtain tail where a: "t2t_area raw = ?img @ tail" "tail = [] \<or> (\<exists>r. tail = NFC_T2T_TLV_TERMINATOR # r)"
    by (auto simp: t2t_area_is_def)
  have "length ?img + length tail = ?n" using a(1) la by (metis length_append)
  then have "\<exists>t' bs. t2t_parse_loop bo t1 raw 16 = Some (t', Ok ()) \<and> t2t_blocks t' = t2t_blocks t1 @ bs \<and>
      t2t_head t' = t2t_head t1 \<and> list_all2 t2t_block_holds bs (t2t_content es)"
    using t1 es e1 a d unat_u8_less [of "raw ! 14"]
    by (intro t2t_parse_loop_complete [OF assms(1), where tail = "tail @ drop (16 + ?n) raw"])
      (auto simp: t2t_area_is_def simp del: length_concat)
  then show ?thesis using p assms(4,5) t1(2) by auto
qed

theorem t2t_parse_complete_witness:
  "\<exists>t'. nfc_t2t_parse byteorder_ref (NFC_T2T_DESC_DEF 4) t2t_example = Some (t', Ok ()) \<and>
     list_all2 t2t_block_holds (t2t_blocks t')
       [(NFC_T2T_TLV_LOCK_CONTROL, [0xA0, 0x10, 0x44]), (NFC_T2T_TLV_NDEF_MESSAGE, [0xD0, 0, 0, 0])]"
proof -
  let ?es = "[Blk NFC_T2T_TLV_LOCK_CONTROL [0xA0, 0x10, 0x44], Pad, Blk NFC_T2T_TLV_NDEF_MESSAGE [0xD0, 0, 0, 0]]"
  have c: "t2t_complete t2t_example" "t2t_wf (NFC_T2T_DESC_DEF 4)"
    by (simp_all add: t2t_complete_def t2t_example_def t2t_wf_def NFC_T2T_DESC_DEF_def)
  have h: "t2t_example ! 12 = 0xE1" "t2t_MSN_GET (t2t_example ! 13) = 1"
    by (simp_all add: t2t_example_def t2t_MSN_GET_def)
  have "t2t_area_is (t2t_area t2t_example) ?es"
    by (simp add: t2t_area_is_def t2t_area_def t2t_example_def t2t_len_bytes_def t2t_tag_defs)
  moreover have "length (t2t_content ?es) \<le> unat (t2t_max_tlv_blocks (NFC_T2T_DESC_DEF 4))"
    by (simp add: NFC_T2T_DESC_DEF_def)
  ultimately show ?thesis
    using t2t_parse_complete [OF ref.byteorder_axioms c(2,1) h, of ?es] by simp
qed

end
