(* ===== verification/T4T_ISODEP.thy ===== *)
theory T4T_ISODEP
  imports NFC_Prelude
begin

unbundle bit_operations_syntax

text \<open>
  The reader side of the ISO-DEP protocol (\<^verbatim>\<open>t4t/isodep.h\<close>, \<^verbatim>\<open>t4t/isodep.c\<close>): activation by RATS,
  block-wise transmission with chaining, reception, waiting time extension, deselection and
  error recovery. The module keeps its state in static variables: they are one record. The
  callbacks are the last thing a handler does, so a handler returns the list of the callbacks it
  has made. \<^verbatim>\<open>size_t\<close> has 32 bits, as on the devices the SDK supports.
\<close>

section \<open>Data\<close>

abbreviation (input) ISODEP_BLOCK_FIXED_BIT :: u8 where "ISODEP_BLOCK_FIXED_BIT \<equiv> 0x02"
abbreviation (input) ISODEP_CRC_LENGTH :: u16 where "ISODEP_CRC_LENGTH \<equiv> 2"
abbreviation (input) ISODEP_I_BLOCK :: u8 where "ISODEP_I_BLOCK \<equiv> 0x02"
abbreviation (input) ISODEP_R_BLOCK :: u8 where "ISODEP_R_BLOCK \<equiv> 0xA2"
abbreviation (input) ISODEP_S_BLOCK :: u8 where "ISODEP_S_BLOCK \<equiv> 0xC2"
abbreviation (input) ISODEP_S_BLOCK_INDICATOR :: u8 where "ISODEP_S_BLOCK_INDICATOR \<equiv> 0x40"
abbreviation (input) ISODEP_R_BLOCK_INDICATOR :: u8 where "ISODEP_R_BLOCK_INDICATOR \<equiv> 0x80"
abbreviation (input) ISODEP_BLOCK_NUM_MASK :: u8 where "ISODEP_BLOCK_NUM_MASK \<equiv> 0x01"
abbreviation (input) ISODEP_MAX_RETRANSMIT_CNT :: u8 where "ISODEP_MAX_RETRANSMIT_CNT \<equiv> 2"
abbreviation (input) ISODEP_FWT_DEACTIVATION :: u32 where "ISODEP_FWT_DEACTIVATION \<equiv> 71680"
abbreviation (input) ISODEP_WTXM_MASK :: u8 where "ISODEP_WTXM_MASK \<equiv> 0x3F"
abbreviation (input) ISODEP_WTXM_MIN :: u8 where "ISODEP_WTXM_MIN \<equiv> 1"
abbreviation (input) ISODEP_WTXM_MAX :: u8 where "ISODEP_WTXM_MAX \<equiv> 59"
abbreviation (input) I_BLOCK_DID_BIT :: u8 where "I_BLOCK_DID_BIT \<equiv> 0x08"
abbreviation (input) I_BLOCK_NAD_BIT :: u8 where "I_BLOCK_NAD_BIT \<equiv> 0x04"
abbreviation (input) I_BLOCK_CHAINING_BIT :: u8 where "I_BLOCK_CHAINING_BIT \<equiv> 0x10"
abbreviation (input) R_BLOCK_NAK :: u8 where "R_BLOCK_NAK \<equiv> 0x10"
abbreviation (input) S_BLOCK_WTX_MASK :: u8 where "S_BLOCK_WTX_MASK \<equiv> 0x30"
abbreviation (input) T4T_FSD_MIN :: u32 where "T4T_FSD_MIN \<equiv> 16"
abbreviation (input) T4T_RATS_CMD :: u8 where "T4T_RATS_CMD \<equiv> 0xE0"
abbreviation (input) T4T_FWT_DELTA :: u32 where "T4T_FWT_DELTA \<equiv> 49152"
abbreviation (input) NFCA_T4T_FWT_T_FC :: u32 where "NFCA_T4T_FWT_T_FC \<equiv> 164 * 1356"
abbreviation (input) T4T_FC_IN_MS :: u32 where "T4T_FC_IN_MS \<equiv> 13560"
abbreviation (input) T4T_RATS_FDT :: u32 where "T4T_RATS_FDT \<equiv> 71680 + T4T_FWT_DELTA + NFCA_T4T_FWT_T_FC"
abbreviation (input) T4T_DID_MAX :: u8 where "T4T_DID_MAX \<equiv> 14"
abbreviation (input) T4T_ATS_MIN_LEN :: u32 where "T4T_ATS_MIN_LEN \<equiv> 2"
abbreviation (input) T4T_ATS_MAX_LEN :: u32 where "T4T_ATS_MAX_LEN \<equiv> 20"
abbreviation (input) T4T_ATS_SFGT_DEFAULT :: u32 where "T4T_ATS_SFGT_DEFAULT \<equiv> 6780"
abbreviation (input) NFC_T4T_ISODEP_HIST_MAX_LEN :: u8 where "NFC_T4T_ISODEP_HIST_MAX_LEN \<equiv> 15"

definition T4T_FWI_TO_FWT :: "u8 \<Rightarrow> u32" where
  "T4T_FWI_TO_FWT fwi = 256 * 16 * push_bit (unat fwi) 1"

definition T4T_SFGT_DELTA :: "u8 \<Rightarrow> u32" where
  "T4T_SFGT_DELTA sfgi = 384 * push_bit (unat sfgi) 1"

datatype isodep_frame =
    ISODEP_FRAME_NONE | ISODEP_FRAME_RATS | ISODEP_FRAME_DESELECT
  | ISODEP_FRAME_WTX_RESPONSE | ISODEP_FRAME_I | ISODEP_FRAME_I_CHAINING

datatype isodep_state =
    ISODEP_STATE_UNINITIALIZED | ISODEP_STATE_INITIALIZED
  | ISODEP_STATE_SELECTED | ISODEP_STATE_TRANSFER

datatype nfc_t4t_isodep_fsd =
    NFC_T4T_ISODEP_FSD_16 | NFC_T4T_ISODEP_FSD_24 | NFC_T4T_ISODEP_FSD_32
  | NFC_T4T_ISODEP_FSD_40 | NFC_T4T_ISODEP_FSD_48 | NFC_T4T_ISODEP_FSD_64
  | NFC_T4T_ISODEP_FSD_96 | NFC_T4T_ISODEP_FSD_128 | NFC_T4T_ISODEP_FSD_256

primrec fsd_index :: "nfc_t4t_isodep_fsd \<Rightarrow> nat" where
  "fsd_index NFC_T4T_ISODEP_FSD_16 = 0"
| "fsd_index NFC_T4T_ISODEP_FSD_24 = 1"
| "fsd_index NFC_T4T_ISODEP_FSD_32 = 2"
| "fsd_index NFC_T4T_ISODEP_FSD_40 = 3"
| "fsd_index NFC_T4T_ISODEP_FSD_48 = 4"
| "fsd_index NFC_T4T_ISODEP_FSD_64 = 5"
| "fsd_index NFC_T4T_ISODEP_FSD_96 = 6"
| "fsd_index NFC_T4T_ISODEP_FSD_128 = 7"
| "fsd_index NFC_T4T_ISODEP_FSD_256 = 8"

record nfc_t4t_isodep_tag =
  fwt :: u32
  sfgt :: u32
  fsc :: u16
  did :: u8
  lp_divisor :: u8
  pl_divisor :: u8
  historical :: "u8 list"
  historical_len :: u8
  did_supported :: bool
  nad_supported :: bool

record nfc_t4t_buf =
  buf_data :: cptr
  buf_len :: u32
  buf_size :: u32

record nfc_t4t_err =
  last_frame :: isodep_frame
  frame_retry_cnt :: u8
  err_wtx :: u8

text \<open>Which callbacks are set.\<close>

record nfc_t4t_isodep_cb =
  cb_data_received :: bool
  cb_selected :: bool
  cb_deselected :: bool
  cb_ready_to_send :: bool
  cb_error :: bool

record nfc_t4t_isodep =
  iso_state :: isodep_state
  tag :: nfc_t4t_isodep_tag
  tx_data :: nfc_t4t_buf
  rx_data :: nfc_t4t_buf
  err_status :: nfc_t4t_err
  fsd :: u16
  block_num :: u8
  retransmit_cnt :: u8
  transmit_data :: cptr
  transmit_len :: u32
  transmitted_len :: u32
  chaining :: bool
  equal_divisor :: bool
  ats_expected :: bool
  first_transfer :: bool

text \<open>
  The other static variables: the callbacks, whether the work item for the delayed first block is
  scheduled, and the time the answer to RATS was received.
\<close>

record isodep = nfc_t4t_isodep +
  t4t_isodep_cb :: "nfc_t4t_isodep_cb option"
  isodep_work :: bool
  ats_received_time :: int

text \<open>The callbacks made, and the delayed work scheduled.\<close>

datatype isodep_event =
    Ready_to_send "u8 list" u32
  | Data_received "u8 list"
  | Selected nfc_t4t_isodep_tag
  | Deselected
  | Error errno
  | Schedule u32

text \<open>The retry counts of \<^verbatim>\<open>t4t/Kconfig\<close>.\<close>

record isodep_config =
  ISODEP_RATS_RETRY :: nat
  ISODEP_ACK_RETRY :: nat
  ISODEP_NAK_RETRY :: nat
  ISODEP_WTX_RETRY :: nat
  ISODEP_DESELECT_RETRY :: nat

definition fsd_value_map :: "u16 list" where
  "fsd_value_map = [16, 24, 32, 40, 48, 64, 96, 128, 256]"

text \<open>What a handler gives: the new state, the callbacks, and its return value (\<^term>\<open>None\<close> is 0).\<close>

type_synonym iso_out = "(isodep \<times> isodep_event list) res"
type_synonym iso_ret = "(isodep \<times> isodep_event list \<times> errno option) res"

section \<open>Sending\<close>

definition isodep_transmission_clear :: "isodep \<Rightarrow> isodep" where
  "isodep_transmission_clear s =
     s\<lparr>rx_data := (rx_data s)\<lparr>buf_len := 0\<rparr>, transmitted_len := 0, transmit_len := 0,
       chaining := False, retransmit_cnt := 0,
       err_status := (err_status s)\<lparr>frame_retry_cnt := 0, last_frame := ISODEP_FRAME_NONE\<rparr>\<rparr>"

definition did_include :: "nfc_t4t_isodep_tag \<Rightarrow> u8 list \<Rightarrow> nat \<Rightarrow> (u8 list \<times> nat) res" where
  "did_include t data pos =
     rbind (if did_supported t \<and> did t \<noteq> 0
            then rbind (rd data pos) (\<lambda>v.
                 rbind (wr data pos [v OR I_BLOCK_DID_BIT]) (\<lambda>data.
                 rbind (wr data (pos + 1) [did t]) (\<lambda>data. Ok (data, pos + 1))))
            else Ok (data, pos))
       (\<lambda>(data, pos). Ok (data, pos + 1))"

text \<open>A callback that is called when it is set; the callback structure is read through its pointer.\<close>

definition callback :: "(nfc_t4t_isodep_cb \<Rightarrow> bool) \<Rightarrow> isodep_event \<Rightarrow> isodep \<Rightarrow> isodep_event list res" where
  "callback is_set ev s =
     (case t4t_isodep_cb s of
        None \<Rightarrow> Fault
      | Some cb \<Rightarrow> Ok (if is_set cb then [ev] else []))"

definition err_notify :: "errno \<Rightarrow> isodep \<Rightarrow> iso_out" where
  "err_notify err s =
     (let s = isodep_transmission_clear s in
      rbind (callback cb_error (Error err) s) (\<lambda>ev. Ok (s, ev)))"

definition frame_fdt :: "isodep \<Rightarrow> u32" where
  "frame_fdt s = fwt (tag s) + T4T_FWT_DELTA + NFCA_T4T_FWT_T_FC"

definition isodep_chunk_send :: "isodep \<Rightarrow> iso_out" where
  "isodep_chunk_send s =
     (case buf_data (tx_data s) of
        None \<Rightarrow> Fault
      | Some tx \<Rightarrow>
          let s = s\<lparr>retransmit_cnt := 0,
                    err_status := (err_status s)\<lparr>frame_retry_cnt := 0, last_frame := ISODEP_FRAME_I\<rparr>\<rparr> in
          rbind (wr tx 0 [ISODEP_I_BLOCK OR (block_num s AND 1)]) (\<lambda>tx.
          rbind (did_include (tag s) tx 0) (\<lambda>(tx, index).
          let room = ucast (fsc (tag s)) - of_nat index; left = transmit_len s - transmitted_len s in
          rbind (if room < left
                 then rbind (rd tx 0) (\<lambda>v.
                      rbind (wr tx 0 [v OR I_BLOCK_CHAINING_BIT]) (\<lambda>tx. Ok (tx, room, True)))
                 else Ok (tx, left, False)) (\<lambda>(tx, data_len, chain).
          rbind (memcpy_src (map_option (drop (unat (transmitted_len s))) (transmit_data s)) (unat data_len)) (\<lambda>xs.
          rbind (wr tx index xs) (\<lambda>tx.
          let s = s\<lparr>chaining := chain,
                    tx_data := (tx_data s)\<lparr>buf_data := Some tx, buf_len := of_nat index + data_len\<rparr>,
                    transmitted_len := transmitted_len s + data_len\<rparr> in
          rbind (callback cb_ready_to_send
                   (Ready_to_send (take (unat (buf_len (tx_data s))) tx) (frame_fdt s)) s) (\<lambda>ev.
          Ok (s, ev))))))))"

definition block_num_toggle :: "isodep \<Rightarrow> isodep" where
  "block_num_toggle s = s\<lparr>block_num := block_num s XOR 0x01\<rparr>"

definition isodep_r_frame_send :: "bool \<Rightarrow> isodep \<Rightarrow> iso_out" where
  "isodep_r_frame_send ack s =
     (case buf_data (tx_data s) of
        None \<Rightarrow> Fault
      | Some tx \<Rightarrow>
          rbind (wr tx 0 [ISODEP_R_BLOCK OR (block_num s AND 1)]) (\<lambda>tx.
          rbind (if \<not> ack then rbind (rd tx 0) (\<lambda>v. wr tx 0 [v OR R_BLOCK_NAK]) else Ok tx) (\<lambda>tx.
          rbind (did_include (tag s) tx 0) (\<lambda>(tx, index).
          let s = s\<lparr>tx_data := (tx_data s)\<lparr>buf_data := Some tx\<rparr>\<rparr> in
          rbind (callback cb_ready_to_send (Ready_to_send (take index tx) (frame_fdt s)) s) (\<lambda>ev.
          Ok (s, ev))))))"

text \<open>The callback is made before the counter is advanced; it only starts the radio.\<close>

definition last_i_block_retransmit :: "isodep \<Rightarrow> iso_ret" where
  "last_i_block_retransmit s =
     (if retransmit_cnt s > ISODEP_MAX_RETRANSMIT_CNT
      then Ok (s, [], Some NFC_T4T_ISODEP_SEMANTIC_ERROR)
      else
        case buf_data (tx_data s) of
          None \<Rightarrow> Fault
        | Some tx \<Rightarrow>
            rbind (wr tx 0 [ISODEP_I_BLOCK OR (block_num s AND 1)]) (\<lambda>tx.
            rbind (if chaining s then rbind (rd tx 0) (\<lambda>v. wr tx 0 [v OR I_BLOCK_CHAINING_BIT])
                   else Ok tx) (\<lambda>tx.
            let s = s\<lparr>tx_data := (tx_data s)\<lparr>buf_data := Some tx\<rparr>\<rparr> in
            rbind (callback cb_ready_to_send
                     (Ready_to_send (take (unat (buf_len (tx_data s))) tx) (frame_fdt s)) s) (\<lambda>ev.
            Ok (if ev \<noteq> [] then s\<lparr>retransmit_cnt := retransmit_cnt s + 1\<rparr> else s, ev, None)))))"

section \<open>Activation\<close>

text \<open>The interface bytes of the answer to select and its historical bytes, from a read position on.\<close>

definition ats_ta :: "u8 list \<Rightarrow> u8 \<Rightarrow> nat \<Rightarrow> isodep \<Rightarrow> (isodep \<times> nat) res" where
  "ats_ta data t0 index s =
     (if t0 AND 0x10 \<noteq> 0
      then rbind (rd data index) (\<lambda>ta.
           Ok (s\<lparr>equal_divisor := (if ta AND 0x80 \<noteq> 0 then True else equal_divisor s),
                 tag := (tag s)\<lparr>pl_divisor := push_bit 1 (ta AND 0x07),
                                lp_divisor := drop_bit 3 (ta AND 0x70)\<rparr>\<rparr>, index + 1))
      else Ok (s\<lparr>tag := (tag s)\<lparr>pl_divisor := 0, lp_divisor := 0\<rparr>\<rparr>, index))"

definition ats_tb :: "u8 list \<Rightarrow> u8 \<Rightarrow> nat \<Rightarrow> isodep \<Rightarrow> (isodep \<times> nat) res" where
  "ats_tb data t0 index s =
     rbind (if t0 AND 0x20 \<noteq> 0
            then rbind (rd data index) (\<lambda>tb. Ok (drop_bit 4 (tb AND 0xF0), tb AND 0x0F, index + 1))
            else Ok (0x04, 0, index)) (\<lambda>(fwi, sfgi, index).
     Ok (s\<lparr>tag := (tag s)\<lparr>fwt := T4T_FWI_TO_FWT fwi,
                          sfgt := (if sfgi \<noteq> 0 then T4T_FWI_TO_FWT sfgi + T4T_SFGT_DELTA sfgi
                                   else T4T_ATS_SFGT_DEFAULT)\<rparr>\<rparr>, index))"

definition ats_tc :: "u8 list \<Rightarrow> u8 \<Rightarrow> nat \<Rightarrow> isodep \<Rightarrow> (isodep \<times> nat) res" where
  "ats_tc data t0 index s =
     (if t0 AND 0x40 \<noteq> 0
      then rbind (rd data index) (\<lambda>tc.
           Ok (s\<lparr>tag := (tag s)\<lparr>did_supported := (tc AND 0x02 \<noteq> 0),
                                nad_supported := (tc AND 0x01 \<noteq> 0)\<rparr>\<rparr>, index + 1))
      else Ok (s\<lparr>tag := (tag s)\<lparr>did_supported := True, nad_supported := False\<rparr>\<rparr>, index))"

definition ats_historical :: "u8 list \<Rightarrow> u32 \<Rightarrow> nat \<Rightarrow> isodep \<Rightarrow> isodep res" where
  "ats_historical data len index s =
     (if of_nat index < len then
        let hl = ucast (len - of_nat index);
            hl = (if hl > NFC_T4T_ISODEP_HIST_MAX_LEN then NFC_T4T_ISODEP_HIST_MAX_LEN else hl) in
        rbind (memcpy_src (Some (drop index data)) (unat hl)) (\<lambda>xs.
        rbind (wr (historical (tag s)) 0 xs) (\<lambda>h.
        Ok (s\<lparr>tag := (tag s)\<lparr>historical_len := hl, historical := h\<rparr>\<rparr>)))
      else Ok s)"

definition ats_parse :: "int \<Rightarrow> u8 list \<Rightarrow> u32 \<Rightarrow> isodep \<Rightarrow> iso_ret" where
  "ats_parse now data len s =
     (let s = s\<lparr>ats_received_time := now\<rparr> in
      if len < T4T_ATS_MIN_LEN then Ok (s, [], Some NFC_T4T_ISODEP_SYNTAX_ERROR)
      else
        rbind (rd data 0) (\<lambda>tl.
        if ucast tl \<noteq> len \<or> len > T4T_ATS_MAX_LEN then Ok (s, [], Some NFC_T4T_ISODEP_SYNTAX_ERROR)
        else
          rbind (rd data 1) (\<lambda>t0.
          let fsci = unat (t0 AND 0x0F) in
          if fsci \<ge> length fsd_value_map then Fault
          else
            let s = s\<lparr>tag := (tag s)\<lparr>fsc := fsd_value_map ! fsci - ISODEP_CRC_LENGTH\<rparr>\<rparr> in
            rbind (ats_ta data t0 2 s) (\<lambda>(s, index).
            rbind (ats_tb data t0 index s) (\<lambda>(s, index).
            rbind (ats_tc data t0 index s) (\<lambda>(s, index).
            rbind (ats_historical data len index s) (\<lambda>s.
            let s = s\<lparr>block_num := 0, first_transfer := True, iso_state := ISODEP_STATE_SELECTED\<rparr> in
            rbind (callback cb_selected (Selected (tag s)) s) (\<lambda>ev.
            Ok (s, ev, None)))))))))"

section \<open>Receiving\<close>

definition isodep_s_frame_handle :: "u8 list \<Rightarrow> u32 \<Rightarrow> isodep \<Rightarrow> iso_ret" where
  "isodep_s_frame_handle data len s =
     rbind (rd data 0) (\<lambda>s_block.
     let index = (if s_block AND I_BLOCK_DID_BIT \<noteq> 0 then 2 else 1) in
     if s_block AND S_BLOCK_WTX_MASK \<noteq> S_BLOCK_WTX_MASK then
       if s_block AND S_BLOCK_WTX_MASK = 0 then
         if len > of_nat index then Ok (s, [], Some NFC_T4T_ISODEP_SYNTAX_ERROR)
         else
           let s = s\<lparr>iso_state := ISODEP_STATE_INITIALIZED\<rparr> in
           rbind (callback cb_deselected Deselected s) (\<lambda>ev. Ok (s, ev, None))
       else Ok (s, [], Some NFC_T4T_ISODEP_SYNTAX_ERROR)
     else if len > of_nat (index + 1) then Ok (s, [], Some EINVAL)
     else
       rbind (rd data index) (\<lambda>w.
       let wtxm = w AND ISODEP_WTXM_MASK in
       if wtxm < ISODEP_WTXM_MIN \<or> wtxm > ISODEP_WTXM_MAX
       then Ok (s, [], Some NFC_T4T_ISODEP_SYNTAX_ERROR)
       else
         case buf_data (tx_data s) of
           None \<Rightarrow> Fault
         | Some tx \<Rightarrow>
             rbind (wr tx 0 [ISODEP_S_BLOCK OR S_BLOCK_WTX_MASK]) (\<lambda>tx.
             rbind (did_include (tag s) tx 0) (\<lambda>(tx, index).
             rbind (wr tx index [wtxm]) (\<lambda>tx.
             let s = s\<lparr>tx_data := (tx_data s)\<lparr>buf_data := Some tx, buf_len := of_nat (index + 1)\<rparr>,
                       err_status := (err_status s)\<lparr>last_frame := ISODEP_FRAME_WTX_RESPONSE\<rparr>\<rparr> in
             rbind (callback cb_ready_to_send
                      (Ready_to_send (take (index + 1) tx)
                        (fwt (tag s) * ucast wtxm + T4T_FWT_DELTA + NFCA_T4T_FWT_T_FC)) s) (\<lambda>ev.
             Ok (s, ev, None)))))))"

definition r_frame_ack_handle :: "u8 \<Rightarrow> isodep \<Rightarrow> iso_ret" where
  "r_frame_ack_handle r_block s =
     (let rn = r_block AND ISODEP_BLOCK_NUM_MASK in
      if last_frame (err_status s) = ISODEP_FRAME_I \<and> rn \<noteq> block_num s
      then last_i_block_retransmit s
      else if \<not> chaining s then Ok (s, [], Some NFC_T4T_ISODEP_SEMANTIC_ERROR)
      else if rn = block_num s
      then rbind (isodep_chunk_send (block_num_toggle s)) (\<lambda>(s, ev). Ok (s, ev, None))
      else last_i_block_retransmit s)"

definition isodep_r_frame_handle :: "u8 list \<Rightarrow> u32 \<Rightarrow> isodep \<Rightarrow> iso_ret" where
  "isodep_r_frame_handle data len s =
     rbind (rd data 0) (\<lambda>r_block.
     let index = (if r_block AND I_BLOCK_DID_BIT \<noteq> 0 then 2 else 1) in
     if len > index then Ok (s, [], Some NFC_T4T_ISODEP_SYNTAX_ERROR)
     else if r_block AND R_BLOCK_NAK \<noteq> 0 then Ok (s, [], Some NFC_T4T_ISODEP_SEMANTIC_ERROR)
     else r_frame_ack_handle r_block s)"

definition isodep_i_frame_handle :: "u8 list \<Rightarrow> u32 \<Rightarrow> isodep \<Rightarrow> iso_ret" where
  "isodep_i_frame_handle data len s =
     rbind (rd data 0) (\<lambda>i_block.
     let index = (1 + (if i_block AND I_BLOCK_DID_BIT \<noteq> 0 then 1 else 0)
                    + (if i_block AND I_BLOCK_NAD_BIT \<noteq> 0 then 1 else 0) :: nat) in
     if len < of_nat index then Ok (s, [], Some EINVAL)
     else if buf_len (rx_data s) + (len - of_nat index) > buf_size (rx_data s)
     then Ok (s, [], Some ENOMEM)
     else
       let s = (if i_block AND ISODEP_BLOCK_NUM_MASK = block_num s then block_num_toggle s else s);
           len = len - of_nat index in
       rbind (memcpy_src (Some (drop index data)) (unat len)) (\<lambda>xs.
       rbind (case buf_data (rx_data s) of
                None \<Rightarrow> if xs = [] then Ok None else Fault
              | Some rx \<Rightarrow> rbind (wr rx (unat (buf_len (rx_data s))) xs) (\<lambda>rx. Ok (Some rx))) (\<lambda>rx.
       let s = s\<lparr>rx_data := (rx_data s)\<lparr>buf_data := rx, buf_len := buf_len (rx_data s) + len\<rparr>\<rparr> in
       if i_block AND I_BLOCK_CHAINING_BIT \<noteq> 0 then
         let s = s\<lparr>err_status := (err_status s)\<lparr>last_frame := ISODEP_FRAME_I_CHAINING\<rparr>\<rparr> in
         rbind (isodep_r_frame_send True s) (\<lambda>(s, ev). Ok (s, ev, None))
       else
         let s = s\<lparr>iso_state := ISODEP_STATE_SELECTED,
                   err_status := (err_status s)\<lparr>last_frame := ISODEP_FRAME_I\<rparr>\<rparr> in
         rbind (callback cb_data_received
                  (Data_received (pbytes (buf_data (rx_data s)) (unat (buf_len (rx_data s))))) s) (\<lambda>ev.
         Ok (s, ev, None)))))"

section \<open>Errors\<close>

text \<open>Sending again what is in the transmit buffer.\<close>

definition tx_resend :: "u32 \<Rightarrow> isodep \<Rightarrow> iso_out" where
  "tx_resend fdt s =
     rbind (callback cb_ready_to_send
              (Ready_to_send (pbytes (buf_data (tx_data s)) (unat (buf_len (tx_data s)))) fdt) s)
       (\<lambda>ev. Ok (s, ev))"

definition isodep_give_up :: "bool \<Rightarrow> isodep \<Rightarrow> iso_out" where
  "isodep_give_up timeout s =
     err_notify (if timeout then NFC_T4T_ISODEP_TIMEOUT_ERROR else NFC_T4T_ISODEP_TRANSMISSION_ERROR)
       (s\<lparr>iso_state := ISODEP_STATE_INITIALIZED\<rparr>)"

definition isodep_error_handle :: "isodep_config \<Rightarrow> bool \<Rightarrow> isodep \<Rightarrow> iso_out" where
  "isodep_error_handle cfg timeout s =
     (let s = s\<lparr>err_status := (err_status s)\<lparr>frame_retry_cnt := frame_retry_cnt (err_status s) + 1\<rparr>\<rparr>;
          n = unat (frame_retry_cnt (err_status s)) in
      case last_frame (err_status s) of
        ISODEP_FRAME_RATS \<Rightarrow>
          if n > ISODEP_RATS_RETRY cfg then isodep_give_up timeout s else tx_resend T4T_RATS_FDT s
      | ISODEP_FRAME_I \<Rightarrow>
          if n > ISODEP_NAK_RETRY cfg then isodep_give_up timeout s else isodep_r_frame_send False s
      | ISODEP_FRAME_I_CHAINING \<Rightarrow>
          if n > ISODEP_ACK_RETRY cfg then isodep_give_up timeout s else isodep_r_frame_send True s
      | ISODEP_FRAME_WTX_RESPONSE \<Rightarrow>
          if n > ISODEP_WTX_RETRY cfg then isodep_give_up timeout s
          else tx_resend (ucast (err_wtx (err_status s)) * fwt (tag s) + T4T_FWT_DELTA + NFCA_T4T_FWT_T_FC) s
      | ISODEP_FRAME_DESELECT \<Rightarrow>
          if n > ISODEP_DESELECT_RETRY cfg then isodep_give_up timeout s
          else tx_resend ISODEP_FWT_DEACTIVATION s
      | ISODEP_FRAME_NONE \<Rightarrow> isodep_give_up timeout s)"

definition isodep_delay_handler :: "isodep \<Rightarrow> iso_out" where
  "isodep_delay_handler s = isodep_chunk_send s"

section \<open>Interface\<close>

definition nfc_t4t_isodep_init ::
    "cptr \<Rightarrow> u32 \<Rightarrow> cptr \<Rightarrow> u32 \<Rightarrow> nfc_t4t_isodep_cb option \<Rightarrow> isodep \<Rightarrow> iso_ret" where
  "nfc_t4t_isodep_init tx_buf size_tx rx_buf size_rx cb s =
     (if tx_buf = None \<or> rx_buf = None then Ok (s, [], Some EINVAL)
      else if size_tx < T4T_FSD_MIN then Ok (s, [], Some EINVAL)
      else if size_rx < T4T_FSD_MIN then Ok (s, [], Some EINVAL)
      else if iso_state s \<noteq> ISODEP_STATE_UNINITIALIZED then Ok (s, [], Some EACCES)
      else Ok (s\<lparr>tx_data := (tx_data s)\<lparr>buf_data := tx_buf, buf_size := size_tx\<rparr>,
                 rx_data := (rx_data s)\<lparr>buf_data := rx_buf, buf_size := size_rx\<rparr>,
                 t4t_isodep_cb := cb, isodep_work := False,
                 iso_state := ISODEP_STATE_INITIALIZED\<rparr>, [], None))"

definition nfc_t4t_isodep_on_timeout :: "isodep_config \<Rightarrow> isodep \<Rightarrow> iso_out" where
  "nfc_t4t_isodep_on_timeout cfg s = isodep_error_handle cfg True s"

definition nfc_t4t_isodep_rats_send :: "nfc_t4t_isodep_fsd \<Rightarrow> u8 \<Rightarrow> isodep \<Rightarrow> iso_ret" where
  "nfc_t4t_isodep_rats_send f d s =
     (if iso_state s \<noteq> ISODEP_STATE_INITIALIZED \<and> iso_state s \<noteq> ISODEP_STATE_SELECTED
      then Ok (s, [], Some EACCES)
      else
        let s = s\<lparr>iso_state := ISODEP_STATE_TRANSFER\<rparr>; fv = fsd_value_map ! fsd_index f in
        if d > T4T_DID_MAX then Ok (s, [], Some EINVAL)
        else if buf_size (tx_data s) < ucast fv then Ok (s, [], Some ENOMEM)
        else
          let param = (d AND 0x0F) OR (push_bit 4 (of_nat (fsd_index f)) AND 0xF0) in
          case buf_data (tx_data s) of
            None \<Rightarrow> Fault
          | Some tx \<Rightarrow>
              rbind (wr tx 0 [T4T_RATS_CMD]) (\<lambda>tx.
              rbind (wr tx 1 [param]) (\<lambda>tx.
              let s = s\<lparr>tx_data := (tx_data s)\<lparr>buf_data := Some tx, buf_len := 2\<rparr>,
                        tag := (tag s)\<lparr>did := d\<rparr>, fsd := fv, ats_expected := True,
                        err_status := (err_status s)\<lparr>last_frame := ISODEP_FRAME_RATS\<rparr>\<rparr> in
              rbind (callback cb_ready_to_send (Ready_to_send (take 2 tx) T4T_RATS_FDT) s) (\<lambda>ev.
              Ok (s, ev, None)))))"

definition nfc_t4t_isodep_tag_deselect :: "isodep \<Rightarrow> iso_ret" where
  "nfc_t4t_isodep_tag_deselect s =
     (if iso_state s \<noteq> ISODEP_STATE_SELECTED then Ok (s, [], Some EACCES)
      else
        let s = s\<lparr>iso_state := ISODEP_STATE_TRANSFER\<rparr> in
        case buf_data (tx_data s) of
          None \<Rightarrow> Fault
        | Some tx \<Rightarrow>
            rbind (wr tx 0 [ISODEP_S_BLOCK]) (\<lambda>tx.
            rbind (did_include (tag s) tx 0) (\<lambda>(tx, index).
            let s = s\<lparr>tx_data := (tx_data s)\<lparr>buf_data := Some tx, buf_len := of_nat index\<rparr>,
                      err_status := (err_status s)\<lparr>last_frame := ISODEP_FRAME_DESELECT\<rparr>\<rparr> in
            rbind (callback cb_ready_to_send (Ready_to_send (take index tx) ISODEP_FWT_DEACTIVATION) s) (\<lambda>ev.
            Ok (s, ev, None)))))"

text \<open>
  \<open>now\<close> is what the kernel clock shows. Errors of the protocol are reported by the callback, not
  by the return value.
\<close>

definition isodep_frame_handle :: "u8 list \<Rightarrow> u32 \<Rightarrow> isodep \<Rightarrow> iso_ret" where
  "isodep_frame_handle data data_len s =
     rbind (rd data 0) (\<lambda>block_data.
     if block_data AND ISODEP_BLOCK_FIXED_BIT \<noteq> 0 then
       if block_data AND ISODEP_S_BLOCK_INDICATOR \<noteq> 0 then isodep_s_frame_handle data data_len s
       else if block_data AND ISODEP_R_BLOCK_INDICATOR \<noteq> 0 then isodep_r_frame_handle data data_len s
       else isodep_i_frame_handle data data_len s
     else Ok (s, [], Some NFC_T4T_ISODEP_SEMANTIC_ERROR))"

definition notify_failure :: "iso_ret \<Rightarrow> iso_ret" where
  "notify_failure r =
     rbind r (\<lambda>(s, ev, ret).
     case ret of
       None \<Rightarrow> Ok (s, ev, None)
     | Some e \<Rightarrow> rbind (err_notify e s) (\<lambda>(s, ev'). Ok (s, ev @ ev', None)))"

definition nfc_t4t_isodep_data_received ::
    "isodep_config \<Rightarrow> int \<Rightarrow> cptr \<Rightarrow> u32 \<Rightarrow> bool \<Rightarrow> isodep \<Rightarrow> iso_ret" where
  "nfc_t4t_isodep_data_received cfg now data data_len err s =
     (case data of
        None \<Rightarrow> Ok (s, [], Some EINVAL)
      | Some d \<Rightarrow>
          if data_len < 1 then Ok (s, [], Some ENOMEM)
          else if err then rbind (isodep_error_handle cfg False s) (\<lambda>(s, ev). Ok (s, ev, None))
          else if ats_expected s then notify_failure (ats_parse now d data_len (s\<lparr>ats_expected := False\<rparr>))
          else notify_failure (isodep_frame_handle d data_len s))"

text \<open>
  \<open>div_round_up\<close> is the macro \<^verbatim>\<open>DIV_ROUND_UP\<close> of Zephyr, \<open>resched\<close> the return value of
  \<^verbatim>\<open>k_work_reschedule\<close>.
\<close>

definition nfc_t4t_isodep_transmit ::
    "(u32 \<Rightarrow> u32 \<Rightarrow> u32) \<Rightarrow> int \<Rightarrow> int \<Rightarrow> cptr \<Rightarrow> u32 \<Rightarrow> isodep \<Rightarrow> iso_ret" where
  "nfc_t4t_isodep_transmit div_round_up resched now data data_len s =
     (if data = None then Ok (s, [], Some EINVAL)
      else if data_len < 1 then Ok (s, [], Some ENOMEM)
      else if iso_state s \<noteq> ISODEP_STATE_SELECTED then Ok (s, [], Some EACCES)
      else
        let s = isodep_transmission_clear (s\<lparr>iso_state := ISODEP_STATE_TRANSFER\<rparr>);
            s = s\<lparr>transmit_data := data, transmit_len := data_len\<rparr>;
            send = (\<lambda>s. rbind (isodep_chunk_send s) (\<lambda>(s, ev). Ok (s, ev, None))) in
        if first_transfer s then
          let spent_time = now - ats_received_time s;
              s = s\<lparr>first_transfer := False, ats_received_time := now\<rparr>;
              wait = div_round_up (fwt (tag s)) T4T_FC_IN_MS in
          if spent_time < uint wait then
            if resched < 0 then Ok (s, [], Some (ERRNO resched))
            else Ok (s\<lparr>isodep_work := True\<rparr>, [Schedule (word_of_int (uint wait - spent_time))], None)
          else send s
        else send s)"

section \<open>Runs\<close>

text \<open>
  What happens to the module: the calls of its interface, the expiry of the frame timer, and
  the delayed work.
\<close>

datatype isodep_input =
    Rats nfc_t4t_isodep_fsd u8
  | Deselect
  | Transmit int int "u8 list"
  | Receive int "u8 list" bool
  | Timeout
  | Work

record isodep_env =
  env_cfg :: isodep_config
  env_div :: "u32 \<Rightarrow> u32 \<Rightarrow> u32"

definition no_ret :: "iso_out \<Rightarrow> iso_ret" where
  "no_ret r = rbind r (\<lambda>(s, ev). Ok (s, ev, None))"

primrec isodep_step :: "isodep_env \<Rightarrow> isodep \<Rightarrow> isodep_input \<Rightarrow> iso_ret" where
  "isodep_step env s (Rats f d) = nfc_t4t_isodep_rats_send f d s"
| "isodep_step env s Deselect = nfc_t4t_isodep_tag_deselect s"
| "isodep_step env s (Transmit resched now data) =
     nfc_t4t_isodep_transmit (env_div env) resched now (Some data) (of_nat (length data)) s"
| "isodep_step env s (Receive now data err) =
     nfc_t4t_isodep_data_received (env_cfg env) now (Some data) (of_nat (length data)) err s"
| "isodep_step env s Timeout = no_ret (nfc_t4t_isodep_on_timeout (env_cfg env) s)"
| "isodep_step env s Work =
     (if isodep_work s then no_ret (isodep_delay_handler (s\<lparr>isodep_work := False\<rparr>)) else Ok (s, [], None))"

text \<open>A run collects the callbacks.\<close>

fun isodep_run :: "isodep_env \<Rightarrow> isodep \<Rightarrow> isodep_input list \<Rightarrow> iso_out" where
  "isodep_run env s [] = Ok (s, [])"
| "isodep_run env s (i # is) =
     rbind (isodep_step env s i) (\<lambda>(s', ev, _).
     rbind (isodep_run env s' is) (\<lambda>(s'', ev'). Ok (s'', ev @ ev')))"

section \<open>Frames\<close>

text \<open>Whether the device identifier is sent, and what a frame starts with.\<close>

definition did_used :: "nfc_t4t_isodep_tag \<Rightarrow> bool" where
  "did_used t \<longleftrightarrow> did_supported t \<and> did t \<noteq> 0"

definition hdr_len :: "nfc_t4t_isodep_tag \<Rightarrow> nat" where
  "hdr_len t = (if did_used t then 2 else 1)"

definition frame_hdr :: "nfc_t4t_isodep_tag \<Rightarrow> u8 \<Rightarrow> u8 list" where
  "frame_hdr t b = (if did_used t then [b OR I_BLOCK_DID_BIT, did t] else [b])"

definition i_hdr :: "nfc_t4t_isodep_tag \<Rightarrow> u8 \<Rightarrow> bool \<Rightarrow> u8 list" where
  "i_hdr t n chain =
     (let h = frame_hdr t (ISODEP_I_BLOCK OR (n AND 1))
      in if chain then (hd h OR I_BLOCK_CHAINING_BIT) # List.tl h else h)"

text \<open>How many data bytes fit a block.\<close>

definition chunk_room :: "nfc_t4t_isodep_tag \<Rightarrow> nat" where
  "chunk_room t = unat (fsc t) - hdr_len t"

text \<open>Cutting data into I-blocks with alternating block numbers.\<close>

fun i_blocks :: "nfc_t4t_isodep_tag \<Rightarrow> u8 \<Rightarrow> u8 list \<Rightarrow> u8 list list" where
  "i_blocks t n data =
     (if 0 < chunk_room t \<and> chunk_room t < length data
      then (i_hdr t n True @ take (chunk_room t) data) # i_blocks t (n XOR 1) (drop (chunk_room t) data)
      else [i_hdr t n False @ data])"

declare i_blocks.simps [simp del]

section \<open>Invariant\<close>

definition fsc_ok :: "isodep \<Rightarrow> bool" where
  "fsc_ok s \<longleftrightarrow> 14 \<le> unat (fsc (tag s)) \<and> unat (fsc (tag s)) \<le> unat (buf_size (tx_data s))"

definition tx_ok :: "nfc_t4t_buf \<Rightarrow> bool" where
  "tx_ok b \<longleftrightarrow> (\<exists>d. buf_data b = Some d \<and> unat (buf_size b) \<le> length d) \<and> 16 \<le> unat (buf_size b) \<and>
     unat (buf_len b) \<le> unat (buf_size b)"

definition iso_inv :: "isodep \<Rightarrow> bool" where
  "iso_inv s \<longleftrightarrow> t4t_isodep_cb s \<noteq> None \<and> tx_ok (tx_data s) \<and> tx_ok (rx_data s) \<and>
     unat (buf_size (rx_data s)) < 2 ^ 31 \<and> length (historical (tag s)) = 15 \<and>
     (block_num s = 0 \<or> block_num s = 1) \<and>
     transmitted_len s \<le> transmit_len s \<and> readable (transmit_data s) (unat (transmit_len s)) \<and>
     (iso_state s = ISODEP_STATE_SELECTED \<or> chaining s \<or> isodep_work s \<longrightarrow> fsc_ok s) \<and>
     (iso_state s = ISODEP_STATE_SELECTED \<longrightarrow> \<not> ats_expected s) \<and>
     iso_state s \<noteq> ISODEP_STATE_UNINITIALIZED"

text \<open>The event of a callback when it is set.\<close>

definition if_set :: "(nfc_t4t_isodep_cb \<Rightarrow> bool) \<Rightarrow> isodep_event \<Rightarrow> isodep \<Rightarrow> isodep_event list" where
  "if_set is_set ev s = (if is_set (the (t4t_isodep_cb s)) then [ev] else [])"

lemma callback_if_set: "t4t_isodep_cb s \<noteq> None \<Longrightarrow> callback is_set ev s = Ok (if_set is_set ev s)"
  by (auto simp: callback_def if_set_def)

end
