(* ===== verification/T4T_ISODEP_Safe.thy ===== *)
theory T4T_ISODEP_Safe
  imports T4T_ISODEP
begin

unbundle bit_operations_syntax

text \<open>
  What the handlers of \<^verbatim>\<open>T4T_ISODEP\<close> do in a state that satisfies the invariant: the frames they send,
  that no access leaves the buffers, and that the invariant is kept along every run.
\<close>

section \<open>Sending frames\<close>

lemma hdr_len_pos: "0 < hdr_len t" "hdr_len t \<le> 2"
  by (simp_all add: hdr_len_def)

lemma length_frame_hdr [simp]: "length (frame_hdr t b) = hdr_len t"
  by (simp add: frame_hdr_def hdr_len_def)

lemma frame_hdr_not_Nil [simp]: "frame_hdr t b \<noteq> []"
  by (simp add: frame_hdr_def)

lemma length_i_hdr [simp]: "length (i_hdr t n c) = hdr_len t"
  by (simp add: i_hdr_def Let_def hdr_len_def frame_hdr_def)

lemma did_include_hdr:
  assumes "2 \<le> length tx"
  shows "did_include t (b # drop (Suc 0) tx) 0 = Ok (frame_hdr t b @ drop (hdr_len t) tx, hdr_len t)"
proof -
  from assms obtain x y r where "tx = x # y # r" by (cases tx; cases "List.tl tx") auto
  then show ?thesis
    by (simp add: did_include_def did_used_def [symmetric] frame_hdr_def hdr_len_def rd_def wr_def)
qed

lemma wr_0: "1 \<le> length tx \<Longrightarrow> wr tx 0 [b] = Ok (b # drop (Suc 0) tx)"
  by (simp add: wr_def)

definition chunk_state :: "isodep \<Rightarrow> isodep" where
  "chunk_state s =
     (let room = chunk_room (tag s); left = unat (transmit_len s) - unat (transmitted_len s);
          n = min room left; tx = the (buf_data (tx_data s));
          frame = i_hdr (tag s) (block_num s) (room < left) @
                  take n (drop (unat (transmitted_len s)) (the (transmit_data s))) in
      s\<lparr>retransmit_cnt := 0,
        err_status := (err_status s)\<lparr>frame_retry_cnt := 0, last_frame := ISODEP_FRAME_I\<rparr>,
        chaining := (room < left),
        tx_data := (tx_data s)\<lparr>buf_data := Some (frame @ drop (length frame) tx),
                               buf_len := of_nat (length frame)\<rparr>,
        transmitted_len := transmitted_len s + of_nat n\<rparr>)"

definition tx_frame :: "isodep \<Rightarrow> u8 list" where
  "tx_frame s = pbytes (buf_data (tx_data s)) (unat (buf_len (tx_data s)))"

lemma chunk_arith:
  fixes a b :: u32 and f :: u16
  assumes "b \<le> a" "14 \<le> unat f" "k \<le> 2"
  shows "unat (a - b) = unat a - unat b" "unat (ucast f - of_nat k :: u32) = unat f - k"
proof -
  show "unat (a - b) = unat a - unat b" using assms(1) by (rule unat_sub)
  have k: "unat (of_nat k :: u32) = k" using assms(3) by (simp add: unat_of_nat)
  have "of_nat k \<le> (ucast f :: u32)" using assms k by (simp add: word_le_nat_alt)
  then show "unat (ucast f - of_nat k :: u32) = unat f - k" by (simp add: unat_sub k)
qed

lemma min_of_nat: "of_nat (min a b) = (if a < b then of_nat a else of_nat b :: 'a::semiring_1)"
  by (simp add: min_def)

lemma i_hdr_True: "(hd (frame_hdr t (2 OR (n AND 1))) OR 16) # drop 1 (frame_hdr t (2 OR (n AND 1))) = i_hdr t n True"
  by (simp add: i_hdr_def Let_def frame_hdr_def)

lemma i_hdr_False: "frame_hdr t (2 OR (n AND 1)) = i_hdr t n False"
  by (simp add: i_hdr_def)

lemma chunk_hdr:
  "rbind (if c then rbind (rd (frame_hdr t (2 OR (n AND 1)) @ drop (hdr_len t) tx) 0) (\<lambda>v.
             rbind (wr (frame_hdr t (2 OR (n AND 1)) @ drop (hdr_len t) tx) 0 [v OR 16])
               (\<lambda>tx. Ok (tx, a, True)))
           else Ok (frame_hdr t (2 OR (n AND 1)) @ drop (hdr_len t) tx, b, False)) f =
   f (i_hdr t n c @ drop (hdr_len t) tx, if c then a else b, c)"
proof -
  obtain h r where h: "frame_hdr t (2 OR (n AND 1)) = h # r" by (cases "frame_hdr t (2 OR (n AND 1))") simp_all
  then have "i_hdr t n True = (h OR 16) # r" using i_hdr_True [of t n] by simp
  with h show ?thesis by (simp add: rd_def wr_def i_hdr_False [symmetric])
qed

lemma chunk_body:
  assumes "unat (fsc t) \<le> length tx" "14 \<le> unat (fsc t)" "length xs \<le> chunk_room t"
  shows "wr (i_hdr t n c @ drop (hdr_len t) tx) (hdr_len t) xs =
         Ok ((i_hdr t n c @ xs) @ drop (length (i_hdr t n c @ xs)) tx)"
proof -
  have "hdr_len t + length xs \<le> length tx"
    using assms hdr_len_pos [of t] by (simp add: chunk_room_def)
  then show ?thesis by (simp add: wr_def add.commute)
qed

lemma chunk_room_fsc: "14 \<le> unat (fsc t) \<Longrightarrow> hdr_len t + chunk_room t = unat (fsc t)"
  using hdr_len_pos [of t] by (simp add: chunk_room_def)

lemma chunk_send_Ok:
  assumes inv: "iso_inv s" and f: "fsc_ok s"
  shows "isodep_chunk_send s =
    Ok (chunk_state s, if_set cb_ready_to_send (Ready_to_send (tx_frame (chunk_state s)) (frame_fdt s)) s)"
proof -
  obtain tx where tx: "buf_data (tx_data s) = Some tx" "unat (buf_size (tx_data s)) \<le> length tx"
    using inv by (auto simp: iso_inv_def tx_ok_def)
  let ?t = "tag s" and ?left = "unat (transmit_len s) - unat (transmitted_len s)"
  have le: "transmitted_len s \<le> transmit_len s" and rd: "readable (transmit_data s) (unat (transmit_len s))"
    and cb: "t4t_isodep_cb s \<noteq> None" using inv by (simp_all add: iso_inv_def)
  have fs: "14 \<le> unat (fsc ?t)" "unat (fsc ?t) \<le> length tx" using f tx by (auto simp: fsc_ok_def)
  note ar = chunk_arith [OF le fs(1) hdr_len_pos(2) [of ?t]]
  define n where "n = min (chunk_room ?t) ?left"
  define xs where "xs = take n (drop (unat (transmitted_len s)) (the (transmit_data s)))"
  have src: "memcpy_src (map_option (drop (unat (transmitted_len s))) (transmit_data s)) n = Ok xs"
    "length xs = n"
    using rd le unfolding xs_def n_def
    by (auto simp: readable_def memcpy_src_def rdn_def word_le_nat_alt)
  have room: "(ucast (fsc ?t) - of_nat (hdr_len ?t) < transmit_len s - transmitted_len s) = (chunk_room ?t < ?left)"
    by (simp add: word_less_nat_alt ar chunk_room_def)
  define dl :: u32 where "dl = (if chunk_room ?t < ?left then ucast (fsc ?t) - of_nat (hdr_len ?t)
                          else transmit_len s - transmitted_len s)"
  have dl: "unat dl = n" by (simp add: dl_def n_def ar chunk_room_def min_def)
  have dln: "dl = of_nat n" by (simp flip: dl)
  have fr: "unat (of_nat (hdr_len ?t) + dl) = hdr_len ?t + n"
  proof -
    have "n \<le> chunk_room ?t" by (simp add: n_def)
    then have "hdr_len ?t + n < 2 ^ 32"
      using chunk_room_fsc [OF fs(1)] unat_u16_less [of "fsc ?t"] by simp
    then show ?thesis by (simp add: dln unat_word_ariths unat_of_nat)
  qed
  have w: "wr (i_hdr ?t (block_num s) c @ drop (hdr_len ?t) tx) (hdr_len ?t) xs =
         Ok ((i_hdr ?t (block_num s) c @ xs) @ drop (length (i_hdr ?t (block_num s) c @ xs)) tx)" for c
    by (rule chunk_body [OF fs(2,1)]) (simp add: src n_def)
  have tx2: "1 \<le> length tx" "2 \<le> length tx" using fs by simp_all
  have cs: "chunk_state s = s\<lparr>retransmit_cnt := 0,
      err_status := (err_status s)\<lparr>frame_retry_cnt := 0, last_frame := ISODEP_FRAME_I\<rparr>,
      chaining := (chunk_room ?t < ?left),
      tx_data := (tx_data s)\<lparr>buf_data := Some (i_hdr ?t (block_num s) (chunk_room ?t < ?left) @ xs @ drop (hdr_len ?t + n) tx),
                             buf_len := of_nat (hdr_len ?t) + dl\<rparr>,
      transmitted_len := transmitted_len s + dl\<rparr>"
    unfolding chunk_state_def Let_def n_def [symmetric] xs_def [symmetric] tx option.sel
    by (simp add: src dln)
  show ?thesis
    unfolding isodep_chunk_send_def tx option.case Let_def
    by (simp add: wr_0 [OF tx2(1)] did_include_hdr [OF tx2(2)] room dl_def [symmetric]
        chunk_hdr cong: if_cong split del: if_split)
      (simp add: dl src w callback_if_set cb cs tx_frame_def pbytes_def fr if_set_def frame_fdt_def
        cong: if_cong split del: if_split)
qed

lemma iso_invD:
  assumes "iso_inv s"
  shows "t4t_isodep_cb s \<noteq> None" "tx_ok (tx_data s)" "tx_ok (rx_data s)"
    "unat (buf_size (rx_data s)) < 2 ^ 31" "length (historical (tag s)) = 15"
    "block_num s = 0 \<or> block_num s = 1" "transmitted_len s \<le> transmit_len s"
    "readable (transmit_data s) (unat (transmit_len s))"
    "iso_state s = ISODEP_STATE_SELECTED \<or> chaining s \<or> isodep_work s \<Longrightarrow> fsc_ok s"
    "iso_state s = ISODEP_STATE_SELECTED \<Longrightarrow> \<not> ats_expected s"
  using assms by (simp_all add: iso_inv_def)

lemma tx_ok_E:
  assumes "tx_ok b"
  obtains d where "buf_data b = Some d" "unat (buf_size b) \<le> length d" "16 \<le> length d"
    "unat (buf_len b) \<le> length d"
  using assms by (force simp: tx_ok_def)

text \<open>The state behind \<^const>\<open>isodep_r_frame_send\<close> and the frame it sends.\<close>

definition r_frame :: "isodep \<Rightarrow> bool \<Rightarrow> u8 list" where
  "r_frame s ack = frame_hdr (tag s)
     (if ack then ISODEP_R_BLOCK OR (block_num s AND 1)
      else (ISODEP_R_BLOCK OR (block_num s AND 1)) OR R_BLOCK_NAK)"

definition tx_overwrite :: "u8 list \<Rightarrow> isodep \<Rightarrow> isodep" where
  "tx_overwrite f s =
     s\<lparr>tx_data := (tx_data s)\<lparr>buf_data := Some (f @ drop (length f) (the (buf_data (tx_data s))))\<rparr>\<rparr>"

lemma r_frame_send_Ok:
  assumes "iso_inv s"
  shows "isodep_r_frame_send ack s =
    Ok (tx_overwrite (r_frame s ack) s, if_set cb_ready_to_send (Ready_to_send (r_frame s ack) (frame_fdt s)) s)"
proof -
  from iso_invD(2) [OF assms] obtain tx where tx: "buf_data (tx_data s) = Some tx" "16 \<le> length tx"
    by (rule tx_ok_E)
  then have l: "1 \<le> length tx" "2 \<le> length tx" by simp_all
  have w: "wr (b # drop (Suc 0) tx) 0 [c] = Ok (c # drop (Suc 0) tx)" "rd (b # drop (Suc 0) tx) 0 = Ok b" for b c
    by (simp_all add: wr_def rd_def)
  show ?thesis
    unfolding isodep_r_frame_send_def tx option.case Let_def
    by (simp add: wr_0 [OF l(1)] did_include_hdr [OF l(2)] w r_frame_def tx_overwrite_def tx
        callback_if_set iso_invD [OF assms])
      (simp add: if_set_def frame_fdt_def)
qed

lemma length_tx_frame: "tx_ok (tx_data s) \<Longrightarrow> length (tx_frame s) = unat (buf_len (tx_data s))"
  by (auto simp: tx_frame_def pbytes_def tx_ok_def)

text \<open>
  What every handler guarantees: the invariant, frames that fit the transmit buffer, and that an
  established frame size stays valid.
\<close>

definition iso_post :: "isodep \<Rightarrow> isodep \<Rightarrow> isodep_event list \<Rightarrow> bool" where
  "iso_post s s' ev \<longleftrightarrow> iso_inv s' \<and> (fsc_ok s \<longrightarrow> fsc_ok s') \<and> buf_size (tx_data s') = buf_size (tx_data s) \<and>
     (\<forall>f d. Ready_to_send f d \<in> set ev \<longrightarrow> length f \<le> unat (buf_size (tx_data s)))"

definition safe_out :: "isodep \<Rightarrow> iso_out \<Rightarrow> bool" where
  "safe_out s r \<longleftrightarrow> (\<exists>s' ev. r = Ok (s', ev) \<and> iso_post s s' ev)"

definition safe_ret :: "isodep \<Rightarrow> iso_ret \<Rightarrow> bool" where
  "safe_ret s r \<longleftrightarrow> (\<exists>s' ev ret. r = Ok (s', ev, ret) \<and> iso_post s s' ev)"

lemma in_if_set: "x \<in> set (if_set c ev s) \<Longrightarrow> x = ev"
  by (simp add: if_set_def split: if_splits)

lemma chunk_state_simps [simp]:
  "t4t_isodep_cb (chunk_state s) = t4t_isodep_cb s" "rx_data (chunk_state s) = rx_data s"
  "tag (chunk_state s) = tag s" "block_num (chunk_state s) = block_num s"
  "transmit_len (chunk_state s) = transmit_len s" "transmit_data (chunk_state s) = transmit_data s"
  "iso_state (chunk_state s) = iso_state s" "isodep_work (chunk_state s) = isodep_work s"
  "ats_expected (chunk_state s) = ats_expected s" "buf_size (tx_data (chunk_state s)) = buf_size (tx_data s)"
  "first_transfer (chunk_state s) = first_transfer s"
  "last_frame (err_status (chunk_state s)) = ISODEP_FRAME_I"
  "frame_retry_cnt (err_status (chunk_state s)) = 0"
  "chaining (chunk_state s) = (chunk_room (tag s) < unat (transmit_len s) - unat (transmitted_len s))"
  by (simp_all add: chunk_state_def Let_def)

lemma chunk_state_tx:
  assumes inv: "iso_inv s" and f: "fsc_ok s"
  defines "n \<equiv> min (chunk_room (tag s)) (unat (transmit_len s) - unat (transmitted_len s))"
  shows "tx_frame (chunk_state s) = i_hdr (tag s) (block_num s) (chaining (chunk_state s)) @
      take n (drop (unat (transmitted_len s)) (the (transmit_data s)))"
    and "unat (transmitted_len (chunk_state s)) = unat (transmitted_len s) + n"
    and "length (tx_frame (chunk_state s)) \<le> unat (fsc (tag s))"
    and "tx_ok (tx_data (chunk_state s))"
proof -
  obtain tx where tx: "buf_data (tx_data s) = Some tx" "unat (buf_size (tx_data s)) \<le> length tx" "16 \<le> unat (buf_size (tx_data s))"
    using inv by (auto simp: iso_inv_def tx_ok_def)
  have fs: "14 \<le> unat (fsc (tag s))" "unat (fsc (tag s)) \<le> unat (buf_size (tx_data s))" using f by (auto simp: fsc_ok_def)
  define xs where "xs = take n (drop (unat (transmitted_len s)) (the (transmit_data s)))"
  have lx: "length xs = n"
    using iso_invD(7,8) [OF inv] by (auto simp: xs_def n_def readable_def word_le_nat_alt)
  have hn: "hdr_len (tag s) + n \<le> unat (fsc (tag s))"
    using chunk_room_fsc [OF fs(1)] by (simp add: n_def min_def)
  have u: "unat (of_nat (hdr_len (tag s) + n) :: u32) = hdr_len (tag s) + n"
    using hn unat_u16_less [of "fsc (tag s)"] by (simp add: unat_of_nat del: of_nat_add)
  have td: "tx_data (chunk_state s) = (tx_data s)\<lparr>buf_data :=
      Some ((i_hdr (tag s) (block_num s) (chaining (chunk_state s)) @ xs) @ drop (hdr_len (tag s) + n) tx),
      buf_len := of_nat (hdr_len (tag s) + n)\<rparr>"
    unfolding chunk_state_def Let_def n_def [symmetric] xs_def [symmetric] by (simp add: lx tx)
  show "tx_frame (chunk_state s) = i_hdr (tag s) (block_num s) (chaining (chunk_state s)) @
      take n (drop (unat (transmitted_len s)) (the (transmit_data s)))"
    unfolding xs_def [symmetric] by (simp add: tx_frame_def td u lx pbytes_def del: of_nat_add chunk_state_simps)
  show "length (tx_frame (chunk_state s)) \<le> unat (fsc (tag s))"
    using hn by (simp add: tx_frame_def td u lx pbytes_def del: of_nat_add chunk_state_simps)
  show "tx_ok (tx_data (chunk_state s))"
    using hn fs tx by (simp add: tx_ok_def td u lx del: of_nat_add chunk_state_simps)
  have nl: "n \<le> unat (transmit_len s) - unat (transmitted_len s)" by (simp add: n_def)
  have "unat (transmitted_len s) + n \<le> unat (transmit_len s)"
    using nl iso_invD(7) [OF inv] by (simp add: word_le_nat_alt)
  then have "unat (transmitted_len s) + n < 2 ^ 32" using unat_u32_less [of "transmit_len s"] by simp
  then have "unat (transmitted_len s + of_nat n) = unat (transmitted_len s) + n"
    by (simp add: unat_word_ariths unat_of_nat)
  then show "unat (transmitted_len (chunk_state s)) = unat (transmitted_len s) + n"
    by (simp add: chunk_state_def Let_def n_def)
qed

lemma chunk_send_safe:
  assumes inv: "iso_inv s" and f: "fsc_ok s"
  shows "safe_out s (isodep_chunk_send s)"
proof -
  note tx = chunk_state_tx [OF inv f]
  have "transmitted_len (chunk_state s) \<le> transmit_len s"
    using iso_invD(7) [OF inv] by (simp add: word_le_nat_alt tx(2))
  then have "iso_inv (chunk_state s)" using inv tx(4) f by (simp add: iso_inv_def fsc_ok_def)
  then show ?thesis
    using f tx(3) by (auto simp: safe_out_def iso_post_def chunk_send_Ok [OF inv f] fsc_ok_def dest!: in_if_set)
qed

lemma tx_overwrite_simps [simp]:
  "t4t_isodep_cb (tx_overwrite f s) = t4t_isodep_cb s" "rx_data (tx_overwrite f s) = rx_data s"
  "tag (tx_overwrite f s) = tag s" "block_num (tx_overwrite f s) = block_num s"
  "transmit_len (tx_overwrite f s) = transmit_len s" "transmit_data (tx_overwrite f s) = transmit_data s"
  "transmitted_len (tx_overwrite f s) = transmitted_len s" "chaining (tx_overwrite f s) = chaining s"
  "iso_state (tx_overwrite f s) = iso_state s" "isodep_work (tx_overwrite f s) = isodep_work s"
  "ats_expected (tx_overwrite f s) = ats_expected s" "buf_size (tx_data (tx_overwrite f s)) = buf_size (tx_data s)"
  "buf_len (tx_data (tx_overwrite f s)) = buf_len (tx_data s)"
  "err_status (tx_overwrite f s) = err_status s" "retransmit_cnt (tx_overwrite f s) = retransmit_cnt s"
  "first_transfer (tx_overwrite f s) = first_transfer s"
  by (simp_all add: tx_overwrite_def)

lemma fsc_ok_cong: "tag s' = tag s \<Longrightarrow> buf_size (tx_data s') = buf_size (tx_data s) \<Longrightarrow> fsc_ok s' = fsc_ok s"
  by (simp add: fsc_ok_def)

lemma tx_overwrite_inv:
  assumes "iso_inv s" "length f \<le> 16"
  shows "iso_inv (tx_overwrite f s)"
proof -
  have "tx_ok (tx_data (tx_overwrite f s))"
    using iso_invD(2) [OF assms(1)] assms(2) by (auto simp: tx_ok_def tx_overwrite_def)
  with assms(1) show ?thesis by (simp add: iso_inv_def fsc_ok_cong [of "tx_overwrite f s" s])
qed

lemma length_r_frame: "length (r_frame s a) \<le> 2"
  using hdr_len_pos(2) by (simp add: r_frame_def)

lemma r_frame_send_safe:
  assumes "iso_inv s" shows "safe_out s (isodep_r_frame_send a s)"
proof -
  have "16 \<le> unat (buf_size (tx_data s))" using iso_invD(2) [OF assms] by (simp add: tx_ok_def)
  then show ?thesis
    using tx_overwrite_inv [OF assms, of "r_frame s a"] length_r_frame [of s a]
    by (auto simp: safe_out_def iso_post_def r_frame_send_Ok [OF assms] dest!: in_if_set
        intro: fsc_ok_cong [THEN iffD2])
qed

section \<open>Every handler is safe\<close>

lemma iso_post_same: "iso_inv s' \<Longrightarrow> tag s' = tag s \<Longrightarrow> buf_size (tx_data s') = buf_size (tx_data s) \<Longrightarrow>
    (\<And>f d. Ready_to_send f d \<in> set ev \<Longrightarrow> length f \<le> unat (buf_size (tx_data s))) \<Longrightarrow> iso_post s s' ev"
  by (auto simp: iso_post_def fsc_ok_def)

lemma iso_post_trans: "iso_post s s' ev \<Longrightarrow> iso_post s' s'' ev' \<Longrightarrow> iso_post s s'' (ev @ ev')"
  by (auto simp: iso_post_def)

text \<open>A handler that starts from a state with the same tag and transmit buffer size.\<close>

lemma iso_post_from:
  "tag s1 = tag s \<Longrightarrow> buf_size (tx_data s1) = buf_size (tx_data s) \<Longrightarrow> iso_post s1 s' ev = iso_post s s' ev"
  by (simp add: iso_post_def fsc_ok_cong [of s1 s])

lemma safe_from:
  assumes "tag s1 = tag s" "buf_size (tx_data s1) = buf_size (tx_data s)"
  shows "safe_out s1 r = safe_out s r" "safe_ret s1 q = safe_ret s q"
  by (simp_all add: safe_out_def safe_ret_def iso_post_from [OF assms])

lemma safe_ret_of_out: "safe_out s r \<Longrightarrow> safe_ret s (rbind r (\<lambda>(s, ev). Ok (s, ev, ret)))"
  by (auto simp: safe_out_def safe_ret_def)

lemma safe_ret_stop: "iso_inv s \<Longrightarrow> safe_ret s (Ok (s, [], ret))"
  by (simp add: safe_ret_def iso_post_def)

lemma clear_inv: "iso_inv s \<Longrightarrow> iso_inv (isodep_transmission_clear s)"
  by (simp add: iso_inv_def isodep_transmission_clear_def tx_ok_def fsc_ok_def readable_def)

lemma clear_simps [simp]:
  "tag (isodep_transmission_clear s) = tag s" "tx_data (isodep_transmission_clear s) = tx_data s"
  "t4t_isodep_cb (isodep_transmission_clear s) = t4t_isodep_cb s" "iso_state (isodep_transmission_clear s) = iso_state s"
  "block_num (isodep_transmission_clear s) = block_num s" "first_transfer (isodep_transmission_clear s) = first_transfer s"
  "ats_expected (isodep_transmission_clear s) = ats_expected s" "isodep_work (isodep_transmission_clear s) = isodep_work s"
  by (simp_all add: isodep_transmission_clear_def)

lemma err_notify_Ok:
  "t4t_isodep_cb s \<noteq> None \<Longrightarrow>
   err_notify e s = Ok (isodep_transmission_clear s, if_set cb_error (Error e) s)"
  by (simp add: err_notify_def callback_if_set if_set_def)

lemma err_notify_safe: "iso_inv s \<Longrightarrow> safe_out s (err_notify e s)"
  by (auto simp: safe_out_def err_notify_Ok iso_invD(1) intro!: iso_post_same clear_inv dest!: in_if_set)

lemma notify_failure_safe: "safe_ret s r \<Longrightarrow> safe_ret s (notify_failure r)"
proof -
  assume "safe_ret s r"
  then obtain s' ev ret where r: "r = Ok (s', ev, ret)" and p: "iso_post s s' ev"
    by (auto simp: safe_ret_def)
  show ?thesis
  proof (cases ret)
    case None with r p show ?thesis by (simp add: notify_failure_def safe_ret_def)
  next
    case (Some e)
    have "safe_out s' (err_notify e s')" using p by (intro err_notify_safe) (simp add: iso_post_def)
    with r p Some show ?thesis
      by (auto simp: notify_failure_def safe_ret_def safe_out_def intro: iso_post_trans)
  qed
qed

text \<open>The header byte of the last I-block as it is restored for a retransmission.\<close>

definition i_hdr_byte :: "isodep \<Rightarrow> u8" where
  "i_hdr_byte s = (if chaining s then (ISODEP_I_BLOCK OR (block_num s AND 1)) OR I_BLOCK_CHAINING_BIT
                   else ISODEP_I_BLOCK OR (block_num s AND 1))"

lemma retransmit_Ok:
  assumes inv: "iso_inv s"
  shows "last_i_block_retransmit s =
    (if retransmit_cnt s > 2 then Ok (s, [], Some NFC_T4T_ISODEP_SEMANTIC_ERROR)
     else let s' = tx_overwrite [i_hdr_byte s] s;
              ev = if_set cb_ready_to_send (Ready_to_send (tx_frame s') (frame_fdt s)) s in
          Ok (if ev \<noteq> [] then s'\<lparr>retransmit_cnt := retransmit_cnt s + 1\<rparr> else s', ev, None))"
proof -
  from iso_invD(2) [OF inv] obtain tx where tx: "buf_data (tx_data s) = Some tx" "16 \<le> length tx"
    by (rule tx_ok_E)
  then have l: "1 \<le> length tx" by simp
  have w: "wr (b # drop (Suc 0) tx) 0 [c] = Ok (c # drop (Suc 0) tx)" "rd (b # drop (Suc 0) tx) 0 = Ok b" for b c
    by (simp_all add: wr_def rd_def)
  show ?thesis
    unfolding last_i_block_retransmit_def tx option.case Let_def
    by (simp add: wr_0 [OF l] w i_hdr_byte_def tx_overwrite_def tx tx_frame_def pbytes_def
        callback_if_set iso_invD [OF inv] if_set_def frame_fdt_def)
qed

lemma retransmit_safe:
  assumes inv: "iso_inv s" shows "safe_ret s (last_i_block_retransmit s)"
proof -
  have i: "iso_inv (tx_overwrite [i_hdr_byte s] s)" by (rule tx_overwrite_inv [OF inv]) simp
  then have i': "iso_inv ((tx_overwrite [i_hdr_byte s] s)\<lparr>retransmit_cnt := c\<rparr>)" for c
    by (simp add: iso_inv_def fsc_ok_def)
  have "length (tx_frame (tx_overwrite [i_hdr_byte s] s)) \<le> unat (buf_size (tx_data s))"
    using length_tx_frame [OF iso_invD(2) [OF i]] iso_invD(2) [OF inv] by (simp add: tx_ok_def)
  with i i' inv show ?thesis
    by (auto simp: retransmit_Ok [OF inv] safe_ret_def Let_def intro!: iso_post_same dest!: in_if_set)
qed

lemma toggle_inv: "iso_inv s \<Longrightarrow> iso_inv (block_num_toggle s)"
  by (auto simp: iso_inv_def block_num_toggle_def fsc_ok_def)

lemma toggle_simps [simp]:
  "tag (block_num_toggle s) = tag s" "tx_data (block_num_toggle s) = tx_data s"
  by (simp_all add: block_num_toggle_def)

lemma r_frame_ack_safe:
  assumes inv: "iso_inv s" shows "safe_ret s (r_frame_ack_handle b s)"
proof -
  have "safe_ret s (rbind (isodep_chunk_send (block_num_toggle s)) (\<lambda>(s, ev). Ok (s, ev, None)))" if "chaining s"
  proof -
    have f: "fsc_ok (block_num_toggle s)"
      using iso_invD(9) [OF inv] that by (simp add: fsc_ok_def)
    show ?thesis
      using safe_ret_of_out [OF chunk_send_safe [OF toggle_inv [OF inv] f]] by (simp add: safe_from(2) [of "block_num_toggle s" s])
  qed
  then show ?thesis
    using retransmit_safe [OF inv] safe_ret_stop [OF inv] by (simp add: r_frame_ack_handle_def Let_def)
qed

lemma r_frame_safe:
  assumes inv: "iso_inv s" and d: "data \<noteq> []" shows "safe_ret s (isodep_r_frame_handle data len s)"
  using r_frame_ack_safe [OF inv] safe_ret_stop [OF inv] d
  by (simp add: isodep_r_frame_handle_def rd_def Let_def)

text \<open>A waiting time extension request carries the multiplier it asks for.\<close>

definition wtx_ok :: "u8 list \<Rightarrow> bool" where
  "wtx_ok data \<longleftrightarrow> (data \<noteq> [] \<and> data ! 0 AND ISODEP_BLOCK_FIXED_BIT \<noteq> 0 \<and>
     data ! 0 AND ISODEP_S_BLOCK_INDICATOR \<noteq> 0 \<and> data ! 0 AND S_BLOCK_WTX_MASK = S_BLOCK_WTX_MASK \<longrightarrow>
     (if data ! 0 AND I_BLOCK_DID_BIT \<noteq> 0 then 2 else 1) < length data)"

lemma wr_behind_hdr:
  assumes "hdr_len t < length tx"
  shows "wr (frame_hdr t b @ drop (hdr_len t) tx) (hdr_len t) [w] =
    Ok (frame_hdr t b @ [w] @ drop (length (frame_hdr t b @ [w])) tx)"
  using assms by (simp add: wr_def)

lemma tx_ok_frame:
  assumes "tx_ok b" "length f \<le> 16"
  shows "tx_ok (b\<lparr>buf_data := Some (f @ drop (length f) (the (buf_data b))), buf_len := of_nat (length f)\<rparr>)"
  using assms by (auto simp: tx_ok_def unat_of_nat)

lemma inv_tx_frame:
  assumes "iso_inv s" "length f \<le> 16"
  shows "iso_inv (s\<lparr>tx_data := (tx_data s)\<lparr>buf_data := Some (f @ drop (length f) (the (buf_data (tx_data s)))),
                                            buf_len := of_nat (length f)\<rparr>\<rparr>)"
  using assms tx_ok_frame [OF iso_invD(2) [OF assms(1)] assms(2)] by (simp add: iso_inv_def fsc_ok_def)

lemma inv_err_status [simp]: "iso_inv (s\<lparr>err_status := e\<rparr>) = iso_inv s"
  by (simp add: iso_inv_def fsc_ok_def)

lemma if_set_cong: "t4t_isodep_cb s' = t4t_isodep_cb s \<Longrightarrow> if_set c ev s' = if_set c ev s"
  by (simp add: if_set_def)

lemma wtx_response_safe:
  assumes inv: "iso_inv s" and tx: "buf_data (tx_data s) = Some tx"
  shows "safe_ret s
     (rbind (wr tx 0 [b]) (\<lambda>tx.
      rbind (did_include (tag s) tx 0) (\<lambda>(tx, index).
      rbind (wr tx index [w]) (\<lambda>tx.
      let s = s\<lparr>tx_data := (tx_data s)\<lparr>buf_data := Some tx, buf_len := of_nat (index + 1)\<rparr>,
                err_status := (err_status s)\<lparr>last_frame := ISODEP_FRAME_WTX_RESPONSE\<rparr>\<rparr> in
      rbind (callback cb_ready_to_send (Ready_to_send (take (index + 1) tx) fdt) s) (\<lambda>ev.
      Ok (s, ev, None))))))"
proof -
  have l: "1 \<le> length tx" "2 \<le> length tx" "hdr_len (tag s) < length tx" "16 \<le> unat (buf_size (tx_data s))"
    using iso_invD(2) [OF inv] tx hdr_len_pos(2) [of "tag s"] by (auto simp: tx_ok_def)
  define f where "f = frame_hdr (tag s) b @ [w]"
  have lf: "length f = hdr_len (tag s) + 1" by (simp add: f_def)
  then have "length f \<le> 16" using hdr_len_pos(2) [of "tag s"] by simp
  from inv_tx_frame [OF inv this] have i: "iso_inv (s\<lparr>tx_data := (tx_data s)\<lparr>buf_data := Some (f @ drop (length f) tx),
      buf_len := of_nat (length f)\<rparr>, err_status := e\<rparr>)" for e
    by (simp add: tx iso_inv_def fsc_ok_def)
  have w: "wr (frame_hdr (tag s) b @ drop (hdr_len (tag s)) tx) (hdr_len (tag s)) [w] = Ok (f @ drop (length f) tx)"
    using wr_behind_hdr [OF l(3)] by (simp add: f_def)
  show ?thesis
    using i l(4) hdr_len_pos(2) [of "tag s"]
    by (auto simp: wr_0 [OF l(1)] did_include_hdr [OF l(2)] w Let_def callback_if_set iso_invD(1) [OF inv]
        lf safe_ret_def intro!: iso_post_same dest!: in_if_set)
qed

lemma s_frame_safe:
  assumes inv: "iso_inv s" and d: "data \<noteq> []" "data ! 0 AND 2 \<noteq> 0" "data ! 0 AND 64 \<noteq> 0" "wtx_ok data"
  shows "safe_ret s (isodep_s_frame_handle data len s)"
proof -
  obtain tx where tx: "buf_data (tx_data s) = Some tx"
    using iso_invD(2) [OF inv] by (auto simp: tx_ok_def)
  have des: "safe_ret s (let s = s\<lparr>iso_state := ISODEP_STATE_INITIALIZED\<rparr> in
      rbind (callback cb_deselected Deselected s) (\<lambda>ev. Ok (s, ev, None)))"
  proof -
    have "iso_inv (s\<lparr>iso_state := ISODEP_STATE_INITIALIZED\<rparr>)" using inv by (simp add: iso_inv_def fsc_ok_def)
    then show ?thesis
      using iso_invD(1) [OF inv] by (auto simp: callback_if_set safe_ret_def Let_def intro!: iso_post_same dest!: in_if_set)
  qed
  show ?thesis
    using d wtx_response_safe [OF inv tx] des safe_ret_stop [OF inv]
    unfolding isodep_s_frame_handle_def tx option.case wtx_ok_def
    by (simp add: rd_def Let_def)
qed

text \<open>The number of bytes in front of the information field of a received I-block.\<close>

definition i_index :: "u8 \<Rightarrow> nat" where
  "i_index b = 1 + (if b AND I_BLOCK_DID_BIT \<noteq> 0 then 1 else 0) + (if b AND I_BLOCK_NAD_BIT \<noteq> 0 then 1 else 0)"

definition rx_append :: "u8 list \<Rightarrow> isodep \<Rightarrow> isodep" where
  "rx_append xs s =
     s\<lparr>rx_data := (rx_data s)\<lparr>buf_data := map_option (\<lambda>d. take (unat (buf_len (rx_data s))) d @ xs @
          drop (unat (buf_len (rx_data s)) + length xs) d) (buf_data (rx_data s)),
        buf_len := buf_len (rx_data s) + of_nat (length xs)\<rparr>\<rparr>"

definition rx_bytes :: "isodep \<Rightarrow> u8 list" where
  "rx_bytes s = pbytes (buf_data (rx_data s)) (unat (buf_len (rx_data s)))"

definition num_accept :: "u8 \<Rightarrow> isodep \<Rightarrow> isodep" where
  "num_accept b s = (if b AND ISODEP_BLOCK_NUM_MASK = block_num s then block_num_toggle s else s)"

lemma num_accept_simps [simp]:
  "rx_data (num_accept b s) = rx_data s" "tx_data (num_accept b s) = tx_data s" "tag (num_accept b s) = tag s"
  "t4t_isodep_cb (num_accept b s) = t4t_isodep_cb s" "ats_expected (num_accept b s) = ats_expected s"
  by (simp_all add: num_accept_def block_num_toggle_def)

lemma rx_append_simps [simp]:
  "tx_data (rx_append xs s) = tx_data s" "tag (rx_append xs s) = tag s"
  "t4t_isodep_cb (rx_append xs s) = t4t_isodep_cb s" "ats_expected (rx_append xs s) = ats_expected s"
  "block_num (rx_append xs s) = block_num s" "err_status (rx_append xs s) = err_status s"
  by (simp_all add: rx_append_def)

lemma rx_space:
  assumes inv: "iso_inv s" and d: "k \<le> length data" "length data < 2 ^ 31" "k \<le> 3"
  shows "(of_nat (length data) :: u32) < of_nat k \<longleftrightarrow> False"
    and "of_nat (length data) - of_nat k = (of_nat (length data - k) :: u32)"
    and "buf_len (rx_data s) + of_nat (length data - k) > buf_size (rx_data s) \<longleftrightarrow>
         unat (buf_len (rx_data s)) + (length data - k) > unat (buf_size (rx_data s))"
    and "unat (of_nat (length data - k) :: u32) = length data - k"
proof -
  show "(of_nat (length data) :: u32) < of_nat k \<longleftrightarrow> False"
    using d by (simp add: word_less_nat_alt unat_of_nat)
  show "of_nat (length data) - of_nat k = (of_nat (length data - k) :: u32)" using d by (simp add: of_nat_diff)
  show u: "unat (of_nat (length data - k) :: u32) = length data - k"
    using d by (simp add: unat_of_nat del: of_nat_diff)
  have "unat (buf_len (rx_data s)) \<le> unat (buf_size (rx_data s))" "unat (buf_size (rx_data s)) < 2 ^ 31"
    using iso_invD(3,4) [OF inv] by (simp_all add: tx_ok_def)
  then have "unat (buf_len (rx_data s) + of_nat (length data - k)) = unat (buf_len (rx_data s)) + (length data - k)"
    using d u by (simp add: unat_word_ariths del: of_nat_diff)
  then show "buf_len (rx_data s) + of_nat (length data - k) > buf_size (rx_data s) \<longleftrightarrow>
         unat (buf_len (rx_data s)) + (length data - k) > unat (buf_size (rx_data s))"
    by (simp add: word_less_nat_alt del: of_nat_diff)
qed

lemma rx_append_inv:
  assumes inv: "iso_inv s" and l: "unat (buf_len (rx_data s)) + length xs \<le> unat (buf_size (rx_data s))"
  shows "iso_inv (rx_append xs s)" "rx_bytes (rx_append xs s) = rx_bytes s @ xs"
    "unat (buf_len (rx_data (rx_append xs s))) = unat (buf_len (rx_data s)) + length xs"
proof -
  have "unat (buf_len (rx_data s)) + length xs < 2 ^ 32" using l iso_invD(4) [OF inv] by simp
  then have u: "unat (buf_len (rx_data s) + of_nat (length xs)) = unat (buf_len (rx_data s)) + length xs"
    by (simp add: unat_word_ariths unat_of_nat)
  then show "unat (buf_len (rx_data (rx_append xs s))) = unat (buf_len (rx_data s)) + length xs"
    by (simp add: rx_append_def)
  have "tx_ok (rx_data (rx_append xs s))" using iso_invD(3) [OF inv] l u by (auto simp: tx_ok_def rx_append_def)
  then show "iso_inv (rx_append xs s)" using inv by (simp add: iso_inv_def fsc_ok_def rx_append_def)
  show "rx_bytes (rx_append xs s) = rx_bytes s @ xs"
    using iso_invD(3) [OF inv] l u by (auto simp: rx_bytes_def pbytes_def rx_append_def tx_ok_def)
qed

text \<open>The state behind an accepted I-block, up to the acknowledgement or the callback.\<close>

definition i_accept :: "u8 list \<Rightarrow> isodep \<Rightarrow> isodep" where
  "i_accept data s = rx_append (drop (i_index (data ! 0)) data) (num_accept (data ! 0) s)"

lemma num_accept_inv: "iso_inv s \<Longrightarrow> iso_inv (num_accept b s)"
  by (simp add: num_accept_def toggle_inv)

lemma i_index_bounds: "1 \<le> i_index b" "i_index b \<le> 3"
  by (simp_all add: i_index_def)

lemma i_frame_Ok:
  assumes inv: "iso_inv s" and d: "data \<noteq> []" "length data < 2 ^ 31"
  shows "isodep_i_frame_handle data (of_nat (length data)) s =
    (if length data < i_index (data ! 0) then Ok (s, [], Some EINVAL)
     else if unat (buf_size (rx_data s)) < unat (buf_len (rx_data s)) + (length data - i_index (data ! 0))
     then Ok (s, [], Some ENOMEM)
     else let s' = i_accept data s in
       if data ! 0 AND I_BLOCK_CHAINING_BIT \<noteq> 0
       then no_ret (isodep_r_frame_send True
              (s'\<lparr>err_status := (err_status s')\<lparr>last_frame := ISODEP_FRAME_I_CHAINING\<rparr>\<rparr>))
       else let s'' = s'\<lparr>iso_state := ISODEP_STATE_SELECTED,
                         err_status := (err_status s')\<lparr>last_frame := ISODEP_FRAME_I\<rparr>\<rparr> in
         Ok (s'', if_set cb_data_received (Data_received (rx_bytes s')) s, None))"
proof -
  let ?k = "i_index (data ! 0)" and ?s = "num_accept (data ! 0) s"
  have short: "(of_nat (length data) :: u32) < of_nat ?k \<longleftrightarrow> length data < ?k"
    using d i_index_bounds [of "data ! 0"] by (simp add: word_less_nat_alt unat_of_nat)
  obtain rx where rx: "buf_data (rx_data s) = Some rx" "unat (buf_size (rx_data s)) \<le> length rx"
    using iso_invD(3) [OF inv] by (auto simp: tx_ok_def)
  show ?thesis
  proof (cases "length data < ?k")
    case True
    then show ?thesis
      using d unfolding isodep_i_frame_handle_def i_index_def [symmetric] Let_def by (simp add: rd_def short)
  next
    case False
    then have k: "?k \<le> length data" by simp
    note sp = rx_space [OF inv k d(2) i_index_bounds(2)]
    have fit: "rbind (wr rx (unat (buf_len (rx_data s))) (drop ?k data)) (\<lambda>rx. Ok (Some rx)) =
        Ok (Some (take (unat (buf_len (rx_data s))) rx @ drop ?k data @
              drop (unat (buf_len (rx_data s)) + length (drop ?k data)) rx))"
      if "\<not> unat (buf_size (rx_data s)) < unat (buf_len (rx_data s)) + (length data - ?k)"
      using that rx by (simp add: wr_def)
    show ?thesis
      using d k sp
      unfolding isodep_i_frame_handle_def i_index_def [symmetric] Let_def num_accept_def [symmetric]
      by (simp add: rd_def short rx fit memcpy_src_Ok i_accept_def rx_append_def no_ret_def
          callback_if_set iso_invD(1) [OF inv] rx_bytes_def if_set_def del: of_nat_diff)
  qed
qed

lemma i_accept_inv:
  assumes inv: "iso_inv s" and l: "unat (buf_len (rx_data s)) + (length data - i_index (data ! 0)) \<le> unat (buf_size (rx_data s))"
  shows "iso_inv (i_accept data s)"
  unfolding i_accept_def using l by (intro rx_append_inv(1) num_accept_inv [OF inv]) simp

lemma i_accept_simps [simp]:
  "tag (i_accept data s) = tag s" "tx_data (i_accept data s) = tx_data s"
  "ats_expected (i_accept data s) = ats_expected s" "t4t_isodep_cb (i_accept data s) = t4t_isodep_cb s"
  by (simp_all add: i_accept_def)

lemma selected_inv:
  assumes "iso_inv s" "fsc_ok s" "\<not> ats_expected s"
  shows "iso_inv (s\<lparr>iso_state := ISODEP_STATE_SELECTED, err_status := e\<rparr>)"
  using assms by (simp add: iso_inv_def fsc_ok_def)

lemma i_frame_safe:
  assumes inv: "iso_inv s" and d: "data \<noteq> []" "length data < 2 ^ 31" and f: "fsc_ok s" "\<not> ats_expected s"
  shows "safe_ret s (isodep_i_frame_handle data (of_nat (length data)) s)"
proof (cases "unat (buf_size (rx_data s)) < unat (buf_len (rx_data s)) + (length data - i_index (data ! 0))")
  case True
  then show ?thesis
    unfolding i_frame_Ok [OF inv d] if_P [OF True] by (simp add: safe_ret_stop [OF inv])
next
  case False
  then have i: "iso_inv (i_accept data s)" by (intro i_accept_inv [OF inv]) simp
  let ?a = "(i_accept data s)\<lparr>err_status := (err_status (i_accept data s))\<lparr>last_frame := ISODEP_FRAME_I_CHAINING\<rparr>\<rparr>"
  have r: "safe_ret s (no_ret (isodep_r_frame_send True ?a))"
    using r_frame_send_safe [of ?a True] i unfolding no_ret_def
    by (intro safe_ret_of_out) (simp add: safe_from(1) [of ?a s])
  have "iso_inv ((i_accept data s)\<lparr>iso_state := ISODEP_STATE_SELECTED, err_status := e\<rparr>)" for e
    using f by (intro selected_inv [OF i]) (simp_all add: fsc_ok_cong [of "i_accept data s" s])
  then have "safe_ret s (Ok ((i_accept data s)\<lparr>iso_state := ISODEP_STATE_SELECTED, err_status := e\<rparr>,
      if_set cb_data_received (Data_received x) s, None))" for x e
    by (auto simp: safe_ret_def intro!: iso_post_same dest!: in_if_set)
  with r False safe_ret_stop [OF inv] show ?thesis
    unfolding i_frame_Ok [OF inv d] if_not_P [OF False] Let_def by simp
qed

lemma give_up_Ok:
  assumes "iso_inv s"
  shows "isodep_give_up timeout s = Ok (isodep_transmission_clear (s\<lparr>iso_state := ISODEP_STATE_INITIALIZED\<rparr>),
    if_set cb_error (Error (if timeout then NFC_T4T_ISODEP_TIMEOUT_ERROR else NFC_T4T_ISODEP_TRANSMISSION_ERROR)) s)"
  using iso_invD(1) [OF assms] by (simp add: isodep_give_up_def err_notify_Ok) (simp add: if_set_def)

lemma give_up_safe:
  assumes "iso_inv s" shows "safe_out s (isodep_give_up timeout s)"
proof -
  have "iso_inv (s\<lparr>iso_state := ISODEP_STATE_INITIALIZED\<rparr>)" using assms by (simp add: iso_inv_def fsc_ok_def)
  then show ?thesis
    by (auto simp: safe_out_def give_up_Ok [OF assms] intro!: iso_post_same clear_inv dest!: in_if_set)
qed

lemma tx_resend_Ok:
  "iso_inv s \<Longrightarrow> tx_resend fdt s = Ok (s, if_set cb_ready_to_send (Ready_to_send (tx_frame s) fdt) s)"
  by (simp add: tx_resend_def callback_if_set iso_invD(1) tx_frame_def)

lemma tx_resend_safe:
  assumes "iso_inv s" shows "safe_out s (tx_resend fdt s)"
proof -
  have "length (tx_frame s) \<le> unat (buf_size (tx_data s))"
    using iso_invD(2) [OF assms] length_tx_frame [OF iso_invD(2) [OF assms]] by (simp add: tx_ok_def)
  with assms show ?thesis
    by (auto simp: safe_out_def tx_resend_Ok intro!: iso_post_same dest!: in_if_set)
qed

lemma error_handle_safe:
  assumes "iso_inv s" shows "safe_out s (isodep_error_handle cfg timeout s)"
proof -
  let ?s = "s\<lparr>err_status := (err_status s)\<lparr>frame_retry_cnt := frame_retry_cnt (err_status s) + 1\<rparr>\<rparr>"
  have i: "iso_inv ?s" using assms by simp
  have "safe_out ?s (isodep_error_handle cfg timeout s)"
    unfolding isodep_error_handle_def Let_def
    by (simp add: give_up_safe [OF i] tx_resend_safe [OF i] r_frame_send_safe [OF i] split: isodep_frame.split)
  then show ?thesis by (simp add: safe_from(1) [of ?s s])
qed

text \<open>
  An answer to select that the parser can handle: the frame size index is in the table, the
  announced interface bytes are there, and frames of the announced size fit the transmit buffer.
\<close>

definition ats_index :: "u8 \<Rightarrow> nat" where
  "ats_index t0 = 2 + (if t0 AND 0x10 \<noteq> 0 then 1 else 0) + (if t0 AND 0x20 \<noteq> 0 then 1 else 0) +
     (if t0 AND 0x40 \<noteq> 0 then 1 else 0)"

definition ats_ok :: "isodep \<Rightarrow> u8 list \<Rightarrow> bool" where
  "ats_ok s data \<longleftrightarrow> (2 \<le> length data \<and> length data \<le> 20 \<and> unat (data ! 0) = length data \<longrightarrow>
     unat (data ! 1 AND 0x0F) < length fsd_value_map \<and> ats_index (data ! 1) \<le> length data \<and>
     unat (fsd_value_map ! unat (data ! 1 AND 0x0F) - ISODEP_CRC_LENGTH) \<le> unat (buf_size (tx_data s)))"

definition only_params :: "isodep \<Rightarrow> isodep \<Rightarrow> bool" where
  "only_params s s' \<longleftrightarrow> tx_data s' = tx_data s \<and> rx_data s' = rx_data s \<and>
     t4t_isodep_cb s' = t4t_isodep_cb s \<and> transmit_data s' = transmit_data s \<and>
     transmit_len s' = transmit_len s \<and> transmitted_len s' = transmitted_len s \<and>
     ats_expected s' = ats_expected s \<and> fsc (tag s') = fsc (tag s) \<and> length (historical (tag s')) = length (historical (tag s))"

lemma only_params_trans: "only_params s s' \<Longrightarrow> only_params s' s'' \<Longrightarrow> only_params s s''"
  by (simp add: only_params_def)

lemma ats_bytes_ok:
  "(t0 AND 0x10 \<noteq> 0 \<longrightarrow> k < length data) \<Longrightarrow>
     \<exists>s'. ats_ta data t0 k s = Ok (s', k + (if t0 AND 0x10 \<noteq> 0 then 1 else 0)) \<and> only_params s s'"
  "(t0 AND 0x20 \<noteq> 0 \<longrightarrow> k < length data) \<Longrightarrow>
     \<exists>s'. ats_tb data t0 k s = Ok (s', k + (if t0 AND 0x20 \<noteq> 0 then 1 else 0)) \<and> only_params s s'"
  "(t0 AND 0x40 \<noteq> 0 \<longrightarrow> k < length data) \<Longrightarrow>
     \<exists>s'. ats_tc data t0 k s = Ok (s', k + (if t0 AND 0x40 \<noteq> 0 then 1 else 0)) \<and> only_params s s'"
  by (auto simp: ats_ta_def ats_tb_def ats_tc_def rd_def only_params_def)

lemma fsd_value_range: "k < length fsd_value_map \<Longrightarrow> 14 \<le> unat (fsd_value_map ! k - ISODEP_CRC_LENGTH)"
  by (auto simp: fsd_value_map_def less_Suc_eq nth_Cons')

lemma ats_historical_ok:
  assumes "k \<le> length data" "length data \<le> 20" "length (historical (tag s)) = 15"
  shows "\<exists>s'. ats_historical data (of_nat (length data)) k s = Ok s' \<and> only_params s s'"
proof (cases "k < length data")
  case True
  have u: "unat (of_nat (length data) - of_nat k :: u32) = length data - k"
    using assms(1,2) by (simp add: unat_of_nat flip: of_nat_diff)
  then have h: "unat (ucast (of_nat (length data) - of_nat k :: u32) :: u8) = length data - k"
    using assms(2) by (subst unat_ucast_down(3)) simp_all
  let ?h = "ucast (of_nat (length data) - of_nat k :: u32) :: u8"
  have "unat (if ?h > 15 then 15 else ?h) \<le> length data - k" "unat (if ?h > 15 then 15 else ?h) \<le> 15"
    using h by (auto simp: word_less_nat_alt)
  then show ?thesis
    using True assms unfolding ats_historical_def Let_def
    by (auto simp: word_less_nat_alt unat_of_nat memcpy_src_Ok wr_def only_params_def simp del: of_nat_diff split del: if_split)
next
  case False
  then show ?thesis
    using assms by (simp add: ats_historical_def word_less_nat_alt unat_of_nat only_params_def)
qed

lemma ats_parse_eval:
  assumes d: "2 \<le> length data" "length data \<le> 20" "unat (data ! 0) = length data"
    and a: "unat (data ! 1 AND 0x0F) < length fsd_value_map"
    and r: "ats_ta data (data ! 1) 2 (s\<lparr>ats_received_time := now,
        tag := (tag s)\<lparr>fsc := fsd_value_map ! unat (data ! 1 AND 0x0F) - ISODEP_CRC_LENGTH\<rparr>\<rparr>) = Ok (s1, k1)"
      "ats_tb data (data ! 1) k1 s1 = Ok (s2, k2)" "ats_tc data (data ! 1) k2 s2 = Ok (s3, k3)"
      "ats_historical data (of_nat (length data)) k3 s3 = Ok s4"
    and cb: "t4t_isodep_cb s4 = t4t_isodep_cb s" "t4t_isodep_cb s \<noteq> None"
  shows "ats_parse now data (of_nat (length data)) s =
    Ok (s4\<lparr>block_num := 0, first_transfer := True, iso_state := ISODEP_STATE_SELECTED\<rparr>,
        if_set cb_selected (Selected (tag s4)) s, None)"
proof -
  have u: "unat (of_nat (length data) :: u32) = length data" using d(2) by (simp add: unat_of_nat)
  have nn: "data \<noteq> []" using d(1) by auto
  have e: "ucast (data ! 0) = (of_nat (length data) :: u32)" using d(3) u by (simp add: word_unat_eq_iff)
  have n: "\<not> (of_nat (length data) :: u32) < 2" "\<not> (of_nat (length data) :: u32) > 20"
    "\<not> length fsd_value_map \<le> unat (data ! 1 AND 0x0F)"
    using d u a by (simp_all add: word_less_nat_alt)
  show ?thesis
    using d(1) r n e nn cb unfolding ats_parse_def Let_def by (simp add: rd_def callback_if_set if_set_def)
qed

lemma ats_parse_Ok:
  assumes d: "2 \<le> length data" "length data \<le> 20" "unat (data ! 0) = length data"
    and a: "unat (data ! 1 AND 0x0F) < length fsd_value_map" "ats_index (data ! 1) \<le> length data"
    and h: "length (historical (tag s)) = 15" and cb: "t4t_isodep_cb s \<noteq> None"
  shows "\<exists>s'. ats_parse now data (of_nat (length data)) s =
      Ok (s'\<lparr>block_num := 0, first_transfer := True, iso_state := ISODEP_STATE_SELECTED\<rparr>,
          if_set cb_selected (Selected (tag s')) s, None) \<and>
    only_params (s\<lparr>tag := (tag s)\<lparr>fsc := fsd_value_map ! unat (data ! 1 AND 0x0F) - ISODEP_CRC_LENGTH\<rparr>\<rparr>) s'"
proof -
  let ?t0 = "data ! 1"
  let ?s = "s\<lparr>ats_received_time := now,
             tag := (tag s)\<lparr>fsc := fsd_value_map ! unat (?t0 AND 0x0F) - ISODEP_CRC_LENGTH\<rparr>\<rparr>"
  define k1 where "k1 = 2 + (if ?t0 AND 0x10 \<noteq> 0 then 1 else 0 :: nat)"
  define k2 where "k2 = k1 + (if ?t0 AND 0x20 \<noteq> 0 then 1 else 0 :: nat)"
  define k3 where "k3 = k2 + (if ?t0 AND 0x40 \<noteq> 0 then 1 else 0 :: nat)"
  have k: "k3 = ats_index ?t0" by (simp add: k1_def k2_def k3_def ats_index_def)
  have "k1 \<le> length data" "k2 \<le> length data" "?t0 AND 0x10 \<noteq> 0 \<longrightarrow> 2 < length data"
    "?t0 AND 0x20 \<noteq> 0 \<longrightarrow> k1 < length data" "?t0 AND 0x40 \<noteq> 0 \<longrightarrow> k2 < length data"
    using a(2) k unfolding k3_def k2_def k1_def by (auto split: if_splits)
  then obtain s1 s2 s3 where s1: "ats_ta data ?t0 2 ?s = Ok (s1, k1)" "only_params ?s s1"
    and s2: "ats_tb data ?t0 k1 s1 = Ok (s2, k2)" "only_params s1 s2"
    and s3: "ats_tc data ?t0 k2 s2 = Ok (s3, k3)" "only_params s2 s3"
    using ats_bytes_ok(1) [of ?t0 2 data ?s] ats_bytes_ok(2) [of ?t0 k1 data] ats_bytes_ok(3) [of ?t0 k2 data]
    unfolding k1_def [symmetric] k2_def [symmetric] k3_def [symmetric] by metis
  have p3: "only_params ?s s3" using s1(2) s2(2) s3(2) by (blast intro: only_params_trans)
  then have "length (historical (tag s3)) = 15" using h by (simp add: only_params_def)
  from ats_historical_ok [OF _ d(2) this, of k3] a(2) k
  obtain s4 where s4: "ats_historical data (of_nat (length data)) k3 s3 = Ok s4" "only_params s3 s4" by auto
  have p: "only_params ?s s4" using p3 s4(2) by (rule only_params_trans)
  have "t4t_isodep_cb s4 = t4t_isodep_cb s" using p by (simp add: only_params_def)
  then have "ats_parse now data (of_nat (length data)) s =
      Ok (s4\<lparr>block_num := 0, first_transfer := True, iso_state := ISODEP_STATE_SELECTED\<rparr>,
          if_set cb_selected (Selected (tag s4)) s, None)"
    using ats_parse_eval [OF d a(1) s1(1) s2(1) s3(1) s4(1)] cb by simp
  moreover have "only_params (s\<lparr>tag := (tag s)\<lparr>fsc := fsd_value_map ! unat (?t0 AND 0x0F) - ISODEP_CRC_LENGTH\<rparr>\<rparr>) s4"
    using p by (simp add: only_params_def)
  ultimately show ?thesis by blast
qed

lemma ats_parse_reject:
  assumes "data \<noteq> []" "length data < 2 ^ 31" "\<not> (2 \<le> length data \<and> length data \<le> 20 \<and> unat (data ! 0) = length data)"
  shows "ats_parse now data (of_nat (length data)) s =
    Ok (s\<lparr>ats_received_time := now\<rparr>, [], Some NFC_T4T_ISODEP_SYNTAX_ERROR)"
proof -
  have u: "unat (of_nat (length data) :: u32) = length data" using assms(2) by (simp add: unat_of_nat)
  have "ucast (data ! 0) = (of_nat (length data) :: u32) \<longleftrightarrow> unat (data ! 0) = length data"
    by (simp add: word_unat_eq_iff u)
  with assms(1,3) show ?thesis
    unfolding ats_parse_def Let_def by (auto simp: rd_def word_less_nat_alt u)
qed

lemma ats_parse_safe:
  assumes inv: "iso_inv s" and d: "data \<noteq> []" "length data < 2 ^ 31" and a: "ats_ok s data" "\<not> ats_expected s"
  shows "safe_ret s (ats_parse now data (of_nat (length data)) s)"
proof (cases "2 \<le> length data \<and> length data \<le> 20 \<and> unat (data ! 0) = length data")
  case True
  with a have o: "unat (data ! 1 AND 0x0F) < length fsd_value_map" "ats_index (data ! 1) \<le> length data"
    "unat (fsd_value_map ! unat (data ! 1 AND 0x0F) - ISODEP_CRC_LENGTH) \<le> unat (buf_size (tx_data s))"
    by (simp_all add: ats_ok_def)
  from ats_parse_Ok [of data s now, OF _ _ _ o(1,2) iso_invD(5,1) [OF inv]] True
  obtain s' where r: "ats_parse now data (of_nat (length data)) s =
      Ok (s'\<lparr>block_num := 0, first_transfer := True, iso_state := ISODEP_STATE_SELECTED\<rparr>,
          if_set cb_selected (Selected (tag s')) s, None)"
    and p: "only_params (s\<lparr>tag := (tag s)\<lparr>fsc := fsd_value_map ! unat (data ! 1 AND 0x0F) - ISODEP_CRC_LENGTH\<rparr>\<rparr>) s'"
    by auto
  let ?f = "s'\<lparr>block_num := 0, first_transfer := True, iso_state := ISODEP_STATE_SELECTED\<rparr>"
  have f: "fsc_ok ?f" using p o fsd_value_range [OF o(1)] by (simp add: fsc_ok_def only_params_def)
  then have "iso_inv ?f" using inv p a(2) by (simp add: iso_inv_def only_params_def)
  then show ?thesis
    using r f p by (auto simp: safe_ret_def iso_post_def only_params_def dest!: in_if_set)
next
  case False
  have "iso_inv (s\<lparr>ats_received_time := now\<rparr>)" using inv by (simp add: iso_inv_def fsc_ok_def)
  then show ?thesis
    by (auto simp: ats_parse_reject [OF d False] safe_ret_def intro!: iso_post_same)
qed

section \<open>Runs\<close>

text \<open>
  The inputs a tag and a caller may give. A frame that arrives without a preceding RATS finds
  an established frame size; data to send and received frames have a length a C object can have.
\<close>

primrec admissible :: "isodep \<Rightarrow> isodep_input \<Rightarrow> bool" where
  "admissible s (Rats f d) = True"
| "admissible s Deselect = True"
| "admissible s (Transmit resched now data) = (length data < 2 ^ 31)"
| "admissible s (Receive now data err) = (err \<or> length data < 2 ^ 31 \<and>
     (if ats_expected s then ats_ok s data else fsc_ok s \<and> wtx_ok data))"
| "admissible s Timeout = True"
| "admissible s Work = True"

lemma frame_handle_safe:
  assumes inv: "iso_inv s" and d: "data \<noteq> []" "length data < 2 ^ 31" "wtx_ok data" and f: "fsc_ok s" "\<not> ats_expected s"
  shows "safe_ret s (isodep_frame_handle data (of_nat (length data)) s)"
  using s_frame_safe [OF inv d(1) _ _ d(3)] r_frame_safe [OF inv d(1)] i_frame_safe [OF inv d(1,2) f]
    safe_ret_stop [OF inv] d(1)
  by (simp add: isodep_frame_handle_def rd_def)

lemma received_safe:
  assumes inv: "iso_inv s" and a: "admissible s (Receive now data err)"
  shows "safe_ret s (nfc_t4t_isodep_data_received cfg now (Some data) (of_nat (length data)) err s)"
proof (cases "data = []")
  case True
  then show ?thesis using safe_ret_stop [OF inv] by (simp add: nfc_t4t_isodep_data_received_def)
next
  case d: False
  let ?s = "s\<lparr>ats_expected := False\<rparr>"
  have e: "safe_ret s (rbind (isodep_error_handle cfg False s) (\<lambda>(s, ev). Ok (s, ev, None)))"
    by (rule safe_ret_of_out [OF error_handle_safe [OF inv]])
  have i: "iso_inv ?s" using inv by (simp add: iso_inv_def fsc_ok_def)
  have ats: "safe_ret s (notify_failure (ats_parse now data (of_nat (length data)) ?s))"
    if "ats_ok s data" "length data < 2 ^ 31"
    using ats_parse_safe [OF i d that(2)] that(1)
    by (intro notify_failure_safe) (simp add: ats_ok_def safe_from(2) [of ?s s])
  have fr: "safe_ret s (notify_failure (isodep_frame_handle data (of_nat (length data)) s))"
    if "fsc_ok s \<and> wtx_ok data" "length data < 2 ^ 31" "\<not> ats_expected s"
    using frame_handle_safe [OF inv d that(2)] that by (intro notify_failure_safe) simp
  show ?thesis
    using a e ats fr safe_ret_stop [OF inv]
    by (auto simp: nfc_t4t_isodep_data_received_def)
qed

lemma transfer_inv: "iso_inv s \<Longrightarrow> iso_inv (s\<lparr>iso_state := ISODEP_STATE_TRANSFER\<rparr>)"
  by (simp add: iso_inv_def fsc_ok_def)

definition rats_param :: "nfc_t4t_isodep_fsd \<Rightarrow> u8 \<Rightarrow> u8" where
  "rats_param f d = (d AND 0x0F) OR (push_bit 4 (of_nat (fsd_index f)) AND 0xF0)"

lemma rats_send_safe:
  assumes inv: "iso_inv s" shows "safe_ret s (nfc_t4t_isodep_rats_send f d s)"
proof -
  let ?s = "s\<lparr>iso_state := ISODEP_STATE_TRANSFER\<rparr>" and ?f = "[0xE0, rats_param f d]"
  note i = transfer_inv [OF inv]
  obtain tx where tx: "buf_data (tx_data s) = Some tx" "16 \<le> unat (buf_size (tx_data s))" "16 \<le> length tx"
    using iso_invD(2) [OF inv] by (auto simp: tx_ok_def)
  then obtain x y r where r: "tx = x # y # r" by (cases tx; cases "List.tl tx") auto
  have "iso_inv (?s\<lparr>tx_data := (tx_data s)\<lparr>buf_data := Some (0xE0 # rats_param f d # r), buf_len := 2\<rparr>\<rparr>)"
    using inv_tx_frame [OF i, of ?f] tx(1) r by simp
  then have sent: "iso_inv (?s\<lparr>tx_data := (tx_data s)\<lparr>buf_data := Some (0xE0 # rats_param f d # r), buf_len := 2\<rparr>,
        tag := (tag s)\<lparr>did := d\<rparr>, fsd := g, ats_expected := True, err_status := e\<rparr>)" for g e
    by (simp add: iso_inv_def fsc_ok_def)
  show ?thesis
    unfolding nfc_t4t_isodep_rats_send_def Let_def rats_param_def [symmetric]
    using safe_ret_stop [OF inv] safe_ret_stop [OF i] sent tx
    by (auto simp: r wr_def safe_from(2) [of ?s s] callback_if_set iso_invD(1) [OF inv] safe_ret_def iso_post_def
        fsc_ok_def dest!: in_if_set)
qed

lemma deselect_safe:
  assumes inv: "iso_inv s" shows "safe_ret s (nfc_t4t_isodep_tag_deselect s)"
proof -
  let ?s = "s\<lparr>iso_state := ISODEP_STATE_TRANSFER\<rparr>" and ?f = "frame_hdr (tag s) 0xC2"
  note i = transfer_inv [OF inv]
  obtain tx where tx: "buf_data (tx_data s) = Some tx" "16 \<le> unat (buf_size (tx_data s))" "1 \<le> length tx" "2 \<le> length tx"
    using iso_invD(2) [OF inv] by (auto simp: tx_ok_def)
  have "iso_inv (?s\<lparr>tx_data := (tx_data s)\<lparr>buf_data := Some (?f @ drop (hdr_len (tag s)) tx),
      buf_len := of_nat (hdr_len (tag s))\<rparr>, err_status := e\<rparr>)" for e
    using inv_tx_frame [OF i, of ?f] tx(1) hdr_len_pos(2) [of "tag s"] by (simp add: iso_inv_def fsc_ok_def)
  then show ?thesis
    unfolding nfc_t4t_isodep_tag_deselect_def Let_def
    using safe_ret_stop [OF inv] tx hdr_len_pos(2) [of "tag s"]
    by (auto simp: wr_0 did_include_hdr callback_if_set iso_invD(1) [OF inv] safe_ret_def iso_post_def
        fsc_ok_def dest!: in_if_set)
qed

text \<open>The state in which \<^const>\<open>nfc_t4t_isodep_transmit\<close> hands data over.\<close>

definition transmit_start :: "u8 list \<Rightarrow> isodep \<Rightarrow> isodep" where
  "transmit_start data s =
     (isodep_transmission_clear (s\<lparr>iso_state := ISODEP_STATE_TRANSFER\<rparr>))
       \<lparr>transmit_data := Some data, transmit_len := of_nat (length data)\<rparr>"

lemma transmit_start_inv:
  assumes "iso_inv s" "length data < 2 ^ 31"
  shows "iso_inv (transmit_start data s)"
proof -
  have "unat (of_nat (length data) :: u32) = length data" using assms(2) by (simp add: unat_of_nat)
  then show ?thesis
    using clear_inv [OF transfer_inv [OF assms(1)]]
    by (simp add: transmit_start_def iso_inv_def fsc_ok_def readable_def isodep_transmission_clear_def)
qed

lemma transmit_safe:
  assumes inv: "iso_inv s" and d: "length data < 2 ^ 31"
  shows "safe_ret s (nfc_t4t_isodep_transmit dv resched now (Some data) (of_nat (length data)) s)"
proof (cases "iso_state s = ISODEP_STATE_SELECTED")
  case True
  let ?t = "transmit_start data s"
  have f: "fsc_ok s" using iso_invD(9) [OF inv] True by simp
  note i = transmit_start_inv [OF inv d]
  have i1: "iso_inv (?t\<lparr>first_transfer := b, ats_received_time := n\<rparr>)"
    "iso_inv (?t\<lparr>first_transfer := b, ats_received_time := n, isodep_work := True\<rparr>)" for b n
    using i f by (simp_all add: iso_inv_def fsc_ok_def transmit_start_def)
  have sd: "safe_ret s (rbind (isodep_chunk_send s1) (\<lambda>(s, ev). Ok (s, ev, None)))"
    if "iso_inv s1" "tag s1 = tag s" "tx_data s1 = tx_data s" for s1
    using chunk_send_safe [OF that(1)] that f
    by (intro safe_ret_of_out) (simp add: safe_from(1) [of s1 s] fsc_ok_cong [of s1 s])
  have pw: "safe_ret s (Ok (s1, ev, r))"
    if "iso_inv s1" "tag s1 = tag s" "tx_data s1 = tx_data s" "ev = [] \<or> ev = [Schedule n]" for s1 ev r n
    using that by (auto simp: safe_ret_def intro!: iso_post_same)
  show ?thesis
    unfolding nfc_t4t_isodep_transmit_def Let_def transmit_start_def [symmetric]
    using True i i1 safe_ret_stop [OF inv]
    by (auto intro!: sd pw simp: transmit_start_def [of data s])
next
  case False
  then show ?thesis using safe_ret_stop [OF inv] by (simp add: nfc_t4t_isodep_transmit_def)
qed

lemma isodep_step_safe:
  assumes inv: "iso_inv s" and a: "admissible s i"
  shows "safe_ret s (isodep_step env s i)"
proof (cases i)
  case Work
  let ?s = "s\<lparr>isodep_work := False\<rparr>"
  have i: "iso_inv ?s" using inv by (simp add: iso_inv_def fsc_ok_def)
  have f: "fsc_ok ?s" if "isodep_work s" using iso_invD(9) [OF inv] that by (simp add: fsc_ok_def)
  show ?thesis
    using Work safe_ret_stop [OF inv] safe_ret_of_out [OF chunk_send_safe [OF i f]]
    by (simp add: no_ret_def isodep_delay_handler_def safe_from(2) [of ?s s])
next
  case Timeout
  then show ?thesis
    using safe_ret_of_out [OF error_handle_safe [OF inv]] by (simp add: no_ret_def nfc_t4t_isodep_on_timeout_def)
qed (use inv a received_safe rats_send_safe deselect_safe transmit_safe in auto)

text \<open>The module before its initialisation: static storage is zero.\<close>

definition isodep_zero :: isodep where
  "isodep_zero =
     \<lparr>iso_state = ISODEP_STATE_UNINITIALIZED,
      tag = \<lparr>fwt = 0, sfgt = 0, fsc = 0, did = 0, lp_divisor = 0, pl_divisor = 0,
             historical = replicate 15 0, historical_len = 0, did_supported = False, nad_supported = False\<rparr>,
      tx_data = \<lparr>buf_data = None, buf_len = 0, buf_size = 0\<rparr>,
      rx_data = \<lparr>buf_data = None, buf_len = 0, buf_size = 0\<rparr>,
      err_status = \<lparr>last_frame = ISODEP_FRAME_NONE, frame_retry_cnt = 0, err_wtx = 0\<rparr>,
      fsd = 0, block_num = 0, retransmit_cnt = 0, transmit_data = None, transmit_len = 0,
      transmitted_len = 0, chaining = False, equal_divisor = False, ats_expected = False,
      first_transfer = False, t4t_isodep_cb = None, isodep_work = False, ats_received_time = 0\<rparr>"

text \<open>
  The states reached from the initialisation with two buffers of the announced sizes, by admissible
  inputs.
\<close>

inductive isodep_reach :: "isodep_env \<Rightarrow> isodep \<Rightarrow> bool" for env where
  reach_init: "unat size_tx \<le> length tx \<Longrightarrow> unat size_rx \<le> length rx \<Longrightarrow> unat size_rx < 2 ^ 31 \<Longrightarrow>
    nfc_t4t_isodep_init (Some tx) size_tx (Some rx) size_rx (Some cb) isodep_zero = Ok (s, ev, None) \<Longrightarrow>
    isodep_reach env s"
| reach_step: "isodep_reach env s \<Longrightarrow> admissible s i \<Longrightarrow> isodep_step env s i = Ok (s', ev, ret) \<Longrightarrow>
    isodep_reach env s'"

lemma isodep_init_inv:
  assumes "unat size_tx \<le> length tx" "unat size_rx \<le> length rx" "unat size_rx < 2 ^ 31"
    "nfc_t4t_isodep_init (Some tx) size_tx (Some rx) size_rx (Some cb) isodep_zero = Ok (s, ev, None)"
  shows "iso_inv s"
proof -
  have "16 \<le> unat size_tx" "16 \<le> unat size_rx"
    using assms(4) by (auto simp: nfc_t4t_isodep_init_def word_less_nat_alt split: if_splits)
  with assms show ?thesis
    by (auto simp: nfc_t4t_isodep_init_def isodep_zero_def iso_inv_def tx_ok_def readable_def split: if_splits)
qed

lemma isodep_reach_inv: "isodep_reach env s \<Longrightarrow> iso_inv s"
proof (induction rule: isodep_reach.induct)
  case (reach_init size_tx tx size_rx rx cb s ev)
  then show ?case by (rule isodep_init_inv)
next
  case (reach_step s i s' ev ret)
  then show ?case using isodep_step_safe [of s i env] by (auto simp: safe_ret_def iso_post_def)
qed

text \<open>
  C6. In every state the module can reach, no admissible input makes it read or write outside
  its buffers or through a null pointer. The invariant holds before and after, and what it hands to
  the radio fits the transmit buffer.
\<close>

theorem isodep_run_safe:
  assumes "isodep_reach env s" "admissible s i"
  shows "iso_inv s \<and> (\<exists>s' ev ret. isodep_step env s i = Ok (s', ev, ret) \<and> iso_inv s' \<and>
    (\<forall>f d. Ready_to_send f d \<in> set ev \<longrightarrow> length f \<le> unat (buf_size (tx_data s))))"
  using isodep_step_safe [OF isodep_reach_inv [OF assms(1)] assms(2), of env] isodep_reach_inv [OF assms(1)]
  by (auto simp: safe_ret_def iso_post_def)

text \<open>A module with two buffers of 256 bytes and all callbacks.\<close>

definition iso_demo_cb :: nfc_t4t_isodep_cb where
  "iso_demo_cb = \<lparr>cb_data_received = True, cb_selected = True, cb_deselected = True,
                  cb_ready_to_send = True, cb_error = True\<rparr>"

definition iso_demo_env :: isodep_env where
  "iso_demo_env = \<lparr>env_cfg = \<lparr>ISODEP_RATS_RETRY = 0, ISODEP_ACK_RETRY = 2, ISODEP_NAK_RETRY = 2,
                              ISODEP_WTX_RETRY = 2, ISODEP_DESELECT_RETRY = 0\<rparr>,
                   env_div = (\<lambda>a b. (a + b - 1) div b)\<rparr>"

definition iso_demo :: isodep where
  "iso_demo = isodep_zero\<lparr>tx_data := \<lparr>buf_data = Some (replicate 256 0), buf_len = 0, buf_size = 256\<rparr>,
     rx_data := \<lparr>buf_data = Some (replicate 256 0), buf_len = 0, buf_size = 256\<rparr>,
     t4t_isodep_cb := Some iso_demo_cb, iso_state := ISODEP_STATE_INITIALIZED\<rparr>"

lemma iso_demo_reach: "isodep_reach iso_demo_env iso_demo"
  by (rule reach_init [of 256 "replicate 256 0" 256 "replicate 256 0" iso_demo_cb _ "[]"])
    (simp_all add: nfc_t4t_isodep_init_def isodep_zero_def iso_demo_def)

theorem isodep_run_safe_witness:
  "iso_inv iso_demo \<and>
   (\<exists>s' ev ret. isodep_step iso_demo_env iso_demo (Rats NFC_T4T_ISODEP_FSD_256 0) = Ok (s', ev, ret) \<and> iso_inv s' \<and>
    (\<forall>f d. Ready_to_send f d \<in> set ev \<longrightarrow> length f \<le> unat (buf_size (tx_data iso_demo))))"
  by (rule isodep_run_safe [OF iso_demo_reach]) simp

end
