(* ===== verification/T4T_ISODEP_Exchange.thy ===== *)
theory T4T_ISODEP_Exchange
  imports T4T_ISODEP_Safe
begin

unbundle bit_operations_syntax

text \<open>
  A whole exchange over ISO-DEP: the reader cuts a command into I-blocks, the tag acknowledges each
  chained block, the tag answers with a chain of I-blocks and the reader hands the joined answer
  over. Also what happens when frames are lost, and when the tag misbehaves.
\<close>

section \<open>Runs\<close>

lemma rbind_Ok_right [simp]: "rbind m Ok = m"
  by (cases m) simp_all

lemma isodep_run_append:
  "isodep_run env s (xs @ ys) =
     rbind (isodep_run env s xs) (\<lambda>(s', e). rbind (isodep_run env s' ys) (\<lambda>(s'', e'). Ok (s'', e @ e')))"
  by (induction xs arbitrary: s) (simp_all add: rbind_assoc split_def)

text \<open>The block number after \<open>k\<close> alternations.\<close>

definition block_after :: "u8 \<Rightarrow> nat \<Rightarrow> u8" where
  "block_after n k = (if even k then n else n XOR 1)"

lemma block_after_0 [simp]: "block_after n 0 = n"
  by (simp add: block_after_def)

lemma xor_1_twice: "(n XOR 1) XOR 1 = (n :: u8)"
  by (simp add: xor.assoc)

lemma block_after_Suc: "block_after n (Suc k) = block_after (n XOR 1) k"
  by (simp add: block_after_def xor_1_twice)

section \<open>Sending a command\<close>

lemma i_blocks_not_Nil: "i_blocks t n data \<noteq> []"
  by (subst i_blocks.simps) simp

lemma i_blocks_concat:
  "concat (map (drop (hdr_len t)) (i_blocks t n data)) = data"
proof (induction t n data rule: i_blocks.induct)
  case (1 t n data)
  show ?case
  proof (cases "0 < chunk_room t \<and> chunk_room t < length data")
    case True
    then show ?thesis using 1 by (subst i_blocks.simps) simp
  next
    case False
    show ?thesis by (subst i_blocks.simps) (simp only: if_not_P [OF False], simp)
  qed
qed

lemma i_blocks_size:
  "0 < chunk_room t \<Longrightarrow> f \<in> set (i_blocks t n data) \<Longrightarrow> length f \<le> hdr_len t + chunk_room t"
proof (induction t n data rule: i_blocks.induct)
  case (1 t n data)
  show ?case
  proof (cases "0 < chunk_room t \<and> chunk_room t < length data")
    case True
    then have "f = i_hdr t n True @ take (chunk_room t) data \<or> f \<in> set (i_blocks t (n XOR 1) (drop (chunk_room t) data))"
      using 1(3) by (subst (asm) i_blocks.simps) simp
    then show ?thesis using 1(1) [OF True] 1(2) by auto
  next
    case False
    then have "f = i_hdr t n False @ data" using 1(3) by (subst (asm) i_blocks.simps) (simp only: if_not_P [OF False], simp)
    then show ?thesis using False 1(2) by simp
  qed
qed

text \<open>The acknowledgements of a tag for \<open>k\<close> chained blocks, without a device identifier.\<close>

primrec acks :: "u8 \<Rightarrow> nat \<Rightarrow> isodep_input list" where
  "acks n 0 = []"
| "acks n (Suc k) = Receive 0 [ISODEP_R_BLOCK OR n] False # acks (n XOR 1) k"

lemma ack_step:
  assumes inv: "iso_inv s" and c: "chaining s" and a: "\<not> ats_expected s"
  shows "isodep_step env s (Receive now [ISODEP_R_BLOCK OR block_num s] False) =
    notify_failure (no_ret (isodep_chunk_send (block_num_toggle s)))"
  using iso_invD(6) [OF inv] c a
  by (auto simp: nfc_t4t_isodep_data_received_def isodep_frame_handle_def isodep_r_frame_handle_def
      r_frame_ack_handle_def rd_def no_ret_def)

text \<open>What stays the same while a command is sent.\<close>

definition same_session :: "isodep \<Rightarrow> isodep \<Rightarrow> bool" where
  "same_session s s' \<longleftrightarrow> tag s' = tag s \<and> rx_data s' = rx_data s \<and> t4t_isodep_cb s' = t4t_isodep_cb s \<and>
     buf_size (tx_data s') = buf_size (tx_data s) \<and> iso_state s' = iso_state s \<and> ats_expected s' = ats_expected s \<and>
     first_transfer s' = first_transfer s"

lemma chunk_run:
  assumes "iso_inv s" "fsc_ok s" "\<not> ats_expected s" "cb_ready_to_send (the (t4t_isodep_cb s))"
    "transmit_data s = Some data" "unat (transmit_len s) = length data"
  defines "bs \<equiv> i_blocks (tag s) (block_num s) (drop (unat (transmitted_len s)) data)"
  shows "tx_frame (chunk_state s) = hd bs \<and> (\<exists>s'.
     isodep_run env (chunk_state s) (acks (block_num s) (length bs - 1)) =
       Ok (s', map (\<lambda>f. Ready_to_send f (frame_fdt s)) (List.tl bs)) \<and>
     iso_inv s' \<and> same_session s s' \<and> \<not> chaining s' \<and> block_num s' = block_after (block_num s) (length bs - 1))"
  using assms(1-6) unfolding bs_def
proof (induction "length data - unat (transmitted_len s)" arbitrary: s rule: less_induct)
  case less
  let ?rest = "drop (unat (transmitted_len s)) data" and ?room = "chunk_room (tag s)"
  note inv = less.prems(1) and f = less.prems(2)
  note tx = chunk_state_tx [OF inv f]
  have room: "0 < ?room" using chunk_room_fsc [of "tag s"] hdr_len_pos [of "tag s"] f by (simp add: fsc_ok_def)
  have left: "unat (transmit_len s) - unat (transmitted_len s) = length ?rest" using less.prems(6) by simp
  have safe: "iso_inv (chunk_state s)"
    using chunk_send_safe [OF inv f] by (simp add: safe_out_def iso_post_def chunk_send_Ok [OF inv f])
  show ?case
  proof (cases "?room < length ?rest")
    case False
    have b: "i_blocks (tag s) (block_num s) ?rest = [i_hdr (tag s) (block_num s) False @ ?rest]"
      using False by (subst i_blocks.simps) simp
    show ?thesis
      using False tx(1) left less.prems safe unfolding b by (simp add: same_session_def min_def)
  next
    case True
    let ?s1 = "block_num_toggle (chunk_state s)"
    let ?bs = "i_blocks (tag s) (block_num s XOR 1) (drop (unat (transmitted_len ?s1)) data)"
    have tl: "unat (transmitted_len ?s1) = unat (transmitted_len s) + ?room"
      using tx(2) left True by (simp add: block_num_toggle_def)
    have b: "i_blocks (tag s) (block_num s) ?rest =
        (i_hdr (tag s) (block_num s) True @ take ?room ?rest) # ?bs"
      using True room tl by (subst i_blocks.simps) (simp add: add.commute)
    have s1: "iso_inv ?s1" "fsc_ok ?s1" "block_num ?s1 = block_num s XOR 1" "frame_fdt ?s1 = frame_fdt s"
      using toggle_inv [OF safe] f by (simp_all add: fsc_ok_def block_num_toggle_def frame_fdt_def)
    have c: "chaining (chunk_state s)" "\<not> ats_expected (chunk_state s)" using True left less.prems(3) by simp_all
    have fr: "tx_frame (chunk_state s) = i_hdr (tag s) (block_num s) True @ take ?room ?rest"
      using tx(1) c True left less.prems(5) by (simp add: min_def)
    have "length data - unat (transmitted_len ?s1) < length data - unat (transmitted_len s)"
      using tl room True by simp
    from less.hyps [OF this s1(1,2)] less.prems s1(3,4)
    obtain s' where s': "tx_frame (chunk_state ?s1) = hd ?bs"
      "isodep_run env (chunk_state ?s1) (acks (block_num s XOR 1) (length ?bs - 1)) =
         Ok (s', map (\<lambda>f. Ready_to_send f (frame_fdt s)) (List.tl ?bs))"
      "iso_inv s'" "same_session ?s1 s'" "\<not> chaining s'" "block_num s' = block_after (block_num s XOR 1) (length ?bs - 1)"
      by (auto simp: block_num_toggle_def)
    obtain x xs where xs: "?bs = x # xs" using i_blocks_not_Nil by (cases ?bs) blast+
    have "isodep_step env (chunk_state s) (Receive 0 [ISODEP_R_BLOCK OR block_num s] False) =
        Ok (chunk_state ?s1, [Ready_to_send x (frame_fdt s)], None)"
      using ack_step [OF safe c, of env 0] chunk_send_Ok [OF s1(1,2)] s'(1) s1(4) less.prems(4) xs
      by (simp add: notify_failure_def no_ret_def if_set_def block_num_toggle_def)
    with s' fr show ?thesis
      unfolding b xs by (auto simp: same_session_def block_after_Suc block_num_toggle_def)
  qed
qed

lemma transmit_Ok:
  assumes inv: "iso_inv s" and st: "iso_state s = ISODEP_STATE_SELECTED" and d: "data \<noteq> []" "length data < 2 ^ 31"
    and g: "first_transfer s \<longrightarrow> uint (env_div env (fwt (tag s)) T4T_FC_IN_MS) \<le> now - ats_received_time s"
  shows "\<exists>s1. isodep_step env s (Transmit resched now data) = no_ret (isodep_chunk_send s1) \<and>
    iso_inv s1 \<and> same_session (s\<lparr>iso_state := ISODEP_STATE_TRANSFER, rx_data := (rx_data s)\<lparr>buf_len := 0\<rparr>,
      first_transfer := False\<rparr>) s1 \<and>
    transmit_data s1 = Some data \<and> unat (transmit_len s1) = length data \<and> transmitted_len s1 = 0 \<and>
    block_num s1 = block_num s"
proof -
  have l: "unat (of_nat (length data) :: u32) = length data" using d(2) by (simp add: unat_of_nat)
  then have n: "\<not> (of_nat (length data) :: u32) < 1" using d(1) by (cases data) (auto simp: word_less_nat_alt)
  note i = transmit_start_inv [OF inv d(2)]
  have i1: "iso_inv ((transmit_start data s)\<lparr>first_transfer := False, ats_received_time := now\<rparr>)"
    using i by (simp add: iso_inv_def fsc_ok_def)
  have sim: "same_session (s\<lparr>iso_state := ISODEP_STATE_TRANSFER, rx_data := (rx_data s)\<lparr>buf_len := 0\<rparr>,
        first_transfer := False\<rparr>) ((transmit_start data s)\<lparr>first_transfer := False, ats_received_time := now\<rparr>)"
    by (simp add: same_session_def transmit_start_def isodep_transmission_clear_def)
  show ?thesis
  proof (cases "first_transfer s")
    case True
    have ft: "first_transfer (transmit_start data s)" "tag (transmit_start data s) = tag s"
      "ats_received_time (transmit_start data s) = ats_received_time s"
      using True by (simp_all add: transmit_start_def isodep_transmission_clear_def)
    have "isodep_step env s (Transmit resched now data) =
        no_ret (isodep_chunk_send ((transmit_start data s)\<lparr>first_transfer := False, ats_received_time := now\<rparr>))"
      using st n g True ft
      unfolding isodep_step.simps nfc_t4t_isodep_transmit_def Let_def transmit_start_def [symmetric] no_ret_def
      by simp
    with i1 sim l show ?thesis
      by (intro exI [of _ "(transmit_start data s)\<lparr>first_transfer := False, ats_received_time := now\<rparr>"])
        (simp add: transmit_start_def isodep_transmission_clear_def)
  next
    case False
    then have "isodep_step env s (Transmit resched now data) = no_ret (isodep_chunk_send (transmit_start data s))"
      using st n
      unfolding isodep_step.simps nfc_t4t_isodep_transmit_def Let_def transmit_start_def [symmetric] no_ret_def
      by (simp add: transmit_start_def)
    with i False l show ?thesis
      by (intro exI [of _ "transmit_start data s"])
        (simp add: same_session_def transmit_start_def isodep_transmission_clear_def)
  qed
qed

text \<open>A command is sent completely: its blocks go out in order, one for each acknowledgement.\<close>

lemma command_run:
  assumes inv: "iso_inv s" and st: "iso_state s = ISODEP_STATE_SELECTED" and d: "data \<noteq> []" "length data < 2 ^ 31"
    and g: "first_transfer s \<longrightarrow> uint (env_div env (fwt (tag s)) T4T_FC_IN_MS) \<le> now - ats_received_time s"
    and cb: "cb_ready_to_send (the (t4t_isodep_cb s))"
  defines "bs \<equiv> i_blocks (tag s) (block_num s) data"
  shows "\<exists>s'. isodep_run env s (Transmit resched now data # acks (block_num s) (length bs - 1)) =
      Ok (s', map (\<lambda>f. Ready_to_send f (frame_fdt s)) bs) \<and>
    iso_inv s' \<and> \<not> chaining s' \<and> block_num s' = block_after (block_num s) (length bs - 1) \<and>
    same_session (s\<lparr>iso_state := ISODEP_STATE_TRANSFER, rx_data := (rx_data s)\<lparr>buf_len := 0\<rparr>,
      first_transfer := False\<rparr>) s'"
proof -
  from transmit_Ok [OF inv st d g, of resched] obtain s1 where
    step: "isodep_step env s (Transmit resched now data) = no_ret (isodep_chunk_send s1)" and i1: "iso_inv s1" and
    sim: "same_session (s\<lparr>iso_state := ISODEP_STATE_TRANSFER, rx_data := (rx_data s)\<lparr>buf_len := 0\<rparr>,
      first_transfer := False\<rparr>) s1" and
    t: "transmit_data s1 = Some data" "unat (transmit_len s1) = length data" "transmitted_len s1 = 0"
      "block_num s1 = block_num s" by blast
  have f: "fsc_ok s1" using iso_invD(9) [OF inv] st sim by (simp add: same_session_def fsc_ok_def)
  have a: "\<not> ats_expected s1" using iso_invD(10) [OF inv] st sim by (simp add: same_session_def)
  have c: "cb_ready_to_send (the (t4t_isodep_cb s1))" "tag s1 = tag s" "frame_fdt s1 = frame_fdt s"
    using cb sim by (simp_all add: same_session_def frame_fdt_def)
  from chunk_run [OF i1 f a c(1) t(1,2), of env] obtain s' where
    s': "tx_frame (chunk_state s1) = hd bs" "isodep_run env (chunk_state s1) (acks (block_num s) (length bs - 1)) =
      Ok (s', map (\<lambda>f. Ready_to_send f (frame_fdt s)) (List.tl bs))" "iso_inv s'" "same_session s1 s'"
      "\<not> chaining s'" "block_num s' = block_after (block_num s) (length bs - 1)"
    unfolding bs_def t c by auto
  have "bs = hd bs # List.tl bs" using i_blocks_not_Nil by (simp add: bs_def)
  then have "isodep_run env s (Transmit resched now data # acks (block_num s) (length bs - 1)) =
      Ok (s', map (\<lambda>f. Ready_to_send f (frame_fdt s)) bs)"
    using chunk_send_Ok [OF i1 f] s'(1,2) c step by (simp add: no_ret_def if_set_def map_eq_Cons_conv) (metis list.simps(9))
  then show ?thesis using s' sim by (auto simp: same_session_def)
qed

section \<open>Receiving the answer\<close>

text \<open>The blocks of an answer given in pieces, and the acknowledgements the reader sends.\<close>

fun tag_blocks :: "nfc_t4t_isodep_tag \<Rightarrow> u8 \<Rightarrow> u8 list list \<Rightarrow> u8 list list" where
  "tag_blocks t n [] = []"
| "tag_blocks t n [p] = [i_hdr t n False @ p]"
| "tag_blocks t n (p # q # ps) = (i_hdr t n True @ p) # tag_blocks t (n XOR 1) (q # ps)"

fun reader_acks :: "nfc_t4t_isodep_tag \<Rightarrow> u8 \<Rightarrow> nat \<Rightarrow> u8 list list" where
  "reader_acks t n 0 = []"
| "reader_acks t n (Suc k) = frame_hdr t (ISODEP_R_BLOCK OR (n XOR 1)) # reader_acks t (n XOR 1) k"

lemma i_hdr_bits:
  fixes t c p
  assumes "n = 0 \<or> n = 1"
  defines "b \<equiv> (i_hdr t n c @ p) ! 0"
  shows "b AND 2 \<noteq> 0" "b AND 64 = 0" "b AND 128 = 0" "b AND 1 = n" "b AND 16 \<noteq> 0 \<longleftrightarrow> c" "i_index b = hdr_len t"
  using assms(1) unfolding b_def
  by (auto simp: i_hdr_def frame_hdr_def Let_def i_index_def hdr_len_def)

lemma i_block_received:
  assumes inv: "iso_inv s" and a: "\<not> ats_expected s" and n: "block_num s = n"
    and p: "length p \<le> 254" "unat (buf_len (rx_data s)) + length p \<le> unat (buf_size (rx_data s))"
  defines "s' \<equiv> rx_append p (block_num_toggle s)"
  shows "isodep_step env s (Receive now (i_hdr (tag s) n c @ p) False) =
    (if c then notify_failure (no_ret (isodep_r_frame_send True
            (s'\<lparr>err_status := (err_status s')\<lparr>last_frame := ISODEP_FRAME_I_CHAINING\<rparr>\<rparr>)))
     else Ok (s'\<lparr>iso_state := ISODEP_STATE_SELECTED, err_status := (err_status s')\<lparr>last_frame := ISODEP_FRAME_I\<rparr>\<rparr>,
              if_set cb_data_received (Data_received (rx_bytes s @ p)) s, None))"
proof -
  define d where "d = i_hdr (tag s) n c @ p"
  have n01: "n = 0 \<or> n = 1" using iso_invD(6) [OF inv] n by simp
  note bits = i_hdr_bits [OF n01, of "tag s" c p, folded d_def]
  have len: "length d = hdr_len (tag s) + length p" by (simp add: d_def)
  then have d: "d \<noteq> []" "length d < 2 ^ 31"
    using p(1) hdr_len_pos [of "tag s"] by auto
  have l: "\<not> (of_nat (length d) :: u32) < 1"
    using d by (cases d) (simp_all add: word_less_nat_alt unat_of_nat del: of_nat_Suc)
  have dr: "drop (hdr_len (tag s)) d = p" by (simp add: d_def)
  then have acc: "i_accept d s = s'"
    using bits n by (simp add: i_accept_def num_accept_def s'_def)
  have rx: "rx_bytes s' = rx_bytes s @ p"
    using rx_append_inv(2) [OF toggle_inv [OF inv], of p] p(2) by (simp add: s'_def rx_bytes_def block_num_toggle_def)
  have ge: "\<not> length d < i_index (d ! 0)" "\<not> unat (buf_size (rx_data s)) < unat (buf_len (rx_data s)) + (length d - i_index (d ! 0))"
    using bits p(2) len by simp_all
  show ?thesis
    using a bits l d
    unfolding isodep_step.simps nfc_t4t_isodep_data_received_def isodep_frame_handle_def option.case
      d_def [symmetric] i_frame_Ok [OF inv d] if_not_P [OF ge(1)] if_not_P [OF ge(2)] acc rx Let_def
    by (simp add: rd_def notify_failure_def)
qed

lemma rx_append_frame [simp]:
  "first_transfer (rx_append xs s) = first_transfer s" "buf_size (rx_data (rx_append xs s)) = buf_size (rx_data s)"
  by (simp_all add: rx_append_def)

text \<open>
  The answer is joined: every chained block is acknowledged with the next block number, and the
  last one hands the pieces over in order.
\<close>

lemma answer_run:
  assumes "iso_inv s" "fsc_ok s" "\<not> ats_expected s" "cb_ready_to_send (the (t4t_isodep_cb s))"
    "cb_data_received (the (t4t_isodep_cb s))" "ps \<noteq> []" "\<forall>p\<in>set ps. length p \<le> 254"
    "unat (buf_len (rx_data s)) + length (concat ps) \<le> unat (buf_size (rx_data s))"
  shows "\<exists>s'. isodep_run env s (map (\<lambda>f. Receive now f False) (tag_blocks (tag s) (block_num s) ps)) =
      Ok (s', map (\<lambda>f. Ready_to_send f (frame_fdt s)) (reader_acks (tag s) (block_num s) (length ps - 1)) @
          [Data_received (rx_bytes s @ concat ps)]) \<and>
    iso_inv s' \<and> iso_state s' = ISODEP_STATE_SELECTED \<and> tag s' = tag s \<and>
    t4t_isodep_cb s' = t4t_isodep_cb s \<and> first_transfer s' = first_transfer s \<and> buf_size (rx_data s') = buf_size (rx_data s) \<and>
    block_num s' = block_after (block_num s) (length ps)"
  using assms
proof (induction ps arbitrary: s rule: induct_list012)
  case 1
  then show ?case by simp
next
  case (2 p)
  let ?s = "rx_append p (block_num_toggle s)"
  have i: "iso_inv ?s" using 2 by (intro rx_append_inv(1) toggle_inv) (simp_all add: block_num_toggle_def)
  have "iso_inv (?s\<lparr>iso_state := ISODEP_STATE_SELECTED, err_status := e\<rparr>)" for e
    using 2(2,3) by (intro selected_inv [OF i]) (simp_all add: block_num_toggle_def fsc_ok_def)
  then show ?case
    using 2 i_block_received [of s "block_num s" p env now False]
    by (simp add: if_set_def block_after_def block_num_toggle_def)
next
  case (3 p q ps)
  let ?s' = "rx_append p (block_num_toggle s)"
  let ?s1 = "?s'\<lparr>err_status := (err_status ?s')\<lparr>last_frame := ISODEP_FRAME_I_CHAINING\<rparr>\<rparr>"
  let ?s2 = "tx_overwrite (r_frame ?s1 True) ?s1"
  have n: "block_num s = 0 \<or> block_num s = 1" using iso_invD(6) [OF 3(3)] .
  have l: "unat (buf_len (rx_data (block_num_toggle s))) + length p \<le> unat (buf_size (rx_data (block_num_toggle s)))"
    using 3(10) by (simp add: block_num_toggle_def)
  note ra = rx_append_inv [OF toggle_inv [OF 3(3)] l]
  have i1: "iso_inv ?s1" using ra(1) by simp
  have i2: "iso_inv ?s2" using length_r_frame [of ?s1 True] by (intro tx_overwrite_inv [OF i1]) simp
  have s2: "block_num ?s2 = block_num s XOR 1" "frame_fdt ?s2 = frame_fdt s" "rx_bytes ?s2 = rx_bytes s @ p"
    "unat (buf_len (rx_data ?s2)) = unat (buf_len (rx_data s)) + length p" "buf_size (rx_data ?s2) = buf_size (rx_data s)"
    using ra(2,3) by (simp_all add: block_num_toggle_def frame_fdt_def rx_bytes_def)
  have rf: "r_frame ?s1 True = frame_hdr (tag s) (ISODEP_R_BLOCK OR (block_num s XOR 1))"
    using n by (auto simp: r_frame_def block_num_toggle_def)
  have step: "isodep_step env s (Receive now (i_hdr (tag s) (block_num s) True @ p) False) =
      Ok (?s2, [Ready_to_send (r_frame ?s1 True) (frame_fdt s)], None)"
    using i_block_received [OF 3(3,5) refl, of p env now True] 3(6,9,10) r_frame_send_Ok [OF i1, of True]
    by (simp add: no_ret_def notify_failure_def if_set_def frame_fdt_def block_num_toggle_def)
  have "fsc_ok ?s2" "\<not> ats_expected ?s2" "t4t_isodep_cb ?s2 = t4t_isodep_cb s" "tag ?s2 = tag s"
    "first_transfer ?s2 = first_transfer s"
    using 3(4,5) by (simp_all add: fsc_ok_def block_num_toggle_def)
  with 3(2) [OF i2] 3(6-10) s2 step rf show ?case
    by (auto simp: block_after_Suc)
qed

section \<open>The exchange\<close>

text \<open>
  C5. A command and its answer, however long, cross the block protocol unchanged. The reader
  sends the command as I-blocks of at most the frame size of the tag, whose information fields joined
  are the command, and one more block for every acknowledgement; the answer it hands over is the
  pieces of the tag's I-blocks joined, each chained piece acknowledged; and the tag is selected again
  afterwards, ready for the next command. The answer has to fit the receive buffer of the reader, and the
  acknowledgements of the tag carry no device identifier.
\<close>

theorem isodep_exchange:
  assumes inv: "iso_inv s" and st: "iso_state s = ISODEP_STATE_SELECTED"
    and d: "data \<noteq> []" "length data < 2 ^ 31"
    and g: "first_transfer s \<longrightarrow> uint (env_div env (fwt (tag s)) T4T_FC_IN_MS) \<le> now - ats_received_time s"
    and cb: "cb_ready_to_send (the (t4t_isodep_cb s))" "cb_data_received (the (t4t_isodep_cb s))"
    and ps: "ps \<noteq> []" "\<forall>p\<in>set ps. length p \<le> 254" "length (concat ps) \<le> unat (buf_size (rx_data s))"
  defines "bs \<equiv> i_blocks (tag s) (block_num s) data"
  defines "n \<equiv> block_after (block_num s) (length bs - 1)"
  shows "(\<exists>s'. isodep_run env s (Transmit resched now data # acks (block_num s) (length bs - 1) @
        map (\<lambda>f. Receive now f False) (tag_blocks (tag s) n ps)) =
      Ok (s', map (\<lambda>f. Ready_to_send f (frame_fdt s)) (bs @ reader_acks (tag s) n (length ps - 1)) @
          [Data_received (concat ps)]) \<and>
      iso_inv s' \<and> iso_state s' = ISODEP_STATE_SELECTED \<and> tag s' = tag s) \<and>
    concat (map (drop (hdr_len (tag s))) bs) = data \<and> (\<forall>f\<in>set bs. length f \<le> unat (fsc (tag s)))"
proof -
  have f: "fsc_ok s" using iso_invD(9) [OF inv] st by simp
  from command_run [OF inv st d g cb(1), of resched, folded bs_def, folded n_def] obtain s1 where
    r1: "isodep_run env s (Transmit resched now data # acks (block_num s) (length bs - 1)) =
      Ok (s1, map (\<lambda>f. Ready_to_send f (frame_fdt s)) bs)"
    and i1: "iso_inv s1" and n1: "block_num s1 = n"
    and sim: "same_session (s\<lparr>iso_state := ISODEP_STATE_TRANSFER, rx_data := (rx_data s)\<lparr>buf_len := 0\<rparr>,
      first_transfer := False\<rparr>) s1" by blast
  have s1: "fsc_ok s1" "\<not> ats_expected s1" "t4t_isodep_cb s1 = t4t_isodep_cb s" "tag s1 = tag s"
    "buf_len (rx_data s1) = 0" "buf_size (rx_data s1) = buf_size (rx_data s)" "rx_bytes s1 = []" "frame_fdt s1 = frame_fdt s"
    using sim f iso_invD(10) [OF inv st]
    by (auto simp: same_session_def fsc_ok_def rx_bytes_def pbytes_def frame_fdt_def split: option.split)
  from answer_run [OF i1 s1(1,2), of ps env now] cb ps s1 n1 obtain s' where
    "isodep_run env s1 (map (\<lambda>f. Receive now f False) (tag_blocks (tag s) n ps)) =
      Ok (s', map (\<lambda>f. Ready_to_send f (frame_fdt s)) (reader_acks (tag s) n (length ps - 1)) @ [Data_received (concat ps)])"
    "iso_inv s'" "iso_state s' = ISODEP_STATE_SELECTED" "tag s' = tag s" by auto
  moreover have "0 < chunk_room (tag s)" "hdr_len (tag s) + chunk_room (tag s) = unat (fsc (tag s))"
    using f chunk_room_fsc [of "tag s"] hdr_len_pos [of "tag s"] by (simp_all add: fsc_ok_def)
  ultimately show ?thesis
    using isodep_run_append [of env s "Transmit resched now data # acks (block_num s) (length bs - 1)"] r1
      i_blocks_concat [of "tag s" "block_num s" data] i_blocks_size [of "tag s"]
    by (auto simp: bs_def)
qed

text \<open>A selected tag with frames of 16 bytes.\<close>

definition iso_selected :: isodep where
  "iso_selected = iso_demo\<lparr>iso_state := ISODEP_STATE_SELECTED, tag := (tag iso_demo)\<lparr>fsc := 14, fwt := 65536\<rparr>\<rparr>"

lemma iso_selected_inv: "iso_inv iso_selected"
  by (simp add: iso_selected_def iso_demo_def isodep_zero_def iso_inv_def tx_ok_def readable_def fsc_ok_def)

lemma iso_selected_blocks: "length (i_blocks (tag iso_selected) 0 (replicate 30 5)) = 3"
proof -
  have r: "chunk_room (tag iso_selected) = 13"
    by (simp add: chunk_room_def hdr_len_def did_used_def iso_selected_def iso_demo_def isodep_zero_def)
  show ?thesis by (simp add: i_blocks.simps r)
qed

theorem isodep_exchange_witness:
  "(\<exists>s'. isodep_run iso_demo_env iso_selected
        (Transmit 0 0 (replicate 30 5) # acks 0 2 @ map (\<lambda>f. Receive 0 f False) (tag_blocks (tag iso_selected) 0 [[7, 8], [9]])) =
      Ok (s', map (\<lambda>f. Ready_to_send f (frame_fdt iso_selected))
            (i_blocks (tag iso_selected) 0 (replicate 30 5) @ reader_acks (tag iso_selected) 0 1) @ [Data_received [7, 8, 9]]) \<and>
      iso_inv s' \<and> iso_state s' = ISODEP_STATE_SELECTED \<and> tag s' = tag iso_selected) \<and>
    concat (map (drop (hdr_len (tag iso_selected))) (i_blocks (tag iso_selected) 0 (replicate 30 5))) = replicate 30 5 \<and>
    list_all (\<lambda>f. length f \<le> 14) (i_blocks (tag iso_selected) 0 (replicate 30 5))"
proof -
  have s: "iso_state iso_selected = ISODEP_STATE_SELECTED" "\<not> first_transfer iso_selected"
    "cb_ready_to_send (the (t4t_isodep_cb iso_selected))" "cb_data_received (the (t4t_isodep_cb iso_selected))"
    "buf_size (rx_data iso_selected) = 256" "block_num iso_selected = 0" "fsc (tag iso_selected) = 14"
    by (simp_all add: iso_selected_def iso_demo_def isodep_zero_def iso_demo_cb_def)
  have n: "block_after 0 2 = 0" by (simp add: block_after_def)
  show ?thesis
    using isodep_exchange [OF iso_selected_inv s(1), of "replicate 30 5" iso_demo_env 0 "[[7, 8], [9]]" 0] s(2-5)
    unfolding s(6,7) iso_selected_blocks by (simp add: n list_all_iff)
qed

end
