(* ===== verification/T4T_ISODEP_Errors.thy ===== *)
theory T4T_ISODEP_Errors
  imports T4T_ISODEP_Exchange
begin

unbundle bit_operations_syntax

text \<open>
  The rest of the ISO-DEP protocol: decoding the answer to select, the bound on retries, the
  retransmission of a lost block, and the inputs for which the code misbehaves.
\<close>

section \<open>Lost frames\<close>

primrec retry_limit :: "isodep_config \<Rightarrow> isodep_frame \<Rightarrow> nat" where
  "retry_limit cfg ISODEP_FRAME_NONE = 0"
| "retry_limit cfg ISODEP_FRAME_RATS = ISODEP_RATS_RETRY cfg"
| "retry_limit cfg ISODEP_FRAME_DESELECT = ISODEP_DESELECT_RETRY cfg"
| "retry_limit cfg ISODEP_FRAME_WTX_RESPONSE = ISODEP_WTX_RETRY cfg"
| "retry_limit cfg ISODEP_FRAME_I = ISODEP_NAK_RETRY cfg"
| "retry_limit cfg ISODEP_FRAME_I_CHAINING = ISODEP_ACK_RETRY cfg"

abbreviation retries :: "isodep \<Rightarrow> nat" where
  "retries s \<equiv> unat (frame_retry_cnt (err_status s))"

lemma retry_count:
  fixes c :: u8
  assumes "unat c < 255"
  shows "unat (c + 1) = unat c + 1"
  using assms by (simp add: unat_word_ariths)

lemma timeout_resend:
  assumes inv: "iso_inv s" and r: "retries s < retry_limit (env_cfg env) (last_frame (err_status s))"
    "retry_limit (env_cfg env) (last_frame (err_status s)) < 255"
    and cb: "cb_ready_to_send (the (t4t_isodep_cb s))"
  shows "\<exists>s' f d. isodep_step env s Timeout = Ok (s', [Ready_to_send f d], None) \<and> iso_inv s' \<and>
    last_frame (err_status s') = last_frame (err_status s) \<and> retries s' = retries s + 1 \<and>
    t4t_isodep_cb s' = t4t_isodep_cb s"
proof -
  let ?s = "s\<lparr>err_status := (err_status s)\<lparr>frame_retry_cnt := frame_retry_cnt (err_status s) + 1\<rparr>\<rparr>"
  have n: "retries ?s = retries s + 1" using r by (simp add: retry_count)
  have i: "iso_inv ?s" using inv by simp
  have i2: "iso_inv (tx_overwrite (r_frame ?s a) ?s)" for a
    using length_r_frame [of ?s a] by (intro tx_overwrite_inv [OF i]) simp
  show ?thesis
    using r n inv cb i2 tx_resend_Ok [OF i] r_frame_send_Ok [OF i]
    unfolding isodep_step.simps nfc_t4t_isodep_on_timeout_def isodep_error_handle_def Let_def no_ret_def
    by (cases "last_frame (err_status s)") (simp_all add: if_set_def)
qed

lemma timeout_last:
  assumes inv: "iso_inv s" and r: "retry_limit (env_cfg env) (last_frame (err_status s)) \<le> retries s" "retries s < 255"
    and cb: "cb_error (the (t4t_isodep_cb s))"
  shows "isodep_step env s Timeout = Ok (isodep_transmission_clear (s\<lparr>iso_state := ISODEP_STATE_INITIALIZED\<rparr>),
    [Error NFC_T4T_ISODEP_TIMEOUT_ERROR], None)"
proof -
  let ?s = "s\<lparr>err_status := (err_status s)\<lparr>frame_retry_cnt := frame_retry_cnt (err_status s) + 1\<rparr>\<rparr>"
  have n: "retries ?s = retries s + 1" using r(2) by (simp add: retry_count)
  have i: "iso_inv ?s" using inv by simp
  have "isodep_give_up True ?s = Ok (isodep_transmission_clear (s\<lparr>iso_state := ISODEP_STATE_INITIALIZED\<rparr>),
      [Error NFC_T4T_ISODEP_TIMEOUT_ERROR])"
    using cb by (simp add: give_up_Ok [OF i]) (simp add: if_set_def isodep_transmission_clear_def)
  then show ?thesis
    using r n
    unfolding isodep_step.simps nfc_t4t_isodep_on_timeout_def isodep_error_handle_def Let_def no_ret_def
    by (cases "last_frame (err_status s)") simp_all
qed

text \<open>
  C24. A silent tag does not hold the reader up: whatever frame was sent last, the frame timer can
  expire only as often as the configured number of retries, each time with one more frame sent;
  the next expiry reports a timeout, drops the transfer and returns the module to its initial state.
\<close>

theorem isodep_timeout_bounded:
  assumes "iso_inv s" "cb_ready_to_send (the (t4t_isodep_cb s))" "cb_error (the (t4t_isodep_cb s))"
    "retry_limit (env_cfg env) (last_frame (err_status s)) < 255" "retries s < 255"
  defines "k \<equiv> retry_limit (env_cfg env) (last_frame (err_status s)) - retries s"
  shows "\<exists>s' fs. isodep_run env s (replicate (Suc k) Timeout) =
      Ok (s', map (\<lambda>(f, d). Ready_to_send f d) fs @ [Error NFC_T4T_ISODEP_TIMEOUT_ERROR]) \<and> length fs = k \<and>
    iso_inv s' \<and> iso_state s' = ISODEP_STATE_INITIALIZED \<and> \<not> chaining s' \<and>
    last_frame (err_status s') = ISODEP_FRAME_NONE \<and> retries s' = 0"
  using assms(1-5) unfolding k_def
proof (induction "retry_limit (env_cfg env) (last_frame (err_status s)) - retries s" arbitrary: s)
  case 0
  have "iso_inv (s\<lparr>iso_state := ISODEP_STATE_INITIALIZED\<rparr>)" using 0(2) by (simp add: iso_inv_def fsc_ok_def)
  from clear_inv [OF this] show ?case
    using 0 timeout_last [OF 0(2), of env] by (simp add: isodep_transmission_clear_def)
next
  case (Suc m)
  have "retries s < retry_limit (env_cfg env) (last_frame (err_status s))" using Suc(2) by simp
  from timeout_resend [OF Suc(3) this Suc(6,4)] obtain s1 f d where
    s1: "isodep_step env s Timeout = Ok (s1, [Ready_to_send f d], None)" "iso_inv s1"
      "last_frame (err_status s1) = last_frame (err_status s)" "retries s1 = retries s + 1"
      "t4t_isodep_cb s1 = t4t_isodep_cb s" by blast
  have m: "m = retry_limit (env_cfg env) (last_frame (err_status s1)) - retries s1" using Suc(2) s1(3,4) by simp
  have p: "cb_ready_to_send (the (t4t_isodep_cb s1))" "cb_error (the (t4t_isodep_cb s1))"
    "retry_limit (env_cfg env) (last_frame (err_status s1)) < 255" "retries s1 < 255"
    using s1 Suc(2,4-6) by simp_all
  from Suc(1) [OF m s1(2) p, folded m] obtain s' fs where
    "isodep_run env s1 (replicate (Suc m) Timeout) =
      Ok (s', map (\<lambda>(f, d). Ready_to_send f d) fs @ [Error NFC_T4T_ISODEP_TIMEOUT_ERROR])" "length fs = m"
    "iso_inv s'" "iso_state s' = ISODEP_STATE_INITIALIZED" "\<not> chaining s'"
    "last_frame (err_status s') = ISODEP_FRAME_NONE" "retries s' = 0" by blast
  then show ?case
    using s1(1) unfolding Suc(2) [symmetric] by (intro exI [of _ s'] exI [of _ "(f, d) # fs"]) simp
qed

theorem isodep_timeout_bounded_witness:
  "\<exists>s' fs. isodep_run iso_demo_env (iso_selected\<lparr>err_status := \<lparr>last_frame = ISODEP_FRAME_I, frame_retry_cnt = 0, err_wtx = 0\<rparr>\<rparr>)
        (replicate 3 Timeout) =
      Ok (s', map (\<lambda>(f, d). Ready_to_send f d) fs @ [Error NFC_T4T_ISODEP_TIMEOUT_ERROR]) \<and> length fs = 2 \<and>
    iso_inv s' \<and> iso_state s' = ISODEP_STATE_INITIALIZED \<and> \<not> chaining s' \<and>
    last_frame (err_status s') = ISODEP_FRAME_NONE \<and> retries s' = 0"
proof -
  let ?s = "iso_selected\<lparr>err_status := \<lparr>last_frame = ISODEP_FRAME_I, frame_retry_cnt = 0, err_wtx = 0\<rparr>\<rparr>"
  have "iso_inv ?s" using iso_selected_inv by simp
  moreover have "cb_ready_to_send (the (t4t_isodep_cb ?s))" "cb_error (the (t4t_isodep_cb ?s))"
    by (simp_all add: iso_selected_def iso_demo_def iso_demo_cb_def)
  moreover have "Suc (ISODEP_NAK_RETRY (env_cfg iso_demo_env)) = 3" "ISODEP_NAK_RETRY (env_cfg iso_demo_env) = 2"
    by (simp_all add: iso_demo_env_def)
  ultimately show ?thesis
    using isodep_timeout_bounded [of ?s iso_demo_env] by simp
qed

section \<open>Retransmission\<close>

lemma hdr_without_did:
  assumes "n = 0 \<or> n = 1"
  shows "hd (i_hdr t n c) AND NOT I_BLOCK_DID_BIT =
      (if c then (ISODEP_I_BLOCK OR (n AND 1)) OR I_BLOCK_CHAINING_BIT else ISODEP_I_BLOCK OR (n AND 1))"
    and "List.tl (i_hdr t n c) = (if did_used t then [did t] else [])"
    and "hd (i_hdr t n c) AND NOT I_BLOCK_DID_BIT = hd (i_hdr t n c) \<longleftrightarrow> \<not> did_used t"
  using assms by (auto simp: i_hdr_def frame_hdr_def Let_def)

lemma nak_ack_run:
  assumes inv: "iso_inv s" and l: "last_frame (err_status s) = ISODEP_FRAME_I" "frame_retry_cnt (err_status s) = 0"
    "retransmit_cnt s = 0" and r: "1 \<le> ISODEP_NAK_RETRY (env_cfg env)" and a: "\<not> ats_expected s"
    and cb: "cb_ready_to_send (the (t4t_isodep_cb s))"
  defines "s1 \<equiv> s\<lparr>err_status := (err_status s)\<lparr>frame_retry_cnt := 1\<rparr>\<rparr>"
  shows "\<exists>s'. isodep_run env s [Timeout, Receive now [ISODEP_R_BLOCK OR (block_num s XOR 1)] False] =
    Ok (s', [Ready_to_send (r_frame s False) (frame_fdt s),
             Ready_to_send (tx_frame (tx_overwrite [i_hdr_byte s] (tx_overwrite (r_frame s False) s1))) (frame_fdt s)])"
proof -
  let ?s2 = "tx_overwrite (r_frame s False) s1"
  have i1: "iso_inv s1" using inv by (simp add: s1_def)
  have rf: "r_frame s1 False = r_frame s False" "frame_fdt s1 = frame_fdt s" by (simp_all add: r_frame_def s1_def frame_fdt_def)
  have i2: "iso_inv ?s2" using length_r_frame [of s False] by (intro tx_overwrite_inv [OF i1]) simp
  have s2: "last_frame (err_status ?s2) = ISODEP_FRAME_I" "retransmit_cnt ?s2 = 0" "block_num ?s2 = block_num s"
    "\<not> ats_expected ?s2" "t4t_isodep_cb ?s2 = t4t_isodep_cb s" "frame_fdt ?s2 = frame_fdt s" "i_hdr_byte ?s2 = i_hdr_byte s"
    using l a by (simp_all add: s1_def frame_fdt_def i_hdr_byte_def)
  have t: "isodep_step env s Timeout = Ok (?s2, [Ready_to_send (r_frame s False) (frame_fdt s)], None)"
    using l r cb r_frame_send_Ok [OF i1, of False] rf
    by (simp add: nfc_t4t_isodep_on_timeout_def isodep_error_handle_def Let_def no_ret_def s1_def [symmetric])
      (simp add: if_set_def s1_def)
  have "isodep_step env ?s2 (Receive now [ISODEP_R_BLOCK OR (block_num s XOR 1)] False) =
      notify_failure (last_i_block_retransmit ?s2)"
    using iso_invD(6) [OF i2] s2
    by (auto simp: nfc_t4t_isodep_data_received_def isodep_frame_handle_def isodep_r_frame_handle_def
        r_frame_ack_handle_def rd_def)
  then show ?thesis
    using t cb s2 by (simp add: retransmit_Ok [OF i2] notify_failure_def Let_def if_set_def)
qed

lemma retransmit_bytes:
  assumes inv: "iso_inv s" and f: "fsc_ok s"
  defines "s1 \<equiv> (chunk_state s)\<lparr>err_status := (err_status (chunk_state s))\<lparr>frame_retry_cnt := 1\<rparr>\<rparr>"
  defines "again \<equiv> tx_frame (tx_overwrite [i_hdr_byte (chunk_state s)] (tx_overwrite (r_frame (chunk_state s) False) s1))"
  shows "again = (hd (tx_frame (chunk_state s)) AND NOT I_BLOCK_DID_BIT) # List.tl (tx_frame (chunk_state s)) \<and>
      (again = tx_frame (chunk_state s) \<longleftrightarrow> \<not> did_used (tag s))"
proof -
  let ?s = "chunk_state s"
  have i: "iso_inv ?s" using chunk_send_safe [OF inv f] by (simp add: safe_out_def iso_post_def chunk_send_Ok [OF inv f])
  obtain x where x: "tx_frame ?s = i_hdr (tag s) (block_num s) (chaining ?s) @ x"
    using chunk_state_tx(1) [OF inv f] by blast
  obtain tx where tx: "buf_data (tx_data ?s) = Some tx" using iso_invD(2) [OF i] by (auto simp: tx_ok_def)
  define k where "k = unat (buf_len (tx_data ?s))"
  have tk: "tx_frame ?s = take k tx" by (simp add: tx_frame_def tx pbytes_def k_def)
  have hk: "hdr_len (tag s) \<le> k"
    using length_tx_frame [OF iso_invD(2) [OF i]] x k_def by simp
  have dx: "take (k - hdr_len (tag s)) (drop (hdr_len (tag s)) tx) = x"
    using arg_cong [OF x, of "drop (hdr_len (tag s))"] tk by (simp add: drop_take)
  have ag: "again = take k (i_hdr_byte ?s # drop 1 (r_frame ?s False @ drop (hdr_len (tag s)) tx))"
    by (simp add: again_def s1_def tx_frame_def tx_overwrite_def tx pbytes_def k_def r_frame_def)
  note h = hdr_without_did [OF iso_invD(6) [OF inv], of "tag s" "chaining ?s"]
  have "again = (hd (i_hdr (tag s) (block_num s) (chaining ?s)) AND NOT I_BLOCK_DID_BIT) #
      List.tl (i_hdr (tag s) (block_num s) (chaining ?s)) @ x"
    unfolding ag h using hk dx
    by (cases k; cases "k - 1") (auto simp: i_hdr_byte_def r_frame_def frame_hdr_def hdr_len_def split: if_splits)
  moreover have "i_hdr (tag s) (block_num s) (chaining ?s) \<noteq> []" by (simp add: i_hdr_def Let_def)
  ultimately show ?thesis unfolding x using h(3) by (cases "i_hdr (tag s) (block_num s) (chaining ?s)") auto
qed

text \<open>
  C33. A lost I-block: on the timeout the reader sends R(NAK) with the number of the lost block (0xB2 or 0xB3, or
  0xBA or 0xBB followed by the device identifier when one is used), and when the tag acknowledges the block
  before, the reader sends the lost block again. The frame is the lost one except for its first byte, in
  which the bit that announces the device identifier is always cleared. Without a device identifier
  this is the same frame; with one, the tag takes the identifier byte for data.
\<close>

theorem isodep_retransmission:
  assumes inv: "iso_inv s" and f: "fsc_ok s" and a: "\<not> ats_expected s" and cb: "cb_ready_to_send (the (t4t_isodep_cb s))"
    and r: "1 \<le> ISODEP_NAK_RETRY (env_cfg env)"
  shows "\<exists>s1 s2 sent nak again.
    isodep_chunk_send s = Ok (s1, [Ready_to_send sent (frame_fdt s)]) \<and>
    isodep_run env s1 [Timeout, Receive now [ISODEP_R_BLOCK OR (block_num s XOR 1)] False] =
      Ok (s2, [Ready_to_send nak (frame_fdt s), Ready_to_send again (frame_fdt s)]) \<and>
    nak = (if did_used (tag s) then [0xBA OR block_num s, did (tag s)] else [0xB2 OR block_num s]) \<and>
    again = (hd sent AND NOT I_BLOCK_DID_BIT) # List.tl sent \<and> (again = sent \<longleftrightarrow> \<not> did_used (tag s))"
proof -
  let ?s = "chunk_state s"
  let ?s1 = "?s\<lparr>err_status := (err_status ?s)\<lparr>frame_retry_cnt := 1\<rparr>\<rparr>"
  let ?again = "tx_frame (tx_overwrite [i_hdr_byte ?s] (tx_overwrite (r_frame ?s False) ?s1))"
  have i: "iso_inv ?s" using chunk_send_safe [OF inv f] by (simp add: safe_out_def iso_post_def chunk_send_Ok [OF inv f])
  have rc: "retransmit_cnt ?s = 0" by (simp add: chunk_state_def Let_def)
  have "isodep_chunk_send s = Ok (?s, [Ready_to_send (tx_frame ?s) (frame_fdt s)])"
    using chunk_send_Ok [OF inv f] cb by (simp add: if_set_def)
  moreover have "\<exists>s2. isodep_run env ?s [Timeout, Receive now [ISODEP_R_BLOCK OR (block_num s XOR 1)] False] =
      Ok (s2, [Ready_to_send (r_frame ?s False) (frame_fdt s), Ready_to_send ?again (frame_fdt s)])"
    using nak_ack_run [OF i _ _ rc r, of now] a cb by (simp add: frame_fdt_def)
  moreover have "r_frame ?s False = (if did_used (tag s) then [0xBA OR block_num s, did (tag s)] else [0xB2 OR block_num s])"
    using iso_invD(6) [OF inv] by (auto simp: r_frame_def frame_hdr_def)
  moreover note retransmit_bytes [OF inv f]
  ultimately show ?thesis by blast
qed

text \<open>The same tag with two bytes left to send.\<close>

definition iso_pending :: isodep where
  "iso_pending = iso_selected\<lparr>transmit_data := Some [1, 2], transmit_len := 2\<rparr>"

lemma iso_pending_facts: "iso_inv iso_pending" "fsc_ok iso_pending" "\<not> ats_expected iso_pending"
    "cb_ready_to_send (the (t4t_isodep_cb iso_pending))" "block_num iso_pending = 0"
  using iso_selected_inv
  by (simp_all add: iso_pending_def iso_inv_def fsc_ok_def readable_def)
    (simp_all add: iso_selected_def iso_demo_def isodep_zero_def iso_demo_cb_def)

theorem isodep_retransmission_witness:
  "\<exists>s1 s2 sent nak again.
    isodep_chunk_send iso_pending = Ok (s1, [Ready_to_send sent (frame_fdt iso_pending)]) \<and>
    isodep_run iso_demo_env s1 [Timeout, Receive 0 [0xA3] False] =
      Ok (s2, [Ready_to_send nak (frame_fdt iso_pending), Ready_to_send again (frame_fdt iso_pending)]) \<and>
    nak = [0xB2] \<and> again = sent"
proof -
  have "1 \<le> ISODEP_NAK_RETRY (env_cfg iso_demo_env)" by (simp add: iso_demo_env_def)
  moreover have "\<not> did_used (tag iso_pending)"
    by (simp add: iso_pending_def iso_selected_def iso_demo_def isodep_zero_def did_used_def)
  ultimately show ?thesis
    using isodep_retransmission [OF iso_pending_facts(1-4), of iso_demo_env 0, unfolded iso_pending_facts(5)]
    by (auto simp del: isodep_run.simps)
qed

section \<open>Inputs the code does not survive\<close>

lemma chunk_overrun:
  assumes tx: "buf_data (tx_data s) = Some tx" "2 \<le> length tx" and fs: "14 \<le> unat (fsc (tag s))"
    and d: "transmit_data s = Some data" "unat (transmit_len s) = length data" "transmitted_len s = 0"
    and o: "length tx < hdr_len (tag s) + min (chunk_room (tag s)) (length data)"
  shows "isodep_chunk_send s = Fault"
proof -
  let ?t = "tag s"
  have le: "0 \<le> transmit_len s" by simp
  note ar = chunk_arith [OF le fs hdr_len_pos(2) [of ?t]]
  have room: "(ucast (fsc ?t) - of_nat (hdr_len ?t) < transmit_len s) = (chunk_room ?t < length data)"
    using ar d(2) by (simp add: word_less_nat_alt chunk_room_def)
  define dl :: u32 where "dl = (if chunk_room ?t < length data then ucast (fsc ?t) - of_nat (hdr_len ?t) else transmit_len s)"
  have dl: "unat dl = min (chunk_room ?t) (length data)" using ar d(2) by (simp add: dl_def chunk_room_def min_def)
  have l: "1 \<le> length tx" using tx(2) by simp
  have w: "wr (i_hdr ?t (block_num s) c @ drop (hdr_len ?t) tx) (hdr_len ?t) (take (unat dl) data) = Fault" for c
    using o hdr_len_pos(2) [of ?t] tx(2) by (simp add: wr_def dl)
  show ?thesis
    unfolding isodep_chunk_send_def tx option.case Let_def
    by (simp add: wr_0 [OF l] did_include_hdr [OF tx(2)] d(1,3) room dl_def [symmetric] chunk_hdr
        cong: if_cong split del: if_split)
      (simp add: memcpy_src_Ok dl w [unfolded dl])
qed

text \<open>
  C34. The frame size of a tag is not compared with the transmit buffer: activation only compares the
  reader's own frame size with it. A tag that announces frames of 256 bytes to a reader with
  buffers of 16 bytes makes the first command of 16 bytes or more overrun the transmit buffer.
\<close>

theorem isodep_frame_size_overrun:
  assumes "length tx = 16" "length rx = 16" "16 \<le> length data" "length data < 2 ^ 31"
    and "uint (env_div env 65536 T4T_FC_IN_MS) \<le> now"
  shows "\<exists>s. nfc_t4t_isodep_init (Some tx) 16 (Some rx) 16 (Some cb) isodep_zero = Ok (s, [], None) \<and>
    isodep_run env s [Rats NFC_T4T_ISODEP_FSD_16 0, Receive 0 [2, 8] False, Transmit resched now data] = Fault"
proof -
  obtain x y r where tx: "tx = x # y # r" using assms(1) by (cases tx; cases "List.tl tx") auto
  let ?s = "isodep_zero\<lparr>iso_state := ISODEP_STATE_INITIALIZED,
      tx_data := \<lparr>buf_data = Some tx, buf_len = 0, buf_size = 16\<rparr>,
      rx_data := \<lparr>buf_data = Some rx, buf_len = 0, buf_size = 16\<rparr>, t4t_isodep_cb := Some cb\<rparr>"
  have i: "nfc_t4t_isodep_init (Some tx) 16 (Some rx) 16 (Some cb) isodep_zero = Ok (?s, [], None)"
    by (simp add: nfc_t4t_isodep_init_def isodep_zero_def)
  obtain s1 ev1 where r1: "isodep_step env ?s (Rats NFC_T4T_ISODEP_FSD_16 0) = Ok (s1, ev1, None)"
    and s1: "buf_data (tx_data s1) = Some (0xE0 # 0 # r)" "ats_expected s1" "t4t_isodep_cb s1 = Some cb" "did (tag s1) = 0"
    by (simp add: nfc_t4t_isodep_rats_send_def Let_def isodep_zero_def fsd_value_map_def tx wr_def callback_if_set)
  obtain s2 ev2 where r2: "isodep_step env s1 (Receive 0 [2, 8] False) = Ok (s2, ev2, None)"
    and s2: "buf_data (tx_data s2) = Some (0xE0 # 0 # r)" "iso_state s2 = ISODEP_STATE_SELECTED" "first_transfer s2"
      "ats_received_time s2 = 0" "fsc (tag s2) = 254" "fwt (tag s2) = 65536" "did (tag s2) = 0"
    using s1
    by (simp add: nfc_t4t_isodep_data_received_def ats_parse_def rd_def Let_def fsd_value_map_def ats_ta_def ats_tb_def
        ats_tc_def ats_historical_def callback_if_set notify_failure_def T4T_FWI_TO_FWT_def)
  let ?t = "(transmit_start data s2)\<lparr>first_transfer := False, ats_received_time := now\<rparr>"
  have l: "unat (of_nat (length data) :: u32) = length data" using assms(4) by (simp add: unat_of_nat)
  then have n: "\<not> (of_nat (length data) :: u32) < 1" using assms(3) by (auto simp: word_less_nat_alt)
  have h: "hdr_len (tag ?t) = 1" "chunk_room (tag ?t) = 253" "buf_data (tx_data ?t) = Some (0xE0 # 0 # r)"
    "14 \<le> unat (fsc (tag ?t))" "transmit_data ?t = Some data" "unat (transmit_len ?t) = length data" "transmitted_len ?t = 0"
    using s2 l by (simp_all add: hdr_len_def did_used_def chunk_room_def transmit_start_def isodep_transmission_clear_def)
  have "isodep_chunk_send ?t = Fault"
    by (rule chunk_overrun [OF h(3) _ h(4-7)]) (use h(1,2) assms(1,3) tx in auto)
  moreover have "isodep_step env s2 (Transmit resched now data) = no_ret (isodep_chunk_send ?t)"
    using s2 n assms(5)
    unfolding isodep_step.simps nfc_t4t_isodep_transmit_def Let_def transmit_start_def [symmetric] no_ret_def
    by (simp add: transmit_start_def isodep_transmission_clear_def)
  ultimately show ?thesis using i r1 r2 by (simp add: no_ret_def)
qed

theorem isodep_frame_size_overrun_witness:
  "\<exists>s. nfc_t4t_isodep_init (Some (replicate 16 0)) 16 (Some (replicate 16 0)) 16 (Some iso_demo_cb) isodep_zero = Ok (s, [], None) \<and>
    isodep_run iso_demo_env s [Rats NFC_T4T_ISODEP_FSD_16 0, Receive 0 [2, 8] False, Transmit 0 10 (replicate 20 1)] = Fault"
  by (rule isodep_frame_size_overrun) (simp_all add: iso_demo_env_def)

text \<open>
  Frames that are too short make the module read behind their end: every answer to select with a valid
  frame size index that has fewer bytes behind its format byte than the format byte announces interface
  bytes, and every waiting time extension request that ends before its multiplier.
\<close>

theorem isodep_malformed_frames:
  fixes d :: "u8 list"
  defines "interface \<equiv> \<lambda>t0 :: u8. (if t0 AND 0x10 \<noteq> 0 then 1 else 0) + (if t0 AND 0x20 \<noteq> 0 then 1 else 0) + (if t0 AND 0x40 \<noteq> 0 then 1 else 0) :: nat"
  assumes "d = x # y # ta" "x = of_nat (length d)" "y AND 0x0F \<le> 8" "length ta < interface y"
    and "b AND 0xF2 = 0xF2" "e = (if b AND 0x08 = 0 then [b] else [b, c])"
  shows "isodep_step env (s\<lparr>ats_expected := True\<rparr>) (Receive now d False) = Fault \<and>
    isodep_step env (s\<lparr>ats_expected := False\<rparr>) (Receive now e False) = Fault"
proof
  have n: "length ta \<le> 2" using assms(5) by (simp add: interface_def split: if_splits)
  have "unat (y AND 0x0F) \<le> 8" using assms(4) by (simp add: word_le_nat_alt)
  moreover have "length fsd_value_map = 9" by (simp add: fsd_value_map_def)
  ultimately have f: "\<not> length fsd_value_map \<le> unat (y AND 0x0F)" by simp
  define L :: u32 where "L = of_nat (length d)"
  have ld: "length d = 2 + length ta" using assms(2) by simp
  have uL: "unat L = length d" unfolding L_def by (rule unat_of_nat_u32) (use n ld in simp)
  then have L: "\<not> L < 2" "\<not> L > 20" using n ld by (simp_all add: word_less_nat_alt)
  have "unat x = length d" unfolding assms(3) unat_of_nat using n ld by simp
  then have x: "ucast x = L" by (simp add: word_unat_eq_iff uL unsigned_ucast_eq take_bit_nat_eq_self)
  have d: "rd d 0 = Ok x" "rd d 1 = Ok y" by (simp_all add: assms(2) rd_def)
  have r: "rd d i = (if i < 2 + length ta then Ok (d ! i) else Fault)" for i by (simp add: rd_def ld)
  have "ats_parse now d L t = Fault" for t
    unfolding ats_parse_def Let_def d rbind.simps if_not_P [OF L(1)] if_not_P [OF f] using L(2) x assms(5)
    by (auto simp: r ats_ta_def ats_tb_def ats_tc_def interface_def split: if_splits)
  then show "isodep_step env (s\<lparr>ats_expected := True\<rparr>) (Receive now d False) = Fault"
    using L(1) uL ld unfolding isodep_step.simps nfc_t4t_isodep_data_received_def L_def [symmetric] notify_failure_def
    by (simp add: word_less_nat_alt)
  have "b AND 0x02 = (b AND 0xF2) AND 0x02" "b AND 0x40 = (b AND 0xF2) AND 0x40" "b AND 0x30 = (b AND 0xF2) AND 0x30"
    by (simp_all add: and.assoc)
  then have "b AND 0x02 \<noteq> 0" "b AND 0x40 \<noteq> 0" "b AND 0x30 = 0x30" unfolding assms(6) by simp_all
  then show "isodep_step env (s\<lparr>ats_expected := False\<rparr>) (Receive now e False) = Fault"
    using assms(7) by (auto simp: nfc_t4t_isodep_data_received_def notify_failure_def isodep_frame_handle_def isodep_s_frame_handle_def rd_def Let_def)
qed

theorem isodep_malformed_frames_witness:
  "isodep_step iso_demo_env (iso_demo\<lparr>ats_expected := True\<rparr>) (Receive 0 [3, 0x38, 0] False) = Fault \<and>
    isodep_step iso_demo_env (iso_demo\<lparr>ats_expected := False\<rparr>) (Receive 0 [0xFA, 1] False) = Fault"
  by (rule isodep_malformed_frames [where x = 3 and y = "0x38" and ta = "[0]" and b = "0xFA" and c = 1]) simp_all

text \<open>
  A refused activation locks the module: after a RATS with an invalid device identifier every
  further RATS, command and deselection is refused, because the state has been changed before the
  arguments are checked.
\<close>

theorem isodep_rats_locks:
  assumes "iso_state s = ISODEP_STATE_INITIALIZED \<or> iso_state s = ISODEP_STATE_SELECTED" "d > T4T_DID_MAX" "len > 0"
  shows "\<exists>s'. nfc_t4t_isodep_rats_send f d s = Ok (s', [], Some EINVAL) \<and>
    nfc_t4t_isodep_rats_send f' d' s' = Ok (s', [], Some EACCES) \<and>
    nfc_t4t_isodep_tag_deselect s' = Ok (s', [], Some EACCES) \<and>
    nfc_t4t_isodep_transmit dv resched now (Some data) len s' = Ok (s', [], Some EACCES)"
  using assms
  by (auto simp: nfc_t4t_isodep_rats_send_def nfc_t4t_isodep_tag_deselect_def nfc_t4t_isodep_transmit_def Let_def
      word_less_nat_alt)

theorem isodep_rats_locks_witness:
  "\<exists>s'. nfc_t4t_isodep_rats_send NFC_T4T_ISODEP_FSD_16 15 iso_demo = Ok (s', [], Some EINVAL) \<and>
    nfc_t4t_isodep_rats_send NFC_T4T_ISODEP_FSD_16 0 s' = Ok (s', [], Some EACCES) \<and>
    nfc_t4t_isodep_tag_deselect s' = Ok (s', [], Some EACCES) \<and>
    nfc_t4t_isodep_transmit (\<lambda>a b. a) 0 0 (Some [1]) 1 s' = Ok (s', [], Some EACCES)"
  using isodep_rats_locks [of iso_demo 15 1 NFC_T4T_ISODEP_FSD_16 NFC_T4T_ISODEP_FSD_16 0 "\<lambda>a b. a" 0 0 "[1]"]
  by (simp add: iso_demo_def)

text \<open>
  An I-block selects the tag in whatever state it arrives, also when no answer to select has
  been received and the frame size of the tag is still unknown.
\<close>

theorem isodep_unsolicited_block:
  assumes inv: "iso_inv s" and a: "\<not> ats_expected s" and l: "buf_len (rx_data s) = 0"
  shows "\<exists>s' ev. isodep_step env s (Receive now [ISODEP_I_BLOCK OR block_num s] False) = Ok (s', ev, None) \<and>
    iso_state s' = ISODEP_STATE_SELECTED \<and> tag s' = tag s"
  using iso_invD(6) [OF inv] a iso_invD(3) [OF inv]
  by (auto simp: nfc_t4t_isodep_data_received_def isodep_frame_handle_def i_frame_Ok [OF inv, of "[_]", simplified]
      rd_def notify_failure_def i_index_def tx_ok_def Let_def i_accept_def)

theorem isodep_unsolicited_block_witness:
  "\<exists>s' ev. isodep_step iso_demo_env iso_demo (Receive 0 [2] False) = Ok (s', ev, None) \<and>
    iso_state s' = ISODEP_STATE_SELECTED \<and> tag s' = tag iso_demo"
  using isodep_unsolicited_block [OF isodep_reach_inv [OF iso_demo_reach], of iso_demo_env 0]
  by (simp add: iso_demo_def isodep_zero_def)

section \<open>The answer to select\<close>

definition opt_byte :: "u8 option \<Rightarrow> u8 list" where
  "opt_byte b = (case b of None \<Rightarrow> [] | Some b \<Rightarrow> [b])"

definition ats_t0 :: "nat \<Rightarrow> u8 option \<Rightarrow> u8 option \<Rightarrow> u8 option \<Rightarrow> u8" where
  "ats_t0 fsci ta tb tc = of_nat fsci OR (if ta \<noteq> None then 0x10 else 0) OR (if tb \<noteq> None then 0x20 else 0) OR
     (if tc \<noteq> None then 0x40 else 0)"

definition ats_bytes :: "nat \<Rightarrow> u8 option \<Rightarrow> u8 option \<Rightarrow> u8 option \<Rightarrow> u8 list \<Rightarrow> u8 list" where
  "ats_bytes fsci ta tb tc hist =
     (let body = ats_t0 fsci ta tb tc # opt_byte ta @ opt_byte tb @ opt_byte tc @ hist
      in of_nat (1 + length body) # body)"

lemma upto_8: "n \<le> 8 \<Longrightarrow> n = 0 \<or> n = 1 \<or> n = 2 \<or> n = 3 \<or> n = 4 \<or> n = 5 \<or> n = 6 \<or> n = 7 \<or> n = (8 :: nat)"
  by linarith

lemma fsd_table:
  assumes "fsci \<le> 8"
  shows "fsci < length fsd_value_map"
    "unat (fsd_value_map ! fsci - ISODEP_CRC_LENGTH) = [14, 22, 30, 38, 46, 62, 94, 126, 254] ! fsci"
  using upto_8 [OF assms] by (auto simp: fsd_value_map_def)

lemma ats_t0_bits:
  assumes "fsci \<le> 8"
  shows "unat (ats_t0 fsci ta tb tc AND 0x0F) = fsci" "(ats_t0 fsci ta tb tc AND 0x10 \<noteq> 0) = (ta \<noteq> None)"
    "(ats_t0 fsci ta tb tc AND 0x20 \<noteq> 0) = (tb \<noteq> None)" "(ats_t0 fsci ta tb tc AND 0x40 \<noteq> 0) = (tc \<noteq> None)"
  using upto_8 [OF assms] by (auto simp: ats_t0_def)

lemma unat_FWI_TO_FWT: "unat f \<le> 15 \<Longrightarrow> unat (T4T_FWI_TO_FWT f) = 4096 * 2 ^ unat f"
  and unat_SFGT: "unat f \<le> 15 \<Longrightarrow> unat (T4T_FWI_TO_FWT f + T4T_SFGT_DELTA f) = 4480 * 2 ^ unat f"
proof -
  assume f: "unat f \<le> 15"
  then have p: "(2 :: nat) ^ unat f \<le> 2 ^ 15" by (intro power_increasing) simp_all
  have e: "push_bit (unat f) (1 :: u32) = of_nat (2 ^ unat f)" by (simp add: push_bit_eq_mult)
  have "T4T_FWI_TO_FWT f = of_nat (4096 * 2 ^ unat f)" by (simp add: T4T_FWI_TO_FWT_def e)
  with p show "unat (T4T_FWI_TO_FWT f) = 4096 * 2 ^ unat f"
    by (simp add: unat_of_nat del: of_nat_mult of_nat_power)
  have "T4T_FWI_TO_FWT f + T4T_SFGT_DELTA f = of_nat (4480 * 2 ^ unat f)"
    by (simp add: T4T_FWI_TO_FWT_def T4T_SFGT_DELTA_def e)
  with p show "unat (T4T_FWI_TO_FWT f + T4T_SFGT_DELTA f) = 4480 * 2 ^ unat f"
    by (simp add: unat_of_nat del: of_nat_mult of_nat_power)
qed

lemma low_nibble: "unat (b AND 0x0F) = unat (b :: u8) mod 16"
proof -
  have "b AND 0x0F = take_bit 4 b" by (simp add: take_bit_eq_mask mask_eq_exp_minus_1)
  then show ?thesis by (simp add: take_bit_eq_mod unat_mod)
qed

lemma ats_nibbles: "unat (drop_bit 4 (b AND 0xF0)) = unat (b :: u8) div 16" "unat (b AND 0x0F) = unat b mod 16"
proof -
  have "drop_bit 4 (b AND 0xF0) = drop_bit 4 b AND 0x0F" by simp
  then show "unat (drop_bit 4 (b AND 0xF0)) = unat b div 16"
    using low_nibble [of "drop_bit 4 b"] unat_u8_less [of b] by (simp add: drop_bit_eq_div unat_div)
qed (rule low_nibble)

lemma ats_ta_bytes:
  assumes "(t0 AND 0x10 \<noteq> 0) = (ta \<noteq> None)"
  shows "\<exists>e p l. ats_ta (pre @ opt_byte ta @ rest) t0 (length pre) s =
    Ok (s\<lparr>equal_divisor := e, tag := (tag s)\<lparr>pl_divisor := p, lp_divisor := l\<rparr>\<rparr>, length (pre @ opt_byte ta))"
proof (cases ta)
  case None
  then show ?thesis
    using assms by (intro exI [of _ "equal_divisor s"] exI [of _ 0]) (simp add: ats_ta_def opt_byte_def)
next
  case (Some b)
  then show ?thesis
    using assms
    by (intro exI [of _ "b AND 0x80 \<noteq> 0 \<or> equal_divisor s"] exI [of _ "push_bit 1 (b AND 0x07)"] exI [of _ "drop_bit 3 (b AND 0x70)"])
      (simp add: ats_ta_def opt_byte_def rd_def)
qed

lemma ats_tb_bytes:
  assumes "(t0 AND 0x20 \<noteq> 0) = (tb \<noteq> None)"
  shows "\<exists>fw sf. ats_tb (pre @ opt_byte tb @ rest) t0 (length pre) s =
      Ok (s\<lparr>tag := (tag s)\<lparr>fwt := fw, sfgt := sf\<rparr>\<rparr>, length (pre @ opt_byte tb)) \<and>
    unat fw = 4096 * 2 ^ (case tb of None \<Rightarrow> 4 | Some b \<Rightarrow> unat b div 16) \<and>
    unat sf = (let sfgi = (case tb of None \<Rightarrow> 0 | Some b \<Rightarrow> unat b mod 16) in if sfgi = 0 then 6780 else 4480 * 2 ^ sfgi)"
proof (cases tb)
  case None
  then show ?thesis
    using assms by (intro exI [of _ "T4T_FWI_TO_FWT 4"] exI [of _ 6780]) (simp add: ats_tb_def opt_byte_def unat_FWI_TO_FWT)
next
  case (Some b)
  have s: "b AND 0x0F = 0 \<longleftrightarrow> unat b mod 16 = 0" using ats_nibbles(2) [of b] by (simp add: word_unat_eq_iff)
  have n: "unat (drop_bit 4 (b AND 0xF0)) \<le> 15" "unat (b AND 0x0F) \<le> 15"
    using unat_u8_less [of b] unfolding ats_nibbles by simp_all
  show ?thesis
    using assms Some s
    by (intro exI [of _ "T4T_FWI_TO_FWT (drop_bit 4 (b AND 0xF0))"]
        exI [of _ "if b AND 0x0F \<noteq> 0 then T4T_FWI_TO_FWT (b AND 0x0F) + T4T_SFGT_DELTA (b AND 0x0F) else 6780"])
      (simp only: unat_FWI_TO_FWT [OF n(1)] ats_nibbles ats_tb_def opt_byte_def rd_def, simp add: unat_SFGT [OF n(2)] ats_nibbles)
qed

lemma ats_tc_bytes:
  assumes "(t0 AND 0x40 \<noteq> 0) = (tc \<noteq> None)"
  shows "ats_tc (pre @ opt_byte tc @ rest) t0 (length pre) s =
    Ok (s\<lparr>tag := (tag s)\<lparr>did_supported := (case tc of None \<Rightarrow> True | Some c \<Rightarrow> c AND 2 \<noteq> 0),
                          nad_supported := (case tc of None \<Rightarrow> False | Some c \<Rightarrow> c AND 1 \<noteq> 0)\<rparr>\<rparr>, length (pre @ opt_byte tc))"
  using assms by (cases tc) (simp_all add: ats_tc_def opt_byte_def rd_def)

lemma ats_hist_bytes:
  assumes l: "length pre + length hist \<le> 20" "length hist \<le> 15" and h: "length (historical (tag s)) = 15"
  shows "ats_historical (pre @ hist) (of_nat (length (pre @ hist))) (length pre) s =
    Ok (if hist = [] then s else s\<lparr>tag := (tag s)\<lparr>historical_len := of_nat (length hist),
          historical := hist @ drop (length hist) (historical (tag s))\<rparr>\<rparr>)"
proof -
  have c: "(of_nat (length pre) :: u32) < of_nat (length (pre @ hist)) \<longleftrightarrow> hist \<noteq> []"
    using l by (simp add: word_less_nat_alt unat_of_nat del: of_nat_add)
  have u: "unat (of_nat (length hist) :: u8) = length hist" using l(2) by (simp add: unat_of_nat)
  have "ucast (of_nat (length (pre @ hist)) - of_nat (length pre) :: u32) = (of_nat (length hist) :: u8)"
    using l by (simp add: word_unat_eq_iff u unat_ucast_down unat_of_nat)
  moreover have "\<not> (of_nat (length hist) :: u8) > 15" using u l(2) by (simp add: word_less_nat_alt)
  ultimately show ?thesis
    unfolding ats_historical_def Let_def c using l(2) h u by (simp add: memcpy_src_Ok wr_def)
qed

text \<open>
  C25. The answer to select is decoded as the protocol prescribes: the frame size from the table
  less the two checksum bytes, the frame waiting time 4096 times two to the FWI (4 by default), the
  start-up guard time, the support for device identifier and node address, the historical bytes; and
  the tag is then selected with block number 0.
\<close>

theorem ats_parse_correct:
  fixes ta tb tc
  assumes f: "fsci \<le> 8" and h: "length hist \<le> 15" "length (historical (tag s)) = 15" and cb: "t4t_isodep_cb s \<noteq> None"
  defines "data \<equiv> ats_bytes fsci ta tb tc hist"
  shows "\<exists>s'. ats_parse now data (of_nat (length data)) s = Ok (s', if_set cb_selected (Selected (tag s')) s, None) \<and>
    iso_state s' = ISODEP_STATE_SELECTED \<and> block_num s' = 0 \<and> first_transfer s' \<and> did (tag s') = did (tag s) \<and>
    unat (fsc (tag s')) = [14, 22, 30, 38, 46, 62, 94, 126, 254] ! fsci \<and>
    unat (fwt (tag s')) = 4096 * 2 ^ (case tb of None \<Rightarrow> 4 | Some b \<Rightarrow> unat b div 16) \<and>
    unat (sfgt (tag s')) = (let sfgi = (case tb of None \<Rightarrow> 0 | Some b \<Rightarrow> unat b mod 16)
                            in if sfgi = 0 then 6780 else 4480 * 2 ^ sfgi) \<and>
    did_supported (tag s') = (case tc of None \<Rightarrow> True | Some c \<Rightarrow> c AND 2 \<noteq> 0) \<and>
    nad_supported (tag s') = (case tc of None \<Rightarrow> False | Some c \<Rightarrow> c AND 1 \<noteq> 0) \<and>
    (if hist = [] then historical_len (tag s') = historical_len (tag s)
     else unat (historical_len (tag s')) = length hist \<and> take (length hist) (historical (tag s')) = hist)"
proof -
  let ?t0 = "ats_t0 fsci ta tb tc"
  define p2 where "p2 = [of_nat (length data), ?t0]"
  define p3 where "p3 = p2 @ opt_byte ta"
  define p4 where "p4 = p3 @ opt_byte tb"
  define p5 where "p5 = p4 @ opt_byte tc"
  note ps = p5_def p4_def p3_def p2_def
  note bits = ats_t0_bits [OF f, of ta tb tc]
  have ob: "length (opt_byte b) \<le> 1" for b by (simp add: opt_byte_def split: option.split)
  have d: "data = p2 @ opt_byte ta @ opt_byte tb @ opt_byte tc @ hist" "data = p3 @ opt_byte tb @ opt_byte tc @ hist"
    "data = p4 @ opt_byte tc @ hist" "data = p5 @ hist"
    unfolding ps by (simp_all add: data_def ats_bytes_def Let_def)
  have l2: "length p2 = 2" by (simp add: p2_def)
  have l5: "2 \<le> length p5" "length p5 \<le> 5" using ob [of ta] ob [of tb] ob [of tc] unfolding ps by simp_all
  then have l20: "length p5 + length hist \<le> 20" using h(1) by linarith
  have l: "length data = length p5 + length hist" by (subst d(4)) simp
  define s0 where "s0 = s\<lparr>ats_received_time := now, tag := (tag s)\<lparr>fsc := fsd_value_map ! fsci - ISODEP_CRC_LENGTH\<rparr>\<rparr>"
  obtain e pl lp where ra: "ats_ta data ?t0 2 s0 =
      Ok (s0\<lparr>equal_divisor := e, tag := (tag s0)\<lparr>pl_divisor := pl, lp_divisor := lp\<rparr>\<rparr>, length p3)"
    using ats_ta_bytes [OF bits(2), of p2 "opt_byte tb @ opt_byte tc @ hist" s0]
    unfolding d(1) [symmetric] p3_def [symmetric] l2 by blast
  define s1 where "s1 = s0\<lparr>equal_divisor := e, tag := (tag s0)\<lparr>pl_divisor := pl, lp_divisor := lp\<rparr>\<rparr>"
  obtain fw sf where rb: "ats_tb data ?t0 (length p3) s1 = Ok (s1\<lparr>tag := (tag s1)\<lparr>fwt := fw, sfgt := sf\<rparr>\<rparr>, length p4)"
    and fw: "unat fw = 4096 * 2 ^ (case tb of None \<Rightarrow> 4 | Some b \<Rightarrow> unat b div 16)"
    and sf: "unat sf = (let sfgi = (case tb of None \<Rightarrow> 0 | Some b \<Rightarrow> unat b mod 16) in if sfgi = 0 then 6780 else 4480 * 2 ^ sfgi)"
    using ats_tb_bytes [OF bits(3), of p3 "opt_byte tc @ hist" s1]
    unfolding d(2) [symmetric] p4_def [symmetric] by blast
  define s2 where "s2 = s1\<lparr>tag := (tag s1)\<lparr>fwt := fw, sfgt := sf\<rparr>\<rparr>"
  note rc = ats_tc_bytes [OF bits(4), of p4 hist s2, folded d(3) p5_def]
  define s3 where "s3 = s2\<lparr>tag := (tag s2)\<lparr>did_supported := (case tc of None \<Rightarrow> True | Some c \<Rightarrow> c AND 2 \<noteq> 0),
                          nad_supported := (case tc of None \<Rightarrow> False | Some c \<Rightarrow> c AND 1 \<noteq> 0)\<rparr>\<rparr>"
  have h3: "length (historical (tag s3)) = 15" using h(2) by (simp add: s3_def s2_def s1_def s0_def)
  note rh = ats_hist_bytes [OF l20 h(1) h3, folded d(4)]
  have hu: "unat (of_nat (length hist) :: u8) = length hist" using h(1) by (simp add: unat_of_nat)
  have l': "2 \<le> length data" "length data \<le> 20" using l l20 l5 by simp_all
  have d01: "unat (data ! 0) = length data" "data ! 1 = ?t0"
    using l' by (subst d(1), simp add: p2_def unat_of_nat)+
  show ?thesis
    using ats_parse_eval [OF l' d01(1), of s now, unfolded d01(2) bits(1), OF fsd_table(1) [OF f], folded s0_def,
      OF ra [folded s1_def] rb [folded s2_def] rc [folded s3_def] rh]
      cb fw sf h fsd_table(2) [OF f] hu by (auto simp: s3_def s2_def s1_def s0_def)
qed

theorem ats_parse_correct_witness:
  "\<exists>s'. ats_parse 0 (ats_bytes 8 None (Some 0x71) (Some 2) [0x80]) (of_nat (length (ats_bytes 8 None (Some 0x71) (Some 2) [0x80]))) iso_demo =
      Ok (s', if_set cb_selected (Selected (tag s')) iso_demo, None) \<and>
    iso_state s' = ISODEP_STATE_SELECTED \<and> unat (fsc (tag s')) = 254 \<and> unat (fwt (tag s')) = 4096 * 2 ^ 7 \<and>
    unat (sfgt (tag s')) = 8960 \<and> did_supported (tag s') \<and> \<not> nad_supported (tag s') \<and> take 1 (historical (tag s')) = [0x80]"
proof -
  have "length (historical (tag iso_demo)) = 15" "t4t_isodep_cb iso_demo \<noteq> None"
    by (simp_all add: iso_demo_def isodep_zero_def)
  from ats_parse_correct [of 8 "[0x80]" iso_demo 0 None "Some 0x71" "Some 2", OF _ _ this]
  show ?thesis by auto
qed

end
