(* ===== verification/T4T_TLV.thy ===== *)
theory T4T_TLV
  imports NFC_Prelude
begin

unbundle bit_operations_syntax

text \<open>
  File Control TLV blocks of a Type 4 Tag: \<^verbatim>\<open>include/nfc/t4t/tlv_block.h\<close> and
  \<^verbatim>\<open>subsys/nfc/t4t/tlv_block.c\<close>. The parser is shown to accept exactly the images of
  well-formed blocks.
\<close>

section \<open>Data\<close>

abbreviation (input) NFC_T4T_TLV_BLOCK_TYPE_NDEF_FILE_CONTROL_TLV :: u8
  where "NFC_T4T_TLV_BLOCK_TYPE_NDEF_FILE_CONTROL_TLV \<equiv> 0x04"
abbreviation (input) NFC_T4T_TLV_BLOCK_TYPE_PROPRIETARY_FILE_CONTROL_TLV :: u8
  where "NFC_T4T_TLV_BLOCK_TYPE_PROPRIETARY_FILE_CONTROL_TLV \<equiv> 0x05"
abbreviation (input) NFC_T4T_TLV_BLOCK_TYPE_EXTENDED_NDEF_FILE_CONTROL_TLV :: u8
  where "NFC_T4T_TLV_BLOCK_TYPE_EXTENDED_NDEF_FILE_CONTROL_TLV \<equiv> 0x06"
abbreviation (input) TLV_LEN_LONG_FORMAT_TOKEN :: u8 where "TLV_LEN_LONG_FORMAT_TOKEN \<equiv> 0xFF"
abbreviation (input) TLV_LEN_LONG_FORMAT_MIN_VALUE :: u16
  where "TLV_LEN_LONG_FORMAT_MIN_VALUE \<equiv> 0xFF"
abbreviation (input) TLV_MIN_TL_FIELD_LEN :: u16 where "TLV_MIN_TL_FIELD_LEN \<equiv> 2"
abbreviation (input) TLV_MIN_LONG_FORMAT_TL_FIELD_LEN :: u16
  where "TLV_MIN_LONG_FORMAT_TL_FIELD_LEN \<equiv> 4"
abbreviation (input) NDEF_FILE_CONTROL_TLV_LEN :: u16 where "NDEF_FILE_CONTROL_TLV_LEN \<equiv> 6"
abbreviation (input) PROPRIETARY_FILE_CONTROL_TLV_LEN :: u16
  where "PROPRIETARY_FILE_CONTROL_TLV_LEN \<equiv> 6"
abbreviation (input) EXTENDED_NDEF_FILE_CONTROL_TLV_LEN :: u16
  where "EXTENDED_NDEF_FILE_CONTROL_TLV_LEN \<equiv> 8"

record nfc_t4t_tlv_block_file =
  content :: cptr
  file_len :: u16

record nfc_t4t_tlv_block_file_control_val =
  bound_file :: nfc_t4t_tlv_block_file
  max_file_size :: u32
  file_id :: u16
  read_access :: u8
  write_access :: u8

record nfc_t4t_tlv_block =
  tlv_value :: nfc_t4t_tlv_block_file_control_val
  tlv_length :: u16
  tlv_type :: u8

text \<open>What \<^verbatim>\<open>memset(file_control_tlv, 0, ...)\<close> leaves.\<close>

definition tlv_block_zero :: nfc_t4t_tlv_block where
  "tlv_block_zero =
     \<lparr>tlv_value = \<lparr>bound_file = \<lparr>content = None, file_len = 0\<rparr>, max_file_size = 0, file_id = 0,
                  read_access = 0, write_access = 0\<rparr>,
      tlv_length = 0, tlv_type = 0\<rparr>"

section \<open>Operations\<close>

definition max_field_range_verify :: "u32 \<Rightarrow> u32 \<Rightarrow> u32 \<Rightarrow> bool" where
  "max_field_range_verify v mn mx \<longleftrightarrow> \<not> (v < mn \<or> v > mx)"

definition file_id_invalid :: "u16 \<Rightarrow> bool" where
  "file_id_invalid i \<longleftrightarrow> i \<in> {0x0000, 0xE102, 0xE103, 0x3F00, 0x3FFF, 0xFFFF}"

definition nfc_t4t_file_control_tl_validate :: "nfc_t4t_tlv_block \<Rightarrow> unit res" where
  "nfc_t4t_file_control_tl_validate t =
     (if tlv_type t = NFC_T4T_TLV_BLOCK_TYPE_NDEF_FILE_CONTROL_TLV then
        if tlv_length t \<noteq> NDEF_FILE_CONTROL_TLV_LEN then Err EINVAL else Ok ()
      else if tlv_type t = NFC_T4T_TLV_BLOCK_TYPE_PROPRIETARY_FILE_CONTROL_TLV then
        if tlv_length t \<noteq> PROPRIETARY_FILE_CONTROL_TLV_LEN then Err EINVAL else Ok ()
      else if tlv_type t = NFC_T4T_TLV_BLOCK_TYPE_EXTENDED_NDEF_FILE_CONTROL_TLV then
        if tlv_length t \<noteq> EXTENDED_NDEF_FILE_CONTROL_TLV_LEN then Err EINVAL else Ok ()
      else Err EINVAL)"

text \<open>The maximum file size field: its value and its size, by block type.\<close>

definition max_file_size_parse :: "byteorder_ops \<Rightarrow> u8 \<Rightarrow> u8 list \<Rightarrow> (u32 \<times> nat) res" where
  "max_file_size_parse bo ty buf =
     (if ty = NFC_T4T_TLV_BLOCK_TYPE_NDEF_FILE_CONTROL_TLV then
        rbind (be16_at bo buf 0) (\<lambda>v.
          if \<not> max_field_range_verify (ucast v) 0x0005 0xFFFE then Err EINVAL else Ok (ucast v, 2))
      else if ty = NFC_T4T_TLV_BLOCK_TYPE_PROPRIETARY_FILE_CONTROL_TLV then
        rbind (be16_at bo buf 0) (\<lambda>v.
          if \<not> max_field_range_verify (ucast v) 0x0003 0xFFFE then Err EINVAL else Ok (ucast v, 2))
      else if ty = NFC_T4T_TLV_BLOCK_TYPE_EXTENDED_NDEF_FILE_CONTROL_TLV then
        rbind (be32_at bo buf 0) (\<lambda>v.
          if \<not> max_field_range_verify v 0x0000FFFF 0xFFFFFFFE then Err EINVAL else Ok (v, 4))
      else Ok (0, 0))"

definition nfc_t4t_file_control_value_parse ::
    "byteorder_ops \<Rightarrow> nfc_t4t_tlv_block \<Rightarrow> u8 list \<Rightarrow> nfc_t4t_tlv_block res" where
  "nfc_t4t_file_control_value_parse bo t value_buff =
     rbind (be16_at bo value_buff 0) (\<lambda>fid.
     if file_id_invalid fid then Err EINVAL
     else
       rbind (max_file_size_parse bo (tlv_type t) (drop 2 value_buff)) (\<lambda>(mx, n).
       rbind (rd value_buff (2 + n)) (\<lambda>ra.
       rbind (rd value_buff (3 + n)) (\<lambda>wa.
       Ok (t\<lparr>tlv_value := (tlv_value t)\<lparr>max_file_size := mx, file_id := fid,
                                       read_access := ra, write_access := wa\<rparr>\<rparr>)))))"

text \<open>
  \<^verbatim>\<open>nfc_t4t_tlv_block_parse\<close>: the block and its total length. The total length is a 16-bit
  value.
\<close>

definition nfc_t4t_tlv_block_parse ::
    "byteorder_ops \<Rightarrow> u8 list \<Rightarrow> u16 \<Rightarrow> (nfc_t4t_tlv_block \<times> u16) res" where
  "nfc_t4t_tlv_block_parse bo raw_data len =
     (if len < TLV_MIN_TL_FIELD_LEN then Err ENOMEM
      else
        rbind (rd raw_data 0) (\<lambda>ty.
        rbind (rd raw_data 1) (\<lambda>l0.
        rbind (if l0 = TLV_LEN_LONG_FORMAT_TOKEN then
                 if len < TLV_MIN_LONG_FORMAT_TL_FIELD_LEN then Err ENOMEM
                 else rbind (be16_at bo raw_data 2) (\<lambda>l.
                      if l < TLV_LEN_LONG_FORMAT_MIN_VALUE then Err EINVAL else Ok (l, 4))
               else Ok (ucast l0, 2)) (\<lambda>(l, offset).
        let tlv_block_len = of_nat offset + l in
        if len < tlv_block_len then Err ENOMEM
        else
          let t = tlv_block_zero\<lparr>tlv_type := ty, tlv_length := l\<rparr> in
          rbind (nfc_t4t_file_control_tl_validate t) (\<lambda>_.
          rbind (nfc_t4t_file_control_value_parse bo t (drop offset raw_data)) (\<lambda>t.
          Ok (t, tlv_block_len)))))))"

section \<open>The accepted blocks and their images\<close>

definition tlv_max_size_bytes :: "nfc_t4t_tlv_block \<Rightarrow> u8 list" where
  "tlv_max_size_bytes t =
     be_bytes (if tlv_type t = NFC_T4T_TLV_BLOCK_TYPE_EXTENDED_NDEF_FILE_CONTROL_TLV then 4 else 2)
       (unat (max_file_size (tlv_value t)))"

definition tlv_bytes :: "nfc_t4t_tlv_block \<Rightarrow> u8 list" where
  "tlv_bytes t = [tlv_type t, ucast (tlv_length t)] @ be_bytes 2 (unat (file_id (tlv_value t))) @
     tlv_max_size_bytes t @ [read_access (tlv_value t), write_access (tlv_value t)]"

text \<open>NFC Forum Type 4 Tag, section 4.3: type, length, file identifier and size of a block.\<close>

definition tlv_wf :: "nfc_t4t_tlv_block \<Rightarrow> bool" where
  "tlv_wf t \<longleftrightarrow>
     (let v = tlv_value t; s = max_file_size v in
      \<not> file_id_invalid (file_id v) \<and>
      (tlv_type t = 4 \<and> tlv_length t = 6 \<and> 5 \<le> s \<and> s \<le> 0xFFFE \<or>
       tlv_type t = 5 \<and> tlv_length t = 6 \<and> 3 \<le> s \<and> s \<le> 0xFFFE \<or>
       tlv_type t = 6 \<and> tlv_length t = 8 \<and> 0xFFFF \<le> s \<and> s \<le> 0xFFFFFFFE))"

text \<open>A block as the parser leaves it: no file content is bound yet.\<close>

definition tlv_unbound :: "nfc_t4t_tlv_block \<Rightarrow> bool" where
  "tlv_unbound t \<longleftrightarrow> bound_file (tlv_value t) = \<lparr>content = None, file_len = 0\<rparr>"

lemma length_tlv_bytes: "tlv_wf t \<Longrightarrow> length (tlv_bytes t) = unat (tlv_length t) + 2"
  by (auto simp: tlv_wf_def tlv_bytes_def tlv_max_size_bytes_def Let_def)

lemma tlv_length_cases: "tlv_wf t \<Longrightarrow> length (tlv_bytes t) = 8 \<or> length (tlv_bytes t) = 10"
  by (auto simp: tlv_wf_def tlv_bytes_def tlv_max_size_bytes_def Let_def)

section \<open>The parser accepts exactly the images of well-formed blocks\<close>

lemma max_file_size_parse_OkD:
  assumes bo: "byteorder bo" and ty: "ty \<in> {4, 5, 6}"
    and ok: "max_file_size_parse bo ty b = Ok (v, n)"
  shows "n = (if ty = 6 then 4 else 2)" "n \<le> length b" "take n b = be_bytes n (unat v)"
    "ty = 4 \<and> 5 \<le> v \<and> v \<le> 0xFFFE \<or> ty = 5 \<and> 3 \<le> v \<and> v \<le> 0xFFFE \<or>
     ty = 6 \<and> 0xFFFF \<le> v \<and> v \<le> 0xFFFFFFFE"
  using ty ok
  by (auto simp: max_file_size_parse_def max_field_range_verify_def rbind_iffs not_less
      byteorder.be16_at_Ok_iff [OF bo] byteorder.be32_at_Ok_iff [OF bo]
      split: if_splits)

lemma max_file_size_parse_bytes:
  assumes bo: "byteorder bo" and wf: "tlv_wf t"
  shows "max_file_size_parse bo (tlv_type t) (tlv_max_size_bytes t @ rest) =
    Ok (max_file_size (tlv_value t), length (tlv_max_size_bytes t))"
proof (cases "tlv_type t = 6")
  case True
  then have "be32_at bo (tlv_max_size_bytes t @ rest) 0 = Ok (max_file_size (tlv_value t))"
    by (simp add: byteorder.be32_at_Ok_iff [OF bo] tlv_max_size_bytes_def)
  with True wf show ?thesis
    by (auto simp: max_file_size_parse_def max_field_range_verify_def tlv_wf_def
        tlv_max_size_bytes_def Let_def)
next
  case False
  let ?v = "max_file_size (tlv_value t)"
  from False wf have le: "?v \<le> 0xFFFE" by (auto simp: tlv_wf_def Let_def)
  then have u: "unat ?v \<le> 0xFFFE" by (simp add: word_le_nat_alt)
  then have u16: "unat (ucast ?v :: u16) = unat ?v" "(ucast (ucast ?v :: u16) :: u32) = ?v"
    by (simp_all add: unat_ucast_down word_unat_eq_iff [of _ ?v])
  have "be16_at bo (tlv_max_size_bytes t @ rest) 0 = Ok (ucast ?v)"
    using False by (simp add: byteorder.be16_at_Ok_iff [OF bo] tlv_max_size_bytes_def u16)
  with False wf u16 show ?thesis
    by (auto simp: max_file_size_parse_def max_field_range_verify_def tlv_wf_def
        tlv_max_size_bytes_def Let_def)
qed

lemma tl_validate_Ok:
  "nfc_t4t_file_control_tl_validate t = Ok () \<longleftrightarrow>
     tlv_type t = 4 \<and> tlv_length t = 6 \<or> tlv_type t = 5 \<and> tlv_length t = 6 \<or>
     tlv_type t = 6 \<and> tlv_length t = 8"
  by (auto simp: nfc_t4t_file_control_tl_validate_def)

lemma tl_validate_not_Fault: "nfc_t4t_file_control_tl_validate t \<noteq> Fault"
  by (simp add: nfc_t4t_file_control_tl_validate_def)

text \<open>A long length field cannot pass the validation: the accepted blocks have a short one.\<close>

lemma tlv_block_parse_shortD:
  assumes ok: "nfc_t4t_tlv_block_parse bo raw len = Ok (t, n)"
  obtains ty l0 t0 where "2 \<le> length raw" "raw ! 0 = ty" "raw ! 1 = l0"
    "t0 = tlv_block_zero\<lparr>tlv_type := ty, tlv_length := ucast l0\<rparr>"
    "nfc_t4t_file_control_tl_validate t0 = Ok ()"
    "nfc_t4t_file_control_value_parse bo t0 (drop 2 raw) = Ok t"
    "n = 2 + ucast l0" "n \<le> len"
proof -
  have long: "\<not> 255 \<le> l" if "nfc_t4t_file_control_tl_validate (tlv_block_zero\<lparr>tlv_type := ty,
      tlv_length := l\<rparr>) = Ok ()" for ty and l :: u16
    using that by (auto simp: tl_validate_Ok)
  show ?thesis
    using ok
    by (auto simp: nfc_t4t_tlv_block_parse_def rbind_iffs Let_def rd_def not_less intro!: that
        split: if_splits dest: long)
qed

lemma tlv_block_parse_size:
  assumes "nfc_t4t_tlv_block_parse bo raw len = Ok (t, n)"
  shows "n = 8 \<or> n = 10" "n \<le> len"
  by (rule tlv_block_parse_shortD [OF assms], auto simp: tl_validate_Ok)+

lemma tlv_block_parse_decreases:
  assumes "nfc_t4t_tlv_block_parse bo raw len = Ok (t, n)"
  shows "unat (len - n) < unat len"
  using tlv_block_parse_size [OF assms] by (auto simp: unat_sub word_le_nat_alt)

lemma tlv_block_parse_OkD:
  assumes bo: "byteorder bo" and ok: "nfc_t4t_tlv_block_parse bo raw len = Ok (t, n)"
  shows "tlv_wf t" "tlv_unbound t" "unat n = length (tlv_bytes t)" "n \<le> len"
    "take (unat n) raw = tlv_bytes t"
proof -
  from ok obtain ty l0 t0 where raw: "2 \<le> length raw" "raw ! 0 = ty" "raw ! 1 = l0"
    and t0: "t0 = tlv_block_zero\<lparr>tlv_type := ty, tlv_length := ucast l0\<rparr>"
    and v: "nfc_t4t_file_control_tl_validate t0 = Ok ()"
    and p: "nfc_t4t_file_control_value_parse bo t0 (drop 2 raw) = Ok t"
    and n: "n = 2 + ucast l0" "n \<le> len"
    by (rule tlv_block_parse_shortD)
  from raw obtain vb where rawc: "raw = ty # l0 # vb"
    by (cases raw; cases "tl raw") auto
  have tyl: "ty = 4 \<and> (ucast l0 :: u16) = 6 \<or> ty = 5 \<and> (ucast l0 :: u16) = 6 \<or>
      ty = 6 \<and> (ucast l0 :: u16) = 8"
    using v by (auto simp: tl_validate_Ok t0)
  from p obtain fid mx k where
    fid: "be16_at bo vb 0 = Ok fid" "\<not> file_id_invalid fid"
    and mx: "max_file_size_parse bo ty (drop 2 vb) = Ok (mx, k)"
    and rw: "3 + k < length vb"
    and t: "t = t0\<lparr>tlv_value := (tlv_value t0)\<lparr>max_file_size := mx, file_id := fid,
      read_access := vb ! (2 + k), write_access := vb ! (3 + k)\<rparr>\<rparr>"
    by (auto simp: nfc_t4t_file_control_value_parse_def rbind_iffs rawc rd_def t0 split: if_splits)
  from tyl have ty: "ty \<in> {4, 5, 6}" by auto
  note mxD = max_file_size_parse_OkD [OF bo ty mx]
  have fb: "take 2 vb = be_bytes 2 (unat fid)"
    using fid(1) by (simp add: byteorder.be16_at_Ok_iff [OF bo])
  have l0: "unat l0 = 4 + k"
    unfolding unat_ucast_up(1) [of l0, symmetric] using tyl mxD(1) by (auto simp del: unat_ucast_up)
  then have un: "unat n = 6 + k"
    using n(1) tyl mxD(1) by auto
  show wf: "tlv_wf t"
    using tyl mxD(4) fid(2) by (auto simp: t t0 tlv_wf_def Let_def)
  show "tlv_unbound t" by (simp add: t t0 tlv_unbound_def tlv_block_zero_def)
  show "n \<le> len" by (rule n)
  have "take (4 + k) vb = take 2 vb @ take k (drop 2 vb) @ [vb ! (2 + k), vb ! (3 + k)]"
    using take_add [of 2 "k + 2" vb] take_add [of k 2 "drop 2 vb"] take_2_drop [of "2 + k" vb] rw
    by (simp add: add.commute numeral_3_eq_3 eval_nat_numeral)
  moreover have "tlv_bytes t = ty # l0 # be_bytes 2 (unat fid) @ be_bytes k (unat mx) @
      [vb ! (2 + k), vb ! (3 + k)]"
    using mxD(1) ty by (auto simp: t t0 tlv_bytes_def tlv_max_size_bytes_def)
  ultimately show "take (unat n) raw = tlv_bytes t"
    using fb mxD(3) un rawc by (simp add: take_Cons')
  then have "length (tlv_bytes t) = length (take (unat n) raw)" by simp
  then show "unat n = length (tlv_bytes t)"
    using un rw rawc by simp
qed

lemma tlv_block_parse_bytes:
  assumes bo: "byteorder bo" and wf: "tlv_wf t" and ub: "tlv_unbound t"
    and len: "length (tlv_bytes t) \<le> unat len"
  shows "nfc_t4t_tlv_block_parse bo (tlv_bytes t @ rest) len =
    Ok (t, of_nat (length (tlv_bytes t)))"
proof -
  let ?v = "tlv_value t"
  let ?t0 = "tlv_block_zero\<lparr>tlv_type := tlv_type t, tlv_length := tlv_length t\<rparr>"
  have lc: "tlv_length t = 6 \<or> tlv_length t = 8" using wf by (auto simp: tlv_wf_def Let_def)
  then have uc: "(ucast (ucast (tlv_length t) :: u8) :: u16) = tlv_length t"
    "(ucast (tlv_length t) :: u8) \<noteq> 0xFF"
    by auto
  have "2 + tlv_length t = of_nat (length (tlv_bytes t))"
    unfolding length_tlv_bytes [OF wf] by simp
  moreover have "unat (of_nat (length (tlv_bytes t)) :: u16) = length (tlv_bytes t)"
    using tlv_length_cases [OF wf] by auto
  ultimately have le: "\<not> len < 2 + tlv_length t" "\<not> len < 2"
    using len tlv_length_cases [OF wf] by (auto simp: word_less_nat_alt)
  have v: "nfc_t4t_file_control_tl_validate ?t0 = Ok ()"
    using wf by (auto simp: tl_validate_Ok tlv_wf_def Let_def)
  let ?vb = "be_bytes 2 (unat (file_id ?v)) @ tlv_max_size_bytes t @
    [read_access ?v, write_access ?v] @ rest"
  have fid: "be16_at bo ?vb 0 = Ok (file_id ?v)" "\<not> file_id_invalid (file_id ?v)"
    using wf by (simp_all add: byteorder.be16_at_Ok_iff [OF bo] tlv_wf_def Let_def)
  have "?t0\<lparr>tlv_value := (tlv_value ?t0)\<lparr>max_file_size := max_file_size ?v, file_id := file_id ?v,
      read_access := read_access ?v, write_access := write_access ?v\<rparr>\<rparr> = t"
    using ub by (simp add: tlv_unbound_def tlv_block_zero_def)
  then have p: "nfc_t4t_file_control_value_parse bo ?t0 ?vb = Ok t"
    using fid max_file_size_parse_bytes [OF bo wf, of "[read_access ?v, write_access ?v] @ rest"]
    by (simp add: nfc_t4t_file_control_value_parse_def rd_def nth_append)
  have "tlv_bytes t @ rest = tlv_type t # ucast (tlv_length t) # ?vb"
    by (simp add: tlv_bytes_def)
  then show ?thesis
    using le uc v p \<open>2 + tlv_length t = _\<close>
    by (simp add: nfc_t4t_tlv_block_parse_def rd_def Let_def)
qed

lemma max_file_size_parse_not_Fault:
  assumes "ty = 6 \<Longrightarrow> 4 \<le> length b" "2 \<le> length b"
  shows "max_file_size_parse bo ty b \<noteq> Fault"
  using assms
  by (auto simp: max_file_size_parse_def rbind_iffs be16_at_def be32_at_def rdn_def split: if_splits)

lemma max_file_size_parse_snd:
  "max_file_size_parse bo ty b = Ok (v, n) \<Longrightarrow> n \<le> (if ty = 6 then 4 else 2)"
  by (auto simp: max_file_size_parse_def rbind_iffs split: if_splits)

lemma tlv_value_parse_not_Fault:
  assumes "nfc_t4t_file_control_tl_validate t = Ok ()" "unat (tlv_length t) \<le> length b"
  shows "nfc_t4t_file_control_value_parse bo t b \<noteq> Fault"
  using assms max_file_size_parse_not_Fault [of "tlv_type t" "drop 2 b" bo]
  by (auto simp: nfc_t4t_file_control_value_parse_def tl_validate_Ok rbind_iffs be16_at_def rdn_def
      rd_def split: if_splits dest!: max_file_size_parse_snd)

lemma tlv_block_parse_not_Fault:
  assumes "unat len \<le> length raw"
  shows "nfc_t4t_tlv_block_parse bo raw len \<noteq> Fault"
proof -
  have vp: "nfc_t4t_file_control_value_parse bo t (drop k raw) \<noteq> Fault"
    if "nfc_t4t_file_control_tl_validate t = Ok ()" "of_nat k + tlv_length t \<le> len" "k \<le> 4" for t k
  proof -
    have "tlv_length t = 6 \<or> tlv_length t = 8" using that(1) by (auto simp: tl_validate_Ok)
    moreover have "k = 0 \<or> k = 1 \<or> k = 2 \<or> k = 3 \<or> k = 4" using that(3) by auto
    ultimately have "k + unat (tlv_length t) \<le> unat len"
      using that(2) by (auto simp: word_le_nat_alt)
    then show ?thesis
      using that(1) assms by (intro tlv_value_parse_not_Fault) auto
  qed
  show ?thesis
    using assms tl_validate_not_Fault vp [of _ 2] vp [of _ 4]
    by (auto simp: nfc_t4t_tlv_block_parse_def rbind_iffs Let_def rd_def be16_at_def rdn_def not_less
        word_less_nat_alt word_le_nat_alt split: if_splits)
qed

end
