(* ===== verification/T4T_CC.thy ===== *)
theory T4T_CC
  imports T4T_TLV
begin

unbundle bit_operations_syntax

text \<open>
  The Capability Container of a Type 4 Tag: \<^verbatim>\<open>include/nfc/t4t/cc_file.h\<close> and
  \<^verbatim>\<open>subsys/nfc/t4t/cc_file.c\<close>. The descriptor is updated while the file is parsed, also when
  parsing fails, so the operations return the descriptor next to the return code.
\<close>

section \<open>Data and operations\<close>

record nfc_t4t_cc_file =
  tlv_block_array :: "nfc_t4t_tlv_block list option"
  tlv_count :: u16
  max_tlv_blocks :: u16
  cc_len :: u16
  max_rapdu_size :: u16
  max_capdu_size :: u16
  major_version :: u8
  minor_version :: u8

definition NFC_T4T_CC_DESC_DEF :: "u16 \<Rightarrow> nfc_t4t_cc_file" where
  "NFC_T4T_CC_DESC_DEF max_blocks =
     \<lparr>tlv_block_array = Some (replicate (unat max_blocks) tlv_block_zero), tlv_count = 0,
      max_tlv_blocks = max_blocks, cc_len = 0, max_rapdu_size = 0, max_capdu_size = 0,
      major_version = 0, minor_version = 0\<rparr>"

definition LSN_GET :: "u8 \<Rightarrow> u8" where "LSN_GET v = v AND 0x0F"
definition MSN_GET :: "u8 \<Rightarrow> u8" where "MSN_GET v = drop_bit 4 v AND 0x0F"

abbreviation (input) CC_LEN_MIN_VALUE :: u16 where "CC_LEN_MIN_VALUE \<equiv> 0x000F"
abbreviation (input) CC_LEN_MAX_VALUE :: u16 where "CC_LEN_MAX_VALUE \<equiv> 0xFFFE"
abbreviation (input) NFC_T4T_EXTENDED_MAJOR_VER :: u8 where "NFC_T4T_EXTENDED_MAJOR_VER \<equiv> 0x03"
abbreviation (input) NFC_T4T_REGULAR_MAJOR_VER :: u8 where "NFC_T4T_REGULAR_MAJOR_VER \<equiv> 0x02"

definition nfc_t4t_cc_args_validate :: "nfc_t4t_cc_file option \<Rightarrow> cptr \<Rightarrow> u16 \<Rightarrow> unit res" where
  "nfc_t4t_cc_args_validate cc raw_data len =
     (if cc = None \<or> tlv_block_array (the cc) = None \<or> raw_data = None then Err EFAULT
      else if len < CC_LEN_MIN_VALUE \<or> len > CC_LEN_MAX_VALUE then Err EINVAL
      else if max_tlv_blocks (the cc) = 0 then Err ENOMEM
      else Ok ())"

definition nfc_t4t_cc_file_validate :: "nfc_t4t_cc_file \<Rightarrow> unit res" where
  "nfc_t4t_cc_file_validate cc =
     (case tlv_block_array cc of
        Some (b # _) \<Rightarrow>
          let ty = tlv_type b in
          if major_version cc = NFC_T4T_EXTENDED_MAJOR_VER \<and>
             ty = NFC_T4T_TLV_BLOCK_TYPE_EXTENDED_NDEF_FILE_CONTROL_TLV \<or>
             major_version cc = NFC_T4T_REGULAR_MAJOR_VER \<and>
             ty = NFC_T4T_TLV_BLOCK_TYPE_NDEF_FILE_CONTROL_TLV
          then Ok () else Err EINVAL
      | _ \<Rightarrow> Fault)"

definition nfc_t4t_cc_file_clear :: "nfc_t4t_cc_file \<Rightarrow> nfc_t4t_cc_file" where
  "nfc_t4t_cc_file_clear cc = cc\<lparr>tlv_count := 0\<rparr>"

definition nfc_t4t_tlv_block_insert ::
    "nfc_t4t_cc_file \<Rightarrow> nfc_t4t_tlv_block \<Rightarrow> nfc_t4t_cc_file res" where
  "nfc_t4t_tlv_block_insert cc tlv_block =
     (if tlv_count cc = max_tlv_blocks cc then Err ENOMEM
      else case tlv_block_array cc of
             None \<Rightarrow> Fault
           | Some arr \<Rightarrow>
               if unat (tlv_count cc) < length arr
               then Ok (cc\<lparr>tlv_block_array := Some (arr[unat (tlv_count cc) := tlv_block]),
                           tlv_count := tlv_count cc + 1\<rparr>)
               else Fault)"

text \<open>The loop over the TLV blocks; \<open>data\<close> are the bytes from \<^verbatim>\<open>offset\<close> on.\<close>

function cc_parse_loop ::
    "byteorder_ops \<Rightarrow> nfc_t4t_cc_file \<Rightarrow> u8 list \<Rightarrow> u16 \<Rightarrow> nfc_t4t_cc_file \<times> unit res" where
  "cc_parse_loop bo cc data len =
     (if len > 0 then
        case nfc_t4t_tlv_block_parse bo data len of
          Err e \<Rightarrow> (cc, Err e)
        | Fault \<Rightarrow> (cc, Fault)
        | Ok (new_block, tlv_len) \<Rightarrow>
            (case nfc_t4t_tlv_block_insert cc new_block of
               Err e \<Rightarrow> (cc, Err e)
             | Fault \<Rightarrow> (cc, Fault)
             | Ok cc' \<Rightarrow> cc_parse_loop bo cc' (drop (unat tlv_len) data) (len - tlv_len))
      else (cc, Ok ()))"
  by pat_completeness auto
termination
  by (relation "measure (\<lambda>(bo, cc, d, l). unat l)") (auto dest: sym tlv_block_parse_decreases)

declare cc_parse_loop.simps [simp del]

text \<open>The seven header bytes.\<close>

definition cc_header_parse ::
    "byteorder_ops \<Rightarrow> nfc_t4t_cc_file \<Rightarrow> u8 list \<Rightarrow> nfc_t4t_cc_file res" where
  "cc_header_parse bo cc raw_data =
     rbind (be16_at bo raw_data 0) (\<lambda>l.
     rbind (rd raw_data 2) (\<lambda>ver.
     rbind (be16_at bo raw_data 3) (\<lambda>mle.
     rbind (be16_at bo raw_data 5) (\<lambda>mlc.
     Ok (cc\<lparr>cc_len := l, major_version := MSN_GET ver, minor_version := LSN_GET ver,
            max_rapdu_size := mle, max_capdu_size := mlc\<rparr>)))))"

definition nfc_t4t_cc_file_parse ::
    "byteorder_ops \<Rightarrow> nfc_t4t_cc_file \<Rightarrow> u8 list \<Rightarrow> u16 \<Rightarrow> nfc_t4t_cc_file \<times> unit res" where
  "nfc_t4t_cc_file_parse bo cc raw_data len =
     (case nfc_t4t_cc_args_validate (Some cc) (Some raw_data) len of
        Err e \<Rightarrow> (cc, Err e)
      | Fault \<Rightarrow> (cc, Fault)
      | Ok _ \<Rightarrow>
          let cc = nfc_t4t_cc_file_clear cc in
          (case cc_header_parse bo cc raw_data of
             Err e \<Rightarrow> (cc, Err e)
           | Fault \<Rightarrow> (cc, Fault)
           | Ok cc \<Rightarrow>
               (case cc_parse_loop bo cc (drop 7 raw_data) (len - 7) of
                  (cc, Ok _) \<Rightarrow> (cc, nfc_t4t_cc_file_validate cc)
                | (cc, r) \<Rightarrow> (cc, r))))"

text \<open>
  \<^verbatim>\<open>nfc_t4t_cc_file_content_get\<close> returns a pointer into the block array: the model returns
  the index.
\<close>

function content_find :: "nfc_t4t_tlv_block list \<Rightarrow> u16 \<Rightarrow> nat \<Rightarrow> nat \<Rightarrow> nat option res" where
  "content_find arr fid i n =
     (if i < n then
        if i < length arr then
          if file_id (tlv_value (arr ! i)) = fid then Ok (Some i) else content_find arr fid (i + 1) n
        else Fault
      else Ok None)"
  by pat_completeness auto
termination
  by (relation "measure (\<lambda>(arr, fid, i, n). n - i)") auto

declare content_find.simps [simp del]

definition nfc_t4t_cc_file_content_get :: "nfc_t4t_cc_file \<Rightarrow> u16 \<Rightarrow> nat option res" where
  "nfc_t4t_cc_file_content_get cc fid =
     (case tlv_block_array cc of
        None \<Rightarrow> if tlv_count cc = 0 then Ok None else Fault
      | Some arr \<Rightarrow> content_find arr fid 0 (unat (tlv_count cc)))"

definition nfc_t4t_cc_file_content_set ::
    "nfc_t4t_cc_file \<Rightarrow> nfc_t4t_tlv_block_file \<Rightarrow> u16 \<Rightarrow> nfc_t4t_cc_file res" where
  "nfc_t4t_cc_file_content_set cc f fid =
     rbind (nfc_t4t_cc_file_content_get cc fid) (\<lambda>r.
     case r of
       None \<Rightarrow> Err EACCES
     | Some i \<Rightarrow>
         let arr = the (tlv_block_array cc); b = arr ! i in
         Ok (cc\<lparr>tlv_block_array :=
           Some (arr[i := b\<lparr>tlv_value := (tlv_value b)\<lparr>bound_file := f\<rparr>\<rparr>])\<rparr>))"

section \<open>Invariant\<close>

definition cc_wf :: "nfc_t4t_cc_file \<Rightarrow> bool" where
  "cc_wf cc \<longleftrightarrow> (\<exists>arr. tlv_block_array cc = Some arr \<and> length arr = unat (max_tlv_blocks cc)) \<and>
     tlv_count cc \<le> max_tlv_blocks cc"

definition cc_blocks :: "nfc_t4t_cc_file \<Rightarrow> nfc_t4t_tlv_block list" where
  "cc_blocks cc = take (unat (tlv_count cc)) (the (tlv_block_array cc))"

definition cc_header :: "nfc_t4t_cc_file \<Rightarrow> u16 \<times> u8 \<times> u8 \<times> u16 \<times> u16 \<times> u16" where
  "cc_header cc = (cc_len cc, major_version cc, minor_version cc, max_rapdu_size cc,
     max_capdu_size cc, max_tlv_blocks cc)"

lemma length_cc_blocks: "cc_wf cc \<Longrightarrow> length (cc_blocks cc) = unat (tlv_count cc)"
  by (auto simp: cc_wf_def cc_blocks_def word_le_nat_alt)

lemma tlv_block_insert_cases:
  assumes wf: "cc_wf cc"
  obtains "tlv_count cc = max_tlv_blocks cc" "nfc_t4t_tlv_block_insert cc t = Err ENOMEM"
  | cc' where "tlv_count cc < max_tlv_blocks cc" "nfc_t4t_tlv_block_insert cc t = Ok cc'" "cc_wf cc'"
      "cc_blocks cc' = cc_blocks cc @ [t]" "cc_header cc' = cc_header cc"
      "tlv_count cc' = tlv_count cc + 1"
proof (cases "tlv_count cc = max_tlv_blocks cc")
  case True
  then show ?thesis by (intro that(1)) (simp_all add: nfc_t4t_tlv_block_insert_def)
next
  case False
  from wf obtain arr where arr: "tlv_block_array cc = Some arr" "length arr = unat (max_tlv_blocks cc)"
    by (auto simp: cc_wf_def)
  from False wf have lt: "tlv_count cc < max_tlv_blocks cc" by (auto simp: cc_wf_def)
  then have i: "unat (tlv_count cc) < length arr" and s: "unat (tlv_count cc + 1) = Suc (unat (tlv_count cc))"
    using arr by (simp_all add: word_less_nat_alt unat_less_Suc)
  let ?cc = "cc\<lparr>tlv_block_array := Some (arr[unat (tlv_count cc) := t]), tlv_count := tlv_count cc + 1\<rparr>"
  show ?thesis
  proof (rule that(2))
    show "nfc_t4t_tlv_block_insert cc t = Ok ?cc"
      using False arr i by (simp add: nfc_t4t_tlv_block_insert_def)
    show "cc_wf ?cc"
      using arr i s by (simp add: cc_wf_def word_le_nat_alt)
    show "cc_blocks ?cc = cc_blocks cc @ [t]"
      using arr i s by (simp add: cc_blocks_def take_Suc_conv_app_nth)
  qed (simp_all add: lt cc_header_def)
qed

section \<open>The accepted files\<close>

definition tlv_list_ok :: "nfc_t4t_tlv_block list \<Rightarrow> bool" where
  "tlv_list_ok bs \<longleftrightarrow> (\<forall>t \<in> set bs. tlv_wf t \<and> tlv_unbound t)"

abbreviation tlvs_bytes :: "nfc_t4t_tlv_block list \<Rightarrow> u8 list" where
  "tlvs_bytes bs \<equiv> concat (map tlv_bytes bs)"

lemma cc_parse_loop_sound:
  "byteorder bo \<Longrightarrow> cc_wf cc \<Longrightarrow> unat len \<le> length data \<Longrightarrow>
   cc_parse_loop bo cc data len = (cc', r) \<Longrightarrow>
    cc_wf cc' \<and> r \<noteq> Fault \<and> cc_header cc' = cc_header cc \<and>
    (r = Ok () \<longrightarrow> (\<exists>bs. tlv_list_ok bs \<and> take (unat len) data = tlvs_bytes bs \<and>
                        cc_blocks cc' = cc_blocks cc @ bs))"
proof (induction bo cc data len rule: cc_parse_loop.induct)
  case (1 bo cc data len)
  note bo = 1(2) and wf = 1(3) and ld = 1(4) and eq = 1(5)
  have nf: "nfc_t4t_tlv_block_parse bo data len \<noteq> Fault"
    using ld by (rule tlv_block_parse_not_Fault)
  show ?case
  proof (cases "len > 0 \<and> (\<exists>t n. nfc_t4t_tlv_block_parse bo data len = Ok (t, n))")
    case False
    then show ?thesis
      using eq wf nf
      by (subst (asm) cc_parse_loop.simps)
        (auto simp: tlv_list_ok_def word_gt_0 split: if_splits res.splits intro: exI [of _ "[]"])
  next
    case True
    then obtain t n where len: "len > 0" and ok: "nfc_t4t_tlv_block_parse bo data len = Ok (t, n)"
      by blast
    note tD = tlv_block_parse_OkD [OF bo ok]
    show ?thesis
    proof (rule tlv_block_insert_cases [OF wf, of t], goal_cases)
      case 1
      then show ?thesis using eq wf len ok by (subst (asm) cc_parse_loop.simps) auto
    next
      case (2 cc1)
      have "cc_parse_loop bo cc1 (drop (unat n) data) (len - n) = (cc', r)"
        using eq len ok 2(2) by (subst (asm) cc_parse_loop.simps) simp
      moreover have ul: "unat (len - n) = unat len - unat n" "unat n \<le> unat len"
        using tD(4) by (simp_all add: unat_sub word_le_nat_alt)
      ultimately have IH: "cc_wf cc' \<and> r \<noteq> Fault \<and> cc_header cc' = cc_header cc1 \<and>
        (r = Ok () \<longrightarrow> (\<exists>bs. tlv_list_ok bs \<and> take (unat (len - n)) (drop (unat n) data) = tlvs_bytes bs \<and>
                        cc_blocks cc' = cc_blocks cc1 @ bs))"
        using ld by (intro 1(1) [OF len ok refl 2(2) bo 2(3)]) simp_all
      have "take (unat len) data = tlv_bytes t @ take (unat (len - n)) (drop (unat n) data)"
        using tD(5) take_add [of "unat n" "unat (len - n)" data] ul by simp
      moreover have "tlv_list_ok bs \<Longrightarrow> tlv_list_ok (t # bs)" for bs
        using tD(1,2) by (simp add: tlv_list_ok_def)
      ultimately have "\<exists>bs. tlv_list_ok bs \<and> take (unat len) data = tlvs_bytes bs \<and>
          cc_blocks cc' = cc_blocks cc @ bs" if "r = Ok ()"
        using IH that 2(4) by (metis append.assoc append_Cons append_Nil concat.simps(2) list.map(2))
      with IH 2 show ?thesis by simp
    qed
  qed
qed

lemma cc_parse_loop_complete:
  "byteorder bo \<Longrightarrow> cc_wf cc \<Longrightarrow> tlv_list_ok bs \<Longrightarrow>
   unat (tlv_count cc) + length bs \<le> unat (max_tlv_blocks cc) \<Longrightarrow>
   length (tlvs_bytes bs) = unat len \<Longrightarrow>
   \<exists>cc'. cc_parse_loop bo cc (tlvs_bytes bs @ rest) len = (cc', Ok ()) \<and> cc_wf cc' \<and>
     cc_header cc' = cc_header cc \<and> cc_blocks cc' = cc_blocks cc @ bs"
proof (induction bs arbitrary: cc len)
  case Nil
  then have "len = 0" by (simp add: unat_eq_0)
  with Nil show ?case by (simp add: cc_parse_loop.simps)
next
  case (Cons t bs)
  note bo = Cons.prems(1)
  from Cons.prems(3) have t: "tlv_wf t" "tlv_unbound t" and bs: "tlv_list_ok bs"
    by (auto simp: tlv_list_ok_def)
  let ?n = "of_nat (length (tlv_bytes t)) :: u16"
  have len: "length (tlv_bytes t) + length (tlvs_bytes bs) = unat len" using Cons.prems(5) by simp
  then have "length (tlv_bytes t) \<le> unat len" by simp
  note ok = tlv_block_parse_bytes [OF bo t this, of "tlvs_bytes bs @ rest"]
  have un: "unat ?n = length (tlv_bytes t)" using tlv_length_cases [OF t(1)] by auto
  then have ul: "unat (len - ?n) = length (tlvs_bytes bs)"
    using len by (simp add: unat_sub word_le_nat_alt)
  have pos: "0 < len"
    using len tlv_length_cases [OF t(1)] by (auto simp: word_less_nat_alt simp del: unat_gt_0)
  show ?case
  proof (rule tlv_block_insert_cases [OF Cons.prems(2), of t], goal_cases)
    case 1
    then show ?thesis using Cons.prems(4) by simp
  next
    case (2 cc1)
    have "unat (tlv_count cc1) = Suc (unat (tlv_count cc))"
      using 2(1,6) by (simp add: unat_less_Suc)
    moreover have "max_tlv_blocks cc1 = max_tlv_blocks cc"
      using 2(5) by (simp add: cc_header_def)
    ultimately obtain cc' where
      "cc_parse_loop bo cc1 (tlvs_bytes bs @ rest) (len - ?n) = (cc', Ok ())" "cc_wf cc'"
      "cc_header cc' = cc_header cc1" "cc_blocks cc' = cc_blocks cc1 @ bs"
      using Cons.IH [OF bo 2(3) bs, of "len - ?n"] Cons.prems(4) ul by auto
    then show ?thesis
      using pos ok 2 un by (subst cc_parse_loop.simps) (auto simp: append.assoc)
  qed
qed

section \<open>Header\<close>

definition cc_bytes :: "nfc_t4t_cc_file \<Rightarrow> u8 list" where
  "cc_bytes cc = be_bytes 2 (unat (cc_len cc)) @
     [push_bit 4 (major_version cc) OR minor_version cc] @
     be_bytes 2 (unat (max_rapdu_size cc)) @ be_bytes 2 (unat (max_capdu_size cc)) @
     tlvs_bytes (cc_blocks cc)"

lemma mask4_u8: "(15 :: u8) = mask 4" by (simp add: mask_eq_exp_minus_1)

lemma nibble_defs: "MSN_GET v = take_bit 4 (drop_bit 4 v)" "LSN_GET v = take_bit 4 v"
  by (simp_all only: MSN_GET_def LSN_GET_def mask4_u8 take_bit_eq_mask)

lemma nibbles: "push_bit 4 (MSN_GET v) OR LSN_GET v = v"
  unfolding nibble_defs by (rule bit_word_eqI) (auto simp: bit_push_bit_iff bit_or_iff bit_take_bit_iff bit_drop_bit_eq)

lemma nibbles_of:
  fixes a b :: u8
  assumes a: "take_bit 4 a = a" and b: "take_bit 4 b = b"
  shows "MSN_GET (push_bit 4 a OR b) = a" "LSN_GET (push_bit 4 a OR b) = b"
proof -
  have ba: "bit a n \<Longrightarrow> n < 4" "bit b n \<Longrightarrow> n < 4" for n
    using a b by (metis bit_take_bit_iff)+
  show "MSN_GET (push_bit 4 a OR b) = a"
    unfolding nibble_defs by (rule bit_word_eqI) (auto simp: bit_push_bit_iff bit_or_iff bit_take_bit_iff bit_drop_bit_eq dest: ba)
  show "LSN_GET (push_bit 4 a OR b) = b"
    unfolding nibble_defs by (rule bit_word_eqI) (auto simp: bit_push_bit_iff bit_or_iff bit_take_bit_iff bit_drop_bit_eq dest: ba)
qed

definition nibble_ok :: "nfc_t4t_cc_file \<Rightarrow> bool" where
  "nibble_ok cc \<longleftrightarrow> take_bit 4 (major_version cc) = major_version cc \<and>
                  take_bit 4 (minor_version cc) = minor_version cc"

definition cc_header_bytes :: "nfc_t4t_cc_file \<Rightarrow> u8 list" where
  "cc_header_bytes cc = be_bytes 2 (unat (cc_len cc)) @
     [push_bit 4 (major_version cc) OR minor_version cc] @
     be_bytes 2 (unat (max_rapdu_size cc)) @ be_bytes 2 (unat (max_capdu_size cc))"

lemma length_cc_header_bytes [simp]: "length (cc_header_bytes cc) = 7"
  by (simp add: cc_header_bytes_def)

lemma cc_bytes_header: "cc_bytes cc = cc_header_bytes cc @ tlvs_bytes (cc_blocks cc)"
  by (simp add: cc_bytes_def cc_header_bytes_def)

lemma cc_header_parse_cases:
  assumes bo: "byteorder bo" and raw: "7 \<le> length raw"
  obtains cc' where "cc_header_parse bo cc raw = Ok cc'" "nibble_ok cc'"
    "take 7 raw = cc_header_bytes cc'"
    "tlv_block_array cc' = tlv_block_array cc" "tlv_count cc' = tlv_count cc"
    "max_tlv_blocks cc' = max_tlv_blocks cc"
proof -
  have "sum_list [2, 1, 2, 2] \<le> length raw" using raw by simp
  from chop_fields [OF this] obtain l v e c r where
    "raw = l @ [v] @ e @ c @ r" and n: "length l = 2" "length e = 2" "length c = 2"
    by (auto simp: map_eq_Cons_conv length_Suc_conv)
  note rw = this(1)
  have r16: "\<exists>x :: u16. be_bytes 2 (unat x) = xs" if "length xs = 2" for xs
  proof
    show "be_bytes 2 (unat (of_nat (be_val xs) :: u16)) = xs"
      using be_val_less [of xs] be_bytes_val [of xs] that by (simp add: unat_of_nat)
  qed
  from r16 [OF n(1)] r16 [OF n(2)] r16 [OF n(3)] obtain l' e' c' where
    b: "l = be_bytes 2 (unat (l' :: u16))" "e = be_bytes 2 (unat (e' :: u16))"
      "c = be_bytes 2 (unat (c' :: u16))"
    by metis
  let ?cc = "cc\<lparr>cc_len := l', major_version := MSN_GET v, minor_version := LSN_GET v,
            max_rapdu_size := e', max_capdu_size := c'\<rparr>"
  have "be16_at bo raw 0 = Ok l'" "be16_at bo raw 3 = Ok e'" "be16_at bo raw 5 = Ok c'"
    unfolding byteorder.be16_at_Ok_iff [OF bo] using rw b by simp_all
  then have "cc_header_parse bo cc raw = Ok ?cc"
    using rw n by (simp add: cc_header_parse_def rd_def nth_append)
  then show ?thesis
  proof (rule that)
    show "take 7 raw = cc_header_bytes ?cc"
      using rw b by (simp add: cc_header_bytes_def nibbles)
    show "nibble_ok ?cc" by (simp add: nibble_ok_def nibble_defs)
  qed simp_all
qed

lemma cc_header_parse_bytes:
  assumes bo: "byteorder bo" and ok: "nibble_ok d"
  shows "cc_header_parse bo cc (cc_header_bytes d @ rest) =
    Ok (cc\<lparr>cc_len := cc_len d, major_version := major_version d, minor_version := minor_version d,
           max_rapdu_size := max_rapdu_size d, max_capdu_size := max_capdu_size d\<rparr>)"
proof -
  let ?raw = "cc_header_bytes d @ rest"
  have "be16_at bo ?raw 0 = Ok (cc_len d)" "be16_at bo ?raw 3 = Ok (max_rapdu_size d)"
    "be16_at bo ?raw 5 = Ok (max_capdu_size d)"
    unfolding byteorder.be16_at_Ok_iff [OF bo] by (simp_all add: cc_header_bytes_def)
  moreover have "rd ?raw 2 = Ok (push_bit 4 (major_version d) OR minor_version d)"
    by (simp add: rd_def cc_header_bytes_def nth_append)
  ultimately show ?thesis
    using ok nibbles_of [of "major_version d" "minor_version d"]
    by (simp add: cc_header_parse_def nibble_ok_def)
qed

section \<open>Properties of the parser\<close>

lemma cc_args_validate_Ok:
  "cc_wf cc \<Longrightarrow> nfc_t4t_cc_args_validate (Some cc) (Some raw) len = Ok () \<longleftrightarrow>
     0x0F \<le> len \<and> len \<le> 0xFFFE \<and> 0 < max_tlv_blocks cc"
  by (auto simp: nfc_t4t_cc_args_validate_def cc_wf_def not_less word_gt_0)

lemma cc_args_validate_not_Fault: "nfc_t4t_cc_args_validate cc raw len \<noteq> Fault"
  by (simp add: nfc_t4t_cc_args_validate_def)

lemma cc_file_validate_Ok:
  assumes "cc_wf cc" "cc_blocks cc = t # bs"
  shows "nfc_t4t_cc_file_validate cc = Ok () \<longleftrightarrow>
    major_version cc = 3 \<and> tlv_type t = 6 \<or> major_version cc = 2 \<and> tlv_type t = 4"
proof -
  from assms obtain arr where "tlv_block_array cc = Some (t # arr)"
    by (cases "the (tlv_block_array cc)"; cases "unat (tlv_count cc)") (auto simp: cc_wf_def cc_blocks_def)
  then show ?thesis by (auto simp: nfc_t4t_cc_file_validate_def Let_def)
qed

lemma cc_file_validate_not_Fault:
  "cc_wf cc \<Longrightarrow> 0 < max_tlv_blocks cc \<Longrightarrow> nfc_t4t_cc_file_validate cc \<noteq> Fault"
  by (auto simp: cc_wf_def nfc_t4t_cc_file_validate_def Let_def word_less_nat_alt neq_Nil_conv
      split: list.splits if_splits simp del: unat_gt_0)

text \<open>What one call of the parser does to a well-formed descriptor.\<close>

lemma cc_file_parse_cases:
  assumes bo: "byteorder bo" and wf: "cc_wf cc" and len: "unat len \<le> length raw"
    and parse: "nfc_t4t_cc_file_parse bo cc raw len = (cc', r)"
  shows "cc_wf cc' \<and> r \<noteq> Fault \<and> max_tlv_blocks cc' = max_tlv_blocks cc \<and>
    (r = Ok () \<longrightarrow> 0x0F \<le> len \<and> len \<le> 0xFFFE \<and> nibble_ok cc' \<and> tlv_list_ok (cc_blocks cc') \<and>
       take (unat len) raw = cc_bytes cc' \<and> nfc_t4t_cc_file_validate cc' = Ok ())"
proof (cases "nfc_t4t_cc_args_validate (Some cc) (Some raw) len = Ok ()")
  case False
  then show ?thesis
    using parse wf cc_args_validate_not_Fault [of "Some cc" "Some raw" len]
    by (auto simp: nfc_t4t_cc_file_parse_def split: res.splits)
next
  case True
  with wf have args: "0x0F \<le> len" "len \<le> 0xFFFE" "0 < max_tlv_blocks cc"
    by (simp_all add: cc_args_validate_Ok)
  have ul: "15 \<le> unat len" "unat (len - 7) = unat len - 7"
    using args(1) by (simp_all add: word_le_nat_alt unat_sub)
  then have "7 \<le> length raw" using len by simp
  from cc_header_parse_cases [OF bo this] obtain cc1 where
    h: "cc_header_parse bo (nfc_t4t_cc_file_clear cc) raw = Ok cc1" "nibble_ok cc1"
      "take 7 raw = cc_header_bytes cc1"
    and same: "tlv_block_array cc1 = tlv_block_array (nfc_t4t_cc_file_clear cc)"
      "tlv_count cc1 = tlv_count (nfc_t4t_cc_file_clear cc)"
      "max_tlv_blocks cc1 = max_tlv_blocks (nfc_t4t_cc_file_clear cc)"
    by blast
  have wf1: "cc_wf cc1" and b1: "cc_blocks cc1 = []"
    using wf same by (auto simp: cc_wf_def cc_blocks_def nfc_t4t_cc_file_clear_def)
  obtain cc2 r2 where loop: "cc_parse_loop bo cc1 (drop 7 raw) (len - 7) = (cc2, r2)"
    by (cases "cc_parse_loop bo cc1 (drop 7 raw) (len - 7)")
  have eq: "(cc', r) = (cc2, if r2 = Ok () then nfc_t4t_cc_file_validate cc2 else r2)"
    using parse True h(1) loop by (auto simp: nfc_t4t_cc_file_parse_def Let_def split: res.splits)
  have s: "cc_wf cc2" "r2 \<noteq> Fault" "cc_header cc2 = cc_header cc1"
    "r2 = Ok () \<longrightarrow> (\<exists>bs. tlv_list_ok bs \<and> take (unat (len - 7)) (drop 7 raw) = tlvs_bytes bs \<and>
                       cc_blocks cc2 = cc_blocks cc1 @ bs)"
    using cc_parse_loop_sound [OF bo wf1 _ loop] ul len by simp_all
  have mx: "max_tlv_blocks cc2 = max_tlv_blocks cc"
    and hd2: "cc_header_bytes cc2 = cc_header_bytes cc1" "nibble_ok cc2"
    using s(3) same h(2) by (simp_all add: cc_header_def cc_header_bytes_def nibble_ok_def
        nfc_t4t_cc_file_clear_def)
  have "take (unat len) raw = take 7 raw @ take (unat (len - 7)) (drop 7 raw)"
    using take_add [of 7 "unat (len - 7)" raw] ul by simp
  with s(4) b1 h(3) hd2(1) have "tlv_list_ok (cc_blocks cc2) \<and> take (unat len) raw = cc_bytes cc2"
    if "r2 = Ok ()"
    using that by (auto simp: cc_bytes_header)
  then show ?thesis
    using eq s(1,2) mx args hd2(2) cc_file_validate_not_Fault [OF s(1)] by (auto split: if_splits)
qed

lemma cc_file_parse_bytes:
  assumes bo: "byteorder bo" and wf: "cc_wf cc" and nib: "nibble_ok d"
    and bs: "tlv_list_ok bs" "bs \<noteq> []" "length bs \<le> unat (max_tlv_blocks cc)"
    and ver: "major_version d = 3 \<and> tlv_type (hd bs) = 6 \<or> major_version d = 2 \<and> tlv_type (hd bs) = 4"
    and len: "unat len = 7 + length (tlvs_bytes bs)" "len \<le> 0xFFFE"
  obtains cc' where
    "nfc_t4t_cc_file_parse bo cc (cc_header_bytes d @ tlvs_bytes bs @ rest) len = (cc', Ok ())"
    "cc_blocks cc' = bs" "cc_header cc' = cc_header (d\<lparr>max_tlv_blocks := max_tlv_blocks cc\<rparr>)"
proof -
  let ?raw = "cc_header_bytes d @ tlvs_bytes bs @ rest"
  have "length (tlv_bytes (hd bs)) \<le> length (tlvs_bytes bs)" using bs(2) by (cases bs) auto
  moreover have "8 \<le> length (tlv_bytes (hd bs))"
    using bs(1,2) tlv_length_cases [of "hd bs"] by (auto simp: tlv_list_ok_def)
  ultimately have l15: "15 \<le> unat len" using len by simp
  have "0 < unat (max_tlv_blocks cc)" using bs(2,3) by (cases bs) auto
  then have "0 < max_tlv_blocks cc" by (simp add: word_less_nat_alt del: unat_gt_0)
  then have args: "nfc_t4t_cc_args_validate (Some cc) (Some ?raw) len = Ok ()"
    using cc_args_validate_Ok [OF wf] len(2) l15 by (simp add: word_le_nat_alt)
  let ?cc1 = "(nfc_t4t_cc_file_clear cc)\<lparr>cc_len := cc_len d, major_version := major_version d,
    minor_version := minor_version d, max_rapdu_size := max_rapdu_size d,
    max_capdu_size := max_capdu_size d\<rparr>"
  have wf1: "cc_wf ?cc1" and b1: "cc_blocks ?cc1 = []" "tlv_count ?cc1 = 0"
    "max_tlv_blocks ?cc1 = max_tlv_blocks cc"
    using wf by (auto simp: cc_wf_def cc_blocks_def nfc_t4t_cc_file_clear_def)
  have "length (tlvs_bytes bs) = unat (len - 7)"
    using len l15 by (simp add: unat_sub word_le_nat_alt)
  from cc_parse_loop_complete [OF bo wf1 bs(1) _ this, of rest] obtain cc' where
    loop: "cc_parse_loop bo ?cc1 (tlvs_bytes bs @ rest) (len - 7) = (cc', Ok ())" "cc_wf cc'"
      "cc_header cc' = cc_header ?cc1" "cc_blocks cc' = bs"
    using bs(3) b1 by auto
  obtain t bs' where "bs = t # bs'" using bs(2) by (cases bs) auto
  then have "nfc_t4t_cc_file_validate cc' = Ok ()"
    using cc_file_validate_Ok [OF loop(2)] loop(3,4) ver by (auto simp: cc_header_def)
  then have "nfc_t4t_cc_file_parse bo cc ?raw len = (cc', Ok ())"
    using args cc_header_parse_bytes [OF bo nib, of "nfc_t4t_cc_file_clear cc" "tlvs_bytes bs @ rest"] loop(1)
    by (simp add: nfc_t4t_cc_file_parse_def)
  then show ?thesis
    using loop(3,4) by (intro that) (auto simp: cc_header_def nfc_t4t_cc_file_clear_def)
qed

section \<open>Finding and binding a file\<close>

lemma content_find_spec:
  "n \<le> length arr \<Longrightarrow> content_find arr fid i n =
     Ok (List.find (\<lambda>j. file_id (tlv_value (arr ! j)) = fid) [i..<n])"
proof (induction arr fid i n rule: content_find.induct)
  case (1 arr fid i n)
  then show ?case
    by (subst content_find.simps) (auto simp: upt_conv_Cons)
qed

lemma cc_content_get_eq:
  assumes "cc_wf cc"
  shows "nfc_t4t_cc_file_content_get cc fid =
    Ok (List.find (\<lambda>j. file_id (tlv_value (cc_blocks cc ! j)) = fid) [0..<length (cc_blocks cc)])"
proof -
  from assms obtain arr where arr: "tlv_block_array cc = Some arr" "unat (tlv_count cc) \<le> length arr"
    by (auto simp: cc_wf_def word_le_nat_alt)
  then have "nfc_t4t_cc_file_content_get cc fid =
    Ok (List.find (\<lambda>j. file_id (tlv_value (arr ! j)) = fid) [0..<unat (tlv_count cc)])"
    by (simp add: nfc_t4t_cc_file_content_get_def content_find_spec)
  also have "List.find (\<lambda>j. file_id (tlv_value (arr ! j)) = fid) [0..<unat (tlv_count cc)] =
      List.find (\<lambda>j. file_id (tlv_value (cc_blocks cc ! j)) = fid) [0..<length (cc_blocks cc)]"
    using arr by (intro find_cong) (auto simp: cc_blocks_def)
  finally show ?thesis .
qed

lemma find_upt_Some:
  "List.find P [0..<n] = Some i \<longleftrightarrow> i < n \<and> P i \<and> (\<forall>j < i. \<not> P j)"
  by (auto simp: find_Some_iff)

lemma cc_content_set_Ok:
  assumes wf: "cc_wf cc" and i: "i < length (cc_blocks cc)"
    and fid: "file_id (tlv_value (cc_blocks cc ! i)) = fid"
    and first: "\<forall>j < i. file_id (tlv_value (cc_blocks cc ! j)) \<noteq> fid"
  obtains cc' where "nfc_t4t_cc_file_content_set cc f fid = Ok cc'" "cc_wf cc'"
    "cc_header cc' = cc_header cc"
    "cc_blocks cc' = (cc_blocks cc)[i := (cc_blocks cc ! i)\<lparr>tlv_value :=
       (tlv_value (cc_blocks cc ! i))\<lparr>bound_file := f\<rparr>\<rparr>]"
proof -
  from wf obtain arr where arr: "tlv_block_array cc = Some arr" "length arr = unat (max_tlv_blocks cc)"
    by (auto simp: cc_wf_def)
  have ai: "cc_blocks cc ! i = arr ! i" using arr i by (simp add: cc_blocks_def)
  let ?cc = "cc\<lparr>tlv_block_array :=
      Some (arr[i := (arr ! i)\<lparr>tlv_value := (tlv_value (arr ! i))\<lparr>bound_file := f\<rparr>\<rparr>])\<rparr>"
  have "nfc_t4t_cc_file_content_get cc fid = Ok (Some i)"
    using i fid first by (simp add: cc_content_get_eq [OF wf] find_upt_Some)
  then have "nfc_t4t_cc_file_content_set cc f fid = Ok ?cc"
    using arr by (simp add: nfc_t4t_cc_file_content_set_def Let_def)
  then show ?thesis
    using wf arr ai
    by (intro that [of ?cc]) (auto simp: cc_wf_def cc_header_def cc_blocks_def take_update_swap)
qed

text \<open>A tag with one NDEF file of 255 bytes, version 2.0.\<close>

definition cc_example :: "u8 list" where
  "cc_example = [0x00, 0x0F, 0x20, 0x00, 0x3B, 0x00, 0x34, 0x04, 0x06, 0xE1, 0x04, 0x00, 0xFF, 0x00, 0x00]"

lemma cc_parse_loop_0: "cc_parse_loop bo cc data 0 = (cc, Ok ())"
  by (simp add: cc_parse_loop.simps)

lemma cc_parse_loop_step:
  "0 < len \<Longrightarrow> nfc_t4t_tlv_block_parse bo data len = Ok (t, n) \<Longrightarrow>
   nfc_t4t_tlv_block_insert cc t = Ok cc' \<Longrightarrow>
   cc_parse_loop bo cc data len = cc_parse_loop bo cc' (drop (unat n) data) (len - n)"
  by (subst cc_parse_loop.simps) simp

definition cc_example_block :: nfc_t4t_tlv_block where
  "cc_example_block = \<lparr>tlv_value = \<lparr>bound_file = \<lparr>content = None, file_len = 0\<rparr>,
       max_file_size = 255, file_id = 0xE104, read_access = 0, write_access = 0\<rparr>,
     tlv_length = 6, tlv_type = 4\<rparr>"

lemma cc_example_block_parse:
  "nfc_t4t_tlv_block_parse byteorder_ref (drop 7 cc_example) 8 = Ok (cc_example_block, 8)"
  by (simp add: cc_example_def cc_example_block_def be16_at_def rdn_def rd_def byteorder_ref_def
      nfc_t4t_tlv_block_parse_def Let_def nfc_t4t_file_control_tl_validate_def tlv_block_zero_def
      nfc_t4t_file_control_value_parse_def file_id_invalid_def max_file_size_parse_def
      max_field_range_verify_def)

definition cc_example_desc :: nfc_t4t_cc_file where
  "cc_example_desc = \<lparr>tlv_block_array = Some [cc_example_block, tlv_block_zero], tlv_count = 1,
     max_tlv_blocks = 2, cc_len = 15, max_rapdu_size = 0x3B, max_capdu_size = 0x34,
     major_version = 2, minor_version = 0\<rparr>"

lemma cc_example_parse:
  "nfc_t4t_cc_file_parse byteorder_ref (NFC_T4T_CC_DESC_DEF 2) cc_example 15 = (cc_example_desc, Ok ())"
proof -
  have "cc_parse_loop byteorder_ref (cc_example_desc\<lparr>tlv_block_array := Some [tlv_block_zero, tlv_block_zero],
      tlv_count := 0\<rparr>) (drop 7 cc_example) 8 = (cc_example_desc, Ok ())"
    by (subst cc_parse_loop_step [OF _ cc_example_block_parse])
      (simp_all add: nfc_t4t_tlv_block_insert_def cc_example_desc_def cc_parse_loop_0)
  moreover have "cc_header_parse byteorder_ref (NFC_T4T_CC_DESC_DEF 2) cc_example =
      Ok (cc_example_desc\<lparr>tlv_block_array := Some [tlv_block_zero, tlv_block_zero], tlv_count := 0\<rparr>)"
    by (simp add: cc_header_parse_def cc_example_def be16_at_def rdn_def rd_def byteorder_ref_def
        MSN_GET_def LSN_GET_def NFC_T4T_CC_DESC_DEF_def cc_example_desc_def
        replicate_2)
  moreover have "nfc_t4t_cc_args_validate (Some (NFC_T4T_CC_DESC_DEF 2)) (Some cc_example) 15 = Ok ()"
    "nfc_t4t_cc_file_clear (NFC_T4T_CC_DESC_DEF 2) = NFC_T4T_CC_DESC_DEF 2"
    "nfc_t4t_cc_file_validate cc_example_desc = Ok ()"
    by (simp_all add: nfc_t4t_cc_args_validate_def NFC_T4T_CC_DESC_DEF_def nfc_t4t_cc_file_clear_def
        nfc_t4t_cc_file_validate_def cc_example_desc_def cc_example_block_def)
  ultimately show ?thesis by (simp add: nfc_t4t_cc_file_parse_def)
qed

section \<open>Theorems\<close>

text \<open>
  C9. Parsing any bytes as a Capability Container is memory safe, keeps the descriptor's
  invariant and capacity, and accepts only the exact image of what it then describes: the
  header fields and a sequence of well-formed File Control TLV blocks whose first block has the
  type the mapping version demands.
\<close>

theorem cc_file_parse_sound:
  assumes "byteorder bo" "cc_wf cc" "unat len \<le> length raw"
    and "nfc_t4t_cc_file_parse bo cc raw len = (cc', r)"
  shows "cc_wf cc' \<and> r \<noteq> Fault \<and> max_tlv_blocks cc' = max_tlv_blocks cc \<and>
    (r = Ok () \<longrightarrow> tlv_list_ok (cc_blocks cc') \<and> take (unat len) raw = cc_bytes cc' \<and>
       (major_version cc' = 3 \<and> tlv_type (hd (cc_blocks cc')) = 6 \<or>
        major_version cc' = 2 \<and> tlv_type (hd (cc_blocks cc')) = 4))"
proof -
  note c = cc_file_parse_cases [OF assms]
  have "major_version cc' = 3 \<and> tlv_type (hd (cc_blocks cc')) = 6 \<or>
        major_version cc' = 2 \<and> tlv_type (hd (cc_blocks cc')) = 4" if "r = Ok ()"
  proof (cases "cc_blocks cc'")
    case Nil
    then have "length (take (unat len) raw) = 7" using c that by (simp add: cc_bytes_header)
    moreover have "15 \<le> unat len" using c that by (simp add: word_le_nat_alt)
    ultimately show ?thesis using assms(3) by simp
  next
    case (Cons t bs)
    then show ?thesis using c that cc_file_validate_Ok [of cc' t bs] by auto
  qed
  then show ?thesis using c by blast
qed

theorem cc_file_parse_sound_witness:
  "cc_wf (NFC_T4T_CC_DESC_DEF 2) \<and> byteorder byteorder_ref \<and>
   nfc_t4t_cc_file_parse byteorder_ref (NFC_T4T_CC_DESC_DEF 2) cc_example 15 = (cc_example_desc, Ok ()) \<and>
   tlv_list_ok (cc_blocks cc_example_desc) \<and> take 15 cc_example = cc_bytes cc_example_desc"
proof -
  have wf: "cc_wf (NFC_T4T_CC_DESC_DEF 2)" by (simp add: cc_wf_def NFC_T4T_CC_DESC_DEF_def)
  have "unat (15 :: u16) \<le> length cc_example" by (simp add: cc_example_def)
  from cc_file_parse_sound [OF ref.byteorder_axioms wf this cc_example_parse] wf cc_example_parse
  show ?thesis using ref.byteorder_axioms by simp
qed

text \<open>
  C17. Every well-formed Capability Container that fits the descriptor is accepted, whatever
  follows it in the buffer, and the descriptor then holds exactly its fields and blocks.
\<close>

theorem cc_file_parse_complete:
  assumes "byteorder bo" "cc_wf cc" "nibble_ok d"
    and "tlv_list_ok bs" "bs \<noteq> []" "length bs \<le> unat (max_tlv_blocks cc)"
    and "major_version d = 3 \<and> tlv_type (hd bs) = 6 \<or> major_version d = 2 \<and> tlv_type (hd bs) = 4"
    and "unat len = 7 + length (tlvs_bytes bs)" "len \<le> 0xFFFE"
  shows "\<exists>cc'. nfc_t4t_cc_file_parse bo cc (cc_header_bytes d @ tlvs_bytes bs @ rest) len = (cc', Ok ()) \<and>
    cc_blocks cc' = bs \<and> cc_header cc' = cc_header (d\<lparr>max_tlv_blocks := max_tlv_blocks cc\<rparr>)"
  using cc_file_parse_bytes [OF assms, of rest] by metis

theorem cc_file_parse_complete_witness:
  "\<exists>cc'. nfc_t4t_cc_file_parse byteorder_ref (NFC_T4T_CC_DESC_DEF 1)
      (cc_header_bytes cc_example_desc @ tlv_bytes cc_example_block @ [0xAA]) 15 = (cc', Ok ()) \<and>
    cc_blocks cc' = [cc_example_block]"
  using cc_file_parse_complete [OF ref.byteorder_axioms, of "NFC_T4T_CC_DESC_DEF 1" cc_example_desc
      "[cc_example_block]" 15 "[0xAA]"]
  by (auto simp: cc_wf_def NFC_T4T_CC_DESC_DEF_def nibble_ok_def cc_example_desc_def cc_example_block_def
      tlv_list_ok_def tlv_wf_def tlv_unbound_def file_id_invalid_def tlv_bytes_def tlv_max_size_bytes_def)

text \<open>
  C23. Binding a file: it succeeds exactly when a parsed block has the file identifier (else
  \<^verbatim>\<open>-EACCES\<close>), a following lookup finds that block with the bound content, and no other block
  changes.
\<close>

theorem cc_content_set_get:
  assumes wf: "cc_wf cc"
  shows "(nfc_t4t_cc_file_content_set cc f fid = Err EACCES \<longleftrightarrow>
          (\<forall>t \<in> set (cc_blocks cc). file_id (tlv_value t) \<noteq> fid)) \<and>
    (\<forall>t \<in> set (cc_blocks cc). file_id (tlv_value t) = fid \<longrightarrow>
      (\<exists>cc' i. nfc_t4t_cc_file_content_set cc f fid = Ok cc' \<and> cc_wf cc' \<and>
        nfc_t4t_cc_file_content_get cc' fid = Ok (Some i) \<and>
        bound_file (tlv_value (cc_blocks cc' ! i)) = f \<and>
        (\<forall>j < length (cc_blocks cc). j \<noteq> i \<longrightarrow> cc_blocks cc' ! j = cc_blocks cc ! j)))"
proof (cases "\<exists>t \<in> set (cc_blocks cc). file_id (tlv_value t) = fid")
  case False
  then have "List.find (\<lambda>j. file_id (tlv_value (cc_blocks cc ! j)) = fid) [0..<length (cc_blocks cc)] = None"
    by (auto simp: find_None_iff)
  with False show ?thesis
    by (auto simp: nfc_t4t_cc_file_content_set_def cc_content_get_eq [OF wf])
next
  case True
  define P where "P j \<longleftrightarrow> file_id (tlv_value (cc_blocks cc ! j)) = fid" for j
  from True obtain k where k: "k < length (cc_blocks cc)" "P k" by (auto simp: in_set_conv_nth P_def)
  define i where "i = (LEAST j. P j)"
  have i: "P i" "i \<le> k" "\<forall>j < i. \<not> P j"
    using k by (auto simp: i_def intro: LeastI Least_le dest: not_less_Least)
  from cc_content_set_Ok [OF wf, of i fid f] i k obtain cc' where
    set: "nfc_t4t_cc_file_content_set cc f fid = Ok cc'" "cc_wf cc'"
      "cc_blocks cc' = (cc_blocks cc)[i := (cc_blocks cc ! i)\<lparr>tlv_value :=
         (tlv_value (cc_blocks cc ! i))\<lparr>bound_file := f\<rparr>\<rparr>]"
    by (auto simp: P_def)
  have "file_id (tlv_value (cc_blocks cc' ! j)) = file_id (tlv_value (cc_blocks cc ! j))" for j
    using set(3) i(2) k(1) by (cases "j = i") (simp_all)
  then have "nfc_t4t_cc_file_content_get cc' fid = Ok (Some i)"
    using set i k(1) by (auto simp: cc_content_get_eq find_upt_Some P_def)
  moreover have "i < length (cc_blocks cc)" using i(2) k(1) by simp
  ultimately show ?thesis
    using set True by auto
qed

theorem cc_content_set_get_witness:
  "cc_wf cc_example_desc \<and>
   nfc_t4t_cc_file_content_set cc_example_desc \<lparr>content = Some [1, 2], file_len = 2\<rparr> 0xE105 = Err EACCES \<and>
   (\<exists>cc'. nfc_t4t_cc_file_content_set cc_example_desc \<lparr>content = Some [1, 2], file_len = 2\<rparr> 0xE104 = Ok cc')"
proof -
  have wf: "cc_wf cc_example_desc" by (simp add: cc_wf_def cc_example_desc_def)
  have b: "cc_blocks cc_example_desc = [cc_example_block]" "file_id (tlv_value cc_example_block) = 0xE104"
    by (simp_all add: cc_blocks_def cc_example_desc_def cc_example_block_def)
  show ?thesis
    using cc_content_set_get [OF wf, of "\<lparr>content = Some [1, 2], file_len = 2\<rparr>" "0xE105"]
      cc_content_set_get [OF wf, of "\<lparr>content = Some [1, 2], file_len = 2\<rparr>" "0xE104"] wf b
    by auto
qed

end
