(* ===== verification/T4T_HL.thy ===== *)
theory T4T_HL
  imports T4T_APDU T4T_CC
begin

unbundle bit_operations_syntax

text \<open>
  The high level procedures of a Type 4 Tag reader (\<^verbatim>\<open>t4t/hl_procedure.h\<close>, \<^verbatim>\<open>t4t/hl_procedure.c\<close>):
  selecting the application and the files, reading the Capability Container, reading and updating the
  NDEF file. Each procedure sends one command; every response makes the module send the next command
  or report the end of the procedure by a callback.

  The transport below (\<^verbatim>\<open>nfc_t4t_isodep_transmit\<close>) is the argument \<open>xmit\<close> with its own state \<open>'t\<close>; the
  theory \<^verbatim>\<open>T4T_Stack\<close> puts the ISO-DEP model there. Capability Containers belong to the caller and are
  reached through pointers: \<open>cc_mem\<close> is the memory that holds them.
\<close>

section \<open>Data\<close>

abbreviation (input) RAPDU_MIN_LEN :: u32 where "RAPDU_MIN_LEN \<equiv> 2"
abbreviation (input) NDEF_FILE_NLEN_SIZE :: nat where "NDEF_FILE_NLEN_SIZE \<equiv> 2"
abbreviation (input) CC_FILE_ID :: u16 where "CC_FILE_ID \<equiv> 0xE103"
abbreviation (input) CC_MIN_RAPDU_SIZE :: nat where "CC_MIN_RAPDU_SIZE \<equiv> 0x0F"
abbreviation (input) APDU_LE_MAP_2_MAX_VALUE :: nat where "APDU_LE_MAP_2_MAX_VALUE \<equiv> 0xFF"
abbreviation (input) NFC_T4T_APDU_RSP_ALL :: u16 where "NFC_T4T_APDU_RSP_ALL \<equiv> 256"

definition NFC_T4T_APDU_SELECT_DATA :: "u8 list" where
  "NFC_T4T_APDU_SELECT_DATA = [0xD2, 0x76, 0x00, 0x00, 0x85, 0x01, 0x01]"

datatype nfc_t4t_hl_transaction_type =
    NFC_T4T_HL_SELECT | NFC_T4T_HL_CC_READ | NFC_T4T_HL_NDEF_NLEN_READ | NFC_T4T_HL_NDEF_READ
  | NFC_T4T_HL_NDEF_NLEN_CLEAR | NFC_T4T_HL_NDEF_UPDATE | NFC_T4T_HL_NDEF_NLEN_UPDATE

datatype nfc_t4t_hl_procedure_select =
    NFC_T4T_HL_PROCEDURE_NDEF_APP_SELECT | NFC_T4T_HL_PROCEDURE_CC_SELECT
  | NFC_T4T_HL_PROCEDURE_NDEF_FILE_SELECT

type_synonym cc_ptr = nat

record t4t_hl_ndef =
  ndef_cc :: "cc_ptr option"
  ndef_buff :: cptr
  ndef_buff_size :: u16
  ndef_nlen :: u16
  ndef_file_id :: "u8 list"

record t4t_hl_cc =
  hlcc_cc :: "cc_ptr option"
  hlcc_len :: u16
  hlcc_data :: "u8 list"

record t4t_hl_procedure =
  cc_file :: t4t_hl_cc
  ndef :: t4t_hl_ndef
  transaction_type :: nfc_t4t_hl_transaction_type
  select_type :: nfc_t4t_hl_procedure_select
  file_offset :: u16
  hl_apdu_buff :: "u8 list"

text \<open>
  Which callbacks are set. A callback is always the last thing a handler does, so it is an event of
  the result and may itself start the next procedure.
\<close>

record nfc_t4t_hl_procedure_cb =
  hl_cb_selected :: bool
  hl_cb_cc_read :: bool
  hl_cb_ndef_read :: bool
  hl_cb_ndef_updated :: bool

record hl_state = t4t_hl_procedure +
  hl_cb :: "nfc_t4t_hl_procedure_cb option"
  cc_mem :: "cc_ptr \<Rightarrow> nfc_t4t_cc_file"

datatype hl_event =
    Hl_selected nfc_t4t_hl_procedure_select
  | Hl_cc_read cc_ptr
  | Hl_ndef_read u16 cptr nat
  | Hl_ndef_updated u16

text \<open>
  The transport: the new state and the return value of \<^verbatim>\<open>nfc_t4t_isodep_transmit\<close>. A procedure returns
  the new states, the callbacks made and its return value.
\<close>

type_synonym 't xmit = "'t \<Rightarrow> u8 list \<Rightarrow> ('t \<times> errno option) res"
type_synonym 't hl_ret = "(hl_state \<times> 't \<times> hl_event list \<times> errno option) res"

definition hl_callback :: "(nfc_t4t_hl_procedure_cb \<Rightarrow> bool) \<Rightarrow> hl_event \<Rightarrow> hl_state \<Rightarrow> hl_event list res" where
  "hl_callback is_set ev h =
     (case hl_cb h of
        None \<Rightarrow> Fault
      | Some cb \<Rightarrow> Ok (if is_set cb then [ev] else []))"

section \<open>Commands\<close>

definition t4t_hl_data_exchange ::
    "byteorder_ops \<Rightarrow> 't xmit \<Rightarrow> nfc_t4t_apdu_comm \<Rightarrow> hl_state \<Rightarrow> 't \<Rightarrow> 't hl_ret" where
  "t4t_hl_data_exchange bo xmit comm h t =
     (case nfc_t4t_apdu_comm_encode bo (Some comm) (Some (hl_apdu_buff h)) (Some (of_nat (length (hl_apdu_buff h)))) of
        Fault \<Rightarrow> Fault
      | Err e \<Rightarrow> Ok (h, t, [], Some e)
      | Ok (b, n) \<Rightarrow>
          rbind (xmit t (take (unat n) b)) (\<lambda>(t, ret). Ok (h\<lparr>hl_apdu_buff := b\<rparr>, t, [], ret)))"

text \<open>
  The READ and UPDATE commands as the procedures fill them in; the descriptor is a local variable
  that is cleared first.
\<close>

definition apdu_read :: "u16 \<Rightarrow> u16 \<Rightarrow> nfc_t4t_apdu_comm" where
  "apdu_read off le = (nfc_t4t_apdu_comm_clear undefined)
     \<lparr>instruction := NFC_T4T_APDU_COMM_INS_READ, parameter := off, resp_len := le\<rparr>"

definition apdu_update :: "u16 \<Rightarrow> cptr \<Rightarrow> u16 \<Rightarrow> nfc_t4t_apdu_comm" where
  "apdu_update off p len = (nfc_t4t_apdu_comm_clear undefined)
     \<lparr>instruction := NFC_T4T_APDU_COMM_INS_UPDATE, parameter := off,
      comm_data := \<lparr>apdu_len = len, apdu_buff = p\<rparr>\<rparr>"

section \<open>Responses\<close>

definition on_cc_read ::
    "byteorder_ops \<Rightarrow> 't xmit \<Rightarrow> nfc_t4t_apdu_resp \<Rightarrow> hl_state \<Rightarrow> 't \<Rightarrow> 't hl_ret" where
  "on_cc_read bo xmit resp h t =
     (let data = apdu_buff (resp_data resp); len = apdu_len (resp_data resp) in
      rbind (if len \<noteq> 0 \<and> hlcc_len (cc_file h) = 0
             then case data of
                    None \<Rightarrow> Fault
                  | Some d \<Rightarrow> rbind (be16_at bo d 0) (\<lambda>l. Ok (h\<lparr>cc_file := (cc_file h)\<lparr>hlcc_len := l\<rparr>\<rparr>))
             else Ok h) (\<lambda>h.
      if unat (file_offset h) + unat len > length (hlcc_data (cc_file h)) then Ok (h, t, [], Some ENOMEM)
      else
        rbind (memcpy_src data (unat len)) (\<lambda>xs.
        rbind (wr (hlcc_data (cc_file h)) (unat (file_offset h)) xs) (\<lambda>d.
        let h = h\<lparr>cc_file := (cc_file h)\<lparr>hlcc_data := d\<rparr>, file_offset := file_offset h + len\<rparr> in
        if file_offset h < hlcc_len (cc_file h) then
          t4t_hl_data_exchange bo xmit
            (apdu_read (file_offset h)
               (of_nat (min CC_MIN_RAPDU_SIZE (unat (hlcc_len (cc_file h)) - unat (file_offset h))))) h t
        else
          case hl_cb h of
            None \<Rightarrow> Fault
          | Some cb \<Rightarrow>
              if \<not> hl_cb_cc_read cb then Ok (h, t, [], None)
              else
                case hlcc_cc (cc_file h) of
                  None \<Rightarrow> Fault
                | Some p \<Rightarrow>
                    let (cc, r) = nfc_t4t_cc_file_parse bo (cc_mem h p) d (hlcc_len (cc_file h));
                        h = h\<lparr>cc_mem := (cc_mem h)(p := cc)\<rparr> in
                    (case r of
                       Fault \<Rightarrow> Fault
                     | Err e \<Rightarrow> Ok (h, t, [], Some e)
                     | Ok _ \<Rightarrow> Ok (h, t, [Hl_cc_read p], None))))))"

definition on_ndef_nlen_read :: "byteorder_ops \<Rightarrow> nfc_t4t_apdu_resp \<Rightarrow> hl_state \<Rightarrow> (hl_state \<times> errno option) res" where
  "on_ndef_nlen_read bo resp h =
     (if unat (apdu_len (resp_data resp)) \<noteq> NDEF_FILE_NLEN_SIZE then Ok (h, Some EINVAL)
      else
        case apdu_buff (resp_data resp) of
          None \<Rightarrow> Fault
        | Some d \<Rightarrow> rbind (be16_at bo d 0) (\<lambda>n. Ok (h\<lparr>ndef := (ndef h)\<lparr>ndef_nlen := n\<rparr>\<rparr>, None)))"

definition t4t_file_assign :: "u16 \<Rightarrow> hl_state \<Rightarrow> (hl_state \<times> errno option) res" where
  "t4t_file_assign fid h =
     (case ndef_cc (ndef h) of
        None \<Rightarrow> Fault
      | Some p \<Rightarrow>
          (case nfc_t4t_cc_file_content_set (cc_mem h p)
                  \<lparr>content = ndef_buff (ndef h), file_len = file_offset h\<rparr> fid of
             Fault \<Rightarrow> Fault
           | Err e \<Rightarrow> Ok (h, Some e)
           | Ok cc \<Rightarrow> Ok (h\<lparr>cc_mem := (cc_mem h)(p := cc)\<rparr>, None)))"

text \<open>
  The sums of 16-bit numbers are computed as \<^verbatim>\<open>int\<close> and do not wrap; only the assignment to
  \<^verbatim>\<open>file_offset\<close> does.
\<close>

definition ndef_file_chunk_read ::
    "byteorder_ops \<Rightarrow> 't xmit \<Rightarrow> nfc_t4t_apdu_resp \<Rightarrow> hl_state \<Rightarrow> 't \<Rightarrow> 't hl_ret" where
  "ndef_file_chunk_read bo xmit resp h t =
     (let data = apdu_buff (resp_data resp); len = apdu_len (resp_data resp) in
      if unat (ndef_buff_size (ndef h)) < unat (file_offset h) + unat len then Ok (h, t, [], Some ENOMEM)
      else
        rbind (memcpy_src data (unat len)) (\<lambda>xs.
        rbind (case ndef_buff (ndef h) of
                 None \<Rightarrow> if xs = [] then Ok None else Fault
               | Some b \<Rightarrow> rbind (wr b (unat (file_offset h)) xs) (\<lambda>b. Ok (Some b))) (\<lambda>b.
        let h = h\<lparr>ndef := (ndef h)\<lparr>ndef_buff := b\<rparr>, file_offset := file_offset h + len\<rparr>;
            nlen = unat (ndef_nlen (ndef h)); off = unat (file_offset h) in
        if off < nlen + NDEF_FILE_NLEN_SIZE then
          case ndef_cc (ndef h) of
            None \<Rightarrow> Fault
          | Some p \<Rightarrow>
              let le = min (int nlen - (int off - int NDEF_FILE_NLEN_SIZE))
                           (int (min APDU_LE_MAP_2_MAX_VALUE (unat (max_rapdu_size (cc_mem h p))))) in
              t4t_hl_data_exchange bo xmit (apdu_read (file_offset h) (word_of_int le))
                (h\<lparr>transaction_type := NFC_T4T_HL_NDEF_READ\<rparr>) t
        else
          rbind (be16_at bo (ndef_file_id (ndef h)) 0) (\<lambda>fid.
          rbind (t4t_file_assign fid h) (\<lambda>(h, e).
          case e of
            Some e \<Rightarrow> Ok (h, t, [], Some e)
          | None \<Rightarrow>
              rbind (hl_callback hl_cb_ndef_read
                       (Hl_ndef_read fid (ndef_buff (ndef h)) (nlen + NDEF_FILE_NLEN_SIZE)) h) (\<lambda>ev.
              Ok (h, t, ev, None)))))))"

definition ndef_file_chunk_update :: "byteorder_ops \<Rightarrow> 't xmit \<Rightarrow> hl_state \<Rightarrow> 't \<Rightarrow> 't hl_ret" where
  "ndef_file_chunk_update bo xmit h t =
     (if file_offset h < ndef_buff_size (ndef h) then
        case ndef_cc (ndef h) of
          None \<Rightarrow> Fault
        | Some p \<Rightarrow>
            let len = of_nat (min (unat (ndef_buff_size (ndef h)) - unat (file_offset h))
                                  (min APDU_LE_MAP_2_MAX_VALUE (unat (max_capdu_size (cc_mem h p))))) in
            t4t_hl_data_exchange bo xmit
              (apdu_update (file_offset h) (map_option (drop (unat (file_offset h))) (ndef_buff (ndef h))) len)
              (h\<lparr>file_offset := file_offset h + len, transaction_type := NFC_T4T_HL_NDEF_UPDATE\<rparr>) t
      else
        t4t_hl_data_exchange bo xmit (apdu_update 0 (Some (sys_put_be16 bo (ndef_nlen (ndef h)))) 2)
          (h\<lparr>transaction_type := NFC_T4T_HL_NDEF_NLEN_UPDATE\<rparr>) t)"

definition on_ndef_nlen_update :: "byteorder_ops \<Rightarrow> hl_state \<Rightarrow> hl_event list res" where
  "on_ndef_nlen_update bo h =
     rbind (be16_at bo (ndef_file_id (ndef h)) 0) (\<lambda>fid.
     hl_callback hl_cb_ndef_updated (Hl_ndef_updated fid) h)"

definition on_rapdu_succes ::
    "byteorder_ops \<Rightarrow> 't xmit \<Rightarrow> nfc_t4t_apdu_resp \<Rightarrow> hl_state \<Rightarrow> 't \<Rightarrow> 't hl_ret" where
  "on_rapdu_succes bo xmit resp h t =
     (case transaction_type h of
        NFC_T4T_HL_SELECT \<Rightarrow>
          rbind (hl_callback hl_cb_selected (Hl_selected (select_type h)) h) (\<lambda>ev. Ok (h, t, ev, None))
      | NFC_T4T_HL_CC_READ \<Rightarrow> on_cc_read bo xmit resp h t
      | NFC_T4T_HL_NDEF_NLEN_READ \<Rightarrow>
          rbind (on_ndef_nlen_read bo resp h) (\<lambda>(h, e).
          case e of
            Some e \<Rightarrow> Ok (h, t, [], Some e)
          | None \<Rightarrow> ndef_file_chunk_read bo xmit resp h t)
      | NFC_T4T_HL_NDEF_READ \<Rightarrow> ndef_file_chunk_read bo xmit resp h t
      | NFC_T4T_HL_NDEF_NLEN_CLEAR \<Rightarrow> ndef_file_chunk_update bo xmit h t
      | NFC_T4T_HL_NDEF_UPDATE \<Rightarrow> ndef_file_chunk_update bo xmit h t
      | NFC_T4T_HL_NDEF_NLEN_UPDATE \<Rightarrow>
          rbind (on_ndef_nlen_update bo h) (\<lambda>ev. Ok (h, t, ev, None)))"

section \<open>Interface\<close>

definition nfc_t4t_hl_procedure_cb_register ::
    "nfc_t4t_hl_procedure_cb option \<Rightarrow> hl_state \<Rightarrow> hl_state \<times> errno option" where
  "nfc_t4t_hl_procedure_cb_register cb h =
     (if cb = None then (h, Some EINVAL) else (h\<lparr>hl_cb := cb\<rparr>, None))"

text \<open>The length is cut to 16 bits when it is passed to the decoder.\<close>

definition nfc_t4t_hl_procedure_on_data_received ::
    "byteorder_ops \<Rightarrow> 't xmit \<Rightarrow> cptr \<Rightarrow> u32 \<Rightarrow> hl_state \<Rightarrow> 't \<Rightarrow> 't hl_ret" where
  "nfc_t4t_hl_procedure_on_data_received bo xmit data len h t =
     (if data = None \<or> len < RAPDU_MIN_LEN then Ok (h, t, [], Some EINVAL)
      else
        case nfc_t4t_apdu_resp_decode bo (Some (nfc_t4t_apdu_resp_clear undefined)) data (ucast len) of
          Fault \<Rightarrow> Fault
        | Err e \<Rightarrow> Ok (h, t, [], Some e)
        | Ok apdu_resp \<Rightarrow>
            if resp_status apdu_resp = NFC_T4T_APDU_RAPDU_STATUS_CMD_COMPLETED
            then on_rapdu_succes bo xmit apdu_resp h t
            else Ok (h, t, [], Some EPERM))"

definition nfc_t4t_hl_procedure_ndef_tag_app_select ::
    "byteorder_ops \<Rightarrow> 't xmit \<Rightarrow> hl_state \<Rightarrow> 't \<Rightarrow> 't hl_ret" where
  "nfc_t4t_hl_procedure_ndef_tag_app_select bo xmit h t =
     t4t_hl_data_exchange bo xmit
       ((nfc_t4t_apdu_comm_clear undefined)
          \<lparr>instruction := NFC_T4T_APDU_COMM_INS_SELECT, parameter := NFC_T4T_APDU_SELECT_BY_NAME,
           comm_data := \<lparr>apdu_len = 7, apdu_buff = Some NFC_T4T_APDU_SELECT_DATA\<rparr>,
           resp_len := NFC_T4T_APDU_RSP_ALL\<rparr>)
       (h\<lparr>transaction_type := NFC_T4T_HL_SELECT, select_type := NFC_T4T_HL_PROCEDURE_NDEF_APP_SELECT\<rparr>) t"

definition nfc_t4t_hl_procedure_ndef_file_select ::
    "byteorder_ops \<Rightarrow> 't xmit \<Rightarrow> u16 \<Rightarrow> hl_state \<Rightarrow> 't \<Rightarrow> 't hl_ret" where
  "nfc_t4t_hl_procedure_ndef_file_select bo xmit fid h t =
     (let h = h\<lparr>ndef := (ndef h)\<lparr>ndef_file_id := sys_put_be16 bo fid\<rparr>,
                transaction_type := NFC_T4T_HL_SELECT,
                select_type := (if fid = CC_FILE_ID then NFC_T4T_HL_PROCEDURE_CC_SELECT
                                else NFC_T4T_HL_PROCEDURE_NDEF_FILE_SELECT)\<rparr> in
      t4t_hl_data_exchange bo xmit
        ((nfc_t4t_apdu_comm_clear undefined)
           \<lparr>instruction := NFC_T4T_APDU_COMM_INS_SELECT, parameter := NFC_T4T_APDU_SELECT_BY_FILE_ID,
            comm_data := \<lparr>apdu_len = 2, apdu_buff = Some (ndef_file_id (ndef h))\<rparr>\<rparr>) h t)"

definition nfc_t4t_hl_procedure_cc_select :: "byteorder_ops \<Rightarrow> 't xmit \<Rightarrow> hl_state \<Rightarrow> 't \<Rightarrow> 't hl_ret" where
  "nfc_t4t_hl_procedure_cc_select bo xmit h t = nfc_t4t_hl_procedure_ndef_file_select bo xmit CC_FILE_ID h t"

definition nfc_t4t_hl_procedure_cc_read ::
    "byteorder_ops \<Rightarrow> 't xmit \<Rightarrow> cc_ptr option \<Rightarrow> hl_state \<Rightarrow> 't \<Rightarrow> 't hl_ret" where
  "nfc_t4t_hl_procedure_cc_read bo xmit cc h t =
     (if cc = None then Ok (h, t, [], Some EINVAL)
      else
        t4t_hl_data_exchange bo xmit (apdu_read 0 (of_nat CC_MIN_RAPDU_SIZE))
          (h\<lparr>cc_file := \<lparr>hlcc_cc = cc, hlcc_len = 0, hlcc_data = replicate (length (hlcc_data (cc_file h))) 0\<rparr>,
             file_offset := 0, transaction_type := NFC_T4T_HL_CC_READ\<rparr>) t)"

definition nfc_t4t_hl_procedure_ndef_read ::
    "byteorder_ops \<Rightarrow> 't xmit \<Rightarrow> cc_ptr option \<Rightarrow> cptr \<Rightarrow> u16 \<Rightarrow> hl_state \<Rightarrow> 't \<Rightarrow> 't hl_ret" where
  "nfc_t4t_hl_procedure_ndef_read bo xmit cc buff len h t =
     (let h = h\<lparr>file_offset := 0\<rparr> in
      if cc = None \<or> buff = None \<or> len = 0 then Ok (h, t, [], Some EINVAL)
      else
        t4t_hl_data_exchange bo xmit (apdu_read 0 (of_nat NDEF_FILE_NLEN_SIZE))
          (h\<lparr>ndef := (ndef h)\<lparr>ndef_buff := buff, ndef_buff_size := len, ndef_cc := cc\<rparr>,
             transaction_type := NFC_T4T_HL_NDEF_NLEN_READ\<rparr>) t)"

definition nfc_t4t_hl_procedure_ndef_update ::
    "byteorder_ops \<Rightarrow> 't xmit \<Rightarrow> cc_ptr option \<Rightarrow> cptr \<Rightarrow> u16 \<Rightarrow> hl_state \<Rightarrow> 't \<Rightarrow> 't hl_ret" where
  "nfc_t4t_hl_procedure_ndef_update bo xmit cc data len h t =
     (case (cc, data) of
        (Some p, Some d) \<Rightarrow>
          if unat len < NDEF_FILE_NLEN_SIZE then Ok (h, t, [], Some EINVAL)
          else
            rbind (be16_at bo (ndef_file_id (ndef h)) 0) (\<lambda>fid.
            rbind (nfc_t4t_cc_file_content_get (cc_mem h p) fid) (\<lambda>b.
            case b of
              None \<Rightarrow> Ok (h, t, [], Some EACCES)
            | Some i \<Rightarrow>
                let blk = the (tlv_block_array (cc_mem h p)) ! i in
                rbind (be16_at bo d 0) (\<lambda>nlen.
                if unat nlen + NDEF_FILE_NLEN_SIZE \<noteq> unat len \<or> ucast len > max_file_size (tlv_value blk)
                then Ok (h, t, [], Some ENOMEM)
                else
                  t4t_hl_data_exchange bo xmit (apdu_update 0 (Some [0x00, 0x00]) 2)
                    (h\<lparr>ndef := (ndef h)\<lparr>ndef_buff := data, ndef_buff_size := len, ndef_nlen := nlen, ndef_cc := cc\<rparr>,
                       file_offset := of_nat NDEF_FILE_NLEN_SIZE,
                       transaction_type := NFC_T4T_HL_NDEF_NLEN_CLEAR\<rparr>) t)))
      | _ \<Rightarrow> Ok (h, t, [], Some EINVAL))"

end
