(* ===== verification/T4T_HL_Safe.thy ===== *)
theory T4T_HL_Safe
  imports T4T_HL
begin

text \<open>
  Memory safety of the high level procedures: whatever the tag answers and in whatever order the
  application calls the module, no access leaves its buffer and the state stays well formed.
\<close>

section \<open>The transport\<close>

text \<open>What the procedures need from the layer below to be safe: it accepts any command.\<close>

locale hl_link =
  fixes xmit :: "'t xmit" and ok :: "'t \<Rightarrow> bool"
  assumes xmit_safe: "ok t \<Longrightarrow> length d < 2 ^ 16 \<Longrightarrow> \<exists>t' e. xmit t d = Ok (t', e) \<and> ok t'"

section \<open>Commands\<close>

text \<open>A descriptor whose data pointer may be read.\<close>

definition comm_readable :: "nfc_t4t_apdu_comm \<Rightarrow> bool" where
  "comm_readable c \<longleftrightarrow> readable (apdu_buff (comm_data c)) (unat (apdu_len (comm_data c))) \<and>
     apdu_len (comm_data c) \<le> 0xFF"

lemma apdu_readable_cases:
  assumes "comm_readable c"
  obtains "apdu_ok c" | x where "apdu_buff (comm_data c) = Some x" "apdu_len (comm_data c) = 0"
proof (cases "apdu_data_ok (comm_data c)")
  case True
  have "unat (apdu_len (comm_data c)) \<le> 255" using assms by (simp add: comm_readable_def word_le_nat_alt)
  then have "length (apdu_bytes c) < 2 ^ 16"
    using length_lc_bytes [OF True] by (simp add: apdu_bytes_def length_le_bytes)
  with True show ?thesis by (intro that(1)) (simp add: apdu_ok_def)
next
  case False
  with assms show ?thesis
    by (intro that(2) [of "the (apdu_buff (comm_data c))"])
      (auto simp: comm_readable_def apdu_data_ok_def readable_def unat_eq_0 split: option.splits)
qed

lemma hl_exchange_cases:
  assumes bo: "byteorder bo" and c: "comm_readable c" and b: "length (hl_apdu_buff h) < 2 ^ 16"
  obtains e where "t4t_hl_data_exchange bo xmit c h t = Ok (h, t, [], Some e)"
  | "apdu_ok c" "length (apdu_bytes c) \<le> length (hl_apdu_buff h)"
    "t4t_hl_data_exchange bo xmit c h t =
      rbind (xmit t (apdu_bytes c)) (\<lambda>(t, ret). Ok (h\<lparr>hl_apdu_buff :=
        apdu_bytes c @ drop (length (apdu_bytes c)) (hl_apdu_buff h)\<rparr>, t, [], ret))"
proof (rule apdu_readable_cases [OF c])
  assume ok: "apdu_ok c"
  have l: "unat (of_nat (length (hl_apdu_buff h)) :: u16) = length (hl_apdu_buff h)"
    using b by (simp add: unat_of_nat)
  show ?thesis
  proof (cases "length (apdu_bytes c) \<le> length (hl_apdu_buff h)")
    case True
    have "unat (of_nat (length (apdu_bytes c)) :: u16) = length (apdu_bytes c)"
      using True b by (simp add: unat_of_nat)
    with apdu_encode_fits [OF bo ok, of "of_nat (length (hl_apdu_buff h))" "hl_apdu_buff h"] l True
    show ?thesis by (intro that(2) [OF ok True]) (simp add: t4t_hl_data_exchange_def)
  next
    case False
    with apdu_encode_too_small [OF ok, of "of_nat (length (hl_apdu_buff h))" bo "hl_apdu_buff h"] l
    show ?thesis by (intro that(1) [of ENOMEM]) (simp add: t4t_hl_data_exchange_def)
  qed
next
  fix x
  assume "apdu_buff (comm_data c) = Some x" "apdu_len (comm_data c) = 0"
  then show ?thesis
    by (intro that(1) [of EFAULT])
      (simp add: t4t_hl_data_exchange_def nfc_t4t_apdu_comm_encode_def nfc_t4t_apdu_comm_args_validate_def)
qed

lemma apdu_read_readable [simp]: "comm_readable (apdu_read off le)"
  by (simp add: apdu_read_def comm_readable_def nfc_t4t_apdu_comm_clear_def readable_def)

lemma apdu_update_readable:
  "comm_readable (apdu_update off p n) \<longleftrightarrow> readable p (unat n) \<and> n \<le> 0xFF"
  by (simp add: apdu_update_def comm_readable_def)

section \<open>The invariant\<close>

definition ndef_transaction :: "nfc_t4t_hl_transaction_type \<Rightarrow> bool" where
  "ndef_transaction ty \<longleftrightarrow> ty \<noteq> NFC_T4T_HL_SELECT \<and> ty \<noteq> NFC_T4T_HL_CC_READ"

definition hl_inv :: "hl_state \<Rightarrow> bool" where
  "hl_inv h \<longleftrightarrow> hl_cb h \<noteq> None \<and> length (ndef_file_id (ndef h)) = 2 \<and> (\<forall>p. cc_wf (cc_mem h p)) \<and>
     length (hl_apdu_buff h) < 2 ^ 16 \<and>
     (transaction_type h = NFC_T4T_HL_CC_READ \<longrightarrow> hlcc_cc (cc_file h) \<noteq> None) \<and>
     (ndef_transaction (transaction_type h) \<longrightarrow>
        ndef_cc (ndef h) \<noteq> None \<and> readable (ndef_buff (ndef h)) (unat (ndef_buff_size (ndef h))))"

lemma hl_invD:
  assumes "hl_inv h"
  shows "hl_cb h \<noteq> None" "length (ndef_file_id (ndef h)) = 2" "cc_wf (cc_mem h p)"
    "length (hl_apdu_buff h) < 2 ^ 16"
    "transaction_type h = NFC_T4T_HL_CC_READ \<Longrightarrow> hlcc_cc (cc_file h) \<noteq> None"
    "ndef_transaction (transaction_type h) \<Longrightarrow> ndef_cc (ndef h) \<noteq> None"
    "ndef_transaction (transaction_type h) \<Longrightarrow> readable (ndef_buff (ndef h)) (unat (ndef_buff_size (ndef h)))"
  using assms by (simp_all add: hl_inv_def)

text \<open>A call that returns, with both states in order.\<close>

definition hl_safe :: "('t \<Rightarrow> bool) \<Rightarrow> 't hl_ret \<Rightarrow> bool" where
  "hl_safe ok r \<longleftrightarrow> (\<exists>h t ev e. r = Ok (h, t, ev, e) \<and> hl_inv h \<and> ok t)"

lemma hl_safe_Ok [simp]: "hl_safe ok (Ok (h, t, ev, e)) \<longleftrightarrow> hl_inv h \<and> ok t"
  by (simp add: hl_safe_def)

lemma hl_callback_Ok: "hl_cb h \<noteq> None \<Longrightarrow> \<exists>ev. hl_callback c x h = Ok ev"
  by (auto simp: hl_callback_def)

lemma file_id_at: "byteorder bo \<Longrightarrow> length xs = 2 \<Longrightarrow> \<exists>v. be16_at bo xs 0 = Ok v"
  by (simp add: be16_at_def rdn_def)

section \<open>Responses\<close>

text \<open>A response whose data lies in the received bytes, which also hold the status word.\<close>

definition resp_ok :: "nfc_t4t_apdu_resp \<Rightarrow> bool" where
  "resp_ok r \<longleftrightarrow> apdu_len (resp_data r) = 0 \<or>
     (\<exists>d. apdu_buff (resp_data r) = Some d \<and> unat (apdu_len (resp_data r)) + 2 \<le> length d)"

lemma resp_ok_src: "resp_ok r \<Longrightarrow> memcpy_src (apdu_buff (resp_data r)) (unat (apdu_len (resp_data r))) =
    Ok (pbytes (apdu_buff (resp_data r)) (unat (apdu_len (resp_data r)))) \<and>
    length (pbytes (apdu_buff (resp_data r)) (unat (apdu_len (resp_data r)))) = unat (apdu_len (resp_data r))"
  by (subst memcpy_src_readable) (auto simp: resp_ok_def readable_def pbytes_def split: option.split)

lemma wr_len: "i + length xs \<le> length b \<Longrightarrow> \<exists>b'. wr b i xs = Ok b' \<and> length b' = length b"
  by (simp add: wr_def)

lemma unat_add_le: "unat (a + b :: 'a::len word) \<le> unat a + unat b"
  by (simp add: unat_word_ariths)

context hl_link
begin

lemma exchange_safe:
  assumes bo: "byteorder bo" and inv: "hl_inv h" and t: "ok t" and c: "comm_readable c"
  shows "hl_safe ok (t4t_hl_data_exchange bo xmit c h t)"
proof (rule hl_exchange_cases [OF bo c hl_invD(4) [OF inv], of xmit t])
  fix e
  assume "t4t_hl_data_exchange bo xmit c h t = Ok (h, t, [], Some e)"
  then show ?thesis using inv t by simp
next
  assume l: "length (apdu_bytes c) \<le> length (hl_apdu_buff h)"
    and e: "t4t_hl_data_exchange bo xmit c h t =
      rbind (xmit t (apdu_bytes c)) (\<lambda>(t, ret). Ok (h\<lparr>hl_apdu_buff :=
        apdu_bytes c @ drop (length (apdu_bytes c)) (hl_apdu_buff h)\<rparr>, t, [], ret))"
  from l hl_invD(4) [OF inv] have "length (apdu_bytes c) < 2 ^ 16" by simp
  from xmit_safe [OF t this] obtain t' r where "xmit t (apdu_bytes c) = Ok (t', r)" "ok t'" by blast
  with e inv l show ?thesis by (simp add: hl_inv_def)
qed

lemma cc_read_safe:
  assumes bo: "byteorder bo" and inv: "hl_inv h" and ty: "transaction_type h = NFC_T4T_HL_CC_READ"
    and t: "ok t" and r: "resp_ok resp"
  shows "hl_safe ok (on_cc_read bo xmit resp h t)"
proof -
  let ?d = "apdu_buff (resp_data resp)" and ?n = "apdu_len (resp_data resp)"
  let ?xs = "pbytes ?d (unat ?n)"
  have "\<exists>v. (if ?n \<noteq> 0 \<and> hlcc_len (cc_file h) = 0
      then case ?d of None \<Rightarrow> Fault
           | Some d \<Rightarrow> rbind (be16_at bo d 0) (\<lambda>l. Ok (h\<lparr>cc_file := (cc_file h)\<lparr>hlcc_len := l\<rparr>\<rparr>))
      else Ok h) = Ok (h\<lparr>cc_file := (cc_file h)\<lparr>hlcc_len := v\<rparr>\<rparr>)"
    using r by (auto simp: resp_ok_def be16_at_def rdn_def intro: exI [of _ "hlcc_len (cc_file h)"])
  then obtain v where v: "(if ?n \<noteq> 0 \<and> hlcc_len (cc_file h) = 0
      then case ?d of None \<Rightarrow> Fault
           | Some d \<Rightarrow> rbind (be16_at bo d 0) (\<lambda>l. Ok (h\<lparr>cc_file := (cc_file h)\<lparr>hlcc_len := l\<rparr>\<rparr>))
      else Ok h) = Ok (h\<lparr>cc_file := (cc_file h)\<lparr>hlcc_len := v\<rparr>\<rparr>)" ..
  have inv1: "hl_inv (h\<lparr>cc_file := (cc_file h)\<lparr>hlcc_len := v\<rparr>\<rparr>)" using inv by (simp add: hl_inv_def)
  show ?thesis
  proof (cases "unat (file_offset h) + unat ?n > length (hlcc_data (cc_file h))")
    case True
    then show ?thesis using v inv1 t by (simp add: on_cc_read_def Let_def)
  next
    case False
    with resp_ok_src [OF r] obtain d where
      w: "wr (hlcc_data (cc_file h)) (unat (file_offset h)) ?xs = Ok d" "length d = length (hlcc_data (cc_file h))"
      using wr_len [of "unat (file_offset h)" ?xs "hlcc_data (cc_file h)"] by auto
    define h' where "h' = h\<lparr>cc_file := (cc_file h)\<lparr>hlcc_len := v, hlcc_data := d\<rparr>, file_offset := file_offset h + ?n\<rparr>"
    have inv2: "hl_inv h'" using inv by (simp add: h'_def hl_inv_def)
    have hv: "hlcc_len (cc_file h') = v" by (simp add: h'_def)
    obtain cb p where cb: "hl_cb h' = Some cb" "hlcc_cc (cc_file h') = Some p"
      using hl_invD(1,5) [OF inv] ty by (auto simp: h'_def)
    obtain cc res where pr: "nfc_t4t_cc_file_parse bo (cc_mem h' p) d v = (cc, res)" by fastforce
    have le: "unat v \<le> length d" if "\<not> file_offset h + ?n < v"
      using that False w(2) unat_add_le [of "file_offset h" ?n] by (simp add: word_less_nat_alt)
    have "hl_inv (h'\<lparr>cc_mem := (cc_mem h')(p := cc)\<rparr>) \<and> res \<noteq> Fault" if "\<not> file_offset h + ?n < v"
      using cc_file_parse_cases [OF bo hl_invD(3) [OF inv2] le [OF that] pr] inv2 by (simp add: hl_inv_def)
    then show ?thesis
      using v False w resp_ok_src [OF r] inv2 cb pr t exchange_safe [OF bo inv2 t]
      unfolding on_cc_read_def Let_def
      by (auto simp: h'_def [symmetric] hv split: res.split)
  qed
qed

text \<open>
  Writing a piece of the file into the caller's buffer keeps the buffer readable over its size.
\<close>

lemma chunk_store:
  assumes inv: "hl_inv h" and ty: "ndef_transaction (transaction_type h)" and r: "resp_ok resp"
    and n: "unat (file_offset h) + unat (apdu_len (resp_data resp)) \<le> unat (ndef_buff_size (ndef h))"
  defines "xs \<equiv> pbytes (apdu_buff (resp_data resp)) (unat (apdu_len (resp_data resp)))"
  shows "\<exists>b. (case ndef_buff (ndef h) of
       None \<Rightarrow> if xs = [] then Ok None else Fault
     | Some b \<Rightarrow> rbind (wr b (unat (file_offset h)) xs) (\<lambda>b. Ok (Some b))) = Ok b \<and>
    readable b (unat (ndef_buff_size (ndef h)))"
proof (cases "ndef_buff (ndef h)")
  case None
  then have "unat (ndef_buff_size (ndef h)) = 0" using hl_invD(7) [OF inv ty] by (simp add: readable_def)
  moreover from this have "xs = []" using n resp_ok_src [OF r] by (simp add: xs_def)
  ultimately show ?thesis using None by (simp add: readable_def)
next
  case (Some b)
  then have "unat (ndef_buff_size (ndef h)) \<le> length b"
    using hl_invD(7) [OF inv ty] by (auto simp: readable_def)
  with Some n resp_ok_src [OF r] show ?thesis by (auto simp: wr_def readable_def xs_def)
qed

lemma file_assign_safe:
  assumes inv: "hl_inv h" and ty: "ndef_transaction (transaction_type h)"
  shows "\<exists>h' e. t4t_file_assign fid h = Ok (h', e) \<and> hl_inv h' \<and> hl_cb h' = hl_cb h"
proof -
  obtain p where p: "ndef_cc (ndef h) = Some p" using hl_invD(6) [OF inv ty] by blast
  note wf = hl_invD(3) [OF inv, of p]
  let ?f = "\<lparr>content = ndef_buff (ndef h), file_len = file_offset h\<rparr>"
  show ?thesis
  proof (cases "List.find (\<lambda>j. file_id (tlv_value (cc_blocks (cc_mem h p) ! j)) = fid) [0..<length (cc_blocks (cc_mem h p))]")
    case None
    then show ?thesis
      using inv p by (simp add: t4t_file_assign_def nfc_t4t_cc_file_content_set_def cc_content_get_eq [OF wf])
  next
    case (Some i)
    with cc_content_set_Ok [OF wf, of i fid ?f] obtain cc' where
      "nfc_t4t_cc_file_content_set (cc_mem h p) ?f fid = Ok cc'" "cc_wf cc'"
      by (auto simp: find_upt_Some)
    then show ?thesis using inv p by (simp add: t4t_file_assign_def hl_inv_def)
  qed
qed

lemma chunk_read_safe:
  assumes bo: "byteorder bo" and inv: "hl_inv h" and ty: "ndef_transaction (transaction_type h)"
    and t: "ok t" and r: "resp_ok resp"
  shows "hl_safe ok (ndef_file_chunk_read bo xmit resp h t)"
proof (cases "unat (ndef_buff_size (ndef h)) < unat (file_offset h) + unat (apdu_len (resp_data resp))")
  case True
  then show ?thesis using inv t by (simp add: ndef_file_chunk_read_def Let_def)
next
  case False
  let ?xs = "pbytes (apdu_buff (resp_data resp)) (unat (apdu_len (resp_data resp)))"
  from chunk_store [OF inv ty r] False obtain b where
    b: "(case ndef_buff (ndef h) of
       None \<Rightarrow> if ?xs = [] then Ok None else Fault
     | Some b \<Rightarrow> rbind (wr b (unat (file_offset h)) ?xs) (\<lambda>b. Ok (Some b))) = Ok b"
    "readable b (unat (ndef_buff_size (ndef h)))" by auto
  define h' where "h' = h\<lparr>ndef := (ndef h)\<lparr>ndef_buff := b\<rparr>, file_offset := file_offset h + apdu_len (resp_data resp)\<rparr>"
  have inv1: "hl_inv h'" "hl_inv (h'\<lparr>transaction_type := NFC_T4T_HL_NDEF_READ\<rparr>)"
    using inv ty b(2) by (simp_all add: h'_def hl_inv_def)
  have ty1: "ndef_transaction (transaction_type h')" using ty by (simp add: h'_def)
  obtain p where p: "ndef_cc (ndef h') = Some p" using hl_invD(6) [OF inv1(1) ty1] by blast
  obtain fid where fid: "be16_at bo (ndef_file_id (ndef h')) 0 = Ok fid"
    using file_id_at [OF bo hl_invD(2) [OF inv1(1)]] by blast
  from file_assign_safe [OF inv1(1) ty1, of fid] obtain h2 e where
    a: "t4t_file_assign fid h' = Ok (h2, e)" "hl_inv h2" "hl_cb h2 = hl_cb h'" by blast
  from hl_callback_Ok [OF hl_invD(1) [OF a(2)]] obtain ev where
    ev: "hl_callback hl_cb_ndef_read (Hl_ndef_read fid (ndef_buff (ndef h2)) (unat (ndef_nlen (ndef h')) + 2)) h2 = Ok ev"
    by blast
  from False have nf: "\<not> unat (ndef_buff_size (ndef h)) < unat (file_offset h) + unat (apdu_len (resp_data resp))" .
  show ?thesis
    using resp_ok_src [OF r] exchange_safe [OF bo inv1(2) t] a(2) t ev p
    unfolding ndef_file_chunk_read_def Let_def if_not_P [OF nf]
    by (auto simp: b(1) h'_def [symmetric] fid a(1) split: option.split)
qed

lemma chunk_update_safe:
  assumes bo: "byteorder bo" and inv: "hl_inv h" and ty: "ndef_transaction (transaction_type h)" and t: "ok t"
  shows "hl_safe ok (ndef_file_chunk_update bo xmit h t)"
proof (cases "file_offset h < ndef_buff_size (ndef h)")
  case True
  obtain p where p: "ndef_cc (ndef h) = Some p" using hl_invD(6) [OF inv ty] by blast
  let ?n = "min (unat (ndef_buff_size (ndef h)) - unat (file_offset h)) (min 255 (unat (max_capdu_size (cc_mem h p))))"
  have n: "unat (of_nat ?n :: u16) = ?n" by (simp add: unat_of_nat)
  have "readable (map_option (drop (unat (file_offset h))) (ndef_buff (ndef h))) ?n"
    using hl_invD(7) [OF inv ty] True by (auto simp: readable_def word_less_nat_alt)
  then have c: "comm_readable (apdu_update off (map_option (drop (unat (file_offset h))) (ndef_buff (ndef h))) (of_nat ?n))" for off
    unfolding apdu_update_readable n by (simp add: word_le_nat_alt n)
  have "hl_inv (h\<lparr>file_offset := o1, transaction_type := NFC_T4T_HL_NDEF_UPDATE\<rparr>)" for o1
    using inv ty by (simp add: hl_inv_def)
  from exchange_safe [OF bo this t c] True p show ?thesis
    by (simp add: ndef_file_chunk_update_def Let_def)
next
  case False
  have "hl_inv (h\<lparr>transaction_type := NFC_T4T_HL_NDEF_NLEN_UPDATE\<rparr>)" using inv ty by (simp add: hl_inv_def)
  from exchange_safe [OF bo this t, of "apdu_update 0 (Some (sys_put_be16 bo (ndef_nlen (ndef h)))) 2"] False
  show ?thesis
    using byteorder.length_put_be16 [OF bo] by (simp add: ndef_file_chunk_update_def apdu_update_readable readable_def)
qed

lemma rapdu_safe:
  assumes bo: "byteorder bo" and inv: "hl_inv h" and t: "ok t" and r: "resp_ok resp"
  shows "hl_safe ok (on_rapdu_succes bo xmit resp h t)"
proof -
  have cb: "\<exists>ev. hl_callback c x h = Ok ev" for c x using hl_callback_Ok [OF hl_invD(1) [OF inv]] .
  have fid: "\<exists>v. be16_at bo (ndef_file_id (ndef h)) 0 = Ok v" by (rule file_id_at [OF bo hl_invD(2) [OF inv]])
  have nlen: "\<exists>h' e. on_ndef_nlen_read bo resp h = Ok (h', e) \<and> hl_inv h' \<and> transaction_type h' = transaction_type h"
    using r inv by (auto simp: on_ndef_nlen_read_def resp_ok_def be16_at_def rdn_def hl_inv_def)
  show ?thesis
  proof (cases "transaction_type h")
    case NFC_T4T_HL_SELECT
    then show ?thesis using cb [of hl_cb_selected "Hl_selected (select_type h)"] inv t by (auto simp: on_rapdu_succes_def)
  next
    case NFC_T4T_HL_CC_READ
    then show ?thesis using cc_read_safe [OF bo inv _ t r] by (simp add: on_rapdu_succes_def)
  next
    case NFC_T4T_HL_NDEF_NLEN_READ
    with nlen obtain h' e where "on_ndef_nlen_read bo resp h = Ok (h', e)" "hl_inv h'"
      "ndef_transaction (transaction_type h')" by (auto simp: ndef_transaction_def)
    with NFC_T4T_HL_NDEF_NLEN_READ chunk_read_safe [OF bo _ _ t r, of h'] t show ?thesis
      by (auto simp: on_rapdu_succes_def split: option.split)
  next
    case NFC_T4T_HL_NDEF_NLEN_UPDATE
    from fid obtain v where v: "be16_at bo (ndef_file_id (ndef h)) 0 = Ok v" ..
    show ?thesis using cb [of hl_cb_ndef_updated "Hl_ndef_updated v"] NFC_T4T_HL_NDEF_NLEN_UPDATE inv t v
      by (auto simp: on_rapdu_succes_def on_ndef_nlen_update_def)
  qed (use chunk_read_safe [OF bo inv _ t r] chunk_update_safe [OF bo inv _ t] in
      \<open>simp_all add: on_rapdu_succes_def ndef_transaction_def\<close>)
qed

lemma received_hl_safe:
  assumes bo: "byteorder bo" and inv: "hl_inv h" and t: "ok t" and len: "unat len \<le> length raw"
  shows "hl_safe ok (nfc_t4t_hl_procedure_on_data_received bo xmit (Some raw) len h t)"
proof -
  have u: "unat (ucast len :: u16) \<le> length raw"
    using le_trans [OF take_bit_nat_less_eq_self len, of 16] by (simp add: unsigned_ucast_eq unsigned_take_bit_eq)
  show ?thesis
  proof (cases "nfc_t4t_apdu_resp_decode bo (Some (nfc_t4t_apdu_resp_clear undefined)) (Some raw) (ucast len)")
    case (Ok resp)
    note d = apdu_resp_decode_OkD [OF bo u Ok]
    have "resp_ok resp" using d(1-3) u by (auto simp: resp_ok_def)
    from rapdu_safe [OF bo inv t this] Ok inv t show ?thesis
      by (simp add: nfc_t4t_hl_procedure_on_data_received_def)
  qed (use apdu_resp_decode_not_Fault [OF u] inv t in
      \<open>simp_all add: nfc_t4t_hl_procedure_on_data_received_def\<close>)
qed

text \<open>The calls of the application.\<close>

lemma app_select_safe:
  assumes bo: "byteorder bo" and inv: "hl_inv h" and t: "ok t"
  shows "hl_safe ok (nfc_t4t_hl_procedure_ndef_tag_app_select bo xmit h t)"
  unfolding nfc_t4t_hl_procedure_ndef_tag_app_select_def
  by (rule exchange_safe [OF bo _ t])
    (use inv in \<open>simp_all add: hl_inv_def ndef_transaction_def comm_readable_def readable_def NFC_T4T_APDU_SELECT_DATA_def\<close>)

lemma file_select_safe:
  assumes bo: "byteorder bo" and inv: "hl_inv h" and t: "ok t"
  shows "hl_safe ok (nfc_t4t_hl_procedure_ndef_file_select bo xmit fid h t)"
  unfolding nfc_t4t_hl_procedure_ndef_file_select_def Let_def
  by (rule exchange_safe [OF bo _ t])
    (use inv byteorder.length_put_be16 [OF bo] in
      \<open>simp_all add: hl_inv_def ndef_transaction_def comm_readable_def readable_def\<close>)

lemma cc_read_call_safe:
  assumes bo: "byteorder bo" and inv: "hl_inv h" and t: "ok t"
  shows "hl_safe ok (nfc_t4t_hl_procedure_cc_read bo xmit cc h t)"
proof (cases cc)
  case None
  then show ?thesis using inv t by (simp add: nfc_t4t_hl_procedure_cc_read_def)
next
  case (Some p)
  then show ?thesis
    unfolding nfc_t4t_hl_procedure_cc_read_def
    by simp (rule exchange_safe [OF bo _ t], use inv in \<open>simp_all add: hl_inv_def ndef_transaction_def\<close>)
qed

lemma ndef_read_call_safe:
  assumes bo: "byteorder bo" and inv: "hl_inv h" and t: "ok t" and b: "readable buff (unat len)"
  shows "hl_safe ok (nfc_t4t_hl_procedure_ndef_read bo xmit cc buff len h t)"
proof (cases "cc = None \<or> buff = None \<or> len = 0")
  case True
  then show ?thesis using inv t by (simp add: nfc_t4t_hl_procedure_ndef_read_def Let_def hl_inv_def)
next
  case False
  show ?thesis
    unfolding nfc_t4t_hl_procedure_ndef_read_def Let_def if_not_P [OF False]
    by (rule exchange_safe [OF bo _ t]) (use inv b False in \<open>simp_all add: hl_inv_def\<close>)
qed

lemma ndef_update_call_safe:
  assumes bo: "byteorder bo" and inv: "hl_inv h" and t: "ok t" and b: "readable data (unat len)"
  shows "hl_safe ok (nfc_t4t_hl_procedure_ndef_update bo xmit cc data len h t)"
proof (cases "cc = None \<or> data = None \<or> unat len < 2")
  case True
  then show ?thesis
    using inv t by (auto simp: nfc_t4t_hl_procedure_ndef_update_def split: option.split)
next
  case False
  then obtain p d where pd: "cc = Some p" "data = Some d" "2 \<le> unat len" by auto
  then have "2 \<le> length d" using b by (auto simp: readable_def)
  then obtain nlen where n: "be16_at bo d 0 = Ok nlen" by (simp add: be16_at_def rdn_def)
  obtain fid where f: "be16_at bo (ndef_file_id (ndef h)) 0 = Ok fid"
    using file_id_at [OF bo hl_invD(2) [OF inv]] by blast
  let ?h = "h\<lparr>ndef := (ndef h)\<lparr>ndef_buff := data, ndef_buff_size := len, ndef_nlen := nlen, ndef_cc := cc\<rparr>,
      file_offset := of_nat 2, transaction_type := NFC_T4T_HL_NDEF_NLEN_CLEAR\<rparr>"
  have "hl_inv ?h" using inv b pd by (simp add: hl_inv_def)
  from exchange_safe [OF bo this t, of "apdu_update 0 (Some [0, 0]) 2"] inv t pd n f
  show ?thesis
    by (auto simp: nfc_t4t_hl_procedure_ndef_update_def cc_content_get_eq [OF hl_invD(3) [OF inv]] Let_def
        apdu_update_readable readable_def split: option.split)
qed

end

section \<open>Runs\<close>

text \<open>What happens to the module: the calls of the application and the answers of the tag.\<close>

datatype hl_input =
    Register "nfc_t4t_hl_procedure_cb option"
  | App_select
  | File_select u16
  | Cc_select
  | Cc_read "cc_ptr option"
  | Ndef_read "cc_ptr option" cptr u16
  | Ndef_update "cc_ptr option" cptr u16
  | Response cptr u32

primrec hl_step :: "byteorder_ops \<Rightarrow> 't xmit \<Rightarrow> hl_input \<Rightarrow> hl_state \<Rightarrow> 't \<Rightarrow> 't hl_ret" where
  "hl_step bo xmit (Register cb) h t =
     (let (h, e) = nfc_t4t_hl_procedure_cb_register cb h in Ok (h, t, [], e))"
| "hl_step bo xmit App_select h t = nfc_t4t_hl_procedure_ndef_tag_app_select bo xmit h t"
| "hl_step bo xmit (File_select fid) h t = nfc_t4t_hl_procedure_ndef_file_select bo xmit fid h t"
| "hl_step bo xmit Cc_select h t = nfc_t4t_hl_procedure_cc_select bo xmit h t"
| "hl_step bo xmit (Cc_read cc) h t = nfc_t4t_hl_procedure_cc_read bo xmit cc h t"
| "hl_step bo xmit (Ndef_read cc b n) h t = nfc_t4t_hl_procedure_ndef_read bo xmit cc b n h t"
| "hl_step bo xmit (Ndef_update cc b n) h t = nfc_t4t_hl_procedure_ndef_update bo xmit cc b n h t"
| "hl_step bo xmit (Response b n) h t = nfc_t4t_hl_procedure_on_data_received bo xmit b n h t"

text \<open>A caller passes buffers of the length it states.\<close>

primrec hl_admissible :: "hl_input \<Rightarrow> bool" where
  "hl_admissible (Register cb) = True"
| "hl_admissible App_select = True"
| "hl_admissible (File_select fid) = True"
| "hl_admissible Cc_select = True"
| "hl_admissible (Cc_read cc) = True"
| "hl_admissible (Ndef_read cc b n) = readable b (unat n)"
| "hl_admissible (Ndef_update cc b n) = readable b (unat n)"
| "hl_admissible (Response b n) = readable b (unat n)"

text \<open>The static variables at start, with a callback structure registered.\<close>

definition hl_zero :: "nat \<Rightarrow> nat \<Rightarrow> (cc_ptr \<Rightarrow> nfc_t4t_cc_file) \<Rightarrow> hl_state" where
  "hl_zero cc_size apdu_size mem =
     \<lparr>cc_file = \<lparr>hlcc_cc = None, hlcc_len = 0, hlcc_data = replicate cc_size 0\<rparr>,
      ndef = \<lparr>ndef_cc = None, ndef_buff = None, ndef_buff_size = 0, ndef_nlen = 0, ndef_file_id = [0, 0]\<rparr>,
      transaction_type = NFC_T4T_HL_SELECT, select_type = NFC_T4T_HL_PROCEDURE_NDEF_APP_SELECT,
      file_offset = 0, hl_apdu_buff = replicate apdu_size 0, hl_cb = None, cc_mem = mem\<rparr>"

lemma hl_zero_inv:
  "apdu_size < 2 ^ 16 \<Longrightarrow> (\<And>p. cc_wf (mem p)) \<Longrightarrow>
   hl_inv (fst (nfc_t4t_hl_procedure_cb_register (Some cb) (hl_zero cc_size apdu_size mem)))"
  by (simp add: hl_inv_def hl_zero_def nfc_t4t_hl_procedure_cb_register_def ndef_transaction_def)

context hl_link
begin

lemma hl_step_safe:
  assumes bo: "byteorder bo" and inv: "hl_inv h" and t: "ok t" and a: "hl_admissible i"
  shows "hl_safe ok (hl_step bo xmit i h t)"
proof (cases i)
  case (Register cb)
  then show ?thesis using inv t by (simp add: nfc_t4t_hl_procedure_cb_register_def hl_inv_def)
next
  case (Response b n)
  show ?thesis
  proof (cases "b = None \<or> n < RAPDU_MIN_LEN")
    case True
    then show ?thesis using Response inv t by (simp add: nfc_t4t_hl_procedure_on_data_received_def)
  next
    case False
    then obtain raw where raw: "b = Some raw" by (cases b) auto
    moreover have "unat n \<le> length raw" using a Response raw by (auto simp: readable_def)
    ultimately show ?thesis using Response received_hl_safe [OF bo inv t] by simp
  qed
qed (use bo inv t a app_select_safe file_select_safe cc_read_call_safe ndef_read_call_safe
    ndef_update_call_safe in \<open>simp_all add: nfc_t4t_hl_procedure_cc_select_def\<close>)

end

end
