(* ===== verification/T4T_HL_Procedures.thy ===== *)
theory T4T_HL_Procedures
  imports T4T_HL_Safe
begin

text \<open>
  The procedures run to their end against a tag: the reader sends a command, the transport hands
  over the answer of the tag, the module sends the next command, until a callback or an error.
\<close>

section \<open>The dialogue\<close>

text \<open>
  \<open>sent\<close> is the command the tag gets, \<open>deliver\<close> hands over an answer, \<open>respond\<close> is the tag. The
  number bounds the rounds.
\<close>

fun hl_loop :: "byteorder_ops \<Rightarrow> 't xmit \<Rightarrow> ('t \<Rightarrow> u8 list) \<Rightarrow> ('t \<Rightarrow> u8 list \<Rightarrow> ('t \<times> u8 list) res) \<Rightarrow>
    ('g \<Rightarrow> u8 list \<Rightarrow> 'g \<times> u8 list) \<Rightarrow> nat \<Rightarrow> 'g \<Rightarrow> hl_state \<Rightarrow> 't \<Rightarrow>
    ('g \<times> hl_state \<times> 't \<times> hl_event list \<times> errno option) res" where
  "hl_loop bo xmit sent deliver respond 0 g h t = Ok (g, h, t, [], None)"
| "hl_loop bo xmit sent deliver respond (Suc n) g h t =
     (let (g, r) = respond g (sent t) in
      rbind (deliver t r) (\<lambda>(t, x).
      rbind (nfc_t4t_hl_procedure_on_data_received bo xmit (Some x) (of_nat (length x)) h t) (\<lambda>(h, t, ev, e).
      if ev = [] \<and> e = None then hl_loop bo xmit sent deliver respond n g h t
      else Ok (g, h, t, ev, e))))"

text \<open>
  The commands of a Type 4 Tag the procedures rely on: READ BINARY gives the bytes of the selected
  file, UPDATE BINARY replaces them. An offset has 15 bits: the top bit of the first parameter byte
  selects another file. A tag may do anything for commands outside these ranges.
\<close>

definition read_binary :: "nat \<Rightarrow> nat \<Rightarrow> u8 list" where
  "read_binary off le = [0x00, 0xB0] @ be_bytes 2 off @ [of_nat le]"

definition update_binary :: "nat \<Rightarrow> u8 list \<Rightarrow> u8 list" where
  "update_binary off xs = [0x00, 0xD6] @ be_bytes 2 off @ [of_nat (length xs)] @ xs"

definition t4t_reads :: "('g \<Rightarrow> u8 list \<Rightarrow> 'g \<times> u8 list) \<Rightarrow> ('g \<Rightarrow> u8 list) \<Rightarrow> bool" where
  "t4t_reads respond selected \<longleftrightarrow> (\<forall>g off le. 0 < le \<and> le \<le> 255 \<and> off < 2 ^ 15 \<and> off + le \<le> length (selected g) \<longrightarrow>
     (\<exists>g'. respond g (read_binary off le) = (g', take le (drop off (selected g)) @ [0x90, 0x00]) \<and>
       selected g' = selected g))"

definition t4t_updates :: "('g \<Rightarrow> u8 list \<Rightarrow> 'g \<times> u8 list) \<Rightarrow> ('g \<Rightarrow> u8 list) \<Rightarrow> bool" where
  "t4t_updates respond selected \<longleftrightarrow>
     (\<forall>g off xs. xs \<noteq> [] \<and> length xs \<le> 255 \<and> off < 2 ^ 15 \<and> off + length xs \<le> length (selected g) \<longrightarrow>
     (\<exists>g'. respond g (update_binary off xs) = (g', [0x90, 0x00]) \<and>
       selected g' = take off (selected g) @ xs @ drop (off + length xs) (selected g)))"

section \<open>Commands and responses\<close>

lemma byte_of_nat: "n < 256 \<Longrightarrow> (ucast (of_nat n :: u16) :: u8) = of_nat n"
  by (simp add: word_unat_eq_iff unat_ucast_down unat_of_nat)

lemma unat_of_nat_fits:
  "m < 2 ^ 32 \<Longrightarrow> unat (of_nat m :: u32) = m" "m < 2 ^ 16 \<Longrightarrow> unat (of_nat m :: u16) = m"
  by (simp_all add: unat_of_nat)

lemma apdu_bytes_read:
  assumes "0 < le" "le \<le> 255" "off < 2 ^ 16"
  shows "apdu_bytes (apdu_read (of_nat off) (of_nat le)) = read_binary off le"
proof -
  have "unat (of_nat le :: u16) = le" "unat (of_nat off :: u16) = off" using assms by (simp_all add: unat_of_nat)
  moreover from this have "(of_nat le :: u16) \<noteq> 0" "\<not> (0x100 :: u16) < of_nat le"
    using assms by (auto simp: word_less_nat_alt)
  moreover have "(ucast (of_nat le :: u16) :: u8) = of_nat le" by (rule byte_of_nat) (use assms in simp)
  ultimately show ?thesis
    by (simp add: apdu_bytes_def apdu_read_def nfc_t4t_apdu_comm_clear_def lc_bytes_def le_bytes_def
        read_binary_def ins_defs)
qed

lemma apdu_bytes_update:
  assumes "n \<le> 255" "n \<le> length xs" "off < 2 ^ 16"
  shows "apdu_bytes (apdu_update (of_nat off) (Some xs) (of_nat n)) = update_binary off (take n xs)"
proof -
  have "unat (of_nat n :: u16) = n" "unat (of_nat off :: u16) = off" using assms by (simp_all add: unat_of_nat)
  moreover from this have "\<not> (0xFF :: u16) < of_nat n" using assms by (auto simp: word_less_nat_alt)
  moreover have "(ucast (of_nat n :: u16) :: u8) = of_nat n" by (rule byte_of_nat) (use assms in simp)
  ultimately show ?thesis
    using assms by (simp add: apdu_bytes_def apdu_update_def nfc_t4t_apdu_comm_clear_def lc_bytes_def le_bytes_def
        update_binary_def ins_defs min_def)
qed

definition resp_of :: "u8 list \<Rightarrow> nfc_t4t_apdu_resp" where
  "resp_of xs = \<lparr>resp_status = 0x9000, resp_data = (if xs = [] then \<lparr>apdu_len = 0, apdu_buff = None\<rparr>
     else \<lparr>apdu_len = of_nat (length xs), apdu_buff = Some (xs @ [0x90, 0x00])\<rparr>)\<rparr>"

lemma resp_of_ok: "length xs \<le> 255 \<Longrightarrow> resp_ok (resp_of xs)"
  by (auto simp: resp_of_def resp_ok_def unat_of_nat)

lemma resp_of_apdu_len: "apdu_len (resp_data (resp_of xs)) = of_nat (length xs)"
  by (simp add: resp_of_def)

lemma resp_of_len: "length xs \<le> 255 \<Longrightarrow> unat (apdu_len (resp_data (resp_of xs))) = length xs"
  by (simp add: resp_of_def unat_of_nat)

lemma resp_of_bytes: "length xs \<le> 255 \<Longrightarrow>
    pbytes (apdu_buff (resp_data (resp_of xs))) (unat (apdu_len (resp_data (resp_of xs)))) = xs"
  by (simp add: resp_of_def pbytes_def unat_of_nat)

lemma resp_of_src: "length xs \<le> 255 \<Longrightarrow> memcpy_src (apdu_buff (resp_data (resp_of xs))) (length xs) = Ok xs"
  by (simp add: resp_of_def memcpy_src_def rdn_def)

lemma received_ok:
  assumes bo: "byteorder bo" and l: "length xs \<le> 255"
  shows "nfc_t4t_hl_procedure_on_data_received bo xmit (Some (xs @ [0x90, 0x00])) (of_nat (length xs + 2)) h t =
    on_rapdu_succes bo xmit (resp_of xs) h t"
proof -
  define m where "m = length xs + 2"
  have m: "m < 2 ^ 16" "2 \<le> m" using l by (simp_all add: m_def)
  have u: "unat (of_nat m :: u32) = m" by (rule unat_of_nat_fits(1)) (use m in simp)
  then have v: "unat (ucast (of_nat m :: u32) :: u16) = length xs + 2"
    using m by (subst unat_ucast_down(1)) (simp_all add: m_def)
  have n: "\<not> (of_nat m :: u32) < 2" using u m by (simp add: word_less_nat_alt)
  have s: "be_bytes 2 (unat (0x9000 :: u16)) = [0x90, 0x00]" by (simp add: be_bytes_2)
  show ?thesis
    using n apdu_resp_decode_bytes [OF bo v, of "nfc_t4t_apdu_resp_clear undefined" "0x9000" "[]", unfolded s]
    unfolding m_def [symmetric] by (simp add: nfc_t4t_hl_procedure_on_data_received_def resp_of_def)
qed

section \<open>A transport that works\<close>

text \<open>
  A ready transport takes a command, which is then pending; the tag gets exactly that command; the
  answer, up to \<open>cap\<close> bytes, is handed over unchanged, and the transport is ready again.
\<close>

locale hl_transport =
  fixes xmit :: "'t xmit" and sent :: "'t \<Rightarrow> u8 list" and deliver :: "'t \<Rightarrow> u8 list \<Rightarrow> ('t \<times> u8 list) res"
    and ready :: "'t \<Rightarrow> bool" and pending :: "'t \<Rightarrow> u8 list \<Rightarrow> bool" and cap :: nat
  assumes xmit_ready: "ready t \<Longrightarrow> d \<noteq> [] \<Longrightarrow> length d < 2 ^ 16 \<Longrightarrow> \<exists>t'. xmit t d = Ok (t', None) \<and> pending t' d"
    and sent_pending: "pending t d \<Longrightarrow> sent t = d"
    and deliver_pending: "pending t d \<Longrightarrow> r \<noteq> [] \<Longrightarrow> length r \<le> cap \<Longrightarrow> \<exists>t'. deliver t r = Ok (t', r) \<and> ready t'"
begin

lemma exchange_sends:
  assumes bo: "byteorder bo" and t: "ready t" and c: "apdu_ok c"
    and b: "length (apdu_bytes c) \<le> length (hl_apdu_buff h)" "length (hl_apdu_buff h) < 2 ^ 16"
  shows "\<exists>t'. t4t_hl_data_exchange bo xmit c h t =
      Ok (h\<lparr>hl_apdu_buff := apdu_bytes c @ drop (length (apdu_bytes c)) (hl_apdu_buff h)\<rparr>, t', [], None) \<and>
    pending t' (apdu_bytes c)"
proof -
  have l: "unat (of_nat (length (hl_apdu_buff h)) :: u16) = length (hl_apdu_buff h)"
    "unat (of_nat (length (apdu_bytes c)) :: u16) = length (apdu_bytes c)"
    using b by (simp_all add: unat_of_nat)
  have "apdu_bytes c \<noteq> []" "length (apdu_bytes c) < 2 ^ 16" using b by (simp_all add: apdu_bytes_def)
  from xmit_ready [OF t this] obtain t' where "xmit t (apdu_bytes c) = Ok (t', None)" "pending t' (apdu_bytes c)" by blast
  with apdu_encode_fits [OF bo c, of "of_nat (length (hl_apdu_buff h))" "hl_apdu_buff h"] l b show ?thesis
    by (simp add: t4t_hl_data_exchange_def)
qed

lemma loop_round:
  assumes bo: "byteorder bo" and p: "pending t d" and r: "respond g d = (g', xs @ [0x90, 0x00])"
    and l: "length xs \<le> 255" "length xs + 2 \<le> cap"
  shows "\<exists>t'. ready t' \<and> (\<forall>n. hl_loop bo xmit sent deliver respond (Suc n) g h t =
    rbind (on_rapdu_succes bo xmit (resp_of xs) h t') (\<lambda>(h, t, ev, e).
      if ev = [] \<and> e = None then hl_loop bo xmit sent deliver respond n g' h t else Ok (g', h, t, ev, e)))"
proof -
  from deliver_pending [OF p, of "xs @ [0x90, 0x00]"] l(2) obtain t' where
    d: "deliver t (xs @ [0x90, 0x00]) = Ok (t', xs @ [0x90, 0x00])" "ready t'" by auto
  have "length (xs @ [0x90, 0x00 :: u8]) = length xs + 2" by simp
  then have "hl_loop bo xmit sent deliver respond (Suc n) g h t =
    rbind (on_rapdu_succes bo xmit (resp_of xs) h t') (\<lambda>(h, t, ev, e).
      if ev = [] \<and> e = None then hl_loop bo xmit sent deliver respond n g' h t else Ok (g', h, t, ev, e))" for n
    using r d(1) sent_pending [OF p] received_ok [OF bo l(1), of xmit h t'] by (simp only: hl_loop.simps Let_def split rbind.simps)
  with d(2) show ?thesis by blast
qed

end

section \<open>Reading the NDEF file\<close>

text \<open>
  The file is \<open>F\<close>, the caller's buffer was \<open>buf\<close>: the bytes before the offset are the file's, the
  others are untouched.
\<close>

definition ndef_reading :: "u8 list \<Rightarrow> u8 list \<Rightarrow> nat \<Rightarrow> cc_ptr \<Rightarrow> nfc_t4t_cc_file \<Rightarrow> u16 \<Rightarrow> hl_state \<Rightarrow> bool" where
  "ndef_reading F buf nlen p cc fid h \<longleftrightarrow>
     unat (file_offset h) \<le> nlen + 2 \<and> nlen + 2 \<le> 2 ^ 15 \<and> unat (ndef_nlen (ndef h)) = nlen \<and>
     ndef_buff (ndef h) = Some (take (unat (file_offset h)) F @ drop (unat (file_offset h)) buf) \<and>
     nlen + 2 \<le> unat (ndef_buff_size (ndef h)) \<and> unat (ndef_buff_size (ndef h)) \<le> length buf \<and> nlen + 2 \<le> length F \<and>
     ndef_cc (ndef h) = Some p \<and> cc_mem h p = cc \<and> ndef_file_id (ndef h) = be_bytes 2 (unat fid) \<and>
     (\<exists>cb. hl_cb h = Some cb \<and> hl_cb_ndef_read cb) \<and>
     5 \<le> length (hl_apdu_buff h) \<and> length (hl_apdu_buff h) < 2 ^ 16"

definition stored :: "nat \<Rightarrow> u8 list \<Rightarrow> u8 list \<Rightarrow> hl_state \<Rightarrow> hl_state" where
  "stored k F buf h =
     (let off = unat (file_offset h) + k in
      h\<lparr>ndef := (ndef h)\<lparr>ndef_buff := Some (take off F @ drop off buf)\<rparr>, file_offset := of_nat off\<rparr>)"

lemma ndef_reading_bound:
  assumes "ndef_reading F buf nlen p cc fid h" "unat (file_offset h) + k \<le> nlen + 2"
  shows "unat (of_nat (unat (file_offset h) + k) :: u16) = unat (file_offset h) + k"
proof (rule unat_of_nat_fits(2))
  show "unat (file_offset h) + k < 2 ^ 16"
    using assms unat_u16_less [of "ndef_buff_size (ndef h)"] by (simp add: ndef_reading_def)
qed

lemma stored_reading:
  assumes r: "ndef_reading F buf nlen p cc fid h" and k: "unat (file_offset h) + k \<le> nlen + 2"
  shows "ndef_reading F buf nlen p cc fid (stored k F buf h)"
    "unat (file_offset (stored k F buf h)) = unat (file_offset h) + k"
  using r k ndef_reading_bound [OF r k] by (auto simp: ndef_reading_def stored_def Let_def simp del: of_nat_add)

lemma ndef_reading_apdu [simp]:
  "length b = length (hl_apdu_buff h) \<Longrightarrow>
   ndef_reading F buf nlen p cc fid (h\<lparr>hl_apdu_buff := b, transaction_type := ty\<rparr>) = ndef_reading F buf nlen p cc fid h"
  "length b = length (hl_apdu_buff h) \<Longrightarrow>
   ndef_reading F buf nlen p cc fid (h\<lparr>transaction_type := ty, hl_apdu_buff := b\<rparr>) = ndef_reading F buf nlen p cc fid h"
  by (simp_all add: ndef_reading_def)

lemma chunk_read_eq:
  assumes r: "ndef_reading F buf nlen p cc fid h" and k: "unat (file_offset h) + k \<le> nlen + 2" "k \<le> 255"
  defines "h' \<equiv> stored k F buf h" and "off \<equiv> unat (file_offset h) + k"
  shows "ndef_file_chunk_read bo xmit (resp_of (take k (drop (unat (file_offset h)) F))) h t =
    (if off < nlen + 2 then
       t4t_hl_data_exchange bo xmit (apdu_read (of_nat off) (of_nat (min (nlen + 2 - off) (min 255 (unat (max_rapdu_size cc))))))
         (h'\<lparr>transaction_type := NFC_T4T_HL_NDEF_READ\<rparr>) t
     else rbind (be16_at bo (be_bytes 2 (unat fid)) 0) (\<lambda>fid. rbind (t4t_file_assign fid h') (\<lambda>(h, e).
          case e of Some e \<Rightarrow> Ok (h, t, [], Some e)
          | None \<Rightarrow> rbind (hl_callback hl_cb_ndef_read (Hl_ndef_read fid (ndef_buff (ndef h)) (nlen + 2)) h) (\<lambda>ev. Ok (h, t, ev, None)))))"
proof -
  let ?off = "unat (file_offset h)" and ?xs = "take k (drop (unat (file_offset h)) F)"
  have F: "nlen + 2 \<le> length F" "nlen + 2 \<le> length buf" "\<not> unat (ndef_buff_size (ndef h)) < ?off + k"
    using r k by (auto simp: ndef_reading_def)
  then have l: "length ?xs = k" "length ?xs \<le> 255" using k by simp_all
  note src = resp_of_src [OF l(2), unfolded l(1)]
  have w: "wr (take ?off F @ drop ?off buf) ?off ?xs = Ok (take off F @ drop off buf)"
    using F k l(1) by (simp add: wr_def off_def take_add) (simp add: add.commute)
  have b: "ndef_buff (ndef h) = Some (take ?off F @ drop ?off buf)" using r by (simp add: ndef_reading_def)
  have fo: "file_offset h + apdu_len (resp_data (resp_of ?xs)) = of_nat off"
    unfolding resp_of_apdu_len l(1) off_def by simp
  have h': "h\<lparr>ndef := (ndef h)\<lparr>ndef_buff := Some (take off F @ drop off buf)\<rparr>, file_offset := of_nat off\<rparr> = h'"
    by (simp add: h'_def stored_def off_def Let_def)
  have s: "unat (file_offset h') = off" "unat (ndef_nlen (ndef h')) = nlen" "ndef_cc (ndef h') = Some p" "cc_mem h' p = cc"
    "ndef_file_id (ndef h') = be_bytes 2 (unat fid)"
    using stored_reading [OF r k(1)] by (simp_all add: h'_def off_def ndef_reading_def)
  have le: "word_of_int (min (int nlen - (int off - int 2)) (int m)) = (of_nat (min (nlen + 2 - off) m) :: u16)" if "off < nlen + 2" for m
  proof -
    have "min (int nlen - (int off - int 2)) (int m) = int (min (nlen + 2 - off) m)" using that by linarith
    then show ?thesis by simp
  qed
  have o: "file_offset h' = of_nat off" by (simp flip: s(1))
  have ou: "unat (of_nat off :: u16) = off" unfolding off_def by (rule ndef_reading_bound [OF r k(1)])
  show ?thesis
    unfolding ndef_file_chunk_read_def Let_def resp_of_len [OF l(2)] l(1) if_not_P [OF F(3)] src
      rbind.simps b option.case w fo h' s o ou
    by (rule if_cong) (simp_all only: le)
qed

lemma reading_assign:
  assumes r: "ndef_reading F buf nlen p cc fid h" and wf: "cc_wf cc"
    and f: "fid \<in> (file_id \<circ> tlv_value) ` set (cc_blocks cc)"
  shows "\<exists>cc'. nfc_t4t_cc_file_content_set cc \<lparr>content = ndef_buff (ndef h), file_len = file_offset h\<rparr> fid = Ok cc' \<and>
    t4t_file_assign fid h = Ok (h\<lparr>cc_mem := (cc_mem h)(p := cc')\<rparr>, None)"
proof -
  let ?f = "\<lparr>content = ndef_buff (ndef h), file_len = file_offset h\<rparr>"
  let ?P = "\<lambda>j. file_id (tlv_value (cc_blocks cc ! j)) = fid"
  from f obtain j where j: "j < length (cc_blocks cc)" "?P j" by (auto simp: in_set_conv_nth)
  then have "List.find ?P [0..<length (cc_blocks cc)] \<noteq> None" by (auto simp: find_None_iff)
  then obtain i where "List.find ?P [0..<length (cc_blocks cc)] = Some i" by blast
  then have i: "i < length (cc_blocks cc)" "?P i" "\<forall>j < i. \<not> ?P j" by (simp_all add: find_upt_Some)
  obtain cc' where "nfc_t4t_cc_file_content_set cc ?f fid = Ok cc'"
    using cc_content_set_Ok [OF wf i, of ?f] by metis
  moreover have "ndef_cc (ndef h) = Some p" "cc_mem h p = cc" using r by (simp_all add: ndef_reading_def)
  ultimately show ?thesis by (simp add: t4t_file_assign_def)
qed

context hl_transport
begin

abbreviation dialogue :: "byteorder_ops \<Rightarrow> ('g \<Rightarrow> u8 list \<Rightarrow> 'g \<times> u8 list) \<Rightarrow> nat \<Rightarrow> 'g \<Rightarrow> hl_state \<Rightarrow> 't \<Rightarrow>
    ('g \<times> hl_state \<times> 't \<times> hl_event list \<times> errno option) res" where
  "dialogue bo respond \<equiv> hl_loop bo xmit sent deliver respond"

text \<open>A handler's result, followed by the rest of the dialogue.\<close>

abbreviation and_then :: "'t hl_ret \<Rightarrow> 'g \<Rightarrow> ('g \<Rightarrow> hl_state \<Rightarrow> 't \<Rightarrow>
    ('g \<times> hl_state \<times> 't \<times> hl_event list \<times> errno option) res) \<Rightarrow>
    ('g \<times> hl_state \<times> 't \<times> hl_event list \<times> errno option) res" where
  "and_then r g k \<equiv> rbind r (\<lambda>(h, t, ev, e). if ev = [] \<and> e = None then k g h t else Ok (g, h, t, ev, e))"

lemma read_sends:
  assumes bo: "byteorder bo" and t: "ready t" and le: "0 < le" "le \<le> 255" "off < 2 ^ 16"
    and b: "5 \<le> length (hl_apdu_buff h)" "length (hl_apdu_buff h) < 2 ^ 16"
  shows "\<exists>b t'. t4t_hl_data_exchange bo xmit (apdu_read (of_nat off) (of_nat le)) h t =
      Ok (h\<lparr>hl_apdu_buff := b\<rparr>, t', [], None) \<and> length b = length (hl_apdu_buff h) \<and> pending t' (read_binary off le)"
proof -
  let ?c = "apdu_read (of_nat off) (of_nat le)"
  note e = apdu_bytes_read [OF le]
  have c: "apdu_ok ?c"
    unfolding apdu_ok_def e by (simp add: read_binary_def apdu_data_ok_def apdu_read_def nfc_t4t_apdu_comm_clear_def)
  have l: "length (apdu_bytes ?c) = 5" unfolding e by (simp add: read_binary_def)
  from exchange_sends [OF bo t c, of h] b l show ?thesis unfolding e
    by (intro exI [of _ "read_binary off le @ drop (length (read_binary off le)) (hl_apdu_buff h)"]) auto
qed

text \<open>What the application is told when the file has been read.\<close>

abbreviation read_event :: "u8 list \<Rightarrow> u8 list \<Rightarrow> nat \<Rightarrow> u16 \<Rightarrow> hl_event" where
  "read_event F buf nlen fid \<equiv> Hl_ndef_read fid (Some (take (nlen + 2) F @ drop (nlen + 2) buf)) (nlen + 2)"

lemma read_last:
  assumes bo: "byteorder bo" and wf: "cc_wf cc" and f: "fid \<in> (file_id \<circ> tlv_value) ` set (cc_blocks cc)"
    and r: "ndef_reading F buf nlen p cc fid h" and k: "unat (file_offset h) + k = nlen + 2" "k \<le> 255"
  shows "\<exists>h'. ndef_file_chunk_read bo xmit (resp_of (take k (drop (unat (file_offset h)) F))) h t =
      Ok (h', t, [read_event F buf nlen fid], None) \<and>
    nfc_t4t_cc_file_content_set cc \<lparr>content = Some (take (nlen + 2) F @ drop (nlen + 2) buf), file_len = of_nat (nlen + 2)\<rparr> fid =
      Ok (cc_mem h' p)"
proof -
  let ?h = "stored k F buf h"
  have k1: "unat (file_offset h) + k \<le> nlen + 2" and nl: "\<not> unat (file_offset h) + k < nlen + 2" using k(1) by simp_all
  have hs: "ndef_buff (ndef ?h) = Some (take (nlen + 2) F @ drop (nlen + 2) buf)" "file_offset ?h = of_nat (nlen + 2)"
    "hl_cb ?h = hl_cb h"
    unfolding stored_def Let_def k(1) by (simp_all del: of_nat_add)
  obtain cc' where cc': "nfc_t4t_cc_file_content_set cc \<lparr>content = ndef_buff (ndef ?h), file_len = file_offset ?h\<rparr> fid = Ok cc'"
    "t4t_file_assign fid ?h = Ok (?h\<lparr>cc_mem := (cc_mem ?h)(p := cc')\<rparr>, None)"
    using reading_assign [OF stored_reading(1) [OF r k1] wf f] by blast
  have "be16_at bo (be_bytes 2 (unat fid)) 0 = Ok fid" using byteorder.be16_at_put [OF bo, of "[]" fid "[]"] by simp
  moreover have "hl_callback hl_cb_ndef_read x (?h\<lparr>cc_mem := m\<rparr>) = Ok [x]" for x m
    using r hs(3) by (auto simp: hl_callback_def ndef_reading_def)
  ultimately show ?thesis
    using cc' hs unfolding chunk_read_eq [OF r k1 k(2)] if_not_P [OF nl]
    by (intro exI [of _ "?h\<lparr>cc_mem := (cc_mem ?h)(p := cc')\<rparr>"]) simp
qed

lemma read_next:
  assumes bo: "byteorder bo" and tag: "t4t_reads respond sel" and mle: "0 < max_rapdu_size cc"
    and c: "min 255 (unat (max_rapdu_size cc)) + 2 \<le> cap" and r: "ndef_reading F buf nlen p cc fid h"
    and t: "ready t" and g: "sel g = F" and k: "unat (file_offset h) + k < nlen + 2" "k \<le> 255"
  shows "\<exists>le g1 h1 t1. 0 < le \<and> le \<le> 255 \<and> unat (file_offset h1) + le \<le> nlen + 2 \<and> sel g1 = F \<and> ready t1 \<and>
    ndef_reading F buf nlen p cc fid h1 \<and> unat (file_offset h1) = unat (file_offset h) + k \<and>
    (\<forall>n. and_then (ndef_file_chunk_read bo xmit (resp_of (take k (drop (unat (file_offset h)) F))) h t) g (dialogue bo respond (Suc n)) =
      and_then (ndef_file_chunk_read bo xmit (resp_of (take le (drop (unat (file_offset h1)) F))) h1 t1) g1 (dialogue bo respond n))"
proof -
  have k1: "unat (file_offset h) + k \<le> nlen + 2" using k(1) by simp
  define off where "off = unat (file_offset h) + k"
  define h1 where "h1 = (stored k F buf h)\<lparr>transaction_type := NFC_T4T_HL_NDEF_READ\<rparr>"
  define le where "le = min (nlen + 2 - off) (min 255 (unat (max_rapdu_size cc)))"
  note s = stored_reading [OF r k1]
  have le: "0 < le" "le \<le> 255" "off + le \<le> nlen + 2" "le + 2 \<le> cap"
    using k mle c by (auto simp: le_def off_def word_less_nat_alt)
  have ol: "off < nlen + 2" using k(1) by (simp add: off_def)
  have o: "off < 2 ^ 16" using s(2) unat_u16_less [of "file_offset (stored k F buf h)"] by (simp add: off_def)
  have b: "5 \<le> length (hl_apdu_buff h1)" "length (hl_apdu_buff h1) < 2 ^ 16" using s(1) by (simp_all add: h1_def ndef_reading_def)
  from read_sends [OF bo t le(1,2) o b] obtain a t1 where
    x: "t4t_hl_data_exchange bo xmit (apdu_read (of_nat off) (of_nat le)) h1 t = Ok (h1\<lparr>hl_apdu_buff := a\<rparr>, t1, [], None)"
    "length a = length (hl_apdu_buff h1)" "pending t1 (read_binary off le)" by blast
  have F: "nlen + 2 \<le> length F" using r by (simp add: ndef_reading_def)
  have "off < 2 ^ 15" using ol r by (simp add: ndef_reading_def)
  then have "0 < le \<and> le \<le> 255 \<and> off < 2 ^ 15 \<and> off + le \<le> length (sel g)" using le F g by simp
  with tag g obtain g1 where g1: "respond g (read_binary off le) = (g1, take le (drop off F) @ [0x90, 0x00])" "sel g1 = F"
    unfolding t4t_reads_def by metis
  have lx: "length (take le (drop off F)) \<le> 255" "length (take le (drop off F)) + 2 \<le> cap" using le F by simp_all
  from loop_round [where respond = respond and g = g, OF bo x(3) g1(1) lx, of "h1\<lparr>hl_apdu_buff := a\<rparr>"] obtain t2 where t2: "ready t2"
    "\<And>n. dialogue bo respond (Suc n) g (h1\<lparr>hl_apdu_buff := a\<rparr>) t1 =
      and_then (on_rapdu_succes bo xmit (resp_of (take le (drop off F))) (h1\<lparr>hl_apdu_buff := a\<rparr>) t2) g1 (dialogue bo respond n)"
    by blast
  have h1: "ndef_reading F buf nlen p cc fid (h1\<lparr>hl_apdu_buff := a\<rparr>)" "unat (file_offset (h1\<lparr>hl_apdu_buff := a\<rparr>)) = off"
    using s x(2) by (simp_all add: h1_def off_def)
  have rs: "on_rapdu_succes bo xmit (resp_of xs) (h1\<lparr>hl_apdu_buff := a\<rparr>) t2 =
      ndef_file_chunk_read bo xmit (resp_of xs) (h1\<lparr>hl_apdu_buff := a\<rparr>) t2" for xs
    by (simp add: on_rapdu_succes_def h1_def)
  have "ndef_file_chunk_read bo xmit (resp_of (take k (drop (unat (file_offset h)) F))) h t = Ok (h1\<lparr>hl_apdu_buff := a\<rparr>, t1, [], None)"
    unfolding chunk_read_eq [OF r k1 k(2)] off_def [symmetric] le_def [symmetric] h1_def [symmetric] if_P [OF ol] by (rule x(1))
  with t2 rs le g1(2) h1 show ?thesis
    by (intro exI [of _ le] exI [of _ g1] exI [of _ "h1\<lparr>hl_apdu_buff := a\<rparr>"] exI [of _ t2]) (simp only: off_def rbind.simps split, simp)
qed

lemma read_rounds:
  assumes bo: "byteorder bo" and tag: "t4t_reads respond sel" and wf: "cc_wf cc"
    and f: "fid \<in> (file_id \<circ> tlv_value) ` set (cc_blocks cc)" and mle: "0 < max_rapdu_size cc"
    and c: "min 255 (unat (max_rapdu_size cc)) + 2 \<le> cap"
  shows "ndef_reading F buf nlen p cc fid h \<Longrightarrow> ready t \<Longrightarrow> sel g = F \<Longrightarrow> 0 < k \<Longrightarrow> k \<le> 255 \<Longrightarrow>
    unat (file_offset h) + k \<le> nlen + 2 \<Longrightarrow>
    \<exists>N g' h' t'. N \<le> nlen + 2 - (unat (file_offset h) + k) \<and> (\<forall>n\<ge>N.
      and_then (ndef_file_chunk_read bo xmit (resp_of (take k (drop (unat (file_offset h)) F))) h t) g (dialogue bo respond n) =
      Ok (g', h', t', [read_event F buf nlen fid], None)) \<and> sel g' = F \<and> ready t' \<and>
      nfc_t4t_cc_file_content_set cc \<lparr>content = Some (take (nlen + 2) F @ drop (nlen + 2) buf), file_len = of_nat (nlen + 2)\<rparr> fid =
        Ok (cc_mem h' p)"
proof (induction "nlen + 2 - unat (file_offset h)" arbitrary: h t g k rule: less_induct)
  case less
  note r = less.prems(1) and k = less.prems(6,5)
  show ?case
  proof (cases "unat (file_offset h) + k < nlen + 2")
    case False
    then have "unat (file_offset h) + k = nlen + 2" using k(1) by simp
    from read_last [OF bo wf f r this k(2), of t] less.prems(2,3) show ?thesis
      by (elim exE) (rule exI [of _ 0], rule exI [of _ g], auto)
  next
    case True
    from read_next [OF bo tag mle c r less.prems(2,3) True k(2)] obtain le g1 h1 t1 where
      n: "0 < le" "le \<le> 255" "unat (file_offset h1) + le \<le> nlen + 2" "sel g1 = F" "ready t1"
      "ndef_reading F buf nlen p cc fid h1" "unat (file_offset h1) = unat (file_offset h) + k"
      "\<And>n. and_then (ndef_file_chunk_read bo xmit (resp_of (take k (drop (unat (file_offset h)) F))) h t) g (dialogue bo respond (Suc n)) =
      and_then (ndef_file_chunk_read bo xmit (resp_of (take le (drop (unat (file_offset h1)) F))) h1 t1) g1 (dialogue bo respond n)"
      by blast
    have "nlen + 2 - unat (file_offset h1) < nlen + 2 - unat (file_offset h)" using n(7) True less.prems(4) by simp
    from less.hyps [OF this n(6,5,4,1,2,3)] obtain N g' h' t' where
      N: "N \<le> nlen + 2 - (unat (file_offset h1) + le)" "\<And>m. m \<ge> N \<Longrightarrow>
        and_then (ndef_file_chunk_read bo xmit (resp_of (take le (drop (unat (file_offset h1)) F))) h1 t1) g1 (dialogue bo respond m) =
        Ok (g', h', t', [read_event F buf nlen fid], None)" and
      e: "sel g' = F" "ready t'"
      "nfc_t4t_cc_file_content_set cc \<lparr>content = Some (take (nlen + 2) F @ drop (nlen + 2) buf), file_len = of_nat (nlen + 2)\<rparr> fid =
        Ok (cc_mem h' p)" by blast
    have "and_then (ndef_file_chunk_read bo xmit (resp_of (take k (drop (unat (file_offset h)) F))) h t) g (dialogue bo respond m) =
        Ok (g', h', t', [read_event F buf nlen fid], None)" if m: "m \<ge> Suc N" for m
    proof -
      from m obtain m0 where m0: "m = Suc m0" "N \<le> m0" by (cases m) auto
      show ?thesis unfolding m0(1) n(8) by (rule N(2) [OF m0(2)])
    qed
    moreover have "Suc N \<le> nlen + 2 - (unat (file_offset h) + k)" using N(1) n(1,3,7) by simp
    ultimately show ?thesis using e by blast
  qed
qed

end

text \<open>The file as the tag has it, and what the application must provide for reading it.\<close>

definition ndef_read_setup :: "u8 list \<Rightarrow> u8 list \<Rightarrow> u16 \<Rightarrow> nat \<Rightarrow> cc_ptr \<Rightarrow> u16 \<Rightarrow> nat \<Rightarrow> hl_state \<Rightarrow> bool" where
  "ndef_read_setup F buf len nlen p fid cap h \<longleftrightarrow>
     take 2 F = be_bytes 2 nlen \<and> nlen + 2 \<le> 2 ^ 15 \<and> nlen + 2 \<le> length F \<and> nlen + 2 \<le> unat len \<and> unat len \<le> length buf \<and>
     cc_wf (cc_mem h p) \<and> fid \<in> (file_id \<circ> tlv_value) ` set (cc_blocks (cc_mem h p)) \<and>
     0 < max_rapdu_size (cc_mem h p) \<and> min 255 (unat (max_rapdu_size (cc_mem h p))) + 2 \<le> cap \<and> 4 \<le> cap \<and>
     ndef_file_id (ndef h) = be_bytes 2 (unat fid) \<and> (\<exists>cb. hl_cb h = Some cb \<and> hl_cb_ndef_read cb) \<and>
     5 \<le> length (hl_apdu_buff h) \<and> length (hl_apdu_buff h) < 2 ^ 16"

lemma nlen_read_eq:
  assumes bo: "byteorder bo" and F: "take 2 F = be_bytes 2 nlen" "nlen < 2 ^ 16"
  shows "on_ndef_nlen_read bo (resp_of (take 2 F)) h = Ok (h\<lparr>ndef := (ndef h)\<lparr>ndef_nlen := of_nat nlen\<rparr>\<rparr>, None)"
proof -
  have u: "unat (of_nat nlen :: u16) = nlen" by (rule unat_of_nat_fits(2) [OF F(2)])
  have "be16_at bo (be_bytes 2 nlen @ [0x90, 0x00]) 0 = Ok (of_nat nlen)"
    using byteorder.be16_at_put [OF bo, of "[]" "of_nat nlen" "[0x90, 0x00]"] u by simp
  moreover have "be_bytes 2 nlen \<noteq> []" by (simp add: be_bytes_2)
  ultimately show ?thesis unfolding F(1) by (simp add: on_ndef_nlen_read_def resp_of_def)
qed

context hl_transport
begin

lemma ndef_read_run:
  assumes bo: "byteorder bo" and tag: "t4t_reads respond sel" and g: "sel g = F" and t: "ready t"
    and s: "ndef_read_setup F buf len nlen p fid cap h"
  shows "\<exists>h1 t1 N g' h' t'. nfc_t4t_hl_procedure_ndef_read bo xmit (Some p) (Some buf) len h t = Ok (h1, t1, [], None) \<and>
    N \<le> nlen + 1 \<and> (\<forall>n\<ge>N. dialogue bo respond n g h1 t1 = Ok (g', h', t', [read_event F buf nlen fid], None)) \<and>
    sel g' = F \<and> ready t' \<and>
    nfc_t4t_cc_file_content_set (cc_mem h p)
      \<lparr>content = Some (take (nlen + 2) F @ drop (nlen + 2) buf), file_len = of_nat (nlen + 2)\<rparr> fid = Ok (cc_mem h' p)"
proof -
  let ?cc = "cc_mem h p"
  have st: "take 2 F = be_bytes 2 nlen" "nlen + 2 \<le> length F" "nlen + 2 \<le> unat len" "cc_wf ?cc"
    "fid \<in> (file_id \<circ> tlv_value) ` set (cc_blocks ?cc)" "0 < max_rapdu_size ?cc"
    "min 255 (unat (max_rapdu_size ?cc)) + 2 \<le> cap" "4 \<le> cap" "len \<noteq> 0" "nlen < 2 ^ 16"
    using s unat_u16_less [of len] by (auto simp: ndef_read_setup_def)
  define h0 where "h0 = h\<lparr>file_offset := 0, ndef := (ndef h)\<lparr>ndef_buff := Some buf, ndef_buff_size := len, ndef_cc := Some p\<rparr>,
      transaction_type := NFC_T4T_HL_NDEF_NLEN_READ\<rparr>"
  have b: "5 \<le> length (hl_apdu_buff h0)" "length (hl_apdu_buff h0) < 2 ^ 16" using s by (simp_all add: h0_def ndef_read_setup_def)
  from read_sends [OF bo t _ _ _ b, of 2 0] obtain a t1 where
    x: "t4t_hl_data_exchange bo xmit (apdu_read (of_nat 0) (of_nat 2)) h0 t = Ok (h0\<lparr>hl_apdu_buff := a\<rparr>, t1, [], None)"
    "length a = length (hl_apdu_buff h0)" "pending t1 (read_binary 0 2)" by auto
  let ?h1 = "h0\<lparr>hl_apdu_buff := a\<rparr>"
  let ?h2 = "?h1\<lparr>ndef := (ndef ?h1)\<lparr>ndef_nlen := of_nat nlen\<rparr>\<rparr>"
  have "0 < (2 :: nat) \<and> (2 :: nat) \<le> 255 \<and> (0 :: nat) < 2 ^ 15 \<and> 0 + 2 \<le> length (sel g)" using st(2) g by simp
  with tag g obtain g1 where g1: "respond g (read_binary 0 2) = (g1, take 2 (drop 0 F) @ [0x90, 0x00])" "sel g1 = F"
    unfolding t4t_reads_def by metis
  have lx: "length (take 2 (drop 0 F)) \<le> 255" "length (take 2 (drop 0 F)) + 2 \<le> cap" using st by simp_all
  from loop_round [where respond = respond and g = g, OF bo x(3) g1(1) lx, of ?h1] obtain t2 where t2: "ready t2"
    "\<And>n. dialogue bo respond (Suc n) g ?h1 t1 =
      and_then (on_rapdu_succes bo xmit (resp_of (take 2 (drop 0 F))) ?h1 t2) g1 (dialogue bo respond n)" by blast
  have r: "ndef_reading F buf nlen p ?cc fid ?h2"
    using s x(2) unat_of_nat_fits(2) [OF st(10)] by (simp add: ndef_reading_def ndef_read_setup_def h0_def)
  have o: "unat (file_offset ?h2) = 0" by (simp add: h0_def)
  have rs: "on_rapdu_succes bo xmit (resp_of (take 2 (drop 0 F))) ?h1 t2 =
      ndef_file_chunk_read bo xmit (resp_of (take 2 (drop 0 F))) ?h2 t2"
    using nlen_read_eq [OF bo st(1,10), of ?h1] by (simp add: on_rapdu_succes_def h0_def)
  from read_rounds [OF bo tag st(4-7) r t2(1) g1(2), of 2, unfolded o] obtain N g' h' t' where
    N: "N \<le> nlen" "\<And>n. n \<ge> N \<Longrightarrow> and_then (ndef_file_chunk_read bo xmit (resp_of (take 2 (drop 0 F))) ?h2 t2) g1 (dialogue bo respond n) =
      Ok (g', h', t', [read_event F buf nlen fid], None)" "sel g' = F" "ready t'"
    "nfc_t4t_cc_file_content_set ?cc \<lparr>content = Some (take (nlen + 2) F @ drop (nlen + 2) buf), file_len = of_nat (nlen + 2)\<rparr> fid =
      Ok (cc_mem h' p)" by auto
  have "dialogue bo respond n g ?h1 t1 = Ok (g', h', t', [read_event F buf nlen fid], None)" if n: "n \<ge> Suc N" for n
  proof -
    from n obtain m where m: "n = Suc m" "N \<le> m" by (cases n) auto
    show ?thesis unfolding m(1) t2(2) rs by (rule N(2) [OF m(2)])
  qed
  moreover have "nfc_t4t_hl_procedure_ndef_read bo xmit (Some p) (Some buf) len h t = Ok (?h1, t1, [], None)"
    using x(1) st(9) by (simp add: nfc_t4t_hl_procedure_ndef_read_def h0_def)
  ultimately show ?thesis using N by (intro exI [of _ ?h1] exI [of _ t1] exI [of _ "Suc N"]) auto
qed

end

section \<open>Updating the NDEF file\<close>

text \<open>
  The file on the tag when the new content \<open>D\<close> has been written up to an offset: the length field is
  zero, so that a reader finds no message.
\<close>

definition partial_file :: "u8 list \<Rightarrow> u8 list \<Rightarrow> nat \<Rightarrow> u8 list" where
  "partial_file D F off = [0, 0] @ take (off - 2) (drop 2 D) @ drop off F"

definition ndef_updating :: "u8 list \<Rightarrow> cc_ptr \<Rightarrow> u16 \<Rightarrow> hl_state \<Rightarrow> bool" where
  "ndef_updating D p fid h \<longleftrightarrow>
     (\<exists>b. ndef_buff (ndef h) = Some b \<and> length D \<le> length b \<and> take (length D) b = D) \<and>
     unat (ndef_buff_size (ndef h)) = length D \<and> length D \<le> 2 ^ 15 \<and> 2 \<le> unat (file_offset h) \<and> unat (file_offset h) \<le> length D \<and>
     be_bytes 2 (unat (ndef_nlen (ndef h))) = take 2 D \<and> ndef_cc (ndef h) = Some p \<and>
     0 < max_capdu_size (cc_mem h p) \<and> min 255 (unat (max_capdu_size (cc_mem h p))) + 5 \<le> length (hl_apdu_buff h) \<and>
     7 \<le> length (hl_apdu_buff h) \<and> length (hl_apdu_buff h) < 2 ^ 16 \<and>
     ndef_file_id (ndef h) = be_bytes 2 (unat fid) \<and> (\<exists>cb. hl_cb h = Some cb \<and> hl_cb_ndef_updated cb)"

lemma partial_file_step:
  assumes "2 \<le> off" "off + n \<le> length D" "length D \<le> length F"
  shows "take off (partial_file D F off) @ take n (drop off D) @ drop (off + n) (partial_file D F off) =
    partial_file D F (off + n)"
proof -
  obtain m where m: "off = m + 2" using assms(1) by (metis add.commute le_Suc_ex)
  then have "length (take (off - 2) (drop 2 D)) = m" using assms by simp
  then have "take off (partial_file D F off) = [0, 0] @ take (off - 2) (drop 2 D)"
    "drop (off + n) (partial_file D F off) = drop (off + n) F"
    by (simp_all add: m partial_file_def add.commute)
  moreover have "take (off + n - 2) (drop 2 D) = take (off - 2) (drop 2 D) @ take n (drop off D)"
    using take_add [of m n "drop 2 D"] by (simp add: m)
  ultimately show ?thesis by (simp add: partial_file_def)
qed

lemma length_partial_file: "2 \<le> off \<Longrightarrow> off \<le> length D \<Longrightarrow> length D \<le> length F \<Longrightarrow> length (partial_file D F off) = length F"
  by (simp add: partial_file_def)

lemma partial_file_end:
  assumes "2 \<le> length D"
  shows "take 2 D @ drop 2 (partial_file D F (length D)) = D @ drop (length D) F"
proof -
  have "drop 2 (partial_file D F (length D)) = drop 2 D @ drop (length D) F" by (simp add: partial_file_def)
  then show ?thesis by (metis append.assoc append_take_drop_id)
qed

text \<open>
  Whether a run has ended with the new content on the tag or goes on with an empty file.
\<close>

definition update_after :: "('t \<Rightarrow> bool) \<Rightarrow> ('g \<Rightarrow> u8 list) \<Rightarrow> u8 list \<Rightarrow> u16 \<Rightarrow> bool \<Rightarrow>
    ('g \<times> hl_state \<times> 't \<times> hl_event list \<times> errno option) res \<Rightarrow> bool" where
  "update_after ready sel new fid fin r \<longleftrightarrow>
     (\<exists>g h t. if fin then r = Ok (g, h, t, [Hl_ndef_updated fid], None) \<and> sel g = new \<and> ready t
              else r = Ok (g, h, t, [], None) \<and> take 2 (sel g) = [0, 0])"

lemma updating_apdu [simp]:
  "length b = length (hl_apdu_buff h) \<Longrightarrow>
   ndef_updating D p fid (h\<lparr>transaction_type := ty, hl_apdu_buff := b\<rparr>) = ndef_updating D p fid h"
  by (simp add: ndef_updating_def)

context hl_transport
begin

lemma update_sends:
  assumes bo: "byteorder bo" and t: "ready t" and n: "0 < n" "n \<le> 255" "n \<le> length xs" "off < 2 ^ 16"
    and b: "n + 5 \<le> length (hl_apdu_buff h)" "length (hl_apdu_buff h) < 2 ^ 16"
  shows "\<exists>b t'. t4t_hl_data_exchange bo xmit (apdu_update (of_nat off) (Some xs) (of_nat n)) h t =
      Ok (h\<lparr>hl_apdu_buff := b\<rparr>, t', [], None) \<and> length b = length (hl_apdu_buff h) \<and>
      pending t' (update_binary off (take n xs))"
proof -
  let ?c = "apdu_update (of_nat off) (Some xs) (of_nat n)"
  note e = apdu_bytes_update [OF n(2-4)]
  have u: "unat (of_nat n :: u16) = n" by (rule unat_of_nat_fits(2)) (use n in simp)
  have l: "length (update_binary off (take n xs)) = n + 5" using n(3) by (simp add: update_binary_def)
  have "(of_nat n :: u16) \<noteq> 0" using u n(1) by auto
  then have c: "apdu_ok ?c" unfolding apdu_ok_def e l using n u by (simp add: apdu_data_ok_def apdu_update_def)
  from exchange_sends [OF bo t c, unfolded e l, OF b] show ?thesis
    by (elim exE conjE) (rule exI [of _ "update_binary off (take n xs) @ drop (n + 5) (hl_apdu_buff h)"], use b l in auto)
qed

text \<open>One more piece of the content goes to the tag.\<close>

lemma update_next:
  assumes bo: "byteorder bo" and tag: "t4t_updates respond sel" and c: "2 \<le> cap" and F: "length D \<le> length F"
    and u: "ndef_updating D p fid h" and t: "ready t" and g: "sel g = partial_file D F (unat (file_offset h))"
    and l: "unat (file_offset h) < length D"
  shows "\<exists>g1 h1 t1 h2 t2. ndef_file_chunk_update bo xmit h t = Ok (h1, t1, [], None) \<and> ready t2 \<and>
    ndef_updating D p fid h2 \<and> unat (file_offset h) < unat (file_offset h2) \<and> sel g1 = partial_file D F (unat (file_offset h2)) \<and>
    (\<forall>n. dialogue bo respond (Suc n) g h1 t1 = and_then (ndef_file_chunk_update bo xmit h2 t2) g1 (dialogue bo respond n))"
proof -
  define off n where "off = unat (file_offset h)" and "n = min (length D - off) (min 255 (unat (max_capdu_size (cc_mem h p))))"
  obtain b where b: "ndef_buff (ndef h) = Some b" "length D \<le> length b" "take (length D) b = D"
    using u by (auto simp: ndef_updating_def)
  have hs: "unat (ndef_buff_size (ndef h)) = length D" "2 \<le> off" "ndef_cc (ndef h) = Some p" "0 < max_capdu_size (cc_mem h p)"
    "min 255 (unat (max_capdu_size (cc_mem h p))) + 5 \<le> length (hl_apdu_buff h)" "length (hl_apdu_buff h) < 2 ^ 16"
    using u by (simp_all add: ndef_updating_def off_def)
  have n: "0 < n" "n \<le> 255" "off + n \<le> length D" "n \<le> length (drop off b)" "n + 5 \<le> length (hl_apdu_buff h)"
    using hs l b(2) by (auto simp: n_def off_def word_less_nat_alt)
  have D: "length D < 2 ^ 16" using hs(1) unat_u16_less [of "ndef_buff_size (ndef h)"] by simp
  have o: "off < 2 ^ 16" "file_offset h = of_nat off" "unat (of_nat (off + n) :: u16) = off + n"
    using n(3) D by (simp_all add: off_def unat_of_nat_fits del: of_nat_add)
  have x: "take n (drop off b) = take n (drop off D)"
  proof -
    have "take n (drop off (take (length D) b)) = take n (drop off b)" using n(3) by (simp add: drop_take)
    then show ?thesis unfolding b(3) by simp
  qed
  define h0 where "h0 = h\<lparr>file_offset := of_nat (off + n), transaction_type := NFC_T4T_HL_NDEF_UPDATE\<rparr>"
  have "n + 5 \<le> length (hl_apdu_buff h0)" "length (hl_apdu_buff h0) < 2 ^ 16" using n hs by (simp_all add: h0_def)
  from update_sends [OF bo t n(1,2,4) o(1) this, unfolded x] obtain a t1 where
    e: "t4t_hl_data_exchange bo xmit (apdu_update (of_nat off) (Some (drop off b)) (of_nat n)) h0 t = Ok (h0\<lparr>hl_apdu_buff := a\<rparr>, t1, [], None)"
    "length a = length (hl_apdu_buff h0)" "pending t1 (update_binary off (take n (drop off D)))" by blast
  have cu: "ndef_file_chunk_update bo xmit h t = Ok (h0\<lparr>hl_apdu_buff := a\<rparr>, t1, [], None)"
  proof -
    have lt: "file_offset h < ndef_buff_size (ndef h)" using l hs(1) by (simp add: word_less_nat_alt)
    have fo: "file_offset h + of_nat n = of_nat (off + n)" by (simp add: o(2))
    show ?thesis
      unfolding ndef_file_chunk_update_def if_P [OF lt] hs(1,3) option.case Let_def b(1) option.map
        off_def [symmetric] n_def [symmetric] fo h0_def [symmetric] o(2) [symmetric]
      using e(1) by (simp add: o(2))
  qed
  have "take n (drop off D) \<noteq> [] \<and> length (take n (drop off D)) \<le> 255 \<and> off < 2 ^ 15 \<and> off + length (take n (drop off D)) \<le> length (sel g)"
    using n F hs(2) length_partial_file [of off D F] l g u by (auto simp: off_def ndef_updating_def)
  with tag obtain g1 where g1: "respond g (update_binary off (take n (drop off D))) = (g1, [] @ [0x90, 0x00])"
    "sel g1 = take off (sel g) @ take n (drop off D) @ drop (off + length (take n (drop off D))) (sel g)"
    unfolding t4t_updates_def by (metis append_Nil)
  have s1: "sel g1 = partial_file D F (off + n)"
    using g1(2) partial_file_step [OF hs(2) n(3) F] n(3) by (simp add: g off_def [symmetric])
  from loop_round [where respond = respond and g = g, OF bo e(3) g1(1), of "h0\<lparr>hl_apdu_buff := a\<rparr>"] c obtain t2 where t2: "ready t2"
    "\<And>n. dialogue bo respond (Suc n) g (h0\<lparr>hl_apdu_buff := a\<rparr>) t1 =
      and_then (on_rapdu_succes bo xmit (resp_of []) (h0\<lparr>hl_apdu_buff := a\<rparr>) t2) g1 (dialogue bo respond n)" by auto
  have "on_rapdu_succes bo xmit (resp_of []) (h0\<lparr>hl_apdu_buff := a\<rparr>) t2 = ndef_file_chunk_update bo xmit (h0\<lparr>hl_apdu_buff := a\<rparr>) t2"
    by (simp add: on_rapdu_succes_def h0_def)
  moreover have "ndef_updating D p fid (h0\<lparr>hl_apdu_buff := a\<rparr>)" "unat (file_offset (h0\<lparr>hl_apdu_buff := a\<rparr>)) = off + n"
    using u e(2) n(3) hs(2) o(3) by (auto simp: ndef_updating_def h0_def simp del: of_nat_add)
  ultimately show ?thesis using cu t2 s1 n(1)
    by (intro exI [of _ g1] exI [of _ "h0\<lparr>hl_apdu_buff := a\<rparr>"] exI [of _ t1] exI [of _ "h0\<lparr>hl_apdu_buff := a\<rparr>"] exI [of _ t2])
      (simp add: off_def)
qed

end

context hl_transport
begin

text \<open>All pieces are written: the length field is set, and the application is told.\<close>

lemma update_last:
  assumes bo: "byteorder bo" and tag: "t4t_updates respond sel" and c: "2 \<le> cap" and F: "length D \<le> length F"
    and u: "ndef_updating D p fid h" and t: "ready t" and g: "sel g = partial_file D F (unat (file_offset h))"
    and l: "unat (file_offset h) = length D"
  shows "\<exists>g1 h1 t1 h2 t2. ndef_file_chunk_update bo xmit h t = Ok (h1, t1, [], None) \<and> ready t2 \<and>
    sel g1 = D @ drop (length D) F \<and>
    (\<forall>n. dialogue bo respond (Suc n) g h1 t1 = Ok (g1, h2, t2, [Hl_ndef_updated fid], None))"
proof -
  define h0 where "h0 = h\<lparr>transaction_type := NFC_T4T_HL_NDEF_NLEN_UPDATE\<rparr>"
  have hs: "unat (ndef_buff_size (ndef h)) = length D" "2 \<le> length D" "be_bytes 2 (unat (ndef_nlen (ndef h))) = take 2 D"
    "7 \<le> length (hl_apdu_buff h)" "length (hl_apdu_buff h) < 2 ^ 16"
    using u by (simp_all add: ndef_updating_def l)
  have "2 + 5 \<le> length (hl_apdu_buff h0)" "length (hl_apdu_buff h0) < 2 ^ 16" using hs by (simp_all add: h0_def)
  from update_sends [OF bo t _ _ _ _ this, of "take 2 D" 0] hs(2) obtain a t1 where
    e: "t4t_hl_data_exchange bo xmit (apdu_update (of_nat 0) (Some (take 2 D)) (of_nat 2)) h0 t = Ok (h0\<lparr>hl_apdu_buff := a\<rparr>, t1, [], None)"
    "pending t1 (update_binary 0 (take 2 D))" by auto
  let ?h1 = "h0\<lparr>hl_apdu_buff := a\<rparr>"
  have nl: "\<not> file_offset h < ndef_buff_size (ndef h)" using l hs(1) by (simp add: word_less_nat_alt)
  have cu: "ndef_file_chunk_update bo xmit h t = Ok (?h1, t1, [], None)"
    using e(1) unfolding ndef_file_chunk_update_def if_not_P [OF nl] byteorder.put_be16 [OF bo] hs(3) h0_def [symmetric] by simp
  have "take 2 D \<noteq> [] \<and> length (take 2 D) \<le> 255 \<and> (0 :: nat) < 2 ^ 15 \<and> 0 + length (take 2 D) \<le> length (sel g)"
    using hs(2) F length_partial_file [of "length D" D F] g l by auto
  with tag obtain g1 where g1: "respond g (update_binary 0 (take 2 D)) = (g1, [] @ [0x90, 0x00])"
    "sel g1 = take 0 (sel g) @ take 2 D @ drop (0 + length (take 2 D)) (sel g)"
    unfolding t4t_updates_def by (metis append_Nil)
  have l2: "0 + length (take 2 D) = 2" using hs(2) by simp
  have s1: "sel g1 = D @ drop (length D) F"
    unfolding g1(2) g l l2 by (simp add: partial_file_end [OF hs(2)])
  from loop_round [where respond = respond and g = g, OF bo e(2) g1(1), of ?h1] c obtain t2 where t2: "ready t2"
    "\<And>n. dialogue bo respond (Suc n) g ?h1 t1 =
      and_then (on_rapdu_succes bo xmit (resp_of []) ?h1 t2) g1 (dialogue bo respond n)" by auto
  obtain cb where cb: "hl_cb h = Some cb" "hl_cb_ndef_updated cb" "ndef_file_id (ndef h) = be_bytes 2 (unat fid)"
    using u by (auto simp: ndef_updating_def)
  have "on_rapdu_succes bo xmit (resp_of []) ?h1 t2 = Ok (?h1, t2, [Hl_ndef_updated fid], None)"
    using byteorder.be16_at_put [OF bo, of "[]" fid "[]"] cb
    by (simp add: on_rapdu_succes_def on_ndef_nlen_update_def hl_callback_def h0_def)
  with cu t2 s1 show ?thesis
    by (intro exI [of _ g1] exI [of _ ?h1] exI [of _ t1] exI [of _ ?h1] exI [of _ t2]) simp
qed

lemma update_rounds:
  assumes bo: "byteorder bo" and tag: "t4t_updates respond sel" and c: "2 \<le> cap" and F: "length D \<le> length F"
  shows "ndef_updating D p fid h \<Longrightarrow> ready t \<Longrightarrow> sel g = partial_file D F (unat (file_offset h)) \<Longrightarrow>
    \<exists>N. N \<le> Suc (length D - unat (file_offset h)) \<and> (\<forall>n. update_after ready sel (D @ drop (length D) F) fid (N \<le> n)
      (and_then (ndef_file_chunk_update bo xmit h t) g (dialogue bo respond n)))"
proof (induction "length D - unat (file_offset h)" arbitrary: h t g rule: less_induct)
  case less
  note u = less.prems(1) and t = less.prems(2) and g = less.prems(3)
  have z: "take 2 (sel g) = [0, 0]" by (simp add: g partial_file_def)
  show ?case
  proof (cases "unat (file_offset h) < length D")
    case False
    then have l: "unat (file_offset h) = length D" using u by (simp add: ndef_updating_def)
    obtain g1 h1 t1 h2 t2 where r: "ndef_file_chunk_update bo xmit h t = Ok (h1, t1, [], None)" "ready t2"
      "sel g1 = D @ drop (length D) F"
      "\<And>n. dialogue bo respond (Suc n) g h1 t1 = Ok (g1, h2, t2, [Hl_ndef_updated fid], None)"
      using update_last [OF bo tag c F u t g l] by blast
    have "update_after ready sel (D @ drop (length D) F) fid (1 \<le> n)
        (and_then (ndef_file_chunk_update bo xmit h t) g (dialogue bo respond n))" for n
      using r z by (cases n) (simp_all only: update_after_def rbind.simps split, auto)
    then show ?thesis by (intro exI [of _ 1]) simp
  next
    case True
    obtain g1 h1 t1 h2 t2 where r: "ndef_file_chunk_update bo xmit h t = Ok (h1, t1, [], None)" "ready t2"
      "ndef_updating D p fid h2" "unat (file_offset h) < unat (file_offset h2)" "sel g1 = partial_file D F (unat (file_offset h2))"
      "\<And>n. dialogue bo respond (Suc n) g h1 t1 = and_then (ndef_file_chunk_update bo xmit h2 t2) g1 (dialogue bo respond n)"
      using update_next [OF bo tag c F u t g True] by blast
    have "length D - unat (file_offset h2) < length D - unat (file_offset h)" using r(4) True by simp
    from less.hyps [OF this r(3,2,5)] obtain N where
      N: "N \<le> Suc (length D - unat (file_offset h2))" "\<And>n. update_after ready sel (D @ drop (length D) F) fid (N \<le> n)
        (and_then (ndef_file_chunk_update bo xmit h2 t2) g1 (dialogue bo respond n))" by blast
    have "update_after ready sel (D @ drop (length D) F) fid (Suc N \<le> n)
        (and_then (ndef_file_chunk_update bo xmit h t) g (dialogue bo respond n))" for n
    proof (cases n)
      case 0
      then show ?thesis using r(1) z by (simp add: update_after_def)
    next
      case (Suc m)
      have "and_then (ndef_file_chunk_update bo xmit h t) g (dialogue bo respond (Suc m)) =
          and_then (ndef_file_chunk_update bo xmit h2 t2) g1 (dialogue bo respond m)"
        using r(1,6) by simp
      then show ?thesis using N(2) [of m] unfolding Suc by simp
    qed
    moreover have "Suc N \<le> Suc (length D - unat (file_offset h))"
    proof -
      have "unat (file_offset h2) \<le> length D" using r(3) by (simp add: ndef_updating_def)
      then show ?thesis using N(1) r(4) by linarith
    qed
    ultimately show ?thesis by blast
  qed
qed

end

text \<open>
  What the application must provide for an update with the content \<open>D\<close>: the content starts with its
  length, and the Capability Container describes a file that is large enough. For the update to
  succeed a command with the largest piece must also fit the command buffer.
\<close>

definition ndef_update_args :: "u8 list \<Rightarrow> u8 list \<Rightarrow> u16 \<Rightarrow> cc_ptr \<Rightarrow> u16 \<Rightarrow> hl_state \<Rightarrow> bool" where
  "ndef_update_args D data len p fid h \<longleftrightarrow>
     unat len \<le> length data \<and> D = take (unat len) data \<and> 2 \<le> length D \<and> length D \<le> 2 ^ 15 \<and> take 2 D = be_bytes 2 (length D - 2) \<and>
     (\<exists>i. nfc_t4t_cc_file_content_get (cc_mem h p) fid = Ok (Some i) \<and>
        length D \<le> unat (max_file_size (tlv_value (the (tlv_block_array (cc_mem h p)) ! i)))) \<and>
     7 \<le> length (hl_apdu_buff h) \<and> length (hl_apdu_buff h) < 2 ^ 16 \<and>
     ndef_file_id (ndef h) = be_bytes 2 (unat fid) \<and> (\<exists>cb. hl_cb h = Some cb \<and> hl_cb_ndef_updated cb)"

definition ndef_update_setup :: "u8 list \<Rightarrow> u8 list \<Rightarrow> u16 \<Rightarrow> cc_ptr \<Rightarrow> u16 \<Rightarrow> hl_state \<Rightarrow> bool" where
  "ndef_update_setup D data len p fid h \<longleftrightarrow> ndef_update_args D data len p fid h \<and>
     0 < max_capdu_size (cc_mem h p) \<and> min 255 (unat (max_capdu_size (cc_mem h p))) + 5 \<le> length (hl_apdu_buff h)"

definition update_started :: "u8 list \<Rightarrow> u8 list \<Rightarrow> u16 \<Rightarrow> cc_ptr \<Rightarrow> hl_state \<Rightarrow> hl_state" where
  "update_started D data len p h =
     h\<lparr>ndef := (ndef h)\<lparr>ndef_buff := Some data, ndef_buff_size := len, ndef_nlen := of_nat (length D - 2), ndef_cc := Some p\<rparr>,
       file_offset := 2, transaction_type := NFC_T4T_HL_NDEF_NLEN_CLEAR\<rparr>"

lemma update_start_eq:
  assumes bo: "byteorder bo" and s: "ndef_update_args D data len p fid h"
  shows "nfc_t4t_hl_procedure_ndef_update bo xmit (Some p) (Some data) len h t =
    t4t_hl_data_exchange bo xmit (apdu_update (of_nat 0) (Some [0, 0]) (of_nat 2)) (update_started D data len p h) t"
proof -
  obtain i where i: "nfc_t4t_cc_file_content_get (cc_mem h p) fid = Ok (Some i)"
    "length D \<le> unat (max_file_size (tlv_value (the (tlv_block_array (cc_mem h p)) ! i)))"
    using s by (auto simp: ndef_update_args_def)
  have d: "unat len \<le> length data" "D = take (unat len) data" "2 \<le> length D" "take 2 D = be_bytes 2 (length D - 2)"
    "ndef_file_id (ndef h) = be_bytes 2 (unat fid)"
    using s unfolding ndef_update_args_def by blast+
  then have l: "unat len = length D" by simp
  then have u: "unat (of_nat (length D - 2) :: u16) = length D - 2"
    using unat_u16_less [of len] by (intro unat_of_nat_fits(2)) simp
  have "take 2 D = take 2 data" using d(2,3) by simp
  then have "data = be_bytes 2 (unat (of_nat (length D - 2) :: u16)) @ drop 2 data"
    unfolding u d(4) [symmetric] by (metis append_take_drop_id)
  then have n: "be16_at bo data 0 = Ok (of_nat (length D - 2))"
    using byteorder.be16_at_put [OF bo, of "[]" "of_nat (length D - 2)" "drop 2 data"] by simp
  have f: "be16_at bo (ndef_file_id (ndef h)) 0 = Ok fid"
    using byteorder.be16_at_put [OF bo, of "[]" fid "[]"] d(5) by simp
  have "\<not> (ucast len > max_file_size (tlv_value (the (tlv_block_array (cc_mem h p)) ! i)))"
    using i(2) l by (simp add: word_less_nat_alt)
  moreover have "Suc (Suc (length D - 2)) = length D" using d(3) by simp
  ultimately show ?thesis
    using i(1) f n u l d(3) by (simp add: nfc_t4t_hl_procedure_ndef_update_def Let_def update_started_def del: of_nat_diff)
qed

context hl_transport
begin

text \<open>The start: the length field is cleared.\<close>

lemma update_clears:
  assumes bo: "byteorder bo" and tag: "t4t_updates respond sel" and c: "2 \<le> cap" and F: "length D \<le> length (sel g)"
    and t: "ready t" and s: "ndef_update_args D data len p fid h"
  shows "\<exists>a t1 t2 g1. nfc_t4t_hl_procedure_ndef_update bo xmit (Some p) (Some data) len h t =
      Ok ((update_started D data len p h)\<lparr>hl_apdu_buff := a\<rparr>, t1, [], None) \<and>
    length a = length (hl_apdu_buff h) \<and> ready t2 \<and> sel g1 = [0, 0] @ drop 2 (sel g) \<and>
    (\<forall>n. dialogue bo respond (Suc n) g ((update_started D data len p h)\<lparr>hl_apdu_buff := a\<rparr>) t1 =
      and_then (ndef_file_chunk_update bo xmit ((update_started D data len p h)\<lparr>hl_apdu_buff := a\<rparr>) t2) g1 (dialogue bo respond n))"
proof -
  let ?h0 = "update_started D data len p h"
  have d: "2 \<le> length D" "7 \<le> length (hl_apdu_buff h)" "length (hl_apdu_buff h) < 2 ^ 16"
    using s unfolding ndef_update_args_def by blast+
  have "2 + 5 \<le> length (hl_apdu_buff ?h0)" "length (hl_apdu_buff ?h0) < 2 ^ 16" using d by (simp_all add: update_started_def)
  from update_sends [OF bo t _ _ _ _ this, of "[0, 0]" 0] obtain a t1 where
    e: "t4t_hl_data_exchange bo xmit (apdu_update (of_nat 0) (Some [0, 0]) (of_nat 2)) ?h0 t = Ok (?h0\<lparr>hl_apdu_buff := a\<rparr>, t1, [], None)"
    "length a = length (hl_apdu_buff h)" "pending t1 (update_binary 0 [0, 0])" by (auto simp: update_started_def)
  have "[0 :: u8, 0] \<noteq> [] \<and> length [0 :: u8, 0] \<le> 255 \<and> (0 :: nat) < 2 ^ 15 \<and> 0 + length [0 :: u8, 0] \<le> length (sel g)" using d(1) F by simp
  with tag obtain g1 where g1: "respond g (update_binary 0 [0, 0]) = (g1, [] @ [0x90, 0x00])"
    "sel g1 = take 0 (sel g) @ [0, 0] @ drop (0 + length [0 :: u8, 0]) (sel g)"
    unfolding t4t_updates_def by (metis append_Nil)
  from loop_round [where respond = respond and g = g, OF bo e(3) g1(1), of "?h0\<lparr>hl_apdu_buff := a\<rparr>"] c obtain t2 where t2: "ready t2"
    "\<And>n. dialogue bo respond (Suc n) g (?h0\<lparr>hl_apdu_buff := a\<rparr>) t1 =
      and_then (on_rapdu_succes bo xmit (resp_of []) (?h0\<lparr>hl_apdu_buff := a\<rparr>) t2) g1 (dialogue bo respond n)" by auto
  have "on_rapdu_succes bo xmit (resp_of []) (?h0\<lparr>hl_apdu_buff := a\<rparr>) t2 = ndef_file_chunk_update bo xmit (?h0\<lparr>hl_apdu_buff := a\<rparr>) t2"
    by (simp add: on_rapdu_succes_def update_started_def)
  moreover have "sel g1 = [0, 0] @ drop 2 (sel g)" using g1(2) by (simp add: numeral_2_eq_2)
  ultimately show ?thesis using e(1,2) t2 unfolding update_start_eq [OF bo s] by auto
qed

lemma ndef_update_run:
  assumes bo: "byteorder bo" and tag: "t4t_updates respond sel" and c: "2 \<le> cap" and F: "length D \<le> length (sel g)"
    and t: "ready t" and s: "ndef_update_setup D data len p fid h"
  shows "\<exists>h1 t1 N. nfc_t4t_hl_procedure_ndef_update bo xmit (Some p) (Some data) len h t = Ok (h1, t1, [], None) \<and>
    N \<le> length D \<and>
    (\<forall>n. update_after ready sel (D @ drop (length D) (sel g)) fid (N \<le> n) (dialogue bo respond (Suc n) g h1 t1))"
proof -
  have sa: "ndef_update_args D data len p fid h" using s by (simp add: ndef_update_setup_def)
  obtain a t1 t2 g1 where u: "nfc_t4t_hl_procedure_ndef_update bo xmit (Some p) (Some data) len h t =
      Ok ((update_started D data len p h)\<lparr>hl_apdu_buff := a\<rparr>, t1, [], None)" "length a = length (hl_apdu_buff h)" "ready t2"
    "sel g1 = [0, 0] @ drop 2 (sel g)"
    "\<And>n. dialogue bo respond (Suc n) g ((update_started D data len p h)\<lparr>hl_apdu_buff := a\<rparr>) t1 =
      and_then (ndef_file_chunk_update bo xmit ((update_started D data len p h)\<lparr>hl_apdu_buff := a\<rparr>) t2) g1 (dialogue bo respond n)"
    using update_clears [OF bo tag c F t sa] by blast
  let ?h1 = "(update_started D data len p h)\<lparr>hl_apdu_buff := a\<rparr>"
  have d: "2 \<le> length D" "unat len = length D" "length D \<le> length data" using sa by (auto simp: ndef_update_args_def)
  then have n: "unat (of_nat (length D - 2) :: u16) = length D - 2"
    using unat_u16_less [of len] by (intro unat_of_nat_fits(2)) simp
  have up: "ndef_updating D p fid ?h1" "unat (file_offset ?h1) = 2"
    using s u(2) d n by (auto simp: ndef_updating_def ndef_update_setup_def ndef_update_args_def update_started_def)
  have p: "sel g1 = partial_file D (sel g) (unat (file_offset ?h1))"
    unfolding up(2) u(4) by (simp add: partial_file_def)
  from update_rounds [OF bo tag c F up(1) u(3) p] obtain N where
    N: "N \<le> Suc (length D - 2)" "\<And>n. update_after ready sel (D @ drop (length D) (sel g)) fid (N \<le> n)
      (and_then (ndef_file_chunk_update bo xmit ?h1 t2) g1 (dialogue bo respond n))" unfolding up(2) by blast
  have "update_after ready sel (D @ drop (length D) (sel g)) fid (N \<le> n) (dialogue bo respond (Suc n) g ?h1 t1)" for n
    unfolding u(5) by (rule N(2))
  moreover have "N \<le> length D" using N(1) d(1) by linarith
  ultimately show ?thesis using u(1) by blast
qed

text \<open>
  A piece that does not fit the command buffer: the encoder refuses the command when the length field
  is already cleared.
\<close>

lemma update_too_long:
  assumes bo: "byteorder bo" and tag: "t4t_updates respond sel" and c: "2 \<le> cap" and F: "length D \<le> length (sel g)"
    and t: "ready t" and s: "ndef_update_args D data len p fid h"
    and big: "length (hl_apdu_buff h) \<le> 255" "251 \<le> max_capdu_size (cc_mem h p)" "253 \<le> length D"
  shows "\<exists>h1 t1. nfc_t4t_hl_procedure_ndef_update bo xmit (Some p) (Some data) len h t = Ok (h1, t1, [], None) \<and>
    (\<forall>n. \<exists>g' h' t'. dialogue bo respond (Suc n) g h1 t1 = Ok (g', h', t', [], Some ENOMEM) \<and> sel g' = [0, 0] @ drop 2 (sel g))"
proof -
  obtain a t1 t2 g1 where u: "nfc_t4t_hl_procedure_ndef_update bo xmit (Some p) (Some data) len h t =
      Ok ((update_started D data len p h)\<lparr>hl_apdu_buff := a\<rparr>, t1, [], None)" "length a = length (hl_apdu_buff h)"
    "sel g1 = [0, 0] @ drop 2 (sel g)"
    "\<And>n. dialogue bo respond (Suc n) g ((update_started D data len p h)\<lparr>hl_apdu_buff := a\<rparr>) t1 =
      and_then (ndef_file_chunk_update bo xmit ((update_started D data len p h)\<lparr>hl_apdu_buff := a\<rparr>) t2) g1 (dialogue bo respond n)"
    using update_clears [OF bo tag c F t s] by blast
  let ?h1 = "(update_started D data len p h)\<lparr>hl_apdu_buff := a\<rparr>"
  define n where "n = min (length D - 2) (min 255 (unat (max_capdu_size (cc_mem h p))))"
  have n: "251 \<le> n" "n \<le> 255" "n \<le> length D - 2" using big(2,3) by (simp_all add: n_def word_le_nat_alt)
  have d: "unat len = length D" "length D \<le> length data" using s by (auto simp: ndef_update_args_def)
  let ?c = "apdu_update (of_nat 2) (Some (drop 2 data)) (of_nat n)"
  have nd: "n \<le> length (drop 2 data)" using n(3) d(2) by simp
  note e = apdu_bytes_update [OF n(2) nd, of 2]
  have l: "length (apdu_bytes ?c) = n + 5" using e nd by (simp add: update_binary_def)
  have un: "unat (of_nat n :: u16) = n" by (rule unat_of_nat_fits(2)) (use n in simp)
  then have "(of_nat n :: u16) \<noteq> 0" using n(1) by auto
  then have ok: "apdu_ok ?c" unfolding apdu_ok_def l using n nd un by (simp add: apdu_data_ok_def apdu_update_def)
  have "unat (of_nat (length a) :: u16) = length a" using u(2) big(1) by (intro unat_of_nat_fits(2)) simp
  then have x: "t4t_hl_data_exchange bo xmit ?c (?h1\<lparr>file_offset := w, transaction_type := ty\<rparr>) t2 =
      Ok (?h1\<lparr>file_offset := w, transaction_type := ty\<rparr>, t2, [], Some ENOMEM)" for w ty
    using apdu_encode_too_small [OF ok, of "of_nat (length a)" bo a] n(1) l u(2) big(1) by (simp add: t4t_hl_data_exchange_def)
  have lt: "file_offset ?h1 < ndef_buff_size (ndef ?h1)" using d(1) big(3) by (simp add: update_started_def word_less_nat_alt)
  have "ndef_file_chunk_update bo xmit ?h1 t2 =
      Ok (?h1\<lparr>file_offset := 2 + of_nat n, transaction_type := NFC_T4T_HL_NDEF_UPDATE\<rparr>, t2, [], Some ENOMEM)"
    using x unfolding ndef_file_chunk_update_def if_P [OF lt] Let_def n_def d(1) [symmetric]
    by (simp add: update_started_def)
  then show ?thesis using u by auto
qed

end

end
