(* ===== verification/T4T_HL_CC.thy ===== *)
theory T4T_HL_CC
  imports T4T_HL_Procedures
begin

text \<open>
  The Capability Container read procedure of \<^verbatim>\<open>t4t/hl_procedure.c\<close>, run to its end: the file is fetched in
  pieces of at most 15 bytes and handed to the parser.
\<close>

section \<open>Storing the pieces\<close>

text \<open>
  The file \<open>F\<close> starts with its length \<open>n\<close>. The buffer of \<open>sz\<close> bytes holds what has been read,
  followed by zeros; the length is known once the first piece has arrived.
\<close>

definition cc_reading :: "u8 list \<Rightarrow> nat \<Rightarrow> nat \<Rightarrow> cc_ptr \<Rightarrow> nfc_t4t_cc_file \<Rightarrow> hl_state \<Rightarrow> bool" where
  "cc_reading F n sz p cc h \<longleftrightarrow>
     take 2 F = be_bytes 2 n \<and> 15 \<le> n \<and> n \<le> length F \<and> n \<le> sz \<and> n \<le> 2 ^ 15 \<and>
     unat (file_offset h) \<le> n \<and> unat (hlcc_len (cc_file h)) = (if file_offset h = 0 then 0 else n) \<and>
     hlcc_data (cc_file h) = take (unat (file_offset h)) F @ replicate (sz - unat (file_offset h)) 0 \<and>
     hlcc_cc (cc_file h) = Some p \<and> cc_mem h p = cc \<and> transaction_type h = NFC_T4T_HL_CC_READ \<and>
     (\<exists>cb. hl_cb h = Some cb \<and> hl_cb_cc_read cb) \<and>
     5 \<le> length (hl_apdu_buff h) \<and> length (hl_apdu_buff h) < 2 ^ 16"

definition cc_stored :: "nat \<Rightarrow> u8 list \<Rightarrow> nat \<Rightarrow> nat \<Rightarrow> hl_state \<Rightarrow> hl_state" where
  "cc_stored k F n sz h =
     (let off = unat (file_offset h) + k in
      h\<lparr>cc_file := (cc_file h)\<lparr>hlcc_len := of_nat n, hlcc_data := take off F @ replicate (sz - off) 0\<rparr>,
        file_offset := of_nat off\<rparr>)"

lemma cc_stored_reading:
  assumes r: "cc_reading F n sz p cc h" and k: "0 < k" "unat (file_offset h) + k \<le> n"
  shows "cc_reading F n sz p cc (cc_stored k F n sz h)"
    "unat (file_offset (cc_stored k F n sz h)) = unat (file_offset h) + k"
proof -
  have n: "n < 2 ^ 16" using r by (simp add: cc_reading_def)
  have u: "unat (of_nat (unat (file_offset h) + k) :: u16) = unat (file_offset h) + k" "unat (of_nat n :: u16) = n"
    using n k(2) by (simp_all add: unat_of_nat_fits del: of_nat_add)
  then show "unat (file_offset (cc_stored k F n sz h)) = unat (file_offset h) + k"
    by (simp add: cc_stored_def Let_def del: of_nat_add)
  have "(of_nat (unat (file_offset h) + k) :: u16) \<noteq> 0" using u(1) k(1) by (metis add_is_0 less_irrefl unsigned_0)
  then show "cc_reading F n sz p cc (cc_stored k F n sz h)"
    using r u k by (simp add: cc_reading_def cc_stored_def Let_def del: of_nat_add)
qed

lemma cc_reading_apdu [simp]:
  "length b = length (hl_apdu_buff h) \<Longrightarrow>
   cc_reading F n sz p cc (h\<lparr>hl_apdu_buff := b\<rparr>) = cc_reading F n sz p cc h"
  by (simp add: cc_reading_def)

lemma on_cc_read_eq:
  assumes bo: "byteorder bo" and r: "cc_reading F n sz p cc h"
    and k: "0 < k" "k \<le> 15" "file_offset h = 0 \<longrightarrow> k = 15" "unat (file_offset h) + k \<le> n"
  defines "h' \<equiv> cc_stored k F n sz h" and "off \<equiv> unat (file_offset h) + k"
  shows "on_cc_read bo xmit (resp_of (take k (drop (unat (file_offset h)) F))) h t =
    (if off < n then t4t_hl_data_exchange bo xmit (apdu_read (of_nat off) (of_nat (min 15 (n - off)))) h' t
     else let (cc', res) = nfc_t4t_cc_file_parse bo cc (take off F @ replicate (sz - off) 0) (of_nat n);
              h = h'\<lparr>cc_mem := (cc_mem h')(p := cc')\<rparr> in
          (case res of Fault \<Rightarrow> Fault | Err e \<Rightarrow> Ok (h, t, [], Some e) | Ok _ \<Rightarrow> Ok (h, t, [Hl_cc_read p], None)))"
proof -
  let ?o = "unat (file_offset h)" and ?xs = "take k (drop (unat (file_offset h)) F)"
  have s: "take 2 F = be_bytes 2 n" "15 \<le> n" "n \<le> length F" "n \<le> sz" "n < 2 ^ 16"
    "unat (hlcc_len (cc_file h)) = (if file_offset h = 0 then 0 else n)"
    "hlcc_data (cc_file h) = take ?o F @ replicate (sz - ?o) 0"
    using r by (simp_all add: cc_reading_def)
  obtain cb where cb: "hl_cb h' = Some cb" "hl_cb_cc_read cb" "hlcc_cc (cc_file h') = Some p" "cc_mem h' p = cc"
    using cc_stored_reading(1) [OF r k(1,4)] by (auto simp: cc_reading_def h'_def)
  have l: "length ?xs = k" "length ?xs \<le> 255" "?xs \<noteq> []" using k s by auto
  have un: "unat (of_nat n :: u16) = n" by (rule unat_of_nat_fits(2) [OF s(5)])
  have hd: "resp_data (resp_of ?xs) = \<lparr>apdu_len = of_nat k, apdu_buff = Some (?xs @ [0x90, 0x00])\<rparr>" "(of_nat k :: u16) \<noteq> 0" "unat (of_nat k :: u16) = k"
    using l k(1,2) by (simp_all add: resp_of_def unat_of_nat) (simp add: word_unat_eq_iff unat_of_nat)
  have len: "(if (of_nat k :: u16) \<noteq> 0 \<and> hlcc_len (cc_file h) = 0
        then rbind (be16_at bo (?xs @ [0x90, 0x00]) 0) (\<lambda>l. Ok (h\<lparr>cc_file := (cc_file h)\<lparr>hlcc_len := l\<rparr>\<rparr>))
        else Ok h) = Ok (h\<lparr>cc_file := (cc_file h)\<lparr>hlcc_len := of_nat n\<rparr>\<rparr>)"
  proof (cases "file_offset h = 0")
    case True
    then have "?xs = be_bytes 2 n @ drop 2 (take 15 F)"
      using k(3) s(1) append_take_drop_id [of 2 "take 15 F"] by (simp add: min_def)
    then have "be16_at bo (?xs @ [0x90, 0x00]) 0 = Ok (of_nat n)"
      using byteorder.be16_at_put [OF bo, of "[]" "of_nat n" "drop 2 (take 15 F) @ [0x90, 0x00]"] un by simp
    moreover have "hlcc_len (cc_file h) = 0" using s(6) True by (simp add: unat_eq_0)
    ultimately show ?thesis using hd(2) by simp
  next
    case False
    then have "hlcc_len (cc_file h) = of_nat n" "hlcc_len (cc_file h) \<noteq> 0"
      using s(2,6) un by (auto simp: word_unat_eq_iff)
    then show ?thesis by simp
  qed
  have w: "wr (take ?o F @ replicate (sz - ?o) 0) ?o ?xs = Ok (take off F @ replicate (sz - off) 0)"
    using l(1) s k(4) by (simp add: wr_def off_def take_add)
  have nm: "\<not> ?o + k > length (take ?o F @ replicate (sz - ?o) 0)" using s k(4) by simp
  define h1 where "h1 = h\<lparr>cc_file := (cc_file h)\<lparr>hlcc_len := of_nat n\<rparr>\<rparr>"
  have h1: "hlcc_data (cc_file h1) = take ?o F @ replicate (sz - ?o) 0" "file_offset h1 = file_offset h"
    "h1\<lparr>cc_file := (cc_file h1)\<lparr>hlcc_data := take off F @ replicate (sz - off) 0\<rparr>, file_offset := file_offset h + of_nat k\<rparr> = h'"
    by (simp_all add: h1_def s(7) h'_def cc_stored_def off_def Let_def)
  have fo: "file_offset h' = of_nat off" "hlcc_len (cc_file h') = of_nat n" "unat (of_nat off :: u16) = off"
    using s(5) k(4) by (simp_all add: h'_def cc_stored_def off_def Let_def unat_of_nat_fits del: of_nat_add)
  have lt: "(of_nat off :: u16) < of_nat n \<longleftrightarrow> off < n" by (simp add: word_less_nat_alt fo un)
  note src = resp_of_src [OF l(2), unfolded l(1) hd(1) nfc_t4t_apdu_data.simps]
  show ?thesis
    unfolding on_cc_read_def Let_def hd nfc_t4t_apdu_data.simps len rbind.simps h1_def [symmetric] h1(1,2) if_not_P [OF nm]
      src w h1(3) fo lt un cb(1,3,4) option.case
    by (rule if_cong) (simp_all add: cb)
qed

section \<open>The procedure\<close>

text \<open>What the application gets: the parsed container, or the error of the parser.\<close>

definition cc_events :: "cc_ptr \<Rightarrow> unit res \<Rightarrow> hl_event list" where
  "cc_events p r = (if r = Ok () then [Hl_cc_read p] else [])"

definition cc_error :: "unit res \<Rightarrow> errno option" where
  "cc_error r = (case r of Err e \<Rightarrow> Some e | _ \<Rightarrow> None)"

context hl_transport
begin

lemma cc_last:
  assumes bo: "byteorder bo" and wf: "cc_wf cc" and r: "cc_reading F n sz p cc h"
    and k: "0 < k" "k \<le> 15" "file_offset h = 0 \<longrightarrow> k = 15" "unat (file_offset h) + k = n"
    and pr: "nfc_t4t_cc_file_parse bo cc (take n F @ replicate (sz - n) 0) (of_nat n) = (cc', res)"
  shows "\<exists>h'. on_cc_read bo xmit (resp_of (take k (drop (unat (file_offset h)) F))) h t = Ok (h', t, cc_events p res, cc_error res) \<and>
    cc_mem h' p = cc' \<and> \<not> (cc_events p res = [] \<and> cc_error res = None)"
proof -
  have k4: "unat (file_offset h) + k \<le> n" and nl: "\<not> n < n" using k(4) by simp_all
  have s: "n \<le> length F" "n \<le> sz" "unat (of_nat n :: u16) = n" using r unat_of_nat_fits(2) [of n] by (simp_all add: cc_reading_def)
  have "unat (of_nat n :: u16) \<le> length (take n F @ replicate (sz - n) 0)" using s by simp
  from cc_file_parse_cases [OF bo wf this pr] have "res \<noteq> Fault" by blast
  then show ?thesis
    unfolding on_cc_read_eq [OF bo r k(1-3) k4] k(4) if_not_P [OF nl] pr Let_def split
    by (cases res) (auto simp: cc_events_def cc_error_def)
qed

lemma cc_next:
  assumes bo: "byteorder bo" and tag: "t4t_reads respond sel" and c: "17 \<le> cap" and r: "cc_reading F n sz p cc h"
    and t: "ready t" and g: "sel g = F"
    and k: "0 < k" "k \<le> 15" "file_offset h = 0 \<longrightarrow> k = 15" "unat (file_offset h) + k < n"
  shows "\<exists>le g1 h1 t1. 0 < le \<and> le \<le> 15 \<and> unat (file_offset h1) + le \<le> n \<and> file_offset h1 \<noteq> 0 \<and> sel g1 = F \<and> ready t1 \<and>
    cc_reading F n sz p cc h1 \<and> unat (file_offset h1) = unat (file_offset h) + k \<and>
    (\<forall>m. and_then (on_cc_read bo xmit (resp_of (take k (drop (unat (file_offset h)) F))) h t) g (dialogue bo respond (Suc m)) =
      and_then (on_cc_read bo xmit (resp_of (take le (drop (unat (file_offset h1)) F))) h1 t1) g1 (dialogue bo respond m))"
proof -
  have k4: "unat (file_offset h) + k \<le> n" using k(4) by simp
  define off where "off = unat (file_offset h) + k"
  define h1 where "h1 = cc_stored k F n sz h"
  define le where "le = min 15 (n - off)"
  note s = cc_stored_reading [OF r k(1) k4, folded h1_def]
  have ol: "off < n" and F: "n \<le> length F" using k(4) r by (simp_all add: off_def cc_reading_def)
  have le: "0 < le" "le \<le> 255" "le \<le> 15" "off + le \<le> n" using ol by (simp_all add: le_def)
  have o: "off < 2 ^ 16" using s(2) unat_u16_less [of "file_offset h1"] by (simp add: off_def)
  have b: "5 \<le> length (hl_apdu_buff h1)" "length (hl_apdu_buff h1) < 2 ^ 16" using s(1) by (simp_all add: cc_reading_def)
  from read_sends [OF bo t le(1,2) o b] obtain a t1 where
    x: "t4t_hl_data_exchange bo xmit (apdu_read (of_nat off) (of_nat le)) h1 t = Ok (h1\<lparr>hl_apdu_buff := a\<rparr>, t1, [], None)"
    "length a = length (hl_apdu_buff h1)" "pending t1 (read_binary off le)" by blast
  have "off < 2 ^ 15" using ol r by (simp add: cc_reading_def)
  then have "0 < le \<and> le \<le> 255 \<and> off < 2 ^ 15 \<and> off + le \<le> length (sel g)" using le F g by simp
  with tag g obtain g1 where g1: "respond g (read_binary off le) = (g1, take le (drop off F) @ [0x90, 0x00])" "sel g1 = F"
    unfolding t4t_reads_def by metis
  have lx: "length (take le (drop off F)) \<le> 255" "length (take le (drop off F)) + 2 \<le> cap" using le c by simp_all
  from loop_round [where respond = respond and g = g, OF bo x(3) g1(1) lx, of "h1\<lparr>hl_apdu_buff := a\<rparr>"] obtain t2 where t2: "ready t2"
    "\<And>m. dialogue bo respond (Suc m) g (h1\<lparr>hl_apdu_buff := a\<rparr>) t1 =
      and_then (on_rapdu_succes bo xmit (resp_of (take le (drop off F))) (h1\<lparr>hl_apdu_buff := a\<rparr>) t2) g1 (dialogue bo respond m)"
    by blast
  have h1: "cc_reading F n sz p cc (h1\<lparr>hl_apdu_buff := a\<rparr>)" "unat (file_offset (h1\<lparr>hl_apdu_buff := a\<rparr>)) = off"
    "file_offset (h1\<lparr>hl_apdu_buff := a\<rparr>) \<noteq> 0"
    using s x(2) k(1) by (auto simp: off_def)
  have rs: "on_rapdu_succes bo xmit (resp_of xs) (h1\<lparr>hl_apdu_buff := a\<rparr>) t2 =
      on_cc_read bo xmit (resp_of xs) (h1\<lparr>hl_apdu_buff := a\<rparr>) t2" for xs
    using s(1) by (simp add: on_rapdu_succes_def cc_reading_def)
  have "on_cc_read bo xmit (resp_of (take k (drop (unat (file_offset h)) F))) h t = Ok (h1\<lparr>hl_apdu_buff := a\<rparr>, t1, [], None)"
    unfolding on_cc_read_eq [OF bo r k(1-3) k4] off_def [symmetric] le_def [symmetric] h1_def [symmetric] if_P [OF ol] by (rule x(1))
  with t2 rs le g1(2) h1 show ?thesis
    by (intro exI [of _ le] exI [of _ g1] exI [of _ "h1\<lparr>hl_apdu_buff := a\<rparr>"] exI [of _ t2]) (simp only: off_def rbind.simps split, simp)
qed

lemma cc_rounds:
  assumes bo: "byteorder bo" and tag: "t4t_reads respond sel" and wf: "cc_wf cc" and c: "17 \<le> cap"
    and pr: "nfc_t4t_cc_file_parse bo cc (take n F @ replicate (sz - n) 0) (of_nat n) = (cc', res)"
  shows "cc_reading F n sz p cc h \<Longrightarrow> ready t \<Longrightarrow> sel g = F \<Longrightarrow> 0 < k \<Longrightarrow> k \<le> 15 \<Longrightarrow> file_offset h = 0 \<longrightarrow> k = 15 \<Longrightarrow>
    unat (file_offset h) + k \<le> n \<Longrightarrow>
    \<exists>N g' h' t'. N \<le> n - (unat (file_offset h) + k) \<and> (\<forall>m\<ge>N.
      and_then (on_cc_read bo xmit (resp_of (take k (drop (unat (file_offset h)) F))) h t) g (dialogue bo respond m) =
      Ok (g', h', t', cc_events p res, cc_error res)) \<and> sel g' = F \<and> ready t' \<and> cc_mem h' p = cc'"
proof (induction "n - unat (file_offset h)" arbitrary: h t g k rule: less_induct)
  case less
  note r = less.prems(1) and t = less.prems(2) and g = less.prems(3) and k = less.prems(4-6)
  show ?case
  proof (cases "unat (file_offset h) + k < n")
    case False
    then have "unat (file_offset h) + k = n" using less.prems(7) by simp
    note last = cc_last [OF bo wf r k this pr, of t]
    obtain h' where
      h': "on_cc_read bo xmit (resp_of (take k (drop (unat (file_offset h)) F))) h t = Ok (h', t, cc_events p res, cc_error res)"
      "cc_mem h' p = cc'" "\<not> (cc_events p res = [] \<and> cc_error res = None)"
      by (rule exE [OF last]) blast
    have "and_then (on_cc_read bo xmit (resp_of (take k (drop (unat (file_offset h)) F))) h t) g (dialogue bo respond m) =
        Ok (g, h', t, cc_events p res, cc_error res)" for m
      unfolding h'(1) rbind.simps split if_not_P [OF h'(3)] ..
    with h'(2) t g show ?thesis by (intro exI [of _ 0] exI [of _ g] exI [of _ h'] exI [of _ t]) simp
  next
    case True
    from cc_next [OF bo tag c r t g k True] obtain le g1 h1 t1 where
      n: "0 < le" "le \<le> 15" "unat (file_offset h1) + le \<le> n" "file_offset h1 \<noteq> 0" "sel g1 = F" "ready t1"
      "cc_reading F n sz p cc h1" "unat (file_offset h1) = unat (file_offset h) + k"
      "\<And>m. and_then (on_cc_read bo xmit (resp_of (take k (drop (unat (file_offset h)) F))) h t) g (dialogue bo respond (Suc m)) =
      and_then (on_cc_read bo xmit (resp_of (take le (drop (unat (file_offset h1)) F))) h1 t1) g1 (dialogue bo respond m)"
      by blast
    have "n - unat (file_offset h1) < n - unat (file_offset h)" using n(8) True k(1) by simp
    moreover have z: "file_offset h1 = 0 \<longrightarrow> le = 15" using n(4) by simp
    ultimately obtain N g' h' t' where
      N: "N \<le> n - (unat (file_offset h1) + le)" "\<And>m. m \<ge> N \<Longrightarrow>
        and_then (on_cc_read bo xmit (resp_of (take le (drop (unat (file_offset h1)) F))) h1 t1) g1 (dialogue bo respond m) =
        Ok (g', h', t', cc_events p res, cc_error res)" and e: "sel g' = F" "ready t'" "cc_mem h' p = cc'"
      using less.hyps [OF _ n(7,6,5,1,2) _ n(3)] by blast
    have "and_then (on_cc_read bo xmit (resp_of (take k (drop (unat (file_offset h)) F))) h t) g (dialogue bo respond m) =
        Ok (g', h', t', cc_events p res, cc_error res)" if m: "m \<ge> Suc N" for m
    proof -
      from m obtain m0 where m0: "m = Suc m0" "N \<le> m0" by (cases m) auto
      show ?thesis unfolding m0(1) n(9) by (rule N(2) [OF m0(2)])
    qed
    moreover have "Suc N \<le> n - (unat (file_offset h) + k)" using N(1) n(1,3,8) by simp
    ultimately show ?thesis using e by blast
  qed
qed

end

text \<open>What the application must provide, and the file the tag must have selected.\<close>

definition cc_read_setup :: "u8 list \<Rightarrow> nat \<Rightarrow> cc_ptr \<Rightarrow> hl_state \<Rightarrow> bool" where
  "cc_read_setup F n p h \<longleftrightarrow>
     take 2 F = be_bytes 2 n \<and> 15 \<le> n \<and> n \<le> 2 ^ 15 \<and> n \<le> length F \<and> n \<le> length (hlcc_data (cc_file h)) \<and>
     cc_wf (cc_mem h p) \<and> (\<exists>cb. hl_cb h = Some cb \<and> hl_cb_cc_read cb) \<and>
     5 \<le> length (hl_apdu_buff h) \<and> length (hl_apdu_buff h) < 2 ^ 16"

context hl_transport
begin

lemma cc_read_run:
  assumes bo: "byteorder bo" and tag: "t4t_reads respond sel" and g: "sel g = F" and t: "ready t" and c: "17 \<le> cap"
    and s: "cc_read_setup F n p h"
    and pr: "nfc_t4t_cc_file_parse bo (cc_mem h p) (take n F @ replicate (length (hlcc_data (cc_file h)) - n) 0) (of_nat n) = (cc', res)"
  shows "\<exists>h1 t1 N g' h' t'. nfc_t4t_hl_procedure_cc_read bo xmit (Some p) h t = Ok (h1, t1, [], None) \<and> N \<le> n \<and>
    (\<forall>m\<ge>N. dialogue bo respond m g h1 t1 = Ok (g', h', t', cc_events p res, cc_error res)) \<and> sel g' = F \<and> ready t' \<and> cc_mem h' p = cc'"
proof -
  define h0 where "h0 = h\<lparr>cc_file := \<lparr>hlcc_cc = Some p, hlcc_len = 0, hlcc_data = replicate (length (hlcc_data (cc_file h))) 0\<rparr>,
      file_offset := 0, transaction_type := NFC_T4T_HL_CC_READ\<rparr>"
  have b: "5 \<le> length (hl_apdu_buff h0)" "length (hl_apdu_buff h0) < 2 ^ 16" using s by (simp_all add: h0_def cc_read_setup_def)
  from read_sends [OF bo t _ _ _ b, of 15 0] obtain a t1 where
    x: "t4t_hl_data_exchange bo xmit (apdu_read (of_nat 0) (of_nat 15)) h0 t = Ok (h0\<lparr>hl_apdu_buff := a\<rparr>, t1, [], None)"
    "length a = length (hl_apdu_buff h0)" "pending t1 (read_binary 0 15)" by auto
  let ?h1 = "h0\<lparr>hl_apdu_buff := a\<rparr>"
  have n: "15 \<le> n" "n \<le> length F" "cc_wf (cc_mem h p)" using s by (simp_all add: cc_read_setup_def)
  have "0 < (15 :: nat) \<and> (15 :: nat) \<le> 255 \<and> (0 :: nat) < 2 ^ 15 \<and> 0 + 15 \<le> length (sel g)" using n g by simp
  with tag g obtain g1 where g1: "respond g (read_binary 0 15) = (g1, take 15 (drop 0 F) @ [0x90, 0x00])" "sel g1 = F"
    unfolding t4t_reads_def by metis
  have lx: "length (take 15 (drop 0 F)) \<le> 255" "length (take 15 (drop 0 F)) + 2 \<le> cap" using c by simp_all
  from loop_round [where respond = respond and g = g, OF bo x(3) g1(1) lx, of ?h1] obtain t2 where t2: "ready t2"
    "\<And>m. dialogue bo respond (Suc m) g ?h1 t1 =
      and_then (on_rapdu_succes bo xmit (resp_of (take 15 (drop 0 F))) ?h1 t2) g1 (dialogue bo respond m)" by blast
  have r: "cc_reading F n (length (hlcc_data (cc_file h))) p (cc_mem h p) ?h1"
    using s x(2) by (simp add: cc_reading_def cc_read_setup_def h0_def)
  have o: "unat (file_offset ?h1) = 0" "file_offset ?h1 = 0" by (simp_all add: h0_def)
  have rs: "on_rapdu_succes bo xmit (resp_of (take 15 (drop 0 F))) ?h1 t2 = on_cc_read bo xmit (resp_of (take 15 (drop 0 F))) ?h1 t2"
    by (simp add: on_rapdu_succes_def h0_def)
  from cc_rounds [OF bo tag n(3) c pr r t2(1) g1(2), of 15, unfolded o(1)] n(1) obtain N g' h' t' where
    N: "N \<le> n - 15" "\<And>m. m \<ge> N \<Longrightarrow> and_then (on_cc_read bo xmit (resp_of (take 15 (drop 0 F))) ?h1 t2) g1 (dialogue bo respond m) =
      Ok (g', h', t', cc_events p res, cc_error res)" and e: "sel g' = F" "ready t'" "cc_mem h' p = cc'" by auto
  have "dialogue bo respond m g ?h1 t1 = Ok (g', h', t', cc_events p res, cc_error res)" if m: "m \<ge> Suc N" for m
  proof -
    from m obtain m0 where m0: "m = Suc m0" "N \<le> m0" by (cases m) auto
    show ?thesis unfolding m0(1) t2(2) rs by (rule N(2) [OF m0(2)])
  qed
  moreover have "nfc_t4t_hl_procedure_cc_read bo xmit (Some p) h t = Ok (?h1, t1, [], None)"
    using x(1) by (simp add: nfc_t4t_hl_procedure_cc_read_def h0_def)
  moreover have "Suc N \<le> n" using N(1) n(1) by linarith
  ultimately show ?thesis using e by blast
qed

end

end
