(* ===== verification/T4T_Stack.thy ===== *)
theory T4T_Stack
  imports T4T_HL_CC T4T_ISODEP_Exchange
begin

text \<open>
  The high level procedures over the ISO-DEP layer: \<^verbatim>\<open>t4t/hl_procedure.c\<close> calling \<^verbatim>\<open>t4t/isodep.c\<close>. The
  ISO-DEP model satisfies the two transport contracts, which gives the procedures for the whole
  reader stack.
\<close>

section \<open>ISO-DEP as a transport\<close>

text \<open>The state of the ISO-DEP layer and the callbacks of its last transmit call.\<close>

type_synonym iso_link = "isodep \<times> isodep_event list"

definition isodep_xmit :: "isodep_env \<Rightarrow> int \<Rightarrow> int \<Rightarrow> iso_link xmit" where
  "isodep_xmit env resched now t d =
     rbind (nfc_t4t_isodep_transmit (env_div env) resched now (Some d) (of_nat (length d)) (fst t))
       (\<lambda>(s, ev, ret). Ok ((s, ev), ret))"

interpretation iso_safe: hl_link "isodep_xmit env resched now" "\<lambda>t. iso_inv (fst t)" for env resched now
proof unfold_locales
  fix t :: iso_link and d :: "u8 list"
  assume i: "iso_inv (fst t)" and d: "length d < 2 ^ 16"
  have "length d < 2 ^ 31" using d by simp
  from transmit_safe [OF i this, of "env_div env" resched now] show "\<exists>t' e. isodep_xmit env resched now t d = Ok (t', e) \<and> iso_inv (fst t')"
    by (auto simp: isodep_xmit_def safe_ret_def iso_post_def)
qed

text \<open>
  The frames handed to the radio; the tag acknowledges each chained block, so that it gets all of
  them, and joins their information fields.
\<close>

definition sent_frames :: "isodep_event list \<Rightarrow> u8 list list" where
  "sent_frames ev = concat (map (\<lambda>e. case e of Ready_to_send f _ \<Rightarrow> [f] | _ \<Rightarrow> []) ev)"

definition blocks_left :: "isodep \<Rightarrow> nat" where
  "blocks_left s = length (i_blocks (tag s) (block_num s) (pbytes (transmit_data s) (unat (transmit_len s)))) - 1"

definition iso_sent :: "isodep_env \<Rightarrow> iso_link \<Rightarrow> u8 list" where
  "iso_sent env t =
     (case isodep_run env (fst t) (acks (block_num (fst t)) (blocks_left (fst t))) of
        Ok (_, ev) \<Rightarrow> concat (map (drop (hdr_len (tag (fst t)))) (sent_frames (snd t @ ev)))
      | _ \<Rightarrow> [])"

text \<open>The tag answers in blocks of at most \<open>m + 1\<close> bytes (and at most 254).\<close>

fun pieces :: "nat \<Rightarrow> u8 list \<Rightarrow> u8 list list" where
  "pieces m xs = (if length xs \<le> Suc (min m 253) then [xs]
     else take (Suc (min m 253)) xs # pieces m (drop (Suc (min m 253)) xs))"

declare pieces.simps [simp del]

definition iso_deliver :: "isodep_env \<Rightarrow> nat \<Rightarrow> iso_link \<Rightarrow> u8 list \<Rightarrow> (iso_link \<times> u8 list) res" where
  "iso_deliver env m t r =
     (let s = fst t; k = blocks_left s in
      rbind (isodep_run env s (acks (block_num s) k @
          map (\<lambda>f. Receive 0 f False) (tag_blocks (tag s) (block_after (block_num s) k) (pieces m r)))) (\<lambda>(s, ev).
      case last ev of Data_received x \<Rightarrow> Ok ((s, []), x) | _ \<Rightarrow> Err EAGAIN))"

definition iso_ready :: "isodep_env \<Rightarrow> int \<Rightarrow> nat \<Rightarrow> iso_link \<Rightarrow> bool" where
  "iso_ready env now cap t \<longleftrightarrow>
     (let s = fst t in iso_inv s \<and> iso_state s = ISODEP_STATE_SELECTED \<and>
      (first_transfer s \<longrightarrow> uint (env_div env (fwt (tag s)) T4T_FC_IN_MS) \<le> now - ats_received_time s) \<and>
      cb_ready_to_send (the (t4t_isodep_cb s)) \<and> cb_data_received (the (t4t_isodep_cb s)) \<and>
      cap \<le> unat (buf_size (rx_data s)))"

definition iso_pending :: "nat \<Rightarrow> iso_link \<Rightarrow> u8 list \<Rightarrow> bool" where
  "iso_pending cap t d \<longleftrightarrow>
     (\<exists>s. t = (chunk_state s, [Ready_to_send (tx_frame (chunk_state s)) (frame_fdt s)]) \<and>
      iso_inv s \<and> fsc_ok s \<and> \<not> ats_expected s \<and> \<not> first_transfer s \<and> buf_len (rx_data s) = 0 \<and>
      cb_ready_to_send (the (t4t_isodep_cb s)) \<and> cb_data_received (the (t4t_isodep_cb s)) \<and>
      cap \<le> unat (buf_size (rx_data s)) \<and>
      transmit_data s = Some d \<and> unat (transmit_len s) = length d \<and> transmitted_len s = 0)"

lemma pieces_props:
  "pieces m xs \<noteq> [] \<and> concat (pieces m xs) = xs \<and> (\<forall>p\<in>set (pieces m xs). length p \<le> 254)"
proof (induction m xs rule: pieces.induct)
  case (1 m xs)
  show ?case
  proof (cases "length xs \<le> Suc (min m 253)")
    case True
    then show ?thesis by (subst (1 2 3) pieces.simps) simp
  next
    case False
    then show ?thesis using 1 [OF False] by (subst (1 2 3) pieces.simps) (simp add: min_def)
  qed
qed

lemma sent_frames_ready: "sent_frames (map (\<lambda>f. Ready_to_send f d) fs) = fs"
  by (induction fs) (simp_all add: sent_frames_def)

lemma sent_frames_Cons [simp]: "sent_frames (Ready_to_send f d # ev) = f # sent_frames ev"
  by (simp add: sent_frames_def)

lemma isodep_xmit_ready:
  assumes r: "iso_ready env now cap t" and d: "d \<noteq> []" "length d < 2 ^ 16"
  shows "\<exists>t'. isodep_xmit env resched now t d = Ok (t', None) \<and> iso_pending cap t' d"
proof -
  let ?s = "fst t"
  have s: "iso_inv ?s" "iso_state ?s = ISODEP_STATE_SELECTED" "cap \<le> unat (buf_size (rx_data ?s))"
    "first_transfer ?s \<longrightarrow> uint (env_div env (fwt (tag ?s)) T4T_FC_IN_MS) \<le> now - ats_received_time ?s"
    "cb_ready_to_send (the (t4t_isodep_cb ?s))" "cb_data_received (the (t4t_isodep_cb ?s))"
    using r by (simp_all add: iso_ready_def Let_def)
  have "length d < 2 ^ 31" using d(2) by simp
  from transmit_Ok [OF s(1,2) d(1) this s(4), of resched] obtain s1 where
    s1: "isodep_step env ?s (Transmit resched now d) = no_ret (isodep_chunk_send s1)" "iso_inv s1"
    "same_session (?s\<lparr>iso_state := ISODEP_STATE_TRANSFER, rx_data := (rx_data ?s)\<lparr>buf_len := 0\<rparr>, first_transfer := False\<rparr>) s1"
    "transmit_data s1 = Some d" "unat (transmit_len s1) = length d" "transmitted_len s1 = 0" by blast
  have f: "fsc_ok s1" using iso_invD(9) [OF s(1)] s(2) s1(3) by (simp add: same_session_def fsc_ok_def)
  have q: "\<not> ats_expected s1" "\<not> first_transfer s1" "buf_len (rx_data s1) = 0" "t4t_isodep_cb s1 = t4t_isodep_cb ?s"
    "buf_size (rx_data s1) = buf_size (rx_data ?s)"
    using s1(3) iso_invD(10) [OF s(1,2)] by (simp_all add: same_session_def)
  have "isodep_xmit env resched now t d = Ok ((chunk_state s1, [Ready_to_send (tx_frame (chunk_state s1)) (frame_fdt s1)]), None)"
    using s1(1) chunk_send_Ok [OF s1(2) f] s(5) q(4) by (simp add: isodep_xmit_def no_ret_def if_set_def)
  moreover have "iso_pending cap (chunk_state s1, [Ready_to_send (tx_frame (chunk_state s1)) (frame_fdt s1)]) d"
    unfolding iso_pending_def using s1 f q s by (intro exI [of _ s1]) simp
  ultimately show ?thesis by blast
qed

text \<open>The acknowledged blocks of a pending command.\<close>

lemma iso_pending_run:
  assumes p: "iso_pending cap t d"
  shows "\<exists>s' ev. isodep_run env (fst t) (acks (block_num (fst t)) (blocks_left (fst t))) = Ok (s', ev) \<and>
    concat (map (drop (hdr_len (tag (fst t)))) (sent_frames (snd t @ ev))) = d \<and>
    iso_inv s' \<and> fsc_ok s' \<and> \<not> ats_expected s' \<and> \<not> first_transfer s' \<and> buf_len (rx_data s') = 0 \<and> tag s' = tag (fst t) \<and>
    cb_ready_to_send (the (t4t_isodep_cb s')) \<and> cb_data_received (the (t4t_isodep_cb s')) \<and> cap \<le> unat (buf_size (rx_data s')) \<and>
    block_num s' = block_after (block_num (fst t)) (blocks_left (fst t))"
proof -
  from p obtain s where t: "t = (chunk_state s, [Ready_to_send (tx_frame (chunk_state s)) (frame_fdt s)])" and
    s: "iso_inv s" "fsc_ok s" "\<not> ats_expected s" "cb_ready_to_send (the (t4t_isodep_cb s))" "transmit_data s = Some d"
    "unat (transmit_len s) = length d" "transmitted_len s = 0" and
    q: "\<not> first_transfer s" "buf_len (rx_data s) = 0" "cb_data_received (the (t4t_isodep_cb s))" "cap \<le> unat (buf_size (rx_data s))"
    by (auto simp: iso_pending_def)
  define bs where "bs = i_blocks (tag s) (block_num s) d"
  have k: "blocks_left (fst t) = length bs - 1" by (simp add: blocks_left_def t s bs_def pbytes_def)
  from chunk_run [OF s(1-6), of env] obtain s' where
    r: "tx_frame (chunk_state s) = hd bs"
    "isodep_run env (chunk_state s) (acks (block_num s) (length bs - 1)) = Ok (s', map (\<lambda>f. Ready_to_send f (frame_fdt s)) (List.tl bs))"
    "iso_inv s'" "same_session s s'" "block_num s' = block_after (block_num s) (length bs - 1)"
    by (auto simp: s(7) bs_def)
  have "bs = hd bs # List.tl bs" using i_blocks_not_Nil by (simp add: bs_def)
  then have "concat (map (drop (hdr_len (tag s))) (hd bs # List.tl bs)) = d" using i_blocks_concat by (metis bs_def)
  then have "concat (map (drop (hdr_len (tag (fst t)))) (sent_frames (snd t @ map (\<lambda>f. Ready_to_send f (frame_fdt s)) (List.tl bs)))) = d"
    by (simp add: t r(1) sent_frames_ready)
  moreover have "fsc_ok s' \<and> \<not> ats_expected s' \<and> \<not> first_transfer s' \<and> buf_len (rx_data s') = 0 \<and> tag s' = tag (fst t) \<and>
    cb_ready_to_send (the (t4t_isodep_cb s')) \<and> cb_data_received (the (t4t_isodep_cb s')) \<and> cap \<le> unat (buf_size (rx_data s'))"
    using r(4) s q by (simp add: same_session_def fsc_ok_def t)
  ultimately show ?thesis using r(2,3,5) unfolding k by (simp add: t)
qed

lemma iso_deliver_pending:
  assumes p: "iso_pending cap t d" and r: "r \<noteq> []" "length r \<le> cap"
  shows "\<exists>t'. iso_deliver env m t r = Ok (t', r) \<and> iso_ready env now cap t'"
proof -
  let ?s = "fst t"
  define n where "n = block_after (block_num ?s) (blocks_left ?s)"
  from iso_pending_run [OF p, of env] obtain s1 ev where
    a: "isodep_run env ?s (acks (block_num ?s) (blocks_left ?s)) = Ok (s1, ev)" and
    s1: "iso_inv s1" "fsc_ok s1" "\<not> ats_expected s1" "cb_ready_to_send (the (t4t_isodep_cb s1))" "cb_data_received (the (t4t_isodep_cb s1))" and
    q: "\<not> first_transfer s1" "buf_len (rx_data s1) = 0" "tag s1 = tag ?s" "cap \<le> unat (buf_size (rx_data s1))" "block_num s1 = n"
    unfolding n_def by blast
  have pc: "pieces m r \<noteq> []" "concat (pieces m r) = r" "\<forall>p\<in>set (pieces m r). length p \<le> 254" using pieces_props by blast+
  have sp: "unat (buf_len (rx_data s1)) + length (concat (pieces m r)) \<le> unat (buf_size (rx_data s1))" using r(2) q(2,4) pc(2) by simp
  have rx: "rx_bytes s1 = []" using q(2) by (simp add: rx_bytes_def pbytes_def split: option.split)
  from answer_run [OF s1 pc(1,3) sp, of env 0] obtain s' ev' where
    b: "isodep_run env s1 (map (\<lambda>f. Receive 0 f False) (tag_blocks (tag ?s) n (pieces m r))) = Ok (s', ev' @ [Data_received r])"
    and s': "iso_inv s'" "iso_state s' = ISODEP_STATE_SELECTED" "t4t_isodep_cb s' = t4t_isodep_cb s1" "first_transfer s' = first_transfer s1"
    "buf_size (rx_data s') = buf_size (rx_data s1)"
    unfolding q(3,5) rx pc(2) by (auto simp: append_eq_append_conv2)
  have "iso_deliver env m t r = Ok ((s', []), r)"
    unfolding iso_deliver_def Let_def n_def [symmetric] isodep_run_append a using b by simp
  moreover have "iso_ready env now cap (s', [])" using s' s1(4,5) q(1,4) by (simp add: iso_ready_def)
  ultimately show ?thesis by blast
qed

interpretation iso: hl_transport "isodep_xmit env resched now" "iso_sent env" "iso_deliver env m" "iso_ready env now cap"
  "iso_pending cap" cap for env resched now m cap
proof unfold_locales
  show "iso_sent env t = d" if "iso_pending cap t d" for t d
    using iso_pending_run [OF that, of env] by (auto simp: iso_sent_def)
qed (use isodep_xmit_ready iso_deliver_pending in blast)+

section \<open>A tag and an application\<close>

text \<open>A tag that serves READ BINARY and UPDATE BINARY from a memory, and an application for it.\<close>

fun mem_tag :: "u8 list \<Rightarrow> u8 list \<Rightarrow> u8 list \<times> u8 list" where
  "mem_tag f (cla # ins # p1 # p2 # n # xs) =
     (let off = unat p1 * 256 + unat p2 in
      if ins = 0xB0 then (f, take (unat n) (drop off f) @ [0x90, 0x00])
      else if ins = 0xD6 then (take off f @ xs @ drop (off + length xs) f, [0x90, 0x00])
      else (f, [0x6D, 0x00]))"
| "mem_tag f _ = (f, [0x67, 0x00])"

lemma offset_bytes:
  assumes "off < (32768 :: nat)"
  shows "off div 256 mod 256 * 256 + off mod 256 = off"
proof -
  have "off div 256 < 256" using assms by (simp add: less_mult_imp_div_less)
  then show ?thesis by simp
qed

lemma mem_tag_serves: "t4t_reads mem_tag id" "t4t_updates mem_tag id"
  by (simp_all add: t4t_reads_def t4t_updates_def read_binary_def update_binary_def be_bytes_2 unat_of_nat Let_def offset_bytes)

definition hl_demo :: hl_state where
  "hl_demo = (hl_zero 64 255 (\<lambda>_. cc_example_desc))
     \<lparr>hl_cb := Some \<lparr>hl_cb_selected = True, hl_cb_cc_read = True, hl_cb_ndef_read = True, hl_cb_ndef_updated = True\<rparr>,
      ndef := \<lparr>ndef_cc = None, ndef_buff = None, ndef_buff_size = 0, ndef_nlen = 0, ndef_file_id = [0xE1, 0x04]\<rparr>\<rparr>"

lemma iso_selected_ready: "iso_ready iso_demo_env 0 256 (iso_selected, [])"
  using iso_selected_inv
  by (simp add: iso_ready_def) (simp add: iso_selected_def iso_demo_def isodep_zero_def iso_demo_cb_def)

lemma cc_example_wf: "cc_wf cc_example_desc" "cc_blocks cc_example_desc = [cc_example_block]"
  by (simp_all add: cc_wf_def cc_blocks_def cc_example_desc_def)

section \<open>Theorems\<close>

text \<open>
  C3. Reading an NDEF file through the whole reader stack. Against a tag that serves READ BINARY, the
  read procedure ends after at most one round per byte with the \<^verbatim>\<open>ndef_read\<close> callback; the caller's
  buffer then holds exactly the length field and the message and is untouched behind them, the file
  is bound in the Capability Container, and the transport is ready for the next procedure.
\<close>

theorem hl_ndef_read_complete:
  assumes "byteorder bo" "t4t_reads respond sel" "sel g = F" "iso_ready env now cap t"
    and "ndef_read_setup F buf len nlen p fid cap h"
  shows "\<exists>h1 t1 N g' h' t'.
    nfc_t4t_hl_procedure_ndef_read bo (isodep_xmit env resched now) (Some p) (Some buf) len h t = Ok (h1, t1, [], None) \<and>
    N \<le> nlen + 1 \<and>
    (\<forall>n\<ge>N. hl_loop bo (isodep_xmit env resched now) (iso_sent env) (iso_deliver env m) respond n g h1 t1 =
      Ok (g', h', t', [Hl_ndef_read fid (Some (take (nlen + 2) F @ drop (nlen + 2) buf)) (nlen + 2)], None)) \<and>
    sel g' = F \<and> iso_ready env now cap t' \<and>
    nfc_t4t_cc_file_content_set (cc_mem h p)
      \<lparr>content = Some (take (nlen + 2) F @ drop (nlen + 2) buf), file_len = of_nat (nlen + 2)\<rparr> fid = Ok (cc_mem h' p)"
  by (rule iso.ndef_read_run [OF assms])

theorem hl_ndef_read_complete_witness:
  "ndef_read_setup [0, 3, 7, 8, 9, 1] (replicate 8 0) 8 3 0 0xE104 256 hl_demo \<and> t4t_reads mem_tag id \<and>
   (\<exists>h1 t1 n g' h' t'.
    nfc_t4t_hl_procedure_ndef_read byteorder_ref (isodep_xmit iso_demo_env 0 0) (Some 0) (Some (replicate 8 0)) 8 hl_demo
      (iso_selected, []) = Ok (h1, t1, [], None) \<and>
    hl_loop byteorder_ref (isodep_xmit iso_demo_env 0 0) (iso_sent iso_demo_env) (iso_deliver iso_demo_env 1) mem_tag n
      [0, 3, 7, 8, 9, 1] h1 t1 = Ok (g', h', t', [Hl_ndef_read 0xE104 (Some [0, 3, 7, 8, 9, 0, 0, 0]) 5], None))"
proof -
  have s: "ndef_read_setup [0, 3, 7, 8, 9, 1] (replicate 8 0) 8 3 0 0xE104 256 hl_demo"
    using cc_example_wf
    by (simp add: ndef_read_setup_def hl_demo_def hl_zero_def be_bytes_2)
      (simp add: cc_example_block_def cc_example_desc_def)
  have r: "take (3 + 2) [0, 3, 7, 8, 9, 1 :: u8] @ drop (3 + 2) (replicate 8 0) = [0, 3, 7, 8, 9, 0, 0, 0]"
    by (simp add: numeral_eq_Suc)
  have "id [0, 3, 7, 8, 9, 1 :: u8] = [0, 3, 7, 8, 9, 1]" by simp
  from hl_ndef_read_complete [OF ref.byteorder_axioms mem_tag_serves(1) this iso_selected_ready s, of 0 1, unfolded r] s mem_tag_serves(1)
  show ?thesis by fastforce
qed

text \<open>
  C2. Updating an NDEF file is complete and leaves no torn message. Against a tag that serves UPDATE
  BINARY, the update procedure ends with the \<^verbatim>\<open>ndef_updated\<close> callback after at most one round per byte
  and one more, and the file then starts with exactly the new content, its other bytes unchanged.
  However early the exchange is cut off, the tag has either the old file or a file whose length
  field is zero. The largest piece that the tag allows has to fit the command buffer together with the
  command header; what happens otherwise is the property \<^verbatim>\<open>hl_update_piece_too_long\<close>.
\<close>

theorem hl_ndef_update_complete:
  assumes "byteorder bo" "t4t_updates respond sel" "2 \<le> cap" "length D \<le> length (sel g)" "iso_ready env now cap t"
    and "ndef_update_setup D data len p fid h"
  shows "\<exists>h1 t1 N.
    nfc_t4t_hl_procedure_ndef_update bo (isodep_xmit env resched now) (Some p) (Some data) len h t = Ok (h1, t1, [], None) \<and>
    N \<le> length D + 1 \<and>
    (\<forall>n\<ge>N. \<exists>g' h' t'. hl_loop bo (isodep_xmit env resched now) (iso_sent env) (iso_deliver env m) respond n g h1 t1 =
        Ok (g', h', t', [Hl_ndef_updated fid], None) \<and> sel g' = D @ drop (length D) (sel g) \<and> iso_ready env now cap t') \<and>
    (\<forall>n<N. \<exists>g' h' t'. hl_loop bo (isodep_xmit env resched now) (iso_sent env) (iso_deliver env m) respond n g h1 t1 =
        Ok (g', h', t', [], None) \<and> (g' = g \<or> take 2 (sel g') = [0, 0]))"
proof -
  obtain h1 t1 N where
    s: "nfc_t4t_hl_procedure_ndef_update bo (isodep_xmit env resched now) (Some p) (Some data) len h t = Ok (h1, t1, [], None)"
    "N \<le> length D" and
    u: "\<And>n. update_after (iso_ready env now cap) sel (D @ drop (length D) (sel g)) fid (N \<le> n)
      (hl_loop bo (isodep_xmit env resched now) (iso_sent env) (iso_deliver env m) respond (Suc n) g h1 t1)"
    using iso.ndef_update_run [OF assms, of resched m] by blast
  let ?loop = "\<lambda>n. hl_loop bo (isodep_xmit env resched now) (iso_sent env) (iso_deliver env m) respond n g h1 t1"
  have "\<exists>g' h' t'. ?loop n = Ok (g', h', t', [Hl_ndef_updated fid], None) \<and> sel g' = D @ drop (length D) (sel g) \<and>
      iso_ready env now cap t'" if "n \<ge> Suc N" for n
    using u [of "n - 1"] that by (cases n) (simp_all add: update_after_def del: hl_loop.simps)
  moreover have "\<exists>g' h' t'. ?loop n = Ok (g', h', t', [], None) \<and> (g' = g \<or> take 2 (sel g') = [0, 0])" if "n < Suc N" for n
  proof (cases n)
    case (Suc k)
    then show ?thesis using u [of k] that by (simp add: update_after_def del: hl_loop.simps) metis
  qed simp
  ultimately show ?thesis using s by (intro exI [of _ h1] exI [of _ t1] exI [of _ "Suc N"]) simp
qed

lemma cc_example_get: "nfc_t4t_cc_file_content_get cc_example_desc 0xE104 = Ok (Some 0)"
  unfolding cc_content_get_eq [OF cc_example_wf(1)] cc_example_wf(2) by (simp add: cc_example_block_def)

theorem hl_ndef_update_complete_witness:
  "ndef_update_setup [0, 2, 5, 6] [0, 2, 5, 6] 4 0 0xE104 hl_demo \<and> t4t_updates mem_tag id \<and>
   (\<exists>h1 t1 n g' h' t'.
    nfc_t4t_hl_procedure_ndef_update byteorder_ref (isodep_xmit iso_demo_env 0 0) (Some 0) (Some [0, 2, 5, 6]) 4 hl_demo
      (iso_selected, []) = Ok (h1, t1, [], None) \<and>
    hl_loop byteorder_ref (isodep_xmit iso_demo_env 0 0) (iso_sent iso_demo_env) (iso_deliver iso_demo_env 1) mem_tag n
      [0, 3, 7, 8, 9, 1] h1 t1 = Ok (g', h', t', [Hl_ndef_updated 0xE104], None) \<and> g' = [0, 2, 5, 6, 9, 1])"
proof -
  have s: "ndef_update_setup [0, 2, 5, 6] [0, 2, 5, 6] 4 0 0xE104 hl_demo"
    using cc_example_get
    by (simp add: ndef_update_setup_def ndef_update_args_def hl_demo_def hl_zero_def be_bytes_2)
      (simp add: cc_example_block_def cc_example_desc_def)
  have l: "length [0, 2, 5, 6 :: u8] \<le> length (id [0, 3, 7, 8, 9, 1 :: u8])" by simp
  have c: "2 \<le> (256 :: nat)" by simp
  obtain h1 t1 N where x:
    "nfc_t4t_hl_procedure_ndef_update byteorder_ref (isodep_xmit iso_demo_env 0 0) (Some 0) (Some [0, 2, 5, 6]) 4 hl_demo
      (iso_selected, []) = Ok (h1, t1, [], None)"
    "\<exists>g' h' t'. hl_loop byteorder_ref (isodep_xmit iso_demo_env 0 0) (iso_sent iso_demo_env) (iso_deliver iso_demo_env 1) mem_tag N
      [0, 3, 7, 8, 9, 1] h1 t1 = Ok (g', h', t', [Hl_ndef_updated 0xE104], None) \<and>
      id g' = [0, 2, 5, 6] @ drop (length [0, 2, 5, 6 :: u8]) (id [0, 3, 7, 8, 9, 1]) \<and> iso_ready iso_demo_env 0 256 t'"
    using hl_ndef_update_complete [OF ref.byteorder_axioms mem_tag_serves(2) c l iso_selected_ready s, of 0 1] by blast
  have "id g' = [0, 2, 5, 6] @ drop (length [0, 2, 5, 6 :: u8]) (id [0, 3, 7, 8, 9, 1]) \<longleftrightarrow> g' = [0, 2, 5, 6, 9, 1 :: u8]" for g' by simp
  then show ?thesis using x s mem_tag_serves(2) by blast
qed

text \<open>
  C16. Reading the Capability Container through the whole stack. Against a tag that serves READ BINARY
  the procedure ends after at most one round per byte with what the parser makes of exactly the
  file: the \<^verbatim>\<open>cc_read\<close> callback with a container whose image is the file, or the parser's error.
\<close>

theorem hl_cc_read_complete:
  assumes bo: "byteorder bo" and tag: "t4t_reads respond sel" and g: "sel g = F" and t: "iso_ready env now cap t" and c: "17 \<le> cap"
    and s: "cc_read_setup F n p h"
  shows "\<exists>h1 t1 N g' h' t' res.
    nfc_t4t_hl_procedure_cc_read bo (isodep_xmit env resched now) (Some p) h t = Ok (h1, t1, [], None) \<and> N \<le> n \<and>
    nfc_t4t_cc_file_parse bo (cc_mem h p) (take n F @ replicate (length (hlcc_data (cc_file h)) - n) 0) (of_nat n) = (cc_mem h' p, res) \<and>
    (\<forall>k\<ge>N. hl_loop bo (isodep_xmit env resched now) (iso_sent env) (iso_deliver env m) respond k g h1 t1 =
      (case res of Err e \<Rightarrow> Ok (g', h', t', [], Some e) | _ \<Rightarrow> Ok (g', h', t', [Hl_cc_read p], None))) \<and>
    (res = Ok () \<longrightarrow> cc_bytes (cc_mem h' p) = take n F) \<and> iso_ready env now cap t'"
proof -
  let ?raw = "take n F @ replicate (length (hlcc_data (cc_file h)) - n) 0"
  obtain cc' res where pr: "nfc_t4t_cc_file_parse bo (cc_mem h p) ?raw (of_nat n) = (cc', res)" by fastforce
  have n: "cc_wf (cc_mem h p)" "n \<le> length F" "n \<le> length (hlcc_data (cc_file h))" "n < 2 ^ 16" using s by (simp_all add: cc_read_setup_def)
  have u: "unat (of_nat n :: u16) = n" by (rule unat_of_nat_fits(2) [OF n(4)])
  then have "unat (of_nat n :: u16) \<le> length ?raw" using n by simp
  note ps = cc_file_parse_cases [OF bo n(1) this pr, unfolded u]
  have im: "res = Ok () \<longrightarrow> cc_bytes cc' = take n F" using ps n(2) by auto
  obtain h1 t1 N g' h' t' where
    x: "nfc_t4t_hl_procedure_cc_read bo (isodep_xmit env resched now) (Some p) h t = Ok (h1, t1, [], None)" "N \<le> n"
    "\<And>k. k \<ge> N \<Longrightarrow> hl_loop bo (isodep_xmit env resched now) (iso_sent env) (iso_deliver env m) respond k g h1 t1 =
      Ok (g', h', t', cc_events p res, cc_error res)" "iso_ready env now cap t'" "cc_mem h' p = cc'"
    using iso.cc_read_run [OF bo tag g t c s pr, of resched m] by blast
  have "(case res of Err e \<Rightarrow> Ok (g', h', t', [], Some e) | _ \<Rightarrow> Ok (g', h', t', [Hl_cc_read p], None)) =
      Ok (g', h', t', cc_events p res, cc_error res)" using ps by (cases res) (auto simp: cc_events_def cc_error_def)
  with x im pr show ?thesis
    by (intro exI [of _ h1] exI [of _ t1] exI [of _ N] exI [of _ g'] exI [of _ h'] exI [of _ t'] exI [of _ res]) simp
qed

lemma cc_example_image: "cc_example = cc_header_bytes cc_example_desc @ tlvs_bytes [cc_example_block]"
  by (simp add: cc_example_def cc_header_bytes_def cc_example_desc_def be_bytes_2 tlv_bytes_def tlv_max_size_bytes_def
      cc_example_block_def)

lemma cc_example_again: "\<exists>cc'. nfc_t4t_cc_file_parse byteorder_ref cc_example_desc (cc_example @ rest) 15 = (cc', Ok ())"
proof -
  have "nibble_ok cc_example_desc" "tlv_list_ok [cc_example_block]" "[cc_example_block] \<noteq> []"
    "length [cc_example_block] \<le> unat (max_tlv_blocks cc_example_desc)"
    "major_version cc_example_desc = 3 \<and> tlv_type (hd [cc_example_block]) = 6 \<or> major_version cc_example_desc = 2 \<and> tlv_type (hd [cc_example_block]) = 4"
    "unat (15 :: u16) = 7 + length (tlvs_bytes [cc_example_block])" "(15 :: u16) \<le> 0xFFFE"
    by (simp_all add: nibble_ok_def cc_example_desc_def cc_example_block_def tlv_list_ok_def tlv_wf_def tlv_unbound_def
        file_id_invalid_def tlv_bytes_def tlv_max_size_bytes_def)
  from cc_file_parse_bytes [OF ref.byteorder_axioms cc_example_wf(1) this, of rest] show ?thesis
    unfolding cc_example_image by auto
qed

theorem hl_cc_read_complete_witness:
  "cc_read_setup cc_example 15 0 hl_demo \<and> t4t_reads mem_tag id \<and>
   (\<exists>h1 t1 n g' h' t'.
    nfc_t4t_hl_procedure_cc_read byteorder_ref (isodep_xmit iso_demo_env 0 0) (Some 0) hl_demo (iso_selected, []) = Ok (h1, t1, [], None) \<and>
    hl_loop byteorder_ref (isodep_xmit iso_demo_env 0 0) (iso_sent iso_demo_env) (iso_deliver iso_demo_env 1) mem_tag n cc_example h1 t1 =
      Ok (g', h', t', [Hl_cc_read 0], None) \<and> cc_bytes (cc_mem h' 0) = cc_example)"
proof -
  have s: "cc_read_setup cc_example 15 0 hl_demo"
    using cc_example_wf by (simp add: cc_read_setup_def hl_demo_def hl_zero_def cc_example_def be_bytes_2)
  have e: "id cc_example = cc_example" "17 \<le> (256 :: nat)" "take 15 cc_example = cc_example" "cc_mem hl_demo 0 = cc_example_desc"
    by (simp_all add: cc_example_def hl_demo_def hl_zero_def)
  obtain h1 t1 N g' h' t' res where
    x: "nfc_t4t_hl_procedure_cc_read byteorder_ref (isodep_xmit iso_demo_env 0 0) (Some 0) hl_demo (iso_selected, []) = Ok (h1, t1, [], None)"
    "nfc_t4t_cc_file_parse byteorder_ref cc_example_desc (cc_example @ replicate (length (hlcc_data (cc_file hl_demo)) - 15) 0) (of_nat 15) = (cc_mem h' 0, res)"
    "hl_loop byteorder_ref (isodep_xmit iso_demo_env 0 0) (iso_sent iso_demo_env) (iso_deliver iso_demo_env 1) mem_tag N cc_example h1 t1 =
      (case res of Err e \<Rightarrow> Ok (g', h', t', [], Some e) | _ \<Rightarrow> Ok (g', h', t', [Hl_cc_read 0], None))"
    "res = Ok () \<longrightarrow> cc_bytes (cc_mem h' 0) = cc_example"
    using hl_cc_read_complete [OF ref.byteorder_axioms mem_tag_serves(1) e(1) iso_selected_ready e(2) s, of 0 1] unfolding e(3,4) by blast
  have "res = Ok ()" using x(2) cc_example_again [of "replicate (length (hlcc_data (cc_file hl_demo)) - 15) 0"] by auto
  with x have "hl_loop byteorder_ref (isodep_xmit iso_demo_env 0 0) (iso_sent iso_demo_env) (iso_deliver iso_demo_env 1) mem_tag N cc_example h1 t1 =
      Ok (g', h', t', [Hl_cc_read 0], None) \<and> cc_bytes (cc_mem h' 0) = cc_example" by simp
  with x(1) s mem_tag_serves(1) show ?thesis by blast
qed

section \<open>Safety of every run\<close>

text \<open>
  The states of the module: after start-up with a callback structure, and after any call or answer.
  Between two steps the ISO-DEP layer may have done anything that keeps its invariant.
\<close>

inductive hl_reach :: "byteorder_ops \<Rightarrow> isodep_env \<Rightarrow> hl_state \<Rightarrow> bool" for bo env where
  hl_reach_init: "apdu_size < 2 ^ 16 \<Longrightarrow> \<forall>p. cc_wf (mem p) \<Longrightarrow>
     hl_reach bo env (fst (nfc_t4t_hl_procedure_cb_register (Some cb) (hl_zero cc_size apdu_size mem)))"
| hl_reach_step: "hl_reach bo env h \<Longrightarrow> iso_inv (fst t) \<Longrightarrow> hl_admissible i \<Longrightarrow>
     hl_step bo (isodep_xmit env resched now) i h t = Ok (h', t', ev, e) \<Longrightarrow> hl_reach bo env h'"

lemma hl_reach_inv:
  assumes bo: "byteorder bo" and "hl_reach bo env h"
  shows "hl_inv h"
  using assms(2)
proof induction
  case (hl_reach_init apdu_size mem cb cc_size)
  then show ?case by (intro hl_zero_inv) simp_all
next
  case (hl_reach_step h t i resched now h' t' ev e)
  then show ?case using iso_safe.hl_step_safe [OF bo, of h t i env resched now] by simp
qed

text \<open>
  C7. The high level procedures are memory safe over ISO-DEP. Whatever the tag answered before and
  whatever the application called, with buffers of the stated lengths, the next call or answer
  returns without leaving a buffer, and both layers keep their invariants.
\<close>

theorem hl_run_safe:
  assumes "byteorder bo" "hl_reach bo env h" "iso_inv (fst t)" "hl_admissible i"
  shows "\<exists>h' t' ev e. hl_step bo (isodep_xmit env resched now) i h t = Ok (h', t', ev, e) \<and> hl_inv h' \<and> iso_inv (fst t')"
  using iso_safe.hl_step_safe [OF assms(1) hl_reach_inv [OF assms(1,2)] assms(3,4)] by (simp add: hl_safe_def)

definition hl_demo_cb :: nfc_t4t_hl_procedure_cb where
  "hl_demo_cb = \<lparr>hl_cb_selected = True, hl_cb_cc_read = True, hl_cb_ndef_read = True, hl_cb_ndef_updated = True\<rparr>"

theorem hl_run_safe_witness:
  "\<exists>h' t' ev e. hl_step byteorder_ref (isodep_xmit iso_demo_env 0 0) (Response (Some [1, 2, 3]) 3)
      (fst (nfc_t4t_hl_procedure_cb_register (Some hl_demo_cb) (hl_zero 64 255 (\<lambda>_. cc_example_desc)))) (iso_selected, []) = Ok (h', t', ev, e) \<and>
    hl_inv h' \<and> iso_inv (fst t')"
proof -
  have "hl_reach byteorder_ref iso_demo_env (fst (nfc_t4t_hl_procedure_cb_register (Some hl_demo_cb) (hl_zero 64 255 (\<lambda>_. cc_example_desc))))"
    using cc_example_wf(1) by (intro hl_reach_init) simp_all
  from hl_run_safe [OF ref.byteorder_axioms this, of "(iso_selected, [])" "Response (Some [1, 2, 3]) 3" 0 0] iso_selected_inv
  show ?thesis by (simp add: readable_def del: hl_step.simps)
qed

text \<open>
  C35. An update in long pieces destroys the file. When the tag accepts commands of 251 bytes or more
  and the content is long enough, the piece and its header exceed the command buffer, which has
  at most 255 bytes: the procedure stops with \<^verbatim>\<open>-ENOMEM\<close> after it has cleared the length field, so the
  tag is left with an empty file.
\<close>

theorem hl_update_piece_too_long:
  assumes "byteorder bo" "t4t_updates respond sel" "2 \<le> cap" "length D \<le> length (sel g)" "iso_ready env now cap t"
    and "ndef_update_args D data len p fid h"
    and "length (hl_apdu_buff h) \<le> 255" "251 \<le> max_capdu_size (cc_mem h p)" "253 \<le> length D"
  shows "\<exists>h1 t1. nfc_t4t_hl_procedure_ndef_update bo (isodep_xmit env resched now) (Some p) (Some data) len h t = Ok (h1, t1, [], None) \<and>
    (\<forall>n. \<exists>g' h' t'. hl_loop bo (isodep_xmit env resched now) (iso_sent env) (iso_deliver env m) respond (Suc n) g h1 t1 =
      Ok (g', h', t', [], Some ENOMEM) \<and> sel g' = [0, 0] @ drop 2 (sel g))"
  by (rule iso.update_too_long [OF assms])

definition hl_demo_long :: hl_state where
  "hl_demo_long = hl_demo\<lparr>cc_mem := (\<lambda>_. cc_example_desc\<lparr>max_capdu_size := 255\<rparr>)\<rparr>"

theorem hl_update_piece_too_long_witness:
  "ndef_update_args (0 # 253 # replicate 253 7) (0 # 253 # replicate 253 7) 255 0 0xE104 hl_demo_long \<and>
   (\<exists>h1 t1 g' h' t'.
    nfc_t4t_hl_procedure_ndef_update byteorder_ref (isodep_xmit iso_demo_env 0 0) (Some 0) (Some (0 # 253 # replicate 253 7)) 255 hl_demo_long
      (iso_selected, []) = Ok (h1, t1, [], None) \<and>
    hl_loop byteorder_ref (isodep_xmit iso_demo_env 0 0) (iso_sent iso_demo_env) (iso_deliver iso_demo_env 1) mem_tag 1
      (0 # 9 # replicate 253 1) h1 t1 = Ok (g', h', t', [], Some ENOMEM) \<and> g' = 0 # 0 # replicate 253 1)"
proof -
  let ?D = "0 # 253 # replicate 253 (7 :: u8)" and ?F = "0 # 9 # replicate 253 (1 :: u8)"
  have cc: "nfc_t4t_cc_file_content_get (cc_example_desc\<lparr>max_capdu_size := 255\<rparr>) 0xE104 = Ok (Some 0)"
    using cc_example_get by (simp add: nfc_t4t_cc_file_content_get_def cc_example_desc_def)
  have s: "ndef_update_args ?D ?D 255 0 0xE104 hl_demo_long"
    using cc by (simp add: ndef_update_args_def hl_demo_long_def hl_demo_def hl_zero_def be_bytes_2)
      (simp add: cc_example_desc_def cc_example_block_def)
  have h: "length (hl_apdu_buff hl_demo_long) \<le> 255" "251 \<le> max_capdu_size (cc_mem hl_demo_long 0)" "253 \<le> length ?D"
    "length ?D \<le> length (id ?F)" "2 \<le> (256 :: nat)"
    by (simp_all add: hl_demo_long_def hl_demo_def hl_zero_def)
  obtain h1 t1 where x: "nfc_t4t_hl_procedure_ndef_update byteorder_ref (isodep_xmit iso_demo_env 0 0) (Some 0) (Some ?D) 255 hl_demo_long
      (iso_selected, []) = Ok (h1, t1, [], None)"
    "\<exists>g' h' t'. hl_loop byteorder_ref (isodep_xmit iso_demo_env 0 0) (iso_sent iso_demo_env) (iso_deliver iso_demo_env 1) mem_tag (Suc 0) ?F h1 t1 =
      Ok (g', h', t', [], Some ENOMEM) \<and> id g' = [0, 0] @ drop 2 (id ?F)"
    using hl_update_piece_too_long [OF ref.byteorder_axioms mem_tag_serves(2) h(5,4) iso_selected_ready s h(1-3), of 0 1] by blast
  have "id g' = [0, 0] @ drop 2 (id ?F) \<longleftrightarrow> g' = 0 # 0 # replicate 253 1" for g' by simp
  then show ?thesis using x s unfolding One_nat_def by blast
qed

end
