(* ===== verification/Spec2Isabelle.thy ===== *)
theory Spec2Isabelle
  imports NDEF_Parser NDEF_Payloads NDEF_Handover TNEP_Exchange T2T_Parser T4T_ISODEP_Errors T4T_Stack
begin

text \<open>
  \<^bold>\<open>The NFC subsystem of the nRF Connect SDK.\<close>

  The development covers the NFC subsystem, \<^verbatim>\<open>src/subsys/nfc\<close> and \<^verbatim>\<open>src/include/nfc\<close>: the encoders
  and parsers of the NFC Data Exchange Format (NDEF), of Type 2 Tags and of Type 4 Tags, the
  protocol stack with which a reader talks to a Type 4 Tag, and both sides of the Tag NDEF Exchange Protocol
  (TNEP). All of it handles bytes received from, or sent to, a device that cannot be trusted, so the questions
  are the same everywhere: does an encoder write exactly the layout the format demands, inside the
  buffer it was given; does a parser read only inside its input, terminate, and accept exactly
  the images of what it then describes; does a protocol deliver what was to be transferred, and what
  does it do when the other side answers late, wrongly or not at all.

  \<^bold>\<open>Modelling conventions\<close> (\<^verbatim>\<open>NFC_Prelude\<close>). Machine integers are words of their C width, so sums
  wrap where they wrap in C. A C pointer is the list of the bytes from the pointer to the end
  of its object, or \<^term>\<open>None\<close> for \<^verbatim>\<open>NULL\<close>; advancing a pointer is \<^const>\<open>drop\<close>. A function that may fail
  returns an \<open>Ok\<close> value, an \<open>Err\<close> code, or \<open>Fault\<close>, the value of an access outside an object or
  through \<^verbatim>\<open>NULL\<close>; theorems of memory safety state that \<open>Fault\<close> is not the result. The byte order
  accessors belong to Zephyr, which is not part of the sources: they are the record
  \<open>byteorder_ops\<close>, and the locale \<open>byteorder\<close> states what they are documented to do.
  Structures are records with the fields of the C structures, enumerations are datatypes or
  byte constants, and a function that writes through its arguments returns the new values. Where
  the state has changed although an error is returned, the function returns both. \<^verbatim>\<open>size_t\<close> has 32
  bits. The callbacks of the protocol modules are events that the functions emit; kernel time and
  work items are inputs. A run is a list of inputs (calls, received frames, timeouts), and the
  theorems about runs hold for every admissible list, that is, one whose buffers are as long as they
  are declared to be. A buffer that the caller keeps while a procedure runs is a field of the module's
  state with the content it had at the call, so a caller that changes it meanwhile is not covered.

  \<^bold>\<open>Components.\<close>
    \<^item> \<^verbatim>\<open>NDEF_Record\<close>: \<^verbatim>\<open>ndef/record.h\<close>, \<^verbatim>\<open>ndef/record.c\<close>. Record descriptors, the record encoder with its
      size query, the binary payload constructor. The contract of payload constructors comes in three
      locales, each an extension of the one before: \<open>payload_layout\<close> (a payload that fits is written),
      \<open>payload_writer\<close> (and the size query is answered), \<open>payload_encoder\<close> (and a small buffer is refused
      with one error code). The constructors of \<^verbatim>\<open>NDEF_Payloads\<close> are interpretations of the last.
    \<^item> \<^verbatim>\<open>NDEF_Msg\<close>: \<^verbatim>\<open>ndef/msg.h\<close>, \<^verbatim>\<open>ndef/msg.c\<close>. Message descriptors, adding records, the message encoder.
    \<^item> \<^verbatim>\<open>NDEF_Parser\<close>: \<^verbatim>\<open>ndef/record_parser.c\<close>, \<^verbatim>\<open>ndef/msg_parser_local.c\<close>, \<^verbatim>\<open>ndef/msg_parser.c\<close>. The sizes of the
      descriptors that share the result buffer depend on the compiler and are the record
      \<open>ndef_abi\<close>.
    \<^item> \<^verbatim>\<open>NDEF_Payloads\<close>: \<^verbatim>\<open>ndef/text_rec.c\<close>, \<^verbatim>\<open>ndef/uri_rec.c\<close>, \<^verbatim>\<open>ndef/uri_msg.c\<close>, \<^verbatim>\<open>ndef/tnep_rec.c\<close>,
      \<^verbatim>\<open>ndef/launchapp_rec.c\<close>, \<^verbatim>\<open>ndef/launchapp_msg.c\<close> and their headers. Payload constructors and message
      encoders of the well-known record types.
    \<^item> \<^verbatim>\<open>NDEF_LeOob\<close>: \<^verbatim>\<open>ndef/le_oob_rec.c\<close>, \<^verbatim>\<open>ndef/le_oob_rec_parser.c\<close>. The Bluetooth LE out-of-band
      record. The Bluetooth constants, the sizes of the Bluetooth structures (\<open>bt_env\<close>) and the simple
      network buffer (\<open>net_buf_ops\<close>) belong to Zephyr; the locales \<open>bt_layout\<close> and \<open>net_buf_alloc\<close> state
      what the code relies on. Its constructor is a \<open>payload_layout\<close> and no more: it has no size query
      (\<open>constructor_null\<close>).
    \<^item> \<^verbatim>\<open>NDEF_CH\<close>: \<^verbatim>\<open>ndef/ch.c\<close>, \<^verbatim>\<open>ndef/ch_msg.c\<close> and their headers. The records of Connection Handover and
      the functions that create handover messages. The payload descriptor of a handover record contains a
      message, which the functions change through the record; \<open>ch_record\<close> is such a record and
      \<open>ch_record_desc\<close> its descriptor when a message refers to it, so a record that is changed after it has been
      added to a message is not covered. \<^verbatim>\<open>NDEF_CH_Parser\<close>: \<^verbatim>\<open>ndef/ch_rec_parser.c\<close>. The sizes of the structures
      are the record \<open>ch_abi\<close>, the address that the code stores in a carrier type is an argument.
      \<^verbatim>\<open>NDEF_Handover\<close>: created, encoded and parsed messages.
    \<^item> \<^verbatim>\<open>T4T_TLV\<close>, \<^verbatim>\<open>T4T_CC\<close>: \<^verbatim>\<open>t4t/tlv_block.c\<close>, \<^verbatim>\<open>t4t/cc_file.c\<close>. The Capability Container of a Type 4 Tag.
    \<^item> \<^verbatim>\<open>T4T_APDU\<close>: \<^verbatim>\<open>t4t/apdu.c\<close>, \<^verbatim>\<open>t4t/ndef_file.c\<close>. Commands, responses and the NDEF file.
    \<^item> \<^verbatim>\<open>T2T_Parser\<close>: \<^verbatim>\<open>t2t/parser.c\<close>. The parser of Type 2 Tag images.
    \<^item> \<^verbatim>\<open>T4T_ISODEP\<close>: \<^verbatim>\<open>t4t/isodep.c\<close>. The ISO-DEP protocol of the reader: activation, blocks with
      chaining, waiting time extension, error recovery, deselection. \<^verbatim>\<open>T4T_ISODEP_Safe\<close> has the
      invariant of its state and that every input keeps it; \<^verbatim>\<open>T4T_ISODEP_Exchange\<close> an exchange with a
      tag that follows the protocol; \<^verbatim>\<open>T4T_ISODEP_Errors\<close> the answer to select, retransmission,
      timeouts, and what malformed frames do.
    \<^item> \<^verbatim>\<open>T4T_HL\<close>: \<^verbatim>\<open>t4t/hl_procedure.c\<close>. The procedures that select, read and update the NDEF file, over a
      transport that is a parameter. \<^verbatim>\<open>T4T_HL_Safe\<close> has the invariant, for every transport of the
      locale \<open>hl_link\<close>; \<^verbatim>\<open>T4T_HL_Procedures\<close> and \<^verbatim>\<open>T4T_HL_CC\<close> run whole procedures against a tag,
      for every transport of the locale \<open>hl_transport\<close>.
    \<^item> \<^verbatim>\<open>T4T_Stack\<close>: the two locales interpreted with the ISO-DEP model as the transport, and the
      properties of the stack.
    \<^item> \<^verbatim>\<open>TNEP_Base\<close>, \<^verbatim>\<open>TNEP_Tag\<close>: \<^verbatim>\<open>tnep/base.h\<close>, \<^verbatim>\<open>tnep/tag.c\<close>. The tag side of TNEP: a state machine over
      received messages that selects one of the services of the application and puts its answers into one of
      two buffers, of which the NFC library shows the other. The buffers are addresses, since the module and
      the NFC library share them. The services, the configuration and the callback for the initial message
      are the record \<open>tnep_env\<close>; the locale \<open>tnep_app\<close> states the contract of the application.
      \<^verbatim>\<open>TNEP_Tag_Safe\<close> has the invariant and the histories of calls; \<^verbatim>\<open>TNEP_Tag_Sample\<close> the application of
      \<^verbatim>\<open>samples/nfc/tnep_tag\<close>, with which the locale is interpreted, and the safety of all runs.
    \<^item> \<^verbatim>\<open>TNEP_Poller\<close>: \<^verbatim>\<open>tnep/poller.c\<close>. The poller side: searching services, selecting, writing, and reading
      after the waiting time. The NDEF interface, the work item and the rounding macro of the kernel are
      fields of \<open>poller_env\<close>. \<^verbatim>\<open>TNEP_Exchange\<close>: both sides together over the file of a Type 4 Tag.

  \<^bold>\<open>What is shown.\<close> The encoders are compared with a specification of the layout as a list
  of bytes (\<open>record_bytes\<close>, \<open>msg_bytes\<close>, \<open>launchapp_bytes\<close>, \<open>apdu_bytes\<close>, \<dots>), which is written without the functions
  of the code; in particular the flags of the first and the last record are stated as bits (\<open>record_place\<close>): a size query returns the length of the
  layout, a buffer of sufficient size receives the layout and nothing behind it changes, and
  a smaller one is refused. The parsers are memory safe on every input and total; what they accept
  is an image of the descriptor they fill in (soundness), and every image that fits is accepted
  (completeness). The protocol modules keep an invariant under every sequence of inputs, in which they
  never access memory outside their buffers. An ISO-DEP exchange delivers the whole command to the
  tag and the whole response to the caller; a silent tag is given up after a bounded number of
  timeouts. A Connection Handover message that is created, encoded and parsed gives back the
  version, the alternative carriers with their references and the carrier records. The TNEP tag is safe for every
  sequence of calls and never writes into the buffer that is shown; the poller finds exactly the services that the
  tag announces, and receives the answer and the status of the service that it selects. A read procedure returns the content of the NDEF file, an update leaves the tag with the
  new content, whatever sizes of pieces the tag allows. The tag is described by what it answers to
  READ BINARY and UPDATE BINARY with offsets below \<open>2 ^ 15\<close>, the range that the commands can express.
  Where the code does not meet its intent, a theorem states what it does instead: a tag that announces
  frames longer than the transmit buffer, a record length that wraps, an AD structure of length zero, a
  carrier type that is an address, an empty TNEP message that is announced as a long one.
  The properties of this theory join the components: what the message encoder
  writes, the message parser reads back.

  \<^bold>\<open>Loops.\<close> Every loop is a total function: the encoder loop is bounded by the record
  count, the message parser by the capacity of the result, the Capability Container parser by the
  remaining length. The Type 2 Tag loop follows offsets found in the data and is a partial function;
  that it returns is part of its theorem, and so is the loop over AD structures, whose index can wrap
  near the 32 bit limit. The dialogue of a procedure with a tag (\<open>hl_loop\<close>) runs for a given number
  of rounds; the theorems name a number of rounds after which the procedure has completed.

  \<^bold>\<open>Not modelled.\<close> Functions that only write log output (\<^verbatim>\<open>nfc_ndef_msg_printout\<close>,
  \<^verbatim>\<open>nfc_t2t_printout\<close>, \<^verbatim>\<open>nfc_t4t_cc_file_printout\<close>, \<^verbatim>\<open>nfc_ndef_ac_rec_printout\<close> and the like). Alignment of structures inside
  result buffers. The Connection Handover services on top of TNEP (\<^verbatim>\<open>tnep/ch\<close>). Interrupts between the steps of
  the TNEP modules. The NFC platform layer and the RPC
  layer, which only pass calls on to prebuilt libraries. The rest of the SDK, which is listed in the
  manifest.
\<close>

section \<open>Encoding and parsing a message\<close>

text \<open>
  C1. What the message encoder writes, the message parser reads back: every record is found
  again, in order, with its type, identifier and payload bytes, the parser consumes exactly the
  encoded bytes, and the result fits the result buffer.
\<close>

theorem msg_encode_parse_roundtrip:
  assumes bo: "byteorder bo" and abi: "abi_packed abi" and m: "msg_writes bo m rs" and rs: "rs \<noteq> []"
    and fit: "length (msg_bytes (length rs) 0 rs) \<le> unat len" "unat len \<le> length b"
    and room: "unat (sizeof_msg_desc abi) + length rs *
       (unat (sizeof_rec_ptr abi) + unat (sizeof_bin_pay abi) + unat (sizeof_rec_desc abi)) \<le> unat rlen"
  shows "\<exists>b' n m' used arr extra.
    nfc_ndef_msg_encode bo u (Some m) (Some b) (Some len) = Ok (Some b', n) \<and>
    nfc_ndef_msg_parse bo abi jb jr rlen b' len = Ok (m', used, n) \<and> used \<le> rlen \<and>
    record_count m' = record_count m \<and> record_array m' = Some (map Some arr @ extra) \<and>
    list_all2 (\<lambda>(r, pay) r'. same_record r pay r') rs arr"
  by (rule msg_transfer [OF assms, of u jb jr]) blast

theorem msg_encode_parse_roundtrip_witness:
  "\<exists>b' n m' used arr extra.
    nfc_ndef_msg_encode byteorder_ref (\<lambda>_. 0) (Some (plain_msg [1] [2, 3])) (Some (replicate 20 0)) (Some 20) =
      Ok (Some b', n) \<and>
    nfc_ndef_msg_parse byteorder_ref abi_32 \<lparr>payload = None, payload_length = 0\<rparr> (plain_record []) 100 b' 20 =
      Ok (m', used, n) \<and> used \<le> 100 \<and> record_count m' = 2 \<and> record_array m' = Some (map Some arr @ extra) \<and>
    list_all2 (\<lambda>(r, pay) r'. same_record r pay r') [(plain_record [1], [1]), (plain_record [2, 3], [2, 3])] arr"
proof -
  have h: "msg_holds byteorder_ref (plain_msg [1] [2, 3]) [(plain_record [1], [1]), (plain_record [2, 3], [2, 3])]"
    by (rule plain_msg_holds [OF ref.byteorder_axioms]) simp_all
  have l: "length [(plain_record [1], [1 :: u8]), (plain_record [2, 3], [2, 3])] = 2" by simp
  have c: "record_count (plain_msg [1] [2, 3]) = 2" by (simp add: plain_msg_def)
  show ?thesis
    using msg_encode_parse_roundtrip [OF ref.byteorder_axioms abi_32_packed msg_holds_writes [OF h], of 20 "replicate 20 0" 100 "\<lambda>_. 0"
        "\<lparr>payload = None, payload_length = 0\<rparr>" "plain_record []"]
    unfolding l plain_msg_bytes c by (simp add: abi_32_def)
qed

end
